(* ===== verification/Vfs_Prelude.thy ===== *)
theory Vfs_Prelude
  imports Main "HOL-Library.Word" "HOL-Library.List_Lexorder" "HOL-Library.Char_ord"
begin

text \<open>
  Shared vocabulary of the development: Rust results (a \<open>zx::Status\<close> error or a panic), strings as
  byte lists with the operations of \<open>str\<close> the code uses (\<open>find\<close>, \<open>split\<close>, slicing), and generic
  lemmas on lists that several components need.
\<close>

section \<open>Results\<close>

text \<open>
  The statuses of \<open>fuchsia_zircon::Status\<close> that the sources name; \<open>OTHER_STATUS\<close> stands for any
  other raw value, which only code outside the repository can produce.
\<close>

datatype status =
    OK | INTERNAL | NOT_SUPPORTED | INVALID_ARGS | BAD_HANDLE | BAD_PATH | OUT_OF_RANGE
  | BUFFER_TOO_SMALL | NOT_FOUND | ALREADY_EXISTS | ACCESS_DENIED | NOT_DIR | NOT_FILE
  | CANCELED | UNAVAILABLE | OTHER_STATUS int

text \<open>
  An operation of the sources ends with a value, with \<open>Err(status)\<close>, or by panicking (a failed
  \<open>assert!\<close>, \<open>unwrap\<close>, \<open>expect\<close>, \<open>unreachable!\<close> or an out-of-range slice).
\<close>

datatype fail = Err status | Panic

type_synonym 'a result = "fail + 'a"

fun bind_res :: "'a result \<Rightarrow> ('a \<Rightarrow> 'b result) \<Rightarrow> 'b result" where
  "bind_res (Inl e) f = Inl e"
| "bind_res (Inr a) f = f a"

lemma bind_res_Inr_iff [simp]: "bind_res r f = Inr b \<longleftrightarrow> (\<exists>a. r = Inr a \<and> f a = Inr b)"
  by (cases r) auto

lemma bind_res_Inl_iff: "bind_res r f = Inl e \<longleftrightarrow> r = Inl e \<or> (\<exists>a. r = Inr a \<and> f a = Inl e)"
  by (cases r) auto

lemma bind_res_assoc: "bind_res (bind_res r f) g = bind_res r (\<lambda>a. bind_res (f a) g)"
  by (cases r) auto

lemma if_Inl_eq_Inr [simp]: "(if b then Inl e else r) = Inr a \<longleftrightarrow> \<not> b \<and> r = Inr a"
  by simp

definition is_ok :: "'a result \<Rightarrow> bool" where
  "is_ok r \<longleftrightarrow> (\<exists>a. r = Inr a)"

lemma is_ok_simps [simp]: "is_ok (Inr a)" "\<not> is_ok (Inl e)"
  by (simp_all add: is_ok_def)

text \<open>
  The collection \<open>no_panic\<close>: introduction rules that walk through the branches of an operation and
  leave the calls whose panics have to be excluded.
\<close>

named_theorems no_panic

lemma not_panic_Err [simp, no_panic]: "Inl (Err e) \<noteq> Inl Panic"
  by simp

lemma not_panic_Inr [simp, no_panic]: "Inr a \<noteq> Inl Panic"
  by simp

lemma not_panic_if [no_panic]:
  "(b \<Longrightarrow> r \<noteq> Inl Panic) \<Longrightarrow> (\<not> b \<Longrightarrow> r' \<noteq> Inl Panic) \<Longrightarrow> (if b then r else r') \<noteq> Inl Panic"
  by simp

lemma not_panic_Let [no_panic]: "(\<And>a. f a \<noteq> Inl Panic) \<Longrightarrow> Let x f \<noteq> Inl Panic"
  by simp

lemma not_panic_bind [no_panic]:
  "r \<noteq> Inl Panic \<Longrightarrow> (\<And>a. r = Inr a \<Longrightarrow> f a \<noteq> Inl Panic) \<Longrightarrow> bind_res r f \<noteq> Inl Panic"
  by (cases r) auto

section \<open>Strings as byte lists\<close>

text \<open>
  A Rust \<open>String\<close> is a list of bytes and \<open>len()\<close> counts bytes; a HOL \<open>char\<close> is a byte. Every slice
  the code takes starts and ends next to the ASCII byte \<open>/\<close>, so no slice splits a UTF-8 sequence.
\<close>

abbreviation slash :: char where
  "slash \<equiv> CHR 0x2F"

text \<open>The slice \<open>s[i..]\<close>, which panics when \<open>i\<close> is past the end.\<close>

definition str_from :: "'a list \<Rightarrow> nat \<Rightarrow> 'a list result" where
  "str_from s i = (if i \<le> length s then Inr (drop i s) else Inl Panic)"

text \<open>The slice \<open>s[i..j]\<close>, which panics unless \<open>i \<le> j \<le> s.len()\<close>.\<close>

definition str_range :: "'a list \<Rightarrow> nat \<Rightarrow> nat \<Rightarrow> 'a list result" where
  "str_range s i j = (if i \<le> j \<and> j \<le> length s then Inr (take (j - i) (drop i s)) else Inl Panic)"

lemma str_from_ok [simp]: "i \<le> length s \<Longrightarrow> str_from s i = Inr (drop i s)"
  by (simp add: str_from_def)

lemma str_range_ok [simp]:
  "i \<le> j \<Longrightarrow> j \<le> length s \<Longrightarrow> str_range s i j = Inr (take (j - i) (drop i s))"
  by (simp add: str_range_def)

text \<open>\<open>s.find(c)\<close>: the index of the first occurrence.\<close>

fun str_find :: "'a \<Rightarrow> 'a list \<Rightarrow> nat option" where
  "str_find c [] = None"
| "str_find c (x # xs) = (if x = c then Some 0 else map_option Suc (str_find c xs))"

lemma str_find_None [simp]: "str_find c s = None \<longleftrightarrow> c \<notin> set s"
  by (induction s) auto

lemma str_find_notin [simp]: "c \<notin> set s \<Longrightarrow> str_find c s = None"
  by simp

lemma str_find_SomeD: "str_find c s = Some i \<Longrightarrow> i < length s \<and> s ! i = c \<and> c \<notin> set (take i s)"
proof (induction s arbitrary: i)
  case Nil
  then show ?case by simp
next
  case (Cons x s)
  then show ?case by (cases "x = c") auto
qed

lemma str_find_split: "str_find c s = Some i \<Longrightarrow> s = take i s @ c # drop (Suc i) s"
  using str_find_SomeD [of c s i] id_take_nth_drop [of i s] by auto

lemma str_find_append [simp]: "c \<notin> set a \<Longrightarrow> str_find c (a @ c # b) = Some (length a)"
  by (induction a) auto

text \<open>\<open>s.split(c)\<close>: the pieces between the separators; never an empty list of pieces.\<close>

fun str_split :: "'a \<Rightarrow> 'a list \<Rightarrow> 'a list list" where
  "str_split c [] = [[]]"
| "str_split c (x # xs) =
     (if x = c then [] # str_split c xs
      else (case str_split c xs of [] \<Rightarrow> [[x]] | p # ps \<Rightarrow> (x # p) # ps))"

lemma str_split_nonempty [simp]: "str_split c s \<noteq> []"
  by (induction s) (auto split: list.splits)

lemma str_split_no_sep: "p \<in> set (str_split c s) \<Longrightarrow> c \<notin> set p"
proof (induction s arbitrary: p)
  case Nil
  then show ?case by simp
next
  case (Cons x s)
  obtain q qs where "str_split c s = q # qs"
    by (cases "str_split c s") auto
  with Cons show ?case by (auto split: if_splits)
qed

lemma str_split_no_occ [simp]: "c \<notin> set s \<Longrightarrow> str_split c s = [s]"
  by (induction s) auto

lemma str_split_append [simp]: "c \<notin> set a \<Longrightarrow> str_split c (a @ c # b) = a # str_split c b"
  by (induction a) auto

lemma str_split_snoc: "str_split c (s @ [c]) = str_split c s @ [[]]"
proof (induction s)
  case Nil
  show ?case by simp
next
  case (Cons x s)
  then show ?case by (cases "str_split c s") auto
qed

lemma str_split_snoc_last: "s \<noteq> [] \<Longrightarrow> last s = c \<Longrightarrow> str_split c s = str_split c (butlast s) @ [[]]"
  using str_split_snoc [of c "butlast s"] append_butlast_last_id [of s] by metis

text \<open>Joining the pieces with the separator (Rust's \<open>join("/")\<close>) undoes the split.\<close>

fun str_join :: "'a \<Rightarrow> 'a list list \<Rightarrow> 'a list" where
  "str_join c [] = []"
| "str_join c [p] = p"
| "str_join c (p # q # ps) = p @ c # str_join c (q # ps)"

lemma str_join_Cons: "ps \<noteq> [] \<Longrightarrow> str_join c (p # ps) = p @ c # str_join c ps"
  by (cases ps) auto

lemma str_join_split [simp]: "str_join c (str_split c s) = s"
proof (induction s)
  case Nil
  show ?case by simp
next
  case (Cons x s)
  obtain q qs where q: "str_split c s = q # qs"
    by (cases "str_split c s") auto
  with Cons have IH: "str_join c (q # qs) = s" by simp
  show ?case
  proof (cases "x = c")
    case True
    then show ?thesis using IH q by (simp add: str_join_Cons)
  next
    case False
    then show ?thesis using IH q by (cases qs) auto
  qed
qed

lemma str_split_join: "ps \<noteq> [] \<Longrightarrow> (\<And>p. p \<in> set ps \<Longrightarrow> c \<notin> set p) \<Longrightarrow> str_split c (str_join c ps) = ps"
proof (induction ps)
  case Nil
  then show ?case by simp
next
  case (Cons p ps)
  then show ?case by (cases ps) auto
qed

text \<open>The bytes of a string, as they are written to a buffer, and back.\<close>

type_synonym bytes = "8 word list"

definition byte_of :: "char \<Rightarrow> 8 word" where
  "byte_of c = word_of_nat (of_char c)"

definition char_of_byte :: "8 word \<Rightarrow> char" where
  "char_of_byte b = char_of (unat b)"

definition str_bytes :: "string \<Rightarrow> bytes" where
  "str_bytes s = map byte_of s"

definition bytes_str :: "bytes \<Rightarrow> string" where
  "bytes_str b = map char_of_byte b"

lemma char_of_byte_of [simp]: "char_of_byte (byte_of c) = c"
  by (simp add: char_of_byte_def byte_of_def unat_of_nat)

lemma bytes_str_bytes [simp]: "bytes_str (str_bytes s) = s"
  by (simp add: bytes_str_def str_bytes_def comp_def)

lemma length_str_bytes [simp]: "length (str_bytes s) = length s"
  by (simp add: str_bytes_def)

lemma length_bytes_str [simp]: "length (bytes_str s) = length s"
  by (simp add: bytes_str_def)

lemma str_bytes_append [simp]: "str_bytes (s @ t) = str_bytes s @ str_bytes t"
  by (simp add: str_bytes_def)

lemma unat_byte_small [simp]: "n \<le> 255 \<Longrightarrow> unat (word_of_nat n :: 8 word) = n"
  by (simp add: unat_of_nat)

section \<open>Lists\<close>

lemma take_range_step:
  "i < j \<Longrightarrow> i < length xs \<Longrightarrow> take (j - i) (drop i xs) = xs ! i # take (j - Suc i) (drop (Suc i) xs)"
  by (metis Cons_nth_drop_Suc Suc_diff_Suc take_Suc_Cons)

lemma take_range_append:
  "i \<le> j \<Longrightarrow> j \<le> length xs \<Longrightarrow> take (j - i) (drop i xs) @ drop j xs = drop i xs"
  by (metis append_take_drop_id drop_drop le_add_diff_inverse2)

lemma length_filter_mono:
  "(\<And>x. x \<in> set xs \<Longrightarrow> P x \<Longrightarrow> Q x) \<Longrightarrow> length (filter P xs) \<le> length (filter Q xs)"
proof (induction xs)
  case Nil
  show ?case by simp
next
  case (Cons a xs)
  then have "length (filter P xs) \<le> length (filter Q xs)" by auto
  with Cons.prems [of a] show ?case by auto
qed

lemma length_filter_strict_mono:
  assumes "\<And>x. x \<in> set xs \<Longrightarrow> P x \<Longrightarrow> Q x" and "y \<in> set xs" and "Q y" and "\<not> P y"
  shows "length (filter P xs) < length (filter Q xs)"
proof -
  obtain a b where xs: "xs = a @ y # b" using assms(2) by (meson split_list)
  have "length (filter P a) \<le> length (filter Q a)" "length (filter P b) \<le> length (filter Q b)"
    using assms(1) xs by (auto intro: length_filter_mono)
  with xs assms(3,4) show ?thesis by simp
qed

section \<open>Iterators\<close>

text \<open>
  The loop \<open>while let Some(x) = it.next()\<close> with the items collected. The fuel bounds the number of
  calls of \<open>next\<close>; running out of it is a panic, which the laws of the interface below exclude.
\<close>

fun drain_iter :: "('p \<Rightarrow> ('p \<times> 'c option) result) \<Rightarrow> nat \<Rightarrow> 'p \<Rightarrow> ('c list \<times> 'p) result" where
  "drain_iter nxt 0 p = Inl Panic"
| "drain_iter nxt (Suc n) p =
     bind_res (nxt p) (\<lambda>(p', x).
       case x of
         None \<Rightarrow> Inr ([], p')
       | Some c \<Rightarrow> bind_res (drain_iter nxt n p') (\<lambda>(cs, q). Inr (c # cs, q)))"

text \<open>
  The contract of an iterator over a cursor: \<open>items\<close> is what it has still to deliver, \<open>live\<close> the
  invariant of the cursor.
\<close>

locale item_iterator =
  fixes nxt :: "'p \<Rightarrow> ('p \<times> 'c option) result"
    and items :: "'p \<Rightarrow> 'c list"
    and live :: "'p \<Rightarrow> bool"
  assumes next_done: "live p \<Longrightarrow> items p = [] \<Longrightarrow> \<exists>p'. nxt p = Inr (p', None) \<and> live p' \<and> items p' = []"
    and next_item: "live p \<Longrightarrow> items p = c # cs \<Longrightarrow>
           \<exists>p'. nxt p = Inr (p', Some c) \<and> live p' \<and> items p' = cs"
begin

lemma drain_all:
  assumes "live p" and "length (items p) < n"
  shows "\<exists>q. drain_iter nxt n p = Inr (items p, q) \<and> live q \<and> items q = []"
  using assms
proof (induction n arbitrary: p)
  case 0
  then show ?case by simp
next
  case (Suc n)
  show ?case
  proof (cases "items p")
    case Nil
    with next_done [OF Suc.prems(1)] show ?thesis by auto
  next
    case (Cons c cs)
    with next_item [OF Suc.prems(1)] obtain p' where p':
      "nxt p = Inr (p', Some c)" "live p'" "items p' = cs" by blast
    with Suc.prems(2) Cons have "length (items p') < n" by simp
    with Suc.IH [OF p'(2)] p' Cons show ?thesis by auto
  qed
qed

lemma drain_done:
  assumes "live p" and "items p = []"
  shows "\<exists>q. drain_iter nxt (Suc n) p = Inr ([], q)"
  using next_done [OF assms] by auto

end

section \<open>64-bit arithmetic of the sources\<close>

text \<open>An addition that overflows panics when overflow checks are on (\<open>dbg\<close>) and wraps otherwise.\<close>

definition add_u64 :: "bool \<Rightarrow> 64 word \<Rightarrow> 64 word \<Rightarrow> 64 word result" where
  "add_u64 dbg a b = (if dbg \<and> 2 ^ 64 \<le> unat a + unat b then Inl Panic else Inr (a + b))"

definition checked_add_u64 :: "64 word \<Rightarrow> 64 word \<Rightarrow> 64 word option" where
  "checked_add_u64 a b = (if 2 ^ 64 \<le> unat a + unat b then None else Some (a + b))"

definition checked_sub_u64 :: "64 word \<Rightarrow> 64 word \<Rightarrow> 64 word option" where
  "checked_sub_u64 a b = (if a < b then None else Some (a - b))"

lemma add_u64_ok: "unat a + unat b < 2 ^ 64 \<Longrightarrow> add_u64 dbg a b = Inr (a + b)"
  by (simp add: add_u64_def)

lemma unat_add_u64: "unat a + unat b < 2 ^ 64 \<Longrightarrow> unat (a + b) = unat a + unat (b :: 64 word)"
  by (simp add: unat_word_ariths)

end
