(* ===== verification/Sorted_Map.thy ===== *)
theory Sorted_Map
  imports Vfs_Prelude
begin

text \<open>
  Ordered maps as strictly sorted association lists: the model of \<open>BTreeMap\<close> (keys are strings,
  ordered bytewise as in Rust) and of \<open>Slab\<close> (keys are indices). An iteration visits the list in
  order. The locale states what clients of a map rely on; it is interpreted on the operations below.
\<close>

type_synonym ('k, 'v) sorted_map = "('k \<times> 'v) list"

abbreviation sm_get :: "('k, 'v) sorted_map \<Rightarrow> 'k \<Rightarrow> 'v option" where
  "sm_get \<equiv> map_of"

fun sm_insert :: "'k::linorder \<Rightarrow> 'v \<Rightarrow> ('k, 'v) sorted_map \<Rightarrow> ('k, 'v) sorted_map" where
  "sm_insert k v [] = [(k, v)]"
| "sm_insert k v ((k', v') # m) =
     (if k < k' then (k, v) # (k', v') # m
      else if k = k' then (k, v) # m
      else (k', v') # sm_insert k v m)"

definition sm_remove :: "'k \<Rightarrow> ('k, 'v) sorted_map \<Rightarrow> ('k, 'v) sorted_map" where
  "sm_remove k m = filter (\<lambda>(k', _). k' \<noteq> k) m"

text \<open>\<open>range(k..)\<close>: the entries whose key is at least \<open>k\<close>.\<close>

definition sm_range_from :: "'k::linorder \<Rightarrow> ('k, 'v) sorted_map \<Rightarrow> ('k, 'v) sorted_map" where
  "sm_range_from k m = filter (\<lambda>(k', _). k \<le> k') m"

definition sm_inv :: "('k::linorder, 'v) sorted_map \<Rightarrow> bool" where
  "sm_inv m \<longleftrightarrow> sorted_wrt (<) (map fst m)"

lemma sm_inv_simps [simp]:
  "sm_inv []" "sm_inv ((k, v) # m) \<longleftrightarrow> (\<forall>k' \<in> fst ` set m. k < k') \<and> sm_inv m"
  by (auto simp: sm_inv_def)

lemma sm_insert_keys [simp]: "fst ` set (sm_insert k v m) = insert k (fst ` set m)"
  by (induction k v m rule: sm_insert.induct) (simp_all add: insert_commute)

lemma sm_inv_insert [simp]: "sm_inv m \<Longrightarrow> sm_inv (sm_insert k v m)"
proof (induction m)
  case Nil
  show ?case by simp
next
  case (Cons a m)
  obtain k' v' where "a = (k', v')" by (cases a)
  with Cons show ?case by (auto simp: not_less_iff_gr_or_eq simp flip: sm_inv_def intro: less_trans)
qed

lemma sm_inv_filter [simp]: "sm_inv m \<Longrightarrow> sm_inv (filter P m)"
  by (induction m) auto

lemma sm_inv_remove [simp]: "sm_inv m \<Longrightarrow> sm_inv (sm_remove k m)"
  by (simp add: sm_remove_def)

lemma sm_inv_distinct: "sm_inv m \<Longrightarrow> distinct (map fst m)"
  by (simp add: sm_inv_def strict_sorted_iff)

lemma sm_get_insert [simp]: "sm_inv m \<Longrightarrow> sm_get (sm_insert k v m) = (sm_get m)(k \<mapsto> v)"
proof (induction m)
  case Nil
  show ?case by simp
next
  case (Cons a m)
  then show ?case by (cases a) (auto simp: fun_eq_iff)
qed

lemma sm_get_remove [simp]: "sm_get (sm_remove k m) = (sm_get m)(k := None)"
  by (induction m) (auto simp: sm_remove_def fun_eq_iff)

lemma sm_remove_keys [simp]: "fst ` set (sm_remove k m) = fst ` set m - {k}"
  by (auto simp: sm_remove_def image_iff)

lemma sm_get_None_iff: "sm_get m k = None \<longleftrightarrow> k \<notin> fst ` set m"
  by (induction m) auto

lemma sm_get_SomeD: "sm_get m k = Some v \<Longrightarrow> (k, v) \<in> set m"
  by (rule map_of_SomeD)

text \<open>A sorted map is determined by its lookups.\<close>

lemma sm_ext:
  assumes "sm_inv m" and "sm_inv m'" and "sm_get m = sm_get m'"
  shows "m = m'"
proof -
  have d: "distinct (map fst m)" "distinct (map fst m')"
    using assms by (auto intro: sm_inv_distinct)
  then have "set m = set m'"
    using assms(3) by (metis map_of_eqI map_of_inject_set)
  moreover have "sorted (map fst m)" "sorted (map fst m')"
    using assms by (auto simp: sm_inv_def strict_sorted_iff)
  ultimately show ?thesis
    using d by (intro map_sorted_distinct_set_unique [of fst]) (auto simp: distinct_map)
qed

lemma sm_remove_absent [simp]: "k \<notin> fst ` set m \<Longrightarrow> sm_remove k m = m"
  by (auto simp: sm_remove_def filter_id_conv image_iff split: prod.splits)

lemma sm_remove_insert [simp]:
  "sm_inv m \<Longrightarrow> k \<notin> fst ` set m \<Longrightarrow> sm_remove k (sm_insert k v m) = m"
  using sm_get_None_iff [of m k] by (intro sm_ext) (auto simp: fun_eq_iff)

lemma sm_insert_same [simp]: "sm_inv m \<Longrightarrow> sm_get m k = Some v \<Longrightarrow> sm_insert k v m = m"
  by (intro sm_ext) auto

lemma sm_insert_insert [simp]: "sm_inv m \<Longrightarrow> sm_insert k v (sm_insert k v' m) = sm_insert k v m"
  by (intro sm_ext) auto

lemma sm_range_from_split:
  "sm_inv m \<Longrightarrow> sm_range_from k m = dropWhile (\<lambda>(k', _). k' < k) m"
proof (induction m)
  case Nil
  show ?case by (simp add: sm_range_from_def)
next
  case (Cons a m)
  obtain k' v where a: "a = (k', v)" by (cases a)
  show ?case
  proof (cases "k' < k")
    case True
    with Cons a show ?thesis by (auto simp: sm_range_from_def)
  next
    case False
    with Cons.prems a have "\<forall>x \<in> set m. k \<le> fst x" by auto
    with False a show ?thesis by (auto simp: sm_range_from_def filter_id_conv)
  qed
qed

section \<open>The interface of an ordered map\<close>

locale ordered_map =
  fixes get :: "'m \<Rightarrow> 'k \<Rightarrow> 'v option"
    and ins :: "'k \<Rightarrow> 'v \<Rightarrow> 'm \<Rightarrow> 'm"
    and del :: "'k \<Rightarrow> 'm \<Rightarrow> 'm"
    and good :: "'m \<Rightarrow> bool"
  assumes good_ins: "good m \<Longrightarrow> good (ins k v m)"
    and good_del: "good m \<Longrightarrow> good (del k m)"
    and get_ins: "good m \<Longrightarrow> get (ins k v m) = (get m)(k \<mapsto> v)"
    and get_del: "good m \<Longrightarrow> get (del k m) = (get m)(k := None)"
    and ext: "good m \<Longrightarrow> good m' \<Longrightarrow> get m = get m' \<Longrightarrow> m = m'"
begin

text \<open>Moving the value of one key to another, the way a rename does.\<close>

lemma move_get:
  assumes "good m" and "get m a = Some v"
  shows "get (ins b v (del a m)) = (get m)(a := None, b \<mapsto> v)"
  using assms by (simp add: good_del get_ins get_del)

lemma move_self:
  assumes "good m" and "get m a = Some v"
  shows "ins a v (del a m) = m"
  using assms by (intro ext) (auto simp: good_ins good_del get_ins get_del fun_eq_iff)

lemma move_back:
  assumes "good m" and "get m a = Some v" and "get m b = None" and "a \<noteq> b"
  shows "ins a v (del b (ins b v (del a m))) = m"
  using assms by (intro ext) (auto simp: good_ins good_del get_ins get_del fun_eq_iff)

lemma del_ins_absent:
  assumes "good m" and "get m k = None"
  shows "del k (ins k v m) = m"
  using assms by (intro ext) (auto simp: good_ins good_del get_ins get_del fun_eq_iff)

end

interpretation btree: ordered_map "sm_get" "sm_insert :: string \<Rightarrow> _" sm_remove sm_inv
  by unfold_locales (auto intro: sm_ext)

interpretation slab: ordered_map "sm_get" "sm_insert :: nat \<Rightarrow> _" sm_remove sm_inv
  by unfold_locales (auto intro: sm_ext)

end
