(* ===== verification/Execution_Scope.thy ===== *)
theory Execution_Scope
  imports Sorted_Map
begin

text \<open>
  The execution scope (\<open>execution_scope.rs\<close>): the tasks of a group of connections, their shutdown and the
  wait for the last of them. The slab of running tasks is a map from keys to the sender of the shutdown
  channel, \<open>None\<close> once it was used; the key that \<open>Slab::insert\<close> picks is an argument, not in use before.
  A one-shot channel is a number, and a message on it is recorded in the set of signalled channels.
  Tasks run on other threads: their polls, and the removal of a task from the scope after its last
  poll, are steps of their own that interleave with the operations of the scope.
\<close>

section \<open>The executor\<close>

type_synonym channel = nat

record Executor =
  running :: "(nat, channel option) sorted_map"
  waiters :: "channel list"

definition executor_new :: Executor where
  "executor_new = \<lparr> running = [], waiters = [] \<rparr>"

text \<open>\<open>Executor::shutdown\<close> takes every sender that is still there and signals it.\<close>

definition executor_shutdown :: "Executor \<Rightarrow> Executor \<times> channel list" where
  "executor_shutdown ex =
     (ex\<lparr> running := map (\<lambda>(k, _). (k, None)) (running ex) \<rparr>, List.map_filter snd (running ex))"

text \<open>\<open>Slab::remove\<close> panics for a key that is not in use.\<close>

definition task_did_finish :: "nat \<Rightarrow> Executor \<Rightarrow> (Executor \<times> channel list) result" where
  "task_did_finish task_id ex =
     (if sm_get (running ex) task_id = None then Inl Panic
      else
        let ex = ex\<lparr> running := sm_remove task_id (running ex) \<rparr>
        in if running ex = [] then Inr (ex\<lparr> waiters := [] \<rparr>, waiters ex) else Inr (ex, []))"

definition executor_drop :: "Executor \<Rightarrow> Executor \<times> channel list" where
  "executor_drop ex = executor_shutdown ex"

text \<open>The future that completes when either of two does; a future is a poll of its state.\<close>

definition first_to_finish :: "('s \<Rightarrow> 's \<times> bool) \<Rightarrow> ('s \<Rightarrow> 's \<times> bool) \<Rightarrow> 's \<Rightarrow> 's \<times> bool" where
  "first_to_finish first second s =
     (let (s, ready) = first s in if ready then (s, True) else second s)"

section \<open>The parameters of a scope\<close>

record ('t, 'i, 'e) ExecutionScopeParams =
  p_token_registry :: "'t option"
  p_inode_registry :: "'i option"
  p_entry_constructor :: "'e option"

record ('t, 'i, 'e) ExecutionScope = "('t, 'i, 'e) ExecutionScopeParams" +
  s_executor :: Executor

definition scope_build :: "('t, 'i, 'e) ExecutionScopeParams" where
  "scope_build = \<lparr> p_token_registry = None, p_inode_registry = None, p_entry_constructor = None \<rparr>"

definition params_token_registry ::
    "'t \<Rightarrow> ('t, 'i, 'e) ExecutionScopeParams \<Rightarrow> ('t, 'i, 'e) ExecutionScopeParams result" where
  "params_token_registry x p =
     (if p_token_registry p \<noteq> None then Inl Panic else Inr (p\<lparr> p_token_registry := Some x \<rparr>))"

definition params_inode_registry ::
    "'i \<Rightarrow> ('t, 'i, 'e) ExecutionScopeParams \<Rightarrow> ('t, 'i, 'e) ExecutionScopeParams result" where
  "params_inode_registry x p =
     (if p_inode_registry p \<noteq> None then Inl Panic else Inr (p\<lparr> p_inode_registry := Some x \<rparr>))"

definition params_entry_constructor ::
    "'e \<Rightarrow> ('t, 'i, 'e) ExecutionScopeParams \<Rightarrow> ('t, 'i, 'e) ExecutionScopeParams result" where
  "params_entry_constructor x p =
     (if p_entry_constructor p \<noteq> None then Inl Panic else Inr (p\<lparr> p_entry_constructor := Some x \<rparr>))"

definition params_new :: "('t, 'i, 'e) ExecutionScopeParams \<Rightarrow> ('t, 'i, 'e) ExecutionScope" where
  "params_new p = ExecutionScopeParams.extend p (ExecutionScope.fields executor_new)"

definition scope_new :: "('t, 'i, 'e) ExecutionScope" where
  "scope_new = params_new scope_build"

section \<open>Tasks and steps\<close>

text \<open>
  The task of \<open>spawn\<close> may be aborted whenever it is pending (\<open>task.or(receiver)\<close>); the task of
  \<open>spawn_with_shutdown\<close> watches the channel itself. \<open>t_done\<close>: the future of the task has completed, and
  what is left of it is the removal from the scope.
\<close>

record task =
  t_abort_any_time :: bool
  t_channel :: channel
  t_done :: bool

record scope_world =
  w_executor :: Executor
  w_tasks :: "(nat, task) sorted_map"
  w_signalled :: "channel set"
  w_waits :: "channel list"
  w_next :: channel

definition world_new :: scope_world where
  "world_new = \<lparr> w_executor = executor_new, w_tasks = [], w_signalled = {}, w_waits = [], w_next = 0 \<rparr>"

definition run_abort_with_shutdown :: "bool \<Rightarrow> nat \<Rightarrow> scope_world \<Rightarrow> scope_world" where
  "run_abort_with_shutdown any_time task_id w =
     (let sender = w_next w in
      w\<lparr> w_next := sender + 1,
         w_executor := (w_executor w)\<lparr> running := sm_insert task_id (Some sender) (running (w_executor w)) \<rparr>,
         w_tasks := sm_insert task_id \<lparr> t_abort_any_time = any_time, t_channel = sender, t_done = False \<rparr> (w_tasks w) \<rparr>)"

definition spawn :: "nat \<Rightarrow> scope_world \<Rightarrow> scope_world" where
  "spawn = run_abort_with_shutdown True"

definition spawn_with_shutdown :: "nat \<Rightarrow> scope_world \<Rightarrow> scope_world" where
  "spawn_with_shutdown = run_abort_with_shutdown False"

definition scope_shutdown :: "scope_world \<Rightarrow> scope_world" where
  "scope_shutdown w =
     (let (ex, sent) = executor_shutdown (w_executor w)
      in w\<lparr> w_executor := ex, w_signalled := w_signalled w \<union> set sent \<rparr>)"

text \<open>\<open>wait\<close>: the channel it waits for, or nothing when no task is running.\<close>

definition scope_wait :: "scope_world \<Rightarrow> scope_world \<times> channel option" where
  "scope_wait w =
     (if running (w_executor w) = [] then (w, None)
      else
        let sender = w_next w in
        (w\<lparr> w_next := sender + 1, w_executor := (w_executor w)\<lparr> waiters := waiters (w_executor w) @ [sender] \<rparr>,
            w_waits := w_waits w @ [sender] \<rparr>, Some sender))"

text \<open>One poll of a task, with what the code of the task itself answers.\<close>

definition poll_task :: "nat \<Rightarrow> bool \<Rightarrow> scope_world \<Rightarrow> scope_world" where
  "poll_task task_id inner w =
     (case sm_get (w_tasks w) task_id of
        None \<Rightarrow> w
      | Some t \<Rightarrow>
          let (_, ready) =
            (if t_abort_any_time t
             then first_to_finish (\<lambda>s. (s, inner)) (\<lambda>s. (s, t_channel t \<in> w_signalled w)) ()
             else ((), inner))
          in w\<lparr> w_tasks := sm_insert task_id (t\<lparr> t_done := ready \<rparr>) (w_tasks w) \<rparr>)"

definition finish_task :: "nat \<Rightarrow> scope_world \<Rightarrow> scope_world result" where
  "finish_task task_id w =
     bind_res (task_did_finish task_id (w_executor w)) (\<lambda>(ex, sent).
       Inr (w\<lparr> w_executor := ex, w_tasks := sm_remove task_id (w_tasks w),
               w_signalled := w_signalled w \<union> set sent \<rparr>))"

inductive scope_step :: "scope_world \<Rightarrow> scope_world \<Rightarrow> bool" where
  step_spawn: "sm_get (running (w_executor w)) k = None \<Longrightarrow> scope_step w (spawn k w)"
| step_spawn_with_shutdown: "sm_get (running (w_executor w)) k = None \<Longrightarrow> scope_step w (spawn_with_shutdown k w)"
| step_shutdown: "scope_step w (scope_shutdown w)"
| step_wait: "scope_wait w = (w', r) \<Longrightarrow> scope_step w w'"
| step_poll: "sm_get (w_tasks w) k = Some t \<Longrightarrow> \<not> t_done t \<Longrightarrow> scope_step w (poll_task k inner w)"
| step_finish: "sm_get (w_tasks w) k = Some t \<Longrightarrow> t_done t \<Longrightarrow> finish_task k w = Inr w' \<Longrightarrow> scope_step w w'"

inductive scope_reach :: "scope_world \<Rightarrow> bool" where
  scope_reach_new: "scope_reach world_new"
| scope_reach_step: "scope_reach w \<Longrightarrow> scope_step w w' \<Longrightarrow> scope_reach w'"

section \<open>The invariant\<close>

text \<open>
  Every task of the scope has an entry, whose sender is its own channel or was used; waiters exist only
  while a task is running, and a wait that was not answered is among them; channels are not shared.
\<close>

definition task_linked :: "scope_world \<Rightarrow> nat \<Rightarrow> task \<Rightarrow> bool" where
  "task_linked w k t \<longleftrightarrow>
     sm_get (running (w_executor w)) k = Some (Some (t_channel t)) \<or>
     sm_get (running (w_executor w)) k = Some None \<and> t_channel t \<in> w_signalled w"

definition tasks_inv :: "scope_world \<Rightarrow> bool" where
  "tasks_inv w \<longleftrightarrow>
     sm_inv (running (w_executor w)) \<and> sm_inv (w_tasks w) \<and>
     dom (sm_get (w_tasks w)) = dom (sm_get (running (w_executor w))) \<and>
     (\<forall>k t. sm_get (w_tasks w) k = Some t \<longrightarrow> task_linked w k t)"

definition waits_inv :: "scope_world \<Rightarrow> bool" where
  "waits_inv w \<longleftrightarrow>
     set (w_waits w) \<subseteq> w_signalled w \<union> set (waiters (w_executor w)) \<and>
     (waiters (w_executor w) \<noteq> [] \<longrightarrow> running (w_executor w) \<noteq> []) \<and>
     (\<forall>c \<in> set (w_waits w). c < w_next w) \<and>
     (\<forall>k c. sm_get (running (w_executor w)) k = Some (Some c) \<longrightarrow> c < w_next w \<and> c \<notin> set (w_waits w))"

lemma sm_get_map_None [simp]:
  "sm_get (map (\<lambda>(k, _). (k, None)) m) k = (if sm_get m k = None then None else Some None)"
  by (induction m) auto

lemma sm_inv_map_None [simp]: "sm_inv (map (\<lambda>(k, _). (k, None)) m) = sm_inv m"
  by (simp add: sm_inv_def case_prod_beta comp_def)

lemma empty_dom_sm_get [simp]: "{} = dom (sm_get m) \<longleftrightarrow> m = []"
  by (cases m) auto

lemma sm_insert_ne [simp]: "sm_insert k v m \<noteq> []"
  using sm_insert_keys [of k v m] by fastforce

lemma map_filter_senders: "sm_get m k = Some (Some c) \<Longrightarrow> c \<in> set (List.map_filter snd m)"
  by (drule sm_get_SomeD) (force simp: List.map_filter_def)

lemma map_filter_sendersD:
  "sm_inv m \<Longrightarrow> c \<in> set (List.map_filter snd m) \<Longrightarrow> \<exists>k. sm_get m k = Some (Some c)"
  using sm_inv_distinct [of m] by (force simp: List.map_filter_def)

lemmas scope_defs = spawn_def spawn_with_shutdown_def run_abort_with_shutdown_def scope_shutdown_def
  executor_shutdown_def scope_wait_def poll_task_def first_to_finish_def Let_def

lemma finish_task_Inr:
  "finish_task k w = Inr w' \<longleftrightarrow>
     sm_get (running (w_executor w)) k \<noteq> None \<and>
     (let rest = sm_remove k (running (w_executor w)); last = (rest = []) in
      w' = w\<lparr> w_executor := \<lparr> running = rest, waiters = (if last then [] else waiters (w_executor w)) \<rparr>,
             w_tasks := sm_remove k (w_tasks w),
             w_signalled := w_signalled w \<union> (if last then set (waiters (w_executor w)) else {}) \<rparr>)"
  by (auto simp: finish_task_def task_did_finish_def Let_def)

lemma task_linked_frame [simp]:
  "task_linked (w\<lparr> w_tasks := m \<rparr>) k t = task_linked w k t"
  "task_linked w k (t\<lparr> t_done := b \<rparr>) = task_linked w k t"
  by (simp_all add: task_linked_def)

lemma poll_task_eq:
  "sm_get (w_tasks w) k = Some t \<Longrightarrow>
   poll_task k inner w = w\<lparr> w_tasks := sm_insert k
     (t\<lparr> t_done := inner \<or> t_abort_any_time t \<and> t_channel t \<in> w_signalled w \<rparr>) (w_tasks w) \<rparr>"
  by (simp add: poll_task_def first_to_finish_def Let_def)

lemma shutdown_links:
  assumes "task_linked w k t"
  shows "task_linked (scope_shutdown w) k t"
    and "sm_get (running (w_executor (scope_shutdown w))) k = Some None"
    and "t_channel t \<in> w_signalled (scope_shutdown w)"
  using assms map_filter_senders [of "running (w_executor w)" k "t_channel t"]
  by (auto simp: scope_defs task_linked_def split: option.splits)

lemma tasks_inv_shutdown:
  assumes "tasks_inv w"
  shows "tasks_inv (scope_shutdown w)"
proof -
  have "dom (sm_get (map (\<lambda>(k, _). (k, None)) m)) = dom (sm_get m)" for m :: "(nat, channel option) sorted_map"
    by (auto split: if_splits)
  with assms shutdown_links(1) [of w] show ?thesis by (auto simp: tasks_inv_def scope_defs)
qed

lemma tasks_inv_step:
  assumes "scope_step w w'" and "tasks_inv w"
  shows "tasks_inv w'"
  using assms
proof (induction rule: scope_step.induct)
  case (step_shutdown w)
  then show ?case by (rule tasks_inv_shutdown)
next
  case (step_poll w k t inner)
  then show ?case
    by (auto simp: tasks_inv_def poll_task_eq split: if_splits)
next
  case (step_finish w k t w')
  then show ?case
    by (auto simp: tasks_inv_def finish_task_Inr task_linked_def Let_def split: option.splits if_splits)
next
  case (step_wait w w' r)
  then have "w' = fst (scope_wait w)" by simp
  then have "tasks_inv w' = tasks_inv w" by (simp add: tasks_inv_def task_linked_def scope_wait_def Let_def)
  with step_wait(2) show ?case by simp
qed (auto simp: tasks_inv_def scope_defs task_linked_def)

lemma waits_inv_wait:
  assumes "waits_inv w"
  shows "waits_inv (fst (scope_wait w))"
  using assms less_SucI by (fastforce simp: waits_inv_def scope_wait_def Let_def)

lemma waits_inv_step:
  assumes "scope_step w w'" and "tasks_inv w" and "waits_inv w"
  shows "waits_inv w'"
  using assms
proof (induction rule: scope_step.induct)
  case (step_finish w k t w')
  then show ?case
    by (auto simp: tasks_inv_def waits_inv_def finish_task_Inr Let_def split: if_splits)
next
  case (step_wait w w' r)
  then show ?case using waits_inv_wait [of w] by simp
next
  case (step_shutdown w)
  then show ?case by (auto simp: waits_inv_def scope_defs split: if_splits)
next
  case (step_spawn w k)
  then show ?case by (auto simp: tasks_inv_def waits_inv_def scope_defs less_SucI split: if_splits)
next
  case (step_spawn_with_shutdown w k)
  then show ?case by (auto simp: tasks_inv_def waits_inv_def scope_defs less_SucI split: if_splits)
next
  case (step_poll w k t inner)
  then show ?case by (auto simp: waits_inv_def poll_task_eq)
qed

lemma scope_reach_inv: "scope_reach w \<Longrightarrow> tasks_inv w \<and> waits_inv w"
proof (induction rule: scope_reach.induct)
  case scope_reach_new
  then show ?case by (simp add: tasks_inv_def waits_inv_def world_new_def executor_new_def)
next
  case (scope_reach_step w w')
  then show ?case using tasks_inv_step waits_inv_step by blast
qed

section \<open>Shutting down\<close>

text \<open>
  What is left to run of a task after a shutdown: one more poll, in which its own code is still pending,
  unless it is done already, and then its removal. \<open>stop_all\<close> does this for the tasks in the order given.
\<close>

definition stop_task :: "nat \<Rightarrow> scope_world \<Rightarrow> scope_world result" where
  "stop_task k w =
     (case sm_get (w_tasks w) k of
        None \<Rightarrow> Inl Panic
      | Some t \<Rightarrow>
          (let w = (if t_done t then w else poll_task k False w) in
           if map_option t_done (sm_get (w_tasks w) k) = Some True then finish_task k w else Inl Panic))"

fun stop_all :: "nat list \<Rightarrow> scope_world \<Rightarrow> scope_world result" where
  "stop_all [] w = Inr w"
| "stop_all (k # ks) w = bind_res (stop_task k w) (stop_all ks)"

definition stoppable :: "scope_world \<Rightarrow> bool" where
  "stoppable w \<longleftrightarrow>
     (\<forall>k t. sm_get (w_tasks w) k = Some t \<longrightarrow> t_abort_any_time t \<and> t_channel t \<in> w_signalled w)"

lemma finish_task_ok:
  assumes "tasks_inv w" and "sm_get (w_tasks w) k = Some t"
  shows "\<exists>w'. finish_task k w = Inr w'"
proof -
  have "sm_get (running (w_executor w)) k \<noteq> None" using assms by (auto simp: tasks_inv_def)
  then show ?thesis by (simp add: finish_task_def task_did_finish_def Let_def)
qed

lemma stop_task_steps:
  assumes "scope_reach w" and "stoppable w" and "sm_get (w_tasks w) k = Some t"
  shows "\<exists>w'. stop_task k w = Inr w' \<and> scope_reach w' \<and> stoppable w' \<and>
     dom (sm_get (w_tasks w')) = dom (sm_get (w_tasks w)) - {k} \<and> w_waits w' = w_waits w"
proof -
  note inv = scope_reach_inv [OF assms(1)]
  define w1 where "w1 = (if t_done t then w else poll_task k False w)"
  have sm: "sm_inv (w_tasks w)" using inv by (simp add: tasks_inv_def)
  have st: "t_abort_any_time t" "t_channel t \<in> w_signalled w" using assms(2,3) by (auto simp: stoppable_def)
  have reach1: "scope_reach w1"
    using scope_reach_step [OF assms(1) step_poll [OF assms(3)]] assms(1) by (auto simp: w1_def)
  obtain t1 where t1: "sm_get (w_tasks w1) k = Some t1" "t_done t1"
    using that [of t] that [of "t\<lparr> t_done := True \<rparr>"] assms(3) st sm poll_task_eq [OF assms(3), of False]
    by (cases "t_done t") (simp_all add: w1_def)
  have frame: "stoppable w1" "dom (sm_get (w_tasks w1)) = dom (sm_get (w_tasks w))" "w_waits w1 = w_waits w"
    using assms(2,3) sm by (auto simp: w1_def poll_task_eq stoppable_def)
  obtain w' where w': "finish_task k w1 = Inr w'"
    using finish_task_ok [OF conjunct1 [OF scope_reach_inv [OF reach1]] t1(1)] by blast
  have "scope_reach w'" using reach1 step_finish [OF t1 w'] by (rule scope_reach_step)
  moreover have "stoppable w'" "dom (sm_get (w_tasks w')) = dom (sm_get (w_tasks w)) - {k}" "w_waits w' = w_waits w"
    using w' frame by (auto simp: finish_task_Inr Let_def stoppable_def split: if_splits)
  moreover have "stop_task k w = Inr w'"
    using assms(3) t1 w' by (simp add: stop_task_def w1_def [symmetric])
  ultimately show ?thesis by blast
qed

lemma stop_all_steps:
  "\<lbrakk> scope_reach w; stoppable w; distinct ks; set ks = dom (sm_get (w_tasks w)) \<rbrakk> \<Longrightarrow>
   \<exists>w'. stop_all ks w = Inr w' \<and> scope_reach w' \<and> dom (sm_get (w_tasks w')) = {} \<and> w_waits w' = w_waits w"
proof (induction ks arbitrary: w)
  case (Cons k ks)
  then obtain t where "sm_get (w_tasks w) k = Some t" by (metis domD list.set_intros(1))
  from stop_task_steps [OF Cons.prems(1,2) this] obtain w1 where w1: "stop_task k w = Inr w1" "scope_reach w1"
      "stoppable w1" "dom (sm_get (w_tasks w1)) = dom (sm_get (w_tasks w)) - {k}" "w_waits w1 = w_waits w" by blast
  from Cons.prems(3,4) w1(4) have "set ks = dom (sm_get (w_tasks w1))" by auto
  from Cons.IH [OF w1(2,3) _ this] Cons.prems(3) w1 show ?case by simp
next
  case Nil
  then show ?case by auto
qed

text \<open>C20. Shutting a scope down ends it. In any reachable state whose tasks may be aborted at any time,
  and after \<open>shutdown\<close>, polling and removing the tasks in any order never panics, even when no task
  completes by itself; afterwards no task is running and every \<open>wait\<close> ever made has been answered. A
  \<open>wait\<close> is never answered early: in each step that answers one, the last task has just been removed.\<close>

theorem shutdown_ends_scope:
  assumes "scope_reach w"
  shows "(\<forall>ks. (\<forall>t. t \<in> ran (sm_get (w_tasks w)) \<longrightarrow> t_abort_any_time t) \<and> distinct ks \<and>
             set ks = dom (sm_get (w_tasks w)) \<longrightarrow>
           (\<exists>w'. stop_all ks (scope_shutdown w) = Inr w' \<and> w_tasks w' = [] \<and> running (w_executor w') = [] \<and>
                 set (w_waits w) \<subseteq> w_signalled w')) \<and>
         (\<forall>w' c. scope_step w w' \<and> c \<in> set (w_waits w) \<and> c \<notin> w_signalled w \<and> c \<in> w_signalled w' \<longrightarrow>
           running (w_executor w') = [])"
proof (intro conjI allI impI)
  fix ks
  assume ks: "(\<forall>t. t \<in> ran (sm_get (w_tasks w)) \<longrightarrow> t_abort_any_time t) \<and> distinct ks \<and>
    set ks = dom (sm_get (w_tasks w))"
  let ?w = "scope_shutdown w"
  have tasks: "w_tasks ?w = w_tasks w" "w_waits ?w = w_waits w" by (simp_all add: scope_defs)
  have reach: "scope_reach ?w" using assms step_shutdown by (rule scope_reach_step)
  have "stoppable ?w"
    using ks scope_reach_inv [OF assms] shutdown_links(3)
    unfolding stoppable_def tasks tasks_inv_def by (blast intro: ranI)
  from stop_all_steps [OF reach this, of ks] ks tasks obtain w' where w': "stop_all ks ?w = Inr w'"
      "scope_reach w'" "dom (sm_get (w_tasks w')) = {}" "w_waits w' = w_waits w" by auto
  have run: "w_tasks w' = []" "running (w_executor w') = []"
    using scope_reach_inv [OF w'(2)] w'(3) by (simp_all add: tasks_inv_def)
  then have "set (w_waits w) \<subseteq> w_signalled w'"
    using scope_reach_inv [OF w'(2)] w'(4) by (auto simp: waits_inv_def)
  with w'(1) run show "\<exists>w'. stop_all ks ?w = Inr w' \<and> w_tasks w' = [] \<and> running (w_executor w') = [] \<and>
      set (w_waits w) \<subseteq> w_signalled w'" by blast
next
  fix w' c
  assume c: "scope_step w w' \<and> c \<in> set (w_waits w) \<and> c \<notin> w_signalled w \<and> c \<in> w_signalled w'"
  then have "scope_step w w'" by simp
  then show "running (w_executor w') = []"
  proof cases
    case step_shutdown
    with c scope_reach_inv [OF assms] map_filter_sendersD [of "running (w_executor w)" c] show ?thesis
      by (auto simp: scope_defs waits_inv_def tasks_inv_def)
  qed (use c in \<open>auto simp: scope_defs finish_task_Inr split: if_splits option.splits\<close>)
qed

theorem shutdown_ends_scope_witness:
  "\<exists>w'. stop_all [4, 2] (scope_shutdown (fst (scope_wait (spawn 4 (spawn 2 world_new))))) = Inr w' \<and>
        running (w_executor w') = [] \<and> 2 \<in> w_signalled w'"
proof -
  let ?w1 = "spawn 2 world_new" and ?w2 = "spawn 4 (spawn 2 world_new)"
  have "scope_reach ?w1" by (intro scope_reach_step [OF scope_reach_new] step_spawn) code_simp
  then have "scope_reach ?w2" by (rule scope_reach_step) (intro step_spawn, code_simp)
  then have "scope_reach (fst (scope_wait ?w2))" by (rule scope_reach_step) (rule step_wait, simp add: prod_eq_iff)
  moreover have "w_tasks (fst (scope_wait ?w2)) =
      [(2, \<lparr> t_abort_any_time = True, t_channel = 0, t_done = False \<rparr>), (4, \<lparr> t_abort_any_time = True, t_channel = 1, t_done = False \<rparr>)]"
      "w_waits (fst (scope_wait ?w2)) = [2]"
    by code_simp+
  moreover from this(1) have "ran (sm_get (w_tasks (fst (scope_wait ?w2)))) \<subseteq> {t. t_abort_any_time t}"
      "set [4, 2] = dom (sm_get (w_tasks (fst (scope_wait ?w2))))"
    by (auto simp: ran_def split: if_splits)
  ultimately have "\<exists>w'. stop_all [4, 2] (scope_shutdown (fst (scope_wait ?w2))) = Inr w' \<and> w_tasks w' = [] \<and>
      running (w_executor w') = [] \<and> set (w_waits (fst (scope_wait ?w2))) \<subseteq> w_signalled w'"
    by (intro mp [OF conjunct1 [OF shutdown_ends_scope, THEN spec]]) (auto simp del: stop_all.simps)
  with \<open>w_waits (fst (scope_wait ?w2)) = [2]\<close> show ?thesis by auto
qed

end
