(* ===== verification/Fio.thy ===== *)
theory Fio
  imports Vfs_Prelude
begin

text \<open>
  The part of the FIDL library \<open>fuchsia.io\<close> (and of \<open>libc\<close> and \<open>zx::Rights\<close>) that the sources refer
  to. These bindings are generated from files outside the repository, so their constants are a
  parameter of the model: the record \<open>fio\<close>, an argument of every definition that reads one of them.
  What the sources rely on is stated by the predicates at the end of the theory.
\<close>

section \<open>Flag types\<close>

text \<open>
  A \<open>bitflags\<close> value is the set of its bits. The constructors are the single-bit members the sources
  name; \<open>OTHER_FLAG\<close> stands for the remaining bits of the FIDL type. \<open>|\<close>, \<open>&\<close> and \<open>!\<close> are union,
  intersection and complement.
\<close>

datatype open_flag =
    RIGHT_READABLE | RIGHT_WRITABLE | RIGHT_EXECUTABLE
  | CREATE | CREATE_IF_ABSENT | TRUNCATE | DIRECTORY | NOT_DIRECTORY | APPEND
  | NODE_REFERENCE | DESCRIBE | POSIX_DEPRECATED | POSIX_WRITABLE | POSIX_EXECUTABLE
  | CLONE_SAME_RIGHTS | OTHER_FLAG nat

type_synonym OpenFlags = "open_flag set"

datatype vmo_flag = VMO_READ | VMO_WRITE | VMO_EXECUTE | PRIVATE_CLONE | SHARED_BUFFER | OTHER_VMO_FLAG nat

type_synonym VmoFlags = "vmo_flag set"

datatype zx_right =
    ZX_READ | ZX_WRITE | ZX_EXECUTE | ZX_MAP | ZX_GET_PROPERTY | ZX_SET_PROPERTY | OTHER_RIGHT nat

type_synonym Rights = "zx_right set"

datatype watch_flag = WATCH_DELETED | WATCH_ADDED | WATCH_REMOVED | WATCH_EXISTING | WATCH_IDLE | OTHER_WATCH nat

type_synonym WatchMask = "watch_flag set"

datatype watch_event = EvDeleted | EvAdded | EvRemoved | EvExisting | EvIdle

datatype dirent_type = DtUnknown | DtDirectory | DtBlockDevice | DtFile | DtSocket | DtService

text \<open>\<open>a.intersects(b)\<close> and \<open>a.contains(b)\<close> of the \<open>bitflags\<close> crate.\<close>

definition intersects :: "'f set \<Rightarrow> 'f set \<Rightarrow> bool" where
  "intersects a b \<longleftrightarrow> a \<inter> b \<noteq> {}"

definition contains :: "'f set \<Rightarrow> 'f set \<Rightarrow> bool" where
  "contains a b \<longleftrightarrow> b \<subseteq> a"

lemma intersects_single [simp]: "intersects a {f} \<longleftrightarrow> f \<in> a"
  by (auto simp: intersects_def)

lemma intersects_insert: "intersects a (insert f b) \<longleftrightarrow> f \<in> a \<or> intersects a b"
  by (auto simp: intersects_def)

lemma intersects_empty [simp]: "\<not> intersects a {}" "\<not> intersects {} a"
  by (simp_all add: intersects_def)

lemma intersects_Un: "intersects a (b \<union> c) \<longleftrightarrow> intersects a b \<or> intersects a c"
  by (auto simp: intersects_def)

lemma intersects_compl [simp]: "intersects a (- b) \<longleftrightarrow> \<not> a \<subseteq> b"
  by (auto simp: intersects_def)

lemma contains_single [simp]: "contains a {f} \<longleftrightarrow> f \<in> a"
  by (simp add: contains_def)

lemma if_remove_flag: "(if f \<in> a then a \<inter> - {f} else a) = a \<inter> - {f}"
  by auto

section \<open>Constants\<close>

record fio =
  OPEN_RIGHTS :: OpenFlags
  OPEN_FLAGS_ALLOWED_WITH_NODE_REFERENCE :: OpenFlags
  MAX_PATH :: nat
  PATH_MAX :: nat
  MAX_FILENAME :: nat
  MAX_BUF :: nat
  INO_UNKNOWN :: "64 word"
  MODE_TYPE_MASK :: "32 word"
  MODE_PROTECTION_MASK :: "32 word"
  MODE_TYPE_DIRECTORY :: "32 word"
  MODE_TYPE_FILE :: "32 word"
  MODE_TYPE_SERVICE :: "32 word"
  S_IRUSR :: "32 word"
  S_IWUSR :: "32 word"
  S_IXUSR :: "32 word"
  RIGHTS_BASIC :: Rights
  watch_event_primitive :: "watch_event \<Rightarrow> 8 word"
  dirent_type_primitive :: "dirent_type \<Rightarrow> 8 word"

text \<open>
  What the code relies on: \<open>OPEN_RIGHTS\<close> is the set of the three access rights; a node reference
  keeps no right and only flags about the kind of node and the reply; a filename's length fits in
  one byte (asserted by \<open>encode_dirent\<close>); a name of the largest length fits in one event buffer; the
  mode types are distinct and lie within the type mask.
\<close>

definition fio_rights :: "fio \<Rightarrow> bool" where
  "fio_rights K \<longleftrightarrow> OPEN_RIGHTS K = {RIGHT_READABLE, RIGHT_WRITABLE, RIGHT_EXECUTABLE}"

definition fio_node_reference :: "fio \<Rightarrow> bool" where
  "fio_node_reference K \<longleftrightarrow>
     OPEN_FLAGS_ALLOWED_WITH_NODE_REFERENCE K = {DIRECTORY, NOT_DIRECTORY, DESCRIBE, NODE_REFERENCE}"

definition fio_lengths :: "fio \<Rightarrow> bool" where
  "fio_lengths K \<longleftrightarrow> MAX_FILENAME K \<le> 255 \<and> MAX_FILENAME K + 2 \<le> MAX_BUF K"

definition fio_modes :: "fio \<Rightarrow> bool" where
  "fio_modes K \<longleftrightarrow>
     MODE_TYPE_DIRECTORY K \<noteq> 0 \<and> MODE_TYPE_FILE K \<noteq> 0 \<and>
     MODE_TYPE_DIRECTORY K \<noteq> MODE_TYPE_FILE K \<and>
     and (MODE_TYPE_DIRECTORY K) (MODE_TYPE_MASK K) = MODE_TYPE_DIRECTORY K \<and>
     and (MODE_TYPE_FILE K) (MODE_TYPE_MASK K) = MODE_TYPE_FILE K"

text \<open>
  A concrete instance, used only to evaluate the model on concrete inputs.
\<close>

definition fio_values :: fio where
  "fio_values =
     \<lparr> OPEN_RIGHTS = {RIGHT_READABLE, RIGHT_WRITABLE, RIGHT_EXECUTABLE},
       OPEN_FLAGS_ALLOWED_WITH_NODE_REFERENCE = {DIRECTORY, NOT_DIRECTORY, DESCRIBE, NODE_REFERENCE},
       MAX_PATH = 4095, PATH_MAX = 4096, MAX_FILENAME = 255, MAX_BUF = 8192,
       INO_UNKNOWN = 0xFFFFFFFFFFFFFFFF,
       MODE_TYPE_MASK = 0xFF000, MODE_PROTECTION_MASK = 0xFFF,
       MODE_TYPE_DIRECTORY = 0x4000, MODE_TYPE_FILE = 0x8000, MODE_TYPE_SERVICE = 0x10000,
       S_IRUSR = 0x100, S_IWUSR = 0x80, S_IXUSR = 0x40,
       RIGHTS_BASIC = {OTHER_RIGHT 0},
       watch_event_primitive =
         (\<lambda>e. case e of EvDeleted \<Rightarrow> 0 | EvAdded \<Rightarrow> 1 | EvRemoved \<Rightarrow> 2 | EvExisting \<Rightarrow> 3 | EvIdle \<Rightarrow> 4),
       dirent_type_primitive =
         (\<lambda>t. case t of DtUnknown \<Rightarrow> 0 | DtDirectory \<Rightarrow> 4 | DtBlockDevice \<Rightarrow> 6 | DtFile \<Rightarrow> 8
            | DtSocket \<Rightarrow> 12 | DtService \<Rightarrow> 16) \<rparr>"

lemma fio_values_ok [simp]:
  "fio_rights fio_values" "fio_node_reference fio_values" "fio_lengths fio_values" "fio_modes fio_values"
  by (simp_all add: fio_rights_def fio_node_reference_def fio_lengths_def fio_modes_def fio_values_def)

lemma fio_values_sel [simp]:
  "MAX_PATH fio_values = 4095" "PATH_MAX fio_values = 4096" "MAX_FILENAME fio_values = 255"
  "MAX_BUF fio_values = 8192"
  "OPEN_RIGHTS fio_values = {RIGHT_READABLE, RIGHT_WRITABLE, RIGHT_EXECUTABLE}"
  "OPEN_FLAGS_ALLOWED_WITH_NODE_REFERENCE fio_values =
     {DIRECTORY, NOT_DIRECTORY, DESCRIBE, NODE_REFERENCE}"
  "MODE_TYPE_MASK fio_values = 0xFF000" "MODE_TYPE_DIRECTORY fio_values = 0x4000"
  "MODE_TYPE_FILE fio_values = 0x8000" "MODE_TYPE_SERVICE fio_values = 0x10000"
  "MODE_PROTECTION_MASK fio_values = 0xFFF"
  by (simp_all add: fio_values_def)

end
