(* ===== verification/Vfs_Flags.thy ===== *)
theory Vfs_Flags
  imports Fio
begin

text \<open>
  The flag and mode checks of the VFS library: \<open>common.rs\<close> (rights, clone, the error reply of an
  open), \<open>directory/common.rs\<close>, \<open>file/common.rs\<close> and \<open>service/common.rs\<close> (the checks a new connection
  goes through) and \<open>directory/mutable/entry_constructor.rs\<close> (which kind of entry an open creates).
  Each check is a function from flag sets to a result, statement by statement.
\<close>

section \<open>common.rs\<close>

definition FS_RIGHTS :: "fio \<Rightarrow> OpenFlags" where
  "FS_RIGHTS K = OPEN_RIGHTS K"

definition GET_FLAGS_VISIBLE :: OpenFlags where
  "GET_FLAGS_VISIBLE = {} \<union> {RIGHT_READABLE} \<union> {RIGHT_WRITABLE} \<union> {RIGHT_EXECUTABLE} \<union> {APPEND} \<union>
     {NODE_REFERENCE}"

definition stricter_or_same_rights :: "fio \<Rightarrow> OpenFlags \<Rightarrow> OpenFlags \<Rightarrow> bool" where
  "stricter_or_same_rights K parent_flags flags =
     (let parent_rights = parent_flags \<inter> FS_RIGHTS K;
          rights = flags \<inter> FS_RIGHTS K
      in \<not> intersects rights (- parent_rights))"

abbreviation posix_flags :: OpenFlags where
  "posix_flags \<equiv> {POSIX_DEPRECATED, POSIX_WRITABLE, POSIX_EXECUTABLE}"

definition inherit_rights_for_clone :: "fio \<Rightarrow> OpenFlags \<Rightarrow> OpenFlags \<Rightarrow> OpenFlags result" where
  "inherit_rights_for_clone K parent_flags flags =
     (if intersects flags {CLONE_SAME_RIGHTS} \<and> intersects flags (FS_RIGHTS K) then Inl (Err INVALID_ARGS)
      else
        let flags = flags \<union> (parent_flags \<inter> {APPEND, NODE_REFERENCE});
            flags = (if intersects flags {CLONE_SAME_RIGHTS}
                     then (flags \<inter> - {CLONE_SAME_RIGHTS}) \<union> (parent_flags \<inter> FS_RIGHTS K)
                     else flags)
        in if \<not> stricter_or_same_rights K parent_flags flags then Inl (Err ACCESS_DENIED)
           else Inr (flags \<inter> - posix_flags))"

text \<open>
  What is sent on the server end of a channel before it is closed. \<open>send_on_open_with_error\<close> turns
  the server end into a stream to send the event; whether that conversion succeeds is decided
  outside the repository (\<open>stream_ok\<close>).
\<close>

datatype server_msg = Epitaph status | OnOpen status "nat option"

definition send_on_open_with_error :: "bool \<Rightarrow> OpenFlags \<Rightarrow> status \<Rightarrow> server_msg list result" where
  "send_on_open_with_error stream_ok flags st =
     (if st = OK then Inl Panic
      else if \<not> intersects flags {DESCRIBE} then Inr [Epitaph st]
      else if stream_ok then Inr [OnOpen st None, Epitaph st]
      else Inr [])"

definition rights_to_posix_mode_bits :: "fio \<Rightarrow> bool \<Rightarrow> bool \<Rightarrow> bool \<Rightarrow> 32 word" where
  "rights_to_posix_mode_bits K readable writable executable =
     or (or (if readable then S_IRUSR K else 0) (if writable then S_IWUSR K else 0))
        (if executable then S_IXUSR K else 0)"

record node_attributes =
  na_id :: "64 word"
  na_mode :: "32 word"
  na_content_size :: "64 word"
  na_storage_size :: "64 word"
  na_link_count :: "64 word"
  na_modification_time :: "64 word"
  na_creation_time :: "64 word"

definition node_attributes_default :: node_attributes where
  "node_attributes_default =
     \<lparr>na_id = 0, na_mode = 0, na_content_size = 0, na_storage_size = 0, na_link_count = 0,
      na_modification_time = 0, na_creation_time = 0\<rparr>"

section \<open>directory/common.rs\<close>

definition dir_validate_flags :: "fio \<Rightarrow> OpenFlags \<Rightarrow> OpenFlags result" where
  "dir_validate_flags K flags =
     (let flags = (if intersects flags {NODE_REFERENCE}
                   then flags \<inter> OPEN_FLAGS_ALLOWED_WITH_NODE_REFERENCE K else flags);
          flags = (if intersects flags {DIRECTORY} then flags \<inter> - {DIRECTORY} else flags)
      in if intersects flags {NOT_DIRECTORY} then Inl (Err NOT_FILE)
         else
           let flags = (if intersects flags {POSIX_DEPRECATED}
                        then flags \<union> {POSIX_WRITABLE, POSIX_EXECUTABLE} else flags);
               flags = (if intersects flags {POSIX_DEPRECATED, POSIX_EXECUTABLE}
                        then flags \<union> {RIGHT_EXECUTABLE} else flags);
               flags = (if intersects flags {POSIX_DEPRECATED, POSIX_WRITABLE}
                        then flags \<union> {RIGHT_WRITABLE} else flags);
               flags = flags \<inter> - posix_flags;
               allowed_flags = {NODE_REFERENCE, DESCRIBE, CREATE, CREATE_IF_ABSENT, DIRECTORY,
                                RIGHT_READABLE, RIGHT_WRITABLE, RIGHT_EXECUTABLE};
               prohibited_flags = {APPEND, TRUNCATE}
           in if intersects flags prohibited_flags then Inl (Err INVALID_ARGS)
              else if intersects flags (- allowed_flags) then Inl (Err NOT_SUPPORTED)
              else Inr flags)"

definition check_child_connection_flags ::
    "fio \<Rightarrow> OpenFlags \<Rightarrow> OpenFlags \<Rightarrow> 32 word \<Rightarrow> (OpenFlags \<times> 32 word) result" where
  "check_child_connection_flags K parent_flags flags mode =
     (let mode_type = and mode (MODE_TYPE_MASK K)
      in if mode_type \<noteq> 0 \<and> intersects flags {DIRECTORY} \<and> mode_type \<noteq> MODE_TYPE_DIRECTORY K
         then Inl (Err INVALID_ARGS)
         else if mode_type \<noteq> 0 \<and> intersects flags {NOT_DIRECTORY} \<and> mode_type = MODE_TYPE_DIRECTORY K
         then Inl (Err INVALID_ARGS)
         else
           let mode = (if mode_type = 0 \<and> intersects flags {DIRECTORY}
                       then or mode (MODE_TYPE_DIRECTORY K) else mode)
           in if flags \<inter> {NOT_DIRECTORY, DIRECTORY} = {NOT_DIRECTORY, DIRECTORY} then Inl (Err INVALID_ARGS)
              else if intersects flags {CREATE_IF_ABSENT} \<and> \<not> intersects flags {CREATE}
              then Inl (Err INVALID_ARGS)
              else if intersects flags {CLONE_SAME_RIGHTS} then Inl (Err INVALID_ARGS)
              else
                let flags = (if intersects flags {POSIX_DEPRECATED}
                             then (flags \<union> {POSIX_WRITABLE, POSIX_EXECUTABLE}) \<inter> - {POSIX_DEPRECATED}
                             else flags);
                    flags = (if \<not> intersects parent_flags {RIGHT_EXECUTABLE}
                             then flags \<inter> - {POSIX_EXECUTABLE} else flags);
                    flags = (if \<not> intersects parent_flags {RIGHT_WRITABLE}
                             then flags \<inter> - {POSIX_WRITABLE} else flags)
                in if intersects flags {CREATE} \<and> \<not> intersects parent_flags {RIGHT_WRITABLE}
                   then Inl (Err ACCESS_DENIED)
                   else if stricter_or_same_rights K parent_flags flags then Inr (flags, mode)
                   else Inl (Err ACCESS_DENIED))"

section \<open>file/common.rs\<close>

text \<open>\<open>dbg\<close> tells whether debug assertions are compiled in.\<close>

definition file_validate_flags ::
    "fio \<Rightarrow> bool \<Rightarrow> OpenFlags \<Rightarrow> bool \<Rightarrow> bool \<Rightarrow> bool \<Rightarrow> bool \<Rightarrow> OpenFlags result" where
  "file_validate_flags K dbg flags readable writable executable append_allowed =
     (if dbg \<and> writable \<and> executable then Inl Panic
      else
        let node_ref = intersects flags {NODE_REFERENCE};
            flags = (if node_ref then flags \<inter> OPEN_FLAGS_ALLOWED_WITH_NODE_REFERENCE K else flags);
            readable = (if node_ref then False else readable);
            writable = (if node_ref then False else writable);
            executable = (if node_ref then False else executable)
        in if intersects flags {DIRECTORY} then Inl (Err NOT_DIR)
           else
             let flags = (if intersects flags {NOT_DIRECTORY} then flags \<inter> - {NOT_DIRECTORY} else flags);
                 flags = flags \<inter> - posix_flags;
                 allowed_flags =
                   {NODE_REFERENCE, DESCRIBE, CREATE, CREATE_IF_ABSENT} \<union>
                   (if readable then {RIGHT_READABLE} else {}) \<union>
                   (if writable then {RIGHT_WRITABLE, TRUNCATE} else {}) \<union>
                   (if writable \<and> append_allowed then {APPEND} else {}) \<union>
                   (if executable then {RIGHT_EXECUTABLE} else {});
                 prohibited_flags =
                   (({} \<union> (if readable then {TRUNCATE} else {}) \<union> (if writable then {APPEND} else {})) \<inter>
                    - allowed_flags) \<union>
                   (if \<not> intersects flags {RIGHT_WRITABLE} then {TRUNCATE} else {})
             in if \<not> readable \<and> intersects flags {RIGHT_READABLE} then Inl (Err ACCESS_DENIED)
                else if \<not> writable \<and> intersects flags {RIGHT_WRITABLE} then Inl (Err ACCESS_DENIED)
                else if \<not> executable \<and> intersects flags {RIGHT_EXECUTABLE} then Inl (Err ACCESS_DENIED)
                else if intersects flags prohibited_flags then Inl (Err INVALID_ARGS)
                else if intersects flags (- allowed_flags) then Inl (Err NOT_SUPPORTED)
                else Inr flags)"

definition vmo_flags_to_rights :: "VmoFlags \<Rightarrow> Rights" where
  "vmo_flags_to_rights vmo_flags =
     (let rights = {};
          rights = (if contains vmo_flags {VMO_READ} then rights \<union> {ZX_READ} else rights);
          rights = (if contains vmo_flags {VMO_WRITE} then rights \<union> {ZX_WRITE} else rights)
      in (if contains vmo_flags {VMO_EXECUTE} then rights \<union> {ZX_EXECUTE} else rights))"

definition get_buffer_validate_flags :: "VmoFlags \<Rightarrow> OpenFlags \<Rightarrow> unit result" where
  "get_buffer_validate_flags vmo_flags connection_flags =
     (if contains vmo_flags {PRIVATE_CLONE} \<and> contains vmo_flags {SHARED_BUFFER}
      then Inl (Err INVALID_ARGS)
      else if contains vmo_flags {VMO_READ} \<and> \<not> intersects connection_flags {RIGHT_READABLE}
      then Inl (Err ACCESS_DENIED)
      else if contains vmo_flags {VMO_WRITE} \<and> \<not> intersects connection_flags {RIGHT_WRITABLE}
      then Inl (Err ACCESS_DENIED)
      else if contains vmo_flags {VMO_EXECUTE} \<and> \<not> intersects connection_flags {RIGHT_EXECUTABLE}
      then Inl (Err ACCESS_DENIED)
      else if contains vmo_flags {VMO_EXECUTE} \<and> \<not> intersects connection_flags {RIGHT_READABLE}
      then Inl (Err ACCESS_DENIED)
      else Inr ())"

section \<open>service/common.rs\<close>

definition POSIX_READ_WRITE_PROTECTION_ATTRIBUTES :: "fio \<Rightarrow> 32 word" where
  "POSIX_READ_WRITE_PROTECTION_ATTRIBUTES K = or (S_IRUSR K) (S_IWUSR K)"

definition service_validate_flags :: "fio \<Rightarrow> bool \<Rightarrow> OpenFlags \<Rightarrow> 32 word \<Rightarrow> OpenFlags result" where
  "service_validate_flags K dbg flags mode =
     (if and (and mode (not (MODE_PROTECTION_MASK K))) (not (MODE_TYPE_SERVICE K)) \<noteq> 0
      then (if and mode (MODE_TYPE_MASK K) = MODE_TYPE_DIRECTORY K then Inl (Err NOT_DIR)
            else if and mode (MODE_TYPE_MASK K) = MODE_TYPE_FILE K then Inl (Err NOT_FILE)
            else Inl (Err INVALID_ARGS))
      else
        let flags = flags \<inter> - {NOT_DIRECTORY};
            flags = flags \<inter> - posix_flags
        in if intersects flags {DIRECTORY} then Inl (Err NOT_DIR)
           else if intersects flags {NODE_REFERENCE}
           then (let flags = flags \<inter> - {RIGHT_READABLE, RIGHT_WRITABLE}
                 in if intersects flags (- OPEN_FLAGS_ALLOWED_WITH_NODE_REFERENCE K)
                    then Inl (Err INVALID_ARGS)
                    else Inr (flags \<inter> {NODE_REFERENCE, DESCRIBE}))
           else if dbg \<and> intersects flags (insert DIRECTORY (insert NOT_DIRECTORY (insert NODE_REFERENCE posix_flags)))
           then Inl Panic
           else if \<not> intersects flags {RIGHT_READABLE} then Inl (Err ACCESS_DENIED)
           else if intersects flags {DESCRIBE} then Inl (Err INVALID_ARGS)
           else if intersects flags (- {RIGHT_READABLE, RIGHT_WRITABLE}) then Inl (Err INVALID_ARGS)
           else Inr flags)"

section \<open>directory/mutable/entry\_constructor.rs\<close>

datatype NewEntryType = NewDirectory | NewFile

definition from_flags_and_mode :: "fio \<Rightarrow> OpenFlags \<Rightarrow> 32 word \<Rightarrow> bool \<Rightarrow> NewEntryType result" where
  "from_flags_and_mode K flags mode force_directory =
     (let mode = and mode (MODE_TYPE_MASK K)
      in if mode \<noteq> MODE_TYPE_DIRECTORY K \<and> mode \<noteq> MODE_TYPE_FILE K \<and> mode \<noteq> 0
         then Inl (Err NOT_SUPPORTED)
         else if intersects flags {DIRECTORY} \<and> intersects flags {NOT_DIRECTORY}
         then Inl (Err INVALID_ARGS)
         else if (intersects flags {DIRECTORY} \<and> mode = MODE_TYPE_FILE K) \<or>
                 (intersects flags {NOT_DIRECTORY} \<and> mode = MODE_TYPE_DIRECTORY K)
         then Inl (Err INVALID_ARGS)
         else
           let new_type = (if intersects flags {DIRECTORY} \<or> mode = MODE_TYPE_DIRECTORY K then NewDirectory
                        else if intersects flags {NOT_DIRECTORY} \<or> mode = MODE_TYPE_FILE K then NewFile
                        else if force_directory then NewDirectory else NewFile)
           in if force_directory \<and> new_type = NewFile then Inl (Err INVALID_ARGS) else Inr new_type)"

section \<open>Lemmas\<close>

abbreviation all_rights :: OpenFlags where
  "all_rights \<equiv> {RIGHT_READABLE, RIGHT_WRITABLE, RIGHT_EXECUTABLE}"

lemma stricter_iff [simp]:
  "stricter_or_same_rights K parent flags \<longleftrightarrow> flags \<inter> FS_RIGHTS K \<subseteq> parent \<inter> FS_RIGHTS K"
  by (auto simp: stricter_or_same_rights_def Let_def)

lemma FS_RIGHTS_eq: "fio_rights K \<Longrightarrow> FS_RIGHTS K = all_rights"
  by (simp add: FS_RIGHTS_def fio_rights_def)

lemma check_child_ok:
  assumes "fio_rights K" and "check_child_connection_flags K parent flags mode = Inr (f, m)"
  shows "f \<inter> all_rights = flags \<inter> all_rights" and "flags \<inter> all_rights \<subseteq> parent"
    and "POSIX_DEPRECATED \<notin> f"
    and "POSIX_WRITABLE \<in> f \<longleftrightarrow> RIGHT_WRITABLE \<in> parent \<and> flags \<inter> {POSIX_WRITABLE, POSIX_DEPRECATED} \<noteq> {}"
    and "POSIX_EXECUTABLE \<in> f \<longleftrightarrow>
           RIGHT_EXECUTABLE \<in> parent \<and> flags \<inter> {POSIX_EXECUTABLE, POSIX_DEPRECATED} \<noteq> {}"
    and "x \<notin> posix_flags \<Longrightarrow> x \<in> f \<longleftrightarrow> x \<in> flags"
    and "CREATE \<in> f \<Longrightarrow> RIGHT_WRITABLE \<in> parent"
    and "\<not> (DIRECTORY \<in> flags \<and> NOT_DIRECTORY \<in> flags)"
  using assms
  by (auto simp: check_child_connection_flags_def FS_RIGHTS_eq Let_def split: if_splits)

lemma dir_validate_rights:
  assumes "fio_node_reference K" and "dir_validate_flags K f = Inr g"
  shows "NODE_REFERENCE \<in> g \<longleftrightarrow> NODE_REFERENCE \<in> f"
    and "g \<inter> all_rights =
           (if NODE_REFERENCE \<in> f then {}
            else (f \<inter> all_rights) \<union>
                 (if f \<inter> {POSIX_WRITABLE, POSIX_DEPRECATED} \<noteq> {} then {RIGHT_WRITABLE} else {}) \<union>
                 (if f \<inter> {POSIX_EXECUTABLE, POSIX_DEPRECATED} \<noteq> {} then {RIGHT_EXECUTABLE} else {}))"
    and "CREATE \<in> g \<Longrightarrow> CREATE \<in> f"
    and "NOT_DIRECTORY \<notin> f"
  using assms
  by (auto simp: dir_validate_flags_def fio_node_reference_def Let_def intersects_insert split: if_splits)

text \<open>What the file's check returns, for a node reference and for any other connection.\<close>

lemma file_validate_node_ref:
  assumes "fio_node_reference K" and "file_validate_flags K dbg f r w x a = Inr g"
    and "NODE_REFERENCE \<in> f"
  shows "g = f \<inter> {NODE_REFERENCE, DESCRIBE}" and "DIRECTORY \<notin> f"
  using assms
  by (auto simp: file_validate_flags_def fio_node_reference_def Let_def intersects_insert split: if_splits)

lemma file_validate_plain:
  assumes "file_validate_flags K dbg f r w x a = Inr g" and "NODE_REFERENCE \<notin> f"
  shows "DIRECTORY \<notin> f" and "g = f - {NOT_DIRECTORY} - posix_flags"
    and "RIGHT_READABLE \<in> g \<Longrightarrow> r" and "RIGHT_WRITABLE \<in> g \<Longrightarrow> w" and "RIGHT_EXECUTABLE \<in> g \<Longrightarrow> x"
    and "TRUNCATE \<in> g \<Longrightarrow> RIGHT_WRITABLE \<in> g" and "APPEND \<in> g \<Longrightarrow> w \<and> a"
proof -
  let ?f = "f \<inter> - {NOT_DIRECTORY} \<inter> - posix_flags"
  let ?allowed = "{NODE_REFERENCE, DESCRIBE, CREATE, CREATE_IF_ABSENT} \<union>
                   (if r then {RIGHT_READABLE} else {}) \<union> (if w then {RIGHT_WRITABLE, TRUNCATE} else {}) \<union>
                   (if w \<and> a then {APPEND} else {}) \<union> (if x then {RIGHT_EXECUTABLE} else {})"
  have g: "DIRECTORY \<notin> f \<and> g = ?f \<and> ?f \<subseteq> ?allowed \<and>
      \<not> intersects ?f ((({} \<union> (if r then {TRUNCATE} else {}) \<union> (if w then {APPEND} else {})) \<inter> - ?allowed) \<union>
        (if \<not> intersects ?f {RIGHT_WRITABLE} then {TRUNCATE} else {}))"
    using assms unfolding file_validate_flags_def Let_def if_Inl_eq_Inr intersects_single if_remove_flag
    by (simp only: intersects_compl if_False if_True simp_thms if_Inl_eq_Inr if_remove_flag Inr_inject not_not) simp
  then show "DIRECTORY \<notin> f" and gf: "g = f - {NOT_DIRECTORY} - posix_flags" by auto
  have sub: "g \<subseteq> ?allowed" using g by blast
  show "RIGHT_READABLE \<in> g \<Longrightarrow> r" "RIGHT_WRITABLE \<in> g \<Longrightarrow> w" "RIGHT_EXECUTABLE \<in> g \<Longrightarrow> x" "APPEND \<in> g \<Longrightarrow> w \<and> a"
    using sub by (auto split: if_splits)
  show "RIGHT_WRITABLE \<in> g" if "TRUNCATE \<in> g"
    using g that by (auto simp: intersects_def split: if_splits)
qed

section \<open>Properties\<close>

text \<open>A clone never gets more rights than the connection it is cloned from.
  \<open>inherit_rights_for_clone\<close> is an error exactly when same-rights is combined with explicit rights
  (INVALID\_ARGS) or an explicit right is not a right of the parent (ACCESS\_DENIED); otherwise the
  clone has the parent's rights (same-rights) or the requested ones, keeps \<open>APPEND\<close> and
  \<open>NODE_REFERENCE\<close> of the parent, and carries no POSIX or same-rights flag.\<close>

theorem clone_rights:
  assumes "fio_rights K"
  shows "case inherit_rights_for_clone K parent flags of
      Inl e \<Rightarrow> (if CLONE_SAME_RIGHTS \<in> flags then flags \<inter> all_rights \<noteq> {} \<and> e = Err INVALID_ARGS
                else \<not> flags \<inter> all_rights \<subseteq> parent \<and> e = Err ACCESS_DENIED)
    | Inr f \<Rightarrow> f \<inter> all_rights = (if CLONE_SAME_RIGHTS \<in> flags then parent else flags) \<inter> all_rights \<and>
               f \<inter> all_rights \<subseteq> parent \<and>
               f \<inter> {APPEND, NODE_REFERENCE} = (flags \<union> parent) \<inter> {APPEND, NODE_REFERENCE} \<and>
               f \<inter> posix_flags = {} \<and> CLONE_SAME_RIGHTS \<notin> f"
  by (cases "CLONE_SAME_RIGHTS \<in> flags")
    (auto simp: inherit_rights_for_clone_def FS_RIGHTS_eq [OF assms] Let_def intersects_def
       split: if_splits)

theorem clone_rights_witness:
  "inherit_rights_for_clone fio_values {RIGHT_READABLE, APPEND} {CLONE_SAME_RIGHTS, POSIX_WRITABLE} =
     Inr {RIGHT_READABLE, APPEND} \<and> {RIGHT_READABLE, APPEND} \<inter> posix_flags = {}"
proof -
  have v: "inherit_rights_for_clone fio_values {RIGHT_READABLE, APPEND} {CLONE_SAME_RIGHTS, POSIX_WRITABLE} =
     Inr {RIGHT_READABLE, APPEND}"
    by (auto simp: inherit_rights_for_clone_def FS_RIGHTS_def intersects_insert Let_def)
  with clone_rights [of fio_values "{RIGHT_READABLE, APPEND}" "{CLONE_SAME_RIGHTS, POSIX_WRITABLE}"]
  show ?thesis by (simp add: fio_values_ok)
qed

text \<open>Opening a directory through a directory connection never escalates rights. After
  \<open>check_child_connection_flags\<close> with the parent's flags and then the directory's
  \<open>new_connection_validate_flags\<close>, the new connection has no right at all if it is a node reference,
  and otherwise exactly the rights asked for plus those of the POSIX flags that the parent has; all of
  them are rights of the parent, and creation is only asked for when the parent is writable.\<close>

theorem open_directory_rights:
  assumes "fio_rights K" and "fio_node_reference K"
    and "check_child_connection_flags K parent flags mode = Inr (f, m)"
    and "dir_validate_flags K f = Inr g"
  shows "g \<inter> all_rights =
           (if NODE_REFERENCE \<in> flags then {}
            else (flags \<inter> all_rights) \<union>
                 (if flags \<inter> {POSIX_WRITABLE, POSIX_DEPRECATED} \<noteq> {} then parent \<inter> {RIGHT_WRITABLE} else {}) \<union>
                 (if flags \<inter> {POSIX_EXECUTABLE, POSIX_DEPRECATED} \<noteq> {} then parent \<inter> {RIGHT_EXECUTABLE} else {})) \<and>
         g \<inter> all_rights \<subseteq> parent \<and> (CREATE \<in> g \<longrightarrow> RIGHT_WRITABLE \<in> parent)"
proof -
  note c = check_child_ok [OF assms(1,3)] and d = dir_validate_rights [OF assms(2,4)]
  have nr: "NODE_REFERENCE \<in> f \<longleftrightarrow> NODE_REFERENCE \<in> flags" using c(6) by simp
  have "g \<inter> all_rights =
           (if NODE_REFERENCE \<in> flags then {}
            else (flags \<inter> all_rights) \<union>
                 (if flags \<inter> {POSIX_WRITABLE, POSIX_DEPRECATED} \<noteq> {} then parent \<inter> {RIGHT_WRITABLE} else {}) \<union>
                 (if flags \<inter> {POSIX_EXECUTABLE, POSIX_DEPRECATED} \<noteq> {} then parent \<inter> {RIGHT_EXECUTABLE} else {}))"
    unfolding d(2) nr c(1) using c(3-5) by auto
  then show ?thesis using c(2,7) d(3) by (auto split: if_splits)
qed

theorem open_directory_rights_witness:
  "\<exists>g. dir_validate_flags fio_values {RIGHT_READABLE, POSIX_WRITABLE} = Inr g \<and>
       g \<inter> all_rights = {RIGHT_READABLE, RIGHT_WRITABLE}"
proof -
  have c: "check_child_connection_flags fio_values {RIGHT_READABLE, RIGHT_WRITABLE}
          {RIGHT_READABLE, POSIX_DEPRECATED} 0 = Inr ({RIGHT_READABLE, POSIX_WRITABLE}, 0)"
    by (auto simp: check_child_connection_flags_def FS_RIGHTS_def intersects_insert Let_def)
  have d: "dir_validate_flags fio_values {RIGHT_READABLE, POSIX_WRITABLE} =
        Inr {RIGHT_READABLE, RIGHT_WRITABLE}"
    by (auto simp: dir_validate_flags_def intersects_insert Let_def)
  show ?thesis using open_directory_rights [OF _ _ c d] d by auto
qed

text \<open>A file connection has only what the file offers. When the file's
  \<open>new_connection_validate_flags\<close> accepts flags that passed the parent's check, the result has no
  right the file or the parent lacks, \<open>TRUNCATE\<close> only with the write right, \<open>APPEND\<close> only when the
  file is writable and allows it, and a node reference keeps no right, \<open>TRUNCATE\<close> or \<open>APPEND\<close>; it
  never panics unless the file claims to be both writable and executable.\<close>

theorem open_file_rights:
  assumes "fio_rights K" and "fio_node_reference K"
    and "check_child_connection_flags K parent flags mode = Inr (f, m)"
  shows "(file_validate_flags K dbg f r w x a = Inl Panic \<longleftrightarrow> dbg \<and> w \<and> x) \<and>
         (\<forall>g. file_validate_flags K dbg f r w x a = Inr g \<longrightarrow>
            g \<inter> all_rights \<subseteq> parent \<and>
            (RIGHT_READABLE \<in> g \<longrightarrow> r) \<and> (RIGHT_WRITABLE \<in> g \<longrightarrow> w) \<and> (RIGHT_EXECUTABLE \<in> g \<longrightarrow> x) \<and>
            (TRUNCATE \<in> g \<longrightarrow> RIGHT_WRITABLE \<in> g) \<and> (APPEND \<in> g \<longrightarrow> w \<and> a) \<and>
            (NODE_REFERENCE \<in> g \<longrightarrow> g \<subseteq> {NODE_REFERENCE, DESCRIBE}) \<and>
            (NODE_REFERENCE \<in> g \<longleftrightarrow> NODE_REFERENCE \<in> flags) \<and> DIRECTORY \<notin> flags)"
proof -
  note c = check_child_ok [OF assms(1,3)]
  have nr: "NODE_REFERENCE \<in> f \<longleftrightarrow> NODE_REFERENCE \<in> flags" "DIRECTORY \<in> f \<longleftrightarrow> DIRECTORY \<in> flags"
    using c(6) by simp_all
  have "file_validate_flags K dbg f r w x a = Inl Panic \<longleftrightarrow> dbg \<and> w \<and> x"
    by (cases "dbg \<and> w \<and> x")
      (simp_all only: file_validate_flags_def if_True if_False simp_thms, rule no_panic, (rule no_panic)+)
  moreover have "g \<inter> all_rights \<subseteq> f \<and>
            (RIGHT_READABLE \<in> g \<longrightarrow> r) \<and> (RIGHT_WRITABLE \<in> g \<longrightarrow> w) \<and> (RIGHT_EXECUTABLE \<in> g \<longrightarrow> x) \<and>
            (TRUNCATE \<in> g \<longrightarrow> RIGHT_WRITABLE \<in> g) \<and> (APPEND \<in> g \<longrightarrow> w \<and> a) \<and>
            (NODE_REFERENCE \<in> g \<longrightarrow> g \<subseteq> {NODE_REFERENCE, DESCRIBE}) \<and>
            (NODE_REFERENCE \<in> g \<longleftrightarrow> NODE_REFERENCE \<in> f) \<and> DIRECTORY \<notin> f"
    if "file_validate_flags K dbg f r w x a = Inr g" for g
    using file_validate_node_ref [OF assms(2) that] file_validate_plain [OF that] by blast
  ultimately show ?thesis unfolding nr using c(1,2) by blast
qed

theorem open_file_rights_witness:
  "\<exists>g. file_validate_flags fio_values True {RIGHT_READABLE} True True False False = Inr g \<and>
       g \<inter> all_rights \<subseteq> {RIGHT_READABLE}"
proof -
  have c: "check_child_connection_flags fio_values {RIGHT_READABLE} {RIGHT_READABLE} 0 =
        Inr ({RIGHT_READABLE}, 0)"
    by (auto simp: check_child_connection_flags_def FS_RIGHTS_def intersects_insert Let_def)
  have f: "file_validate_flags fio_values True {RIGHT_READABLE} True True False False = Inr {RIGHT_READABLE}"
    by (simp add: file_validate_flags_def Let_def intersects_insert intersects_Un)
  show ?thesis using open_file_rights [OF _ _ c, of True True True False False] f by auto
qed

text \<open>\<open>get_buffer_validate_flags\<close> accepts a request for a file's VMO exactly when it does not ask
  for a private and a shared copy at once and every right that \<open>vmo_flags_to_rights\<close> will put on the
  handle is covered by the connection, execution requiring the read right as well.\<close>

theorem get_buffer_covered:
  "get_buffer_validate_flags v c = Inr () \<longleftrightarrow>
     \<not> {PRIVATE_CLONE, SHARED_BUFFER} \<subseteq> v \<and>
     (ZX_READ \<in> vmo_flags_to_rights v \<longrightarrow> RIGHT_READABLE \<in> c) \<and>
     (ZX_WRITE \<in> vmo_flags_to_rights v \<longrightarrow> RIGHT_WRITABLE \<in> c) \<and>
     (ZX_EXECUTE \<in> vmo_flags_to_rights v \<longrightarrow> {RIGHT_EXECUTABLE, RIGHT_READABLE} \<subseteq> c)"
  by (auto simp: get_buffer_validate_flags_def vmo_flags_to_rights_def Let_def)

theorem get_buffer_covered_witness:
  "get_buffer_validate_flags {VMO_READ, VMO_EXECUTE} {RIGHT_EXECUTABLE, RIGHT_READABLE} = Inr () \<and>
   get_buffer_validate_flags {VMO_EXECUTE} {RIGHT_EXECUTABLE} \<noteq> Inr ()"
  unfolding get_buffer_covered by (simp add: vmo_flags_to_rights_def)

text \<open>The kind of entry that an open creates agrees with the checks made before. Once
  \<open>check_child_connection_flags\<close> accepted the flags and adjusted the mode, \<open>from_flags_and_mode\<close>
  yields a directory when the flags ask for one, a file when the flags exclude a directory (an error
  INVALID\_ARGS if the path forces a directory), and NOT\_SUPPORTED exactly for modes that are neither
  a directory, a file nor unspecified.\<close>

theorem new_entry_type:
  assumes "fio_rights K" and "fio_modes K"
    and "check_child_connection_flags K parent flags mode = Inr (f, m)"
  shows "from_flags_and_mode K f m force =
           (let t = and mode (MODE_TYPE_MASK K)
            in if t \<noteq> MODE_TYPE_DIRECTORY K \<and> t \<noteq> MODE_TYPE_FILE K \<and> t \<noteq> 0 then Inl (Err NOT_SUPPORTED)
               else if DIRECTORY \<in> flags \<or> t = MODE_TYPE_DIRECTORY K then Inr NewDirectory
               else if NOT_DIRECTORY \<in> flags \<or> t = MODE_TYPE_FILE K
               then (if force then Inl (Err INVALID_ARGS) else Inr NewFile)
               else Inr (if force then NewDirectory else NewFile))"
proof -
  note c = check_child_ok [OF assms(1,3)]
  have dirs: "DIRECTORY \<in> f \<longleftrightarrow> DIRECTORY \<in> flags" "NOT_DIRECTORY \<in> f \<longleftrightarrow> NOT_DIRECTORY \<in> flags"
    using c(6) by simp_all
  let ?t = "and mode (MODE_TYPE_MASK K)"
  have m: "m = (if ?t = 0 \<and> DIRECTORY \<in> flags then or mode (MODE_TYPE_DIRECTORY K) else mode)"
    and k1: "?t \<noteq> 0 \<Longrightarrow> DIRECTORY \<in> flags \<Longrightarrow> ?t = MODE_TYPE_DIRECTORY K"
    and k2: "?t \<noteq> 0 \<Longrightarrow> NOT_DIRECTORY \<in> flags \<Longrightarrow> ?t \<noteq> MODE_TYPE_DIRECTORY K"
    using assms(3) by (auto simp: check_child_connection_flags_def Let_def split: if_splits)
  have "and (or mode (MODE_TYPE_DIRECTORY K)) (MODE_TYPE_MASK K) = MODE_TYPE_DIRECTORY K" if "?t = 0"
    using that assms(2) by (simp add: fio_modes_def bit.conj_disj_distrib2)
  then have t: "and m (MODE_TYPE_MASK K) =
      (if ?t = 0 \<and> DIRECTORY \<in> flags then MODE_TYPE_DIRECTORY K else ?t)"
    unfolding m by simp
  have md: "MODE_TYPE_DIRECTORY K \<noteq> 0" "MODE_TYPE_DIRECTORY K \<noteq> MODE_TYPE_FILE K" "MODE_TYPE_FILE K \<noteq> 0"
    using assms(2) by (auto simp: fio_modes_def)
  show ?thesis
    unfolding from_flags_and_mode_def t dirs intersects_single Let_def
    using k1 k2 md c(8) by auto
qed

theorem new_entry_type_witness:
  "from_flags_and_mode fio_values {CREATE, DIRECTORY} 0x4000 False = Inr NewDirectory"
proof -
  have c: "check_child_connection_flags fio_values {RIGHT_WRITABLE} {CREATE, DIRECTORY} 0 =
        Inr ({CREATE, DIRECTORY}, 0x4000)"
    by (auto simp: check_child_connection_flags_def FS_RIGHTS_def intersects_insert Let_def)
  show ?thesis using new_entry_type [OF _ _ c, of False] by simp
qed

text \<open>Connecting to a service: \<open>new_connection_validate_flags\<close> of services accepts flags exactly
  when the mode is at most the service type with protection bits and no directory is asked for, and
  either a node reference with no other flag than those allowed with it (read and write rights are
  dropped), or a readable connection with at most the write right besides. No input makes its debug
  assertion fail.\<close>

theorem service_flags:
  assumes "fio_node_reference K"
  shows "service_validate_flags K dbg flags mode \<noteq> Inl Panic \<and>
    (is_ok (service_validate_flags K dbg flags mode) \<longleftrightarrow>
       and (and mode (not (MODE_PROTECTION_MASK K))) (not (MODE_TYPE_SERVICE K)) = 0 \<and> DIRECTORY \<notin> flags \<and>
       (if NODE_REFERENCE \<in> flags
        then flags \<subseteq> {NODE_REFERENCE, DESCRIBE, NOT_DIRECTORY, RIGHT_READABLE, RIGHT_WRITABLE} \<union> posix_flags
        else RIGHT_READABLE \<in> flags \<and>
             flags \<subseteq> {RIGHT_READABLE, RIGHT_WRITABLE, NOT_DIRECTORY} \<union> posix_flags)) \<and>
    (\<forall>g. service_validate_flags K dbg flags mode = Inr g \<longrightarrow>
       g = flags \<inter> (if NODE_REFERENCE \<in> flags then {NODE_REFERENCE, DESCRIBE}
                   else {RIGHT_READABLE, RIGHT_WRITABLE}))"
proof -
  let ?f = "flags \<inter> - {NOT_DIRECTORY} \<inter> - posix_flags"
  have "dbg \<and> intersects ?f (insert DIRECTORY (insert NOT_DIRECTORY (insert NODE_REFERENCE posix_flags))) \<longleftrightarrow>
        dbg \<and> (DIRECTORY \<in> flags \<or> NODE_REFERENCE \<in> flags)"
    by (auto simp: intersects_insert)
  then have eq: "service_validate_flags K dbg flags mode =
    (if and (and mode (not (MODE_PROTECTION_MASK K))) (not (MODE_TYPE_SERVICE K)) \<noteq> 0
      then (if and mode (MODE_TYPE_MASK K) = MODE_TYPE_DIRECTORY K then Inl (Err NOT_DIR)
            else if and mode (MODE_TYPE_MASK K) = MODE_TYPE_FILE K then Inl (Err NOT_FILE)
            else Inl (Err INVALID_ARGS))
     else if DIRECTORY \<in> flags then Inl (Err NOT_DIR)
     else if NODE_REFERENCE \<in> flags
     then (if \<not> flags \<subseteq> {NODE_REFERENCE, DESCRIBE, NOT_DIRECTORY, RIGHT_READABLE, RIGHT_WRITABLE} \<union> posix_flags
           then Inl (Err INVALID_ARGS) else Inr (flags \<inter> {NODE_REFERENCE, DESCRIBE}))
     else if RIGHT_READABLE \<notin> flags then Inl (Err ACCESS_DENIED)
     else if DESCRIBE \<in> flags then Inl (Err INVALID_ARGS)
     else if \<not> flags \<subseteq> {RIGHT_READABLE, RIGHT_WRITABLE, NOT_DIRECTORY} \<union> posix_flags
     then Inl (Err INVALID_ARGS) else Inr ?f)"
    using assms unfolding service_validate_flags_def Let_def fio_node_reference_def
    by (auto simp: intersects_insert)
  show ?thesis
    unfolding eq by (auto split: if_splits)
qed

theorem service_flags_witness:
  "is_ok (service_validate_flags fio_values True {RIGHT_READABLE, POSIX_WRITABLE} 0) \<and>
   \<not> is_ok (service_validate_flags fio_values True {RIGHT_READABLE, DESCRIBE} 0)"
  using service_flags [of fio_values True "{RIGHT_READABLE, POSIX_WRITABLE}" 0]
    service_flags [of fio_values True "{RIGHT_READABLE, DESCRIBE}" 0]
  by simp

end
