(* ===== verification/File_Connection.thy ===== *)
theory File_Connection
  imports Vfs_Flags
begin

text \<open>
  FIDL connections to a file: \<open>file/connection\<close>. The file is a trait object, so its methods are the
  record \<open>file_vt\<close> over a state \<open>'w\<close>. Offsets, sizes and the seek position are 64-bit words; an
  addition that may overflow panics when overflow checks are on (\<open>dbg\<close>) and wraps otherwise.
\<close>

section \<open>The requests of fuchsia.io/File\<close>

datatype seek_origin = SeekStart | SeekCurrent | SeekEnd

text \<open>The offset of a seek is signed; it is the word read by \<open>sint\<close>.\<close>

datatype file_request =
    FClone OpenFlags
  | FReopen
  | FClose
  | FDescribe
  | FDescribe2
  | FSync
  | FGetAttr
  | FSetAttr nat node_attributes
  | FGetAttributes
  | FUpdateAttributes
  | FRead "64 word"
  | FReadAt "64 word" "64 word"
  | FWriteDeprecated bytes
  | FWrite bytes
  | FWriteAt "64 word" bytes
  | FSeek seek_origin "64 word"
  | FResize "64 word"
  | FGetFlags
  | FSetFlags OpenFlags
  | FGetBackingMemory VmoFlags
  | FAdvisoryLock
  | FQueryFilesystem

text \<open>
  A VMO in a reply is a handle \<open>'v\<close>; \<open>InfoVmofile\<close> carries it with its length. \<open>FrObject\<close> is what is sent on the
  channel of a refused clone, \<open>FrSpawned\<close> the flags a spawned connection task starts with, \<open>FrEpitaph\<close> the
  epitaph that shuts the connection down.
\<close>

datatype 'v node_info = InfoFile | InfoVmofile 'v "64 word"

datatype 'v file_reply =
    FrUnit "status + unit"
  | FrStatus status
  | FrInfo "'v node_info"
  | FrAttrs status node_attributes
  | FrData "status + bytes"
  | FrCount "status + 64 word"
  | FrWritten status "64 word"
  | FrFlags status OpenFlags
  | FrVmo "status + 'v"
  | FrObject "server_msg list"
  | FrSpawned OpenFlags
  | FrEpitaph status

datatype file_end = FAlive | FClosed | FDropped | FPanicked

text \<open>
  \<open>responder.send(..)?\<close> of a result: the peer is there or not; a panic of the callee is a panic of the
  handler.
\<close>

definition fsend :: "bool \<Rightarrow> 'r \<Rightarrow> 'c \<Rightarrow> 'w \<Rightarrow> 'c \<times> 'w \<times> 'r list \<times> file_end" where
  "fsend peer r c w = (if peer then (c, w, [r], FAlive) else (c, w, [], FDropped))"

definition fsend_result ::
  "bool \<Rightarrow> (status + 'a \<Rightarrow> 'r) \<Rightarrow> 'a result \<Rightarrow> 'c \<Rightarrow> 'w \<Rightarrow> 'c \<times> 'w \<times> 'r list \<times> file_end" where
  "fsend_result peer f x c w =
     (case x of
        Inr a \<Rightarrow> fsend peer (f (Inr a)) c w
      | Inl (Err s) \<Rightarrow> fsend peer (f (Inl s)) c w
      | Inl Panic \<Rightarrow> (c, w, [], FPanicked))"

fun status_raw :: "status + unit \<Rightarrow> status" where
  "status_raw (Inr _) = OK"
| "status_raw (Inl s) = s"

fun written_raw :: "status + 64 word \<Rightarrow> 'v file_reply" where
  "written_raw (Inr n) = FrWritten OK n"
| "written_raw (Inl s) = FrWritten s 0"

section \<open>The file behind a connection\<close>

record ('w, 'v) file_vt =
  fv_open :: "OpenFlags \<Rightarrow> 'w \<Rightarrow> unit result \<times> 'w"
  fv_read_at :: "64 word \<Rightarrow> bytes \<Rightarrow> 'w \<Rightarrow> (64 word \<times> bytes) result"
  fv_write_at :: "64 word \<Rightarrow> bytes \<Rightarrow> 'w \<Rightarrow> 64 word result \<times> 'w"
  fv_append :: "bytes \<Rightarrow> 'w \<Rightarrow> (64 word \<times> 64 word) result \<times> 'w"
  fv_truncate :: "64 word \<Rightarrow> 'w \<Rightarrow> unit result \<times> 'w"
  fv_get_buffer :: "VmoFlags \<Rightarrow> 'w \<Rightarrow> ('v \<times> 64 word) result"
  fv_get_size :: "'w \<Rightarrow> 64 word result"
  fv_get_attrs :: "'w \<Rightarrow> node_attributes result"
  fv_set_attrs :: "nat \<Rightarrow> node_attributes \<Rightarrow> 'w \<Rightarrow> unit result \<times> 'w"
  fv_close :: "'w \<Rightarrow> unit result \<times> 'w"
  fv_sync :: "'w \<Rightarrow> unit result \<times> 'w"
  fv_query_filesystem :: "'w \<Rightarrow> unit result"
  fv_describe :: "OpenFlags \<Rightarrow> 'w \<Rightarrow> 'v node_info result"
  fv_entry_open :: "OpenFlags \<Rightarrow> 'w \<Rightarrow> 'w"

text \<open>The default methods of the trait.\<close>

definition file_query_filesystem :: "unit result" where
  "file_query_filesystem = Inl (Err NOT_SUPPORTED)"

definition file_describe :: "OpenFlags \<Rightarrow> 'v node_info result" where
  "file_describe flags = Inr InfoFile"

text \<open>
  \<open>OpenFile\<close>: present until closed. Dropping it spawns a task on the scope that closes the file;
  \<open>spawn_ok\<close> is whether the scope still accepts tasks.
\<close>

definition open_file_close :: "('w, 'v) file_vt \<Rightarrow> bool \<Rightarrow> 'w \<Rightarrow> unit result \<times> bool \<times> 'w" where
  "open_file_close F present w =
     (if present then (let (r, w') = fv_close F w in (r, False, w')) else (Inl (Err BAD_HANDLE), False, w))"

definition open_file_drop :: "('w, 'v) file_vt \<Rightarrow> bool \<Rightarrow> bool \<Rightarrow> 'w \<Rightarrow> 'w" where
  "open_file_drop F spawn_ok present w = (if present \<and> spawn_ok then snd (fv_close F w) else w)"

record file_conn =
  fc_present :: bool
  fc_flags :: OpenFlags
  fc_seek :: "64 word"

text \<open>Using the file after it has been taken out panics (\<open>Deref for OpenFile\<close>).\<close>

definition the_file :: "file_conn \<Rightarrow> 'a result \<times> 'w \<Rightarrow> 'w \<Rightarrow> 'a result \<times> 'w" where
  "the_file c x w = (if fc_present c then x else (Inl Panic, w))"

section \<open>Handlers\<close>

datatype file_clone = CloneRefused "server_msg list result" | CloneOpens OpenFlags

definition file_handle_clone :: "fio \<Rightarrow> bool \<Rightarrow> OpenFlags \<Rightarrow> OpenFlags \<Rightarrow> file_clone" where
  "file_handle_clone K stream_ok parent_flags flags =
     (case inherit_rights_for_clone K parent_flags flags of
        Inl (Err st) \<Rightarrow> CloneRefused (send_on_open_with_error stream_ok flags st)
      | Inl Panic \<Rightarrow> CloneRefused (Inl Panic)
      | Inr flags' \<Rightarrow> CloneOpens flags')"

definition file_handle_get_attr :: "fio \<Rightarrow> ('w, 'v) file_vt \<Rightarrow> file_conn \<Rightarrow> 'w \<Rightarrow> (status \<times> node_attributes) result" where
  "file_handle_get_attr K F c w =
     (case fst (the_file c (fv_get_attrs F w, w) w) of
        Inr attr \<Rightarrow> Inr (OK, attr)
      | Inl (Err st) \<Rightarrow>
          Inr (st, \<lparr>na_id = INO_UNKNOWN K, na_mode = 0, na_content_size = 0, na_storage_size = 0,
                   na_link_count = 0, na_modification_time = 0, na_creation_time = 0\<rparr>)
      | Inl Panic \<Rightarrow> Inl Panic)"

text \<open>\<open>resize_with\<close> trims the buffer to the returned count and panics if that would extend it.\<close>

definition file_handle_read_at ::
  "fio \<Rightarrow> ('w, 'v) file_vt \<Rightarrow> 64 word \<Rightarrow> 64 word \<Rightarrow> file_conn \<Rightarrow> 'w \<Rightarrow> bytes result" where
  "file_handle_read_at K F offset count c w =
     (if \<not> intersects (fc_flags c) {RIGHT_READABLE} then Inl (Err BAD_HANDLE)
      else if unat count > MAX_BUF K then Inl (Err OUT_OF_RANGE)
      else bind_res (fst (the_file c (fv_read_at F offset (replicate (unat count) 0) w, w) w)) (\<lambda>(n, buffer).
        if unat n \<le> length buffer then Inr (take (unat n) buffer) else Inl Panic))"

definition file_handle_write_at ::
  "('w, 'v) file_vt \<Rightarrow> 64 word \<Rightarrow> bytes \<Rightarrow> file_conn \<Rightarrow> 'w \<Rightarrow> 64 word result \<times> 'w" where
  "file_handle_write_at F offset content c w =
     (if \<not> intersects (fc_flags c) {RIGHT_WRITABLE} then (Inl (Err BAD_HANDLE), w)
      else the_file c (fv_write_at F offset content w) w)"

definition file_handle_write ::
  "bool \<Rightarrow> ('w, 'v) file_vt \<Rightarrow> bytes \<Rightarrow> file_conn \<Rightarrow> 'w \<Rightarrow> 64 word result \<times> file_conn \<times> 'w" where
  "file_handle_write dbg F content c w =
     (if \<not> intersects (fc_flags c) {RIGHT_WRITABLE} then (Inl (Err BAD_HANDLE), c, w)
      else if intersects (fc_flags c) {APPEND} then
        (case the_file c (fv_append F content w) w of
           (Inl e, w') \<Rightarrow> (Inl e, c, w')
         | (Inr (bytes, offset), w') \<Rightarrow> (Inr bytes, c\<lparr> fc_seek := offset \<rparr>, w'))
      else
        (case file_handle_write_at F (fc_seek c) content c w of
           (Inl e, w') \<Rightarrow> (Inl e, c, w')
         | (Inr actual, w') \<Rightarrow>
             (case add_u64 dbg (fc_seek c) actual of
                Inl e \<Rightarrow> (Inl e, c, w')
              | Inr s \<Rightarrow> (Inr actual, c\<lparr> fc_seek := s \<rparr>, w'))))"

text \<open>\<open>as i128\<close> is exact; \<open>new_seek as u64\<close> keeps the low 64 bits.\<close>

definition file_handle_seek ::
  "('w, 'v) file_vt \<Rightarrow> 64 word \<Rightarrow> seek_origin \<Rightarrow> file_conn \<Rightarrow> 'w \<Rightarrow> 64 word result \<times> file_conn" where
  "file_handle_seek F offset start c w =
     (if intersects (fc_flags c) {NODE_REFERENCE} then (Inl (Err BAD_HANDLE), c)
      else
        case (case start of
                SeekStart \<Rightarrow> Inr (sint offset)
              | SeekCurrent \<Rightarrow> Inr (uint (fc_seek c) + sint offset)
              | SeekEnd \<Rightarrow> bind_res (fst (the_file c (fv_get_size F w, w) w)) (\<lambda>n. Inr (uint n + sint offset))) of
          Inl e \<Rightarrow> (Inl e, c)
        | Inr new_seek \<Rightarrow>
            if new_seek < 0 then (Inl (Err OUT_OF_RANGE), c)
            else (Inr (word_of_int new_seek), c\<lparr> fc_seek := word_of_int new_seek \<rparr>))"

definition file_handle_set_attr ::
  "('w, 'v) file_vt \<Rightarrow> nat \<Rightarrow> node_attributes \<Rightarrow> file_conn \<Rightarrow> 'w \<Rightarrow> unit result \<times> 'w" where
  "file_handle_set_attr F flags attrs c w =
     (if \<not> intersects (fc_flags c) {RIGHT_WRITABLE} then (Inl (Err BAD_HANDLE), w)
      else the_file c (fv_set_attrs F flags attrs w) w)"

definition file_handle_truncate :: "('w, 'v) file_vt \<Rightarrow> 64 word \<Rightarrow> file_conn \<Rightarrow> 'w \<Rightarrow> unit result \<times> 'w" where
  "file_handle_truncate F len c w =
     (if \<not> intersects (fc_flags c) {RIGHT_WRITABLE} then (Inl (Err BAD_HANDLE), w)
      else the_file c (fv_truncate F len w) w)"

definition file_handle_get_buffer :: "('w, 'v) file_vt \<Rightarrow> VmoFlags \<Rightarrow> file_conn \<Rightarrow> 'w \<Rightarrow> ('v \<times> 64 word) result" where
  "file_handle_get_buffer F flags c w =
     bind_res (get_buffer_validate_flags flags (fc_flags c)) (\<lambda>_. fst (the_file c (fv_get_buffer F flags w, w) w))"

section \<open>Requests\<close>

type_synonym ('w, 'v) fhandled = "file_conn \<times> 'w \<times> 'v file_reply list \<times> file_end"

fun file_handle_request ::
  "fio \<Rightarrow> bool \<Rightarrow> ('w, 'v) file_vt \<Rightarrow> bool \<Rightarrow> bool \<Rightarrow> file_request \<Rightarrow> file_conn \<Rightarrow> 'w \<Rightarrow> ('w, 'v) fhandled" where
  "file_handle_request K dbg F peer stream_ok (FClone flags) c w =
     (case file_handle_clone K stream_ok (fc_flags c) flags of
        CloneRefused (Inr msgs) \<Rightarrow> (c, w, [FrObject msgs], FAlive)
      | CloneRefused (Inl _) \<Rightarrow> (c, w, [], FPanicked)
      | CloneOpens f \<Rightarrow> if fc_present c then (c, fv_entry_open F f w, [], FAlive) else (c, w, [], FPanicked))"
| "file_handle_request K dbg F peer stream_ok FReopen c w = (c, w, [], FPanicked)"
| "file_handle_request K dbg F peer stream_ok FClose c w =
     (let (r, present, w') = open_file_close F (fc_present c) w;
          (c', w'', rs, e) = fsend_result peer FrUnit r (c\<lparr> fc_present := present \<rparr>) w' in
      (c', w'', rs, if e = FAlive then FClosed else e))"
| "file_handle_request K dbg F peer stream_ok FDescribe c w =
     (case fst (the_file c (fv_describe F (fc_flags c) w, w) w) of
        Inr info \<Rightarrow> fsend peer (FrInfo info) c w
      | Inl (Err _) \<Rightarrow> (c, w, [], FDropped)
      | Inl Panic \<Rightarrow> (c, w, [], FPanicked))"
| "file_handle_request K dbg F peer stream_ok FDescribe2 c w = (c, w, [], FPanicked)"
| "file_handle_request K dbg F peer stream_ok FSync c w =
     (let (r, w') = the_file c (fv_sync F w) w in fsend_result peer FrUnit r c w')"
| "file_handle_request K dbg F peer stream_ok FGetAttr c w =
     (case file_handle_get_attr K F c w of
        Inr (st, attrs) \<Rightarrow> fsend peer (FrAttrs st attrs) c w
      | Inl _ \<Rightarrow> (c, w, [], FPanicked))"
| "file_handle_request K dbg F peer stream_ok (FSetAttr flags attrs) c w =
     (let (r, w') = file_handle_set_attr F flags attrs c w in fsend_result peer (\<lambda>x. FrStatus (status_raw x)) r c w')"
| "file_handle_request K dbg F peer stream_ok FGetAttributes c w = (c, w, [], FPanicked)"
| "file_handle_request K dbg F peer stream_ok FUpdateAttributes c w = (c, w, [], FPanicked)"
| "file_handle_request K dbg F peer stream_ok (FRead n) c w =
     (case file_handle_read_at K F (fc_seek c) n c w of
        Inl e \<Rightarrow> fsend_result peer FrData (Inl e) c w
      | Inr buffer \<Rightarrow>
          (case add_u64 dbg (fc_seek c) (word_of_nat (length buffer)) of
             Inl e \<Rightarrow> fsend_result peer FrData (Inl e) c w
           | Inr s \<Rightarrow> fsend_result peer FrData (Inr buffer) (c\<lparr> fc_seek := s \<rparr>) w))"
| "file_handle_request K dbg F peer stream_ok (FReadAt offset n) c w =
     fsend_result peer FrData (file_handle_read_at K F offset n c w) c w"
| "file_handle_request K dbg F peer stream_ok (FWriteDeprecated data) c w =
     (let (r, c', w') = file_handle_write dbg F data c w in fsend_result peer written_raw r c' w')"
| "file_handle_request K dbg F peer stream_ok (FWrite data) c w =
     (let (r, c', w') = file_handle_write dbg F data c w in fsend_result peer FrCount r c' w')"
| "file_handle_request K dbg F peer stream_ok (FWriteAt offset data) c w =
     (let (r, w') = file_handle_write_at F offset data c w in fsend_result peer FrCount r c w')"
| "file_handle_request K dbg F peer stream_ok (FSeek origin offset) c w =
     (let (r, c') = file_handle_seek F offset origin c w in fsend_result peer FrCount r c' w)"
| "file_handle_request K dbg F peer stream_ok (FResize len) c w =
     (let (r, w') = file_handle_truncate F len c w in fsend_result peer FrUnit r c w')"
| "file_handle_request K dbg F peer stream_ok FGetFlags c w =
     fsend peer (FrFlags OK (fc_flags c \<inter> GET_FLAGS_VISIBLE)) c w"
| "file_handle_request K dbg F peer stream_ok (FSetFlags flags) c w =
     fsend peer (FrStatus OK) (c\<lparr> fc_flags := (fc_flags c \<inter> - {APPEND}) \<union> (flags \<inter> {APPEND}) \<rparr>) w"
| "file_handle_request K dbg F peer stream_ok (FGetBackingMemory flags) c w =
     fsend_result peer FrVmo (bind_res (file_handle_get_buffer F flags c w) (\<lambda>(vmo, _). Inr vmo)) c w"
| "file_handle_request K dbg F peer stream_ok FAdvisoryLock c w =
     fsend peer (FrUnit (Inl NOT_SUPPORTED)) c w"
| "file_handle_request K dbg F peer stream_ok FQueryFilesystem c w =
     fsend_result peer (\<lambda>x. FrStatus (status_raw x)) (fst (the_file c (fv_query_filesystem F w, w) w)) c w"

text \<open>
  The loop: \<open>None\<close> is a malformed message, a request comes with whether the peer is there and whether a
  refused channel turns into a stream; the list ends with the stream or with the shutdown of the scope.
\<close>

fun file_run ::
  "fio \<Rightarrow> bool \<Rightarrow> ('w, 'v) file_vt \<Rightarrow> (file_request \<times> bool \<times> bool) option list \<Rightarrow> file_conn \<Rightarrow> 'w \<Rightarrow>
   file_conn \<times> 'w \<times> 'v file_reply list" where
  "file_run K dbg F [] c w = (c, w, [])"
| "file_run K dbg F (None # evs) c w = (c, w, [])"
| "file_run K dbg F (Some (req, peer, stream_ok) # evs) c w =
     (case file_handle_request K dbg F peer stream_ok req c w of
        (c', w', rs, FAlive) \<Rightarrow> (let (c'', w'', rs') = file_run K dbg F evs c' w' in (c'', w'', rs @ rs'))
      | (c', w', rs, _) \<Rightarrow> (c', w', rs))"

definition file_handle_requests ::
  "fio \<Rightarrow> bool \<Rightarrow> ('w, 'v) file_vt \<Rightarrow> bool \<Rightarrow> (file_request \<times> bool \<times> bool) option list \<Rightarrow> file_conn \<Rightarrow> 'w \<Rightarrow>
   'w \<times> 'v file_reply list" where
  "file_handle_requests K dbg F spawn_ok evs c w =
     (let (c', w', rs) = file_run K dbg F evs c w in (open_file_drop F spawn_ok (fc_present c') w', rs))"

text \<open>
  \<open>create_connection_async\<close>: what is sent on the channel before the requests, and the state at the end.
\<close>

definition file_create_connection_async ::
  "fio \<Rightarrow> bool \<Rightarrow> ('w, 'v) file_vt \<Rightarrow> bool \<Rightarrow> bool \<Rightarrow> bool \<Rightarrow> bool \<Rightarrow> bool \<Rightarrow> bool \<Rightarrow> OpenFlags \<Rightarrow>
   (file_request \<times> bool \<times> bool) option list \<Rightarrow> 'w \<Rightarrow> server_msg list result \<times> 'w \<times> 'v file_reply list" where
  "file_create_connection_async K dbg F r x_w x stream_ok send_ok spawn_ok flags evs w =
     (let refuse = (\<lambda>f st w'. (send_on_open_with_error stream_ok f st, open_file_drop F spawn_ok True w', []));
          crash = (\<lambda>w'. (Inl Panic, open_file_drop F spawn_ok True w', [])) in
      case file_validate_flags K dbg flags r x_w x True of
        Inl (Err st) \<Rightarrow> refuse flags st w
      | Inl Panic \<Rightarrow> crash w
      | Inr flags' \<Rightarrow>
     (case fv_open F flags' w of
        (Inl (Err st), w1) \<Rightarrow> refuse flags' st w1
      | (Inl Panic, w1) \<Rightarrow> crash w1
      | (Inr _, w1) \<Rightarrow>
     (case (if intersects flags' {TRUNCATE} then fv_truncate F 0 w1 else (Inr (), w1)) of
        (Inl (Err st), w2) \<Rightarrow> refuse flags' st w2
      | (Inl Panic, w2) \<Rightarrow> crash w2
      | (Inr _, w2) \<Rightarrow>
     (case (if intersects flags' {DESCRIBE} then bind_res (fv_describe F flags' w2) (\<lambda>i. Inr (Some i)) else Inr None) of
        Inl (Err st) \<Rightarrow> refuse flags' st w2
      | Inl Panic \<Rightarrow> crash w2
      | Inr info \<Rightarrow>
          if \<not> stream_ok \<or> (info \<noteq> None \<and> \<not> send_ok) then (Inr [], open_file_drop F spawn_ok True w2, [])
          else
            let (w3, rs) = file_handle_requests K dbg F spawn_ok evs
                             \<lparr> fc_present = True, fc_flags = flags', fc_seek = 0 \<rparr> w2 in
            (Inr (if info = None then [] else [OnOpen OK (Some 0)]), w3, rs)))))"

section \<open>Rights and the seek position\<close>

text \<open>What a file must do for a connection without the right to write to leave its content alone.\<close>

definition content_kept :: "('w, 'v) file_vt \<Rightarrow> ('w \<Rightarrow> 'c) \<Rightarrow> bool" where
  "content_kept F content \<longleftrightarrow>
     (\<forall>w. content (snd (fv_close F w)) = content w) \<and> (\<forall>w. content (snd (fv_sync F w)) = content w) \<and>
     (\<forall>f w. content (fv_entry_open F f w) = content w)"

lemma fsend_state: "fsend peer r c w = (c', w', rs, e) \<Longrightarrow> c' = c \<and> w' = w \<and> e \<noteq> FClosed"
  by (auto simp: fsend_def split: if_splits)

lemma fsend_result_state: "fsend_result peer f x c w = (c', w', rs, e) \<Longrightarrow> c' = c \<and> w' = w"
  by (auto simp: fsend_result_def dest: fsend_state split: sum.splits fail.splits)

lemma fsend_end: "fsend peer r c w = (c', w', rs, e) \<Longrightarrow> e \<noteq> FPanicked \<and> e \<noteq> FClosed"
  by (auto simp: fsend_def split: if_splits)

lemma fsend_result_end:
  "fsend_result peer f x c w = (c', w', rs, e) \<Longrightarrow> x \<noteq> Inl Panic \<Longrightarrow> e \<noteq> FPanicked \<and> e \<noteq> FClosed"
  by (auto simp: fsend_result_def fsend_def split: sum.splits fail.splits if_splits)

lemma write_needs_right:
  assumes "RIGHT_WRITABLE \<notin> fc_flags c"
  shows "file_handle_write_at F off d c w = (Inl (Err BAD_HANDLE), w)"
    and "file_handle_write dbg F d c w = (Inl (Err BAD_HANDLE), c, w)"
    and "file_handle_truncate F len c w = (Inl (Err BAD_HANDLE), w)"
    and "file_handle_set_attr F fl at c w = (Inl (Err BAD_HANDLE), w)"
  using assms
  by (simp_all add: file_handle_write_at_def file_handle_write_def file_handle_truncate_def file_handle_set_attr_def)

lemma file_seek_flags: "file_handle_seek F off st c w = (r, c') \<Longrightarrow> fc_flags c' = fc_flags c"
  by (auto simp: file_handle_seek_def split: if_splits sum.splits)

lemma file_write_flags: "file_handle_write dbg F d c w = (r, c', w') \<Longrightarrow> fc_flags c' = fc_flags c"
  by (auto simp: file_handle_write_def split: if_splits sum.splits prod.splits)

lemma request_keeps_rights:
  assumes "file_handle_request K dbg F peer st req c w = (c', w', rs, e)"
  shows "fc_flags c' \<inter> all_rights = fc_flags c \<inter> all_rights"
proof (cases req)
  case (FClone f)
  with assms show ?thesis by (auto split: file_clone.splits sum.splits if_splits)
next
  case FClose
  with assms show ?thesis by (auto simp: Let_def dest!: fsend_result_state split: prod.splits)
next
  case (FSetFlags f)
  with assms show ?thesis by (auto dest!: fsend_state)
qed (use assms in \<open>auto dest!: fsend_state fsend_result_state file_seek_flags file_write_flags
      split: prod.splits sum.splits fail.splits\<close>)

lemma request_keeps_content:
  assumes "content_kept F content" and "RIGHT_WRITABLE \<notin> fc_flags c"
    and "file_handle_request K dbg F peer st req c w = (c', w', rs, e)"
  shows "content w' = content w"
proof (cases req)
  case (FClone f)
  with assms show ?thesis by (auto simp: content_kept_def split: file_clone.splits sum.splits if_splits)
next
  case FClose
  with assms show ?thesis
    by (auto simp: open_file_close_def content_kept_def dest!: fsend_result_state split: prod.splits if_splits)
      (metis snd_conv)+
next
  case FSync
  with assms show ?thesis
    by (auto simp: the_file_def content_kept_def dest!: fsend_result_state split: prod.splits if_splits)
      (metis snd_conv)+
qed (use assms(3) in \<open>auto simp: write_needs_right [OF assms(2)] dest!: fsend_state fsend_result_state
      split: prod.splits sum.splits fail.splits\<close>)

lemma run_keeps_content:
  assumes "content_kept F content" and "RIGHT_WRITABLE \<notin> fc_flags c" and "file_run K dbg F evs c w = (c', w', rs)"
  shows "content w' = content w \<and> fc_flags c' \<inter> all_rights = fc_flags c \<inter> all_rights"
  using assms(2,3)
proof (induction evs arbitrary: c w rs)
  case Nil
  then show ?case by simp
next
  case (Cons ev evs)
  show ?case
  proof (cases ev)
    case None
    with Cons.prems show ?thesis by simp
  next
    case (Some t)
    obtain req peer st where t: "t = (req, peer, st)" by (cases t)
    obtain c1 w1 rs1 e where one: "file_handle_request K dbg F peer st req c w = (c1, w1, rs1, e)"
      by (metis prod_cases4)
    note r = request_keeps_rights [OF one] and k = request_keeps_content [OF assms(1) Cons.prems(1) one]
    have "RIGHT_WRITABLE \<notin> fc_flags c1" using r Cons.prems(1) by auto
    with Cons.IH [of c1 w1] Cons.prems(2) Some t one r k show ?thesis
      by (cases e) (auto split: prod.splits)
  qed
qed

text \<open>The new position, as a mathematical integer, and where it comes out of the 64 bits.\<close>

definition seek_target :: "('w, 'v) file_vt \<Rightarrow> seek_origin \<Rightarrow> 64 word \<Rightarrow> file_conn \<Rightarrow> 'w \<Rightarrow> int result" where
  "seek_target F start offset c w =
     (case start of
        SeekStart \<Rightarrow> Inr (sint offset)
      | SeekCurrent \<Rightarrow> Inr (uint (fc_seek c) + sint offset)
      | SeekEnd \<Rightarrow> bind_res (fst (the_file c (fv_get_size F w, w) w)) (\<lambda>n. Inr (uint n + sint offset)))"

lemma seek_exact:
  assumes "NODE_REFERENCE \<notin> fc_flags c" and "seek_target F start offset c w = Inr p" and "p < 2 ^ 64"
  shows "file_handle_seek F offset start c w =
     (if p < 0 then (Inl (Err OUT_OF_RANGE), c) else (Inr (word_of_int p), c\<lparr> fc_seek := word_of_int p \<rparr>))"
    and "0 \<le> p \<Longrightarrow> uint (word_of_int p :: 64 word) = p"
  using assms by (simp_all add: file_handle_seek_def seek_target_def uint_word_of_int_eq take_bit_int_eq_self)

lemma seek_wraps:
  "file_handle_seek F 0x7FFFFFFFFFFFFFFF SeekCurrent \<lparr> fc_present = True, fc_flags = {}, fc_seek = 0xFFFFFFFFFFFFFFFE \<rparr> w =
     (Inr 0x7FFFFFFFFFFFFFFD, \<lparr> fc_present = True, fc_flags = {}, fc_seek = 0x7FFFFFFFFFFFFFFD \<rparr>)"
  by (simp add: file_handle_seek_def sint_uint)

section \<open>Properties\<close>


text \<open>A file in memory, for the witness.\<close>

definition memory_file :: "(bytes, unit) file_vt" where
  "memory_file = \<lparr> fv_open = (\<lambda>f w. (Inr (), w)),
     fv_read_at = (\<lambda>off buf w. let d = take (length buf) (drop (unat off) w) in
       Inr (word_of_nat (length d), d @ drop (length d) buf)),
     fv_write_at = (\<lambda>off d w. (Inr (word_of_nat (length d)), take (unat off) w @ d @ drop (unat off + length d) w)),
     fv_append = (\<lambda>d w. (Inr (word_of_nat (length d), word_of_nat (length w + length d)), w @ d)),
     fv_truncate = (\<lambda>n w. (Inr (), take (unat n) w)), fv_get_buffer = (\<lambda>f w. Inl (Err NOT_SUPPORTED)),
     fv_get_size = (\<lambda>w. Inr (word_of_nat (length w))), fv_get_attrs = (\<lambda>w. Inr node_attributes_default),
     fv_set_attrs = (\<lambda>fl at w. (Inr (), w)), fv_close = (\<lambda>w. (Inr (), w)), fv_sync = (\<lambda>w. (Inr (), w)),
     fv_query_filesystem = (\<lambda>w. file_query_filesystem), fv_describe = (\<lambda>f w. file_describe f),
     fv_entry_open = (\<lambda>f w. w) \<rparr>"


end
