(* ===== verification/Vfs_Path.thy ===== *)
theory Vfs_Path
  imports Fio
begin

text \<open>
  \<open>vfs/rust/src/path.rs\<close>: the type \<open>Path\<close>, a string with a cursor, its validation and its
  component iterator. A path is well formed when its cursor lies within the string and what is left
  of the string is a canonical list of components.
\<close>

section \<open>The type and its operations\<close>

record path =
  p_is_dir :: bool
  p_inner :: string
  p_next :: nat

definition path_dot :: path where
  "path_dot = \<lparr>p_is_dir = False, p_inner = [], p_next = 0\<rparr>"

definition path_is_dot :: "path \<Rightarrow> bool" where
  "path_is_dot p \<longleftrightarrow> p_inner p = []"

text \<open>The loop over the components of \<open>validate_and_split\<close>.\<close>

fun check_components :: "fio \<Rightarrow> string list \<Rightarrow> unit result" where
  "check_components K [] = Inr ()"
| "check_components K (c # cs) =
     (if c = [] \<or> c = ''..'' \<or> c = ''.'' then Inl (Err INVALID_ARGS)
      else if length c > MAX_FILENAME K then Inl (Err BAD_PATH)
      else check_components K cs)"

definition validate_and_split :: "fio \<Rightarrow> string \<Rightarrow> path result" where
  "validate_and_split K path =
     (if length path > min (MAX_PATH K) (PATH_MAX K - 1) then Inl (Err BAD_PATH)
      else if path = ''.'' \<or> path = ''/'' then Inr path_dot
      else
        let is_dir = (path \<noteq> [] \<and> last path = slash);
            nxt = (if length path > 1 \<and> hd path = slash then 1 else 0);
            check = str_split slash (drop nxt path);
            check = (if is_dir then butlast check else check)
        in bind_res (check_components K check)
             (\<lambda>_. Inr \<lparr>p_is_dir = is_dir, p_inner = path, p_next = nxt\<rparr>))"

definition path_is_empty :: "path \<Rightarrow> bool" where
  "path_is_empty p \<longleftrightarrow> p_next p \<ge> length (p_inner p)"

definition path_is_dir :: "path \<Rightarrow> bool" where
  "path_is_dir p \<longleftrightarrow> p_is_dir p"

text \<open>\<open>inner.len() - 1\<close> on an empty string and a bad slice are panics.\<close>

definition is_single_component :: "path \<Rightarrow> bool result" where
  "is_single_component p =
     (if p_is_dir p \<and> p_inner p = [] then Inl Panic
      else
        let end = (if p_is_dir p then length (p_inner p) - 1 else length (p_inner p))
        in if p_next p < length (p_inner p)
           then bind_res (str_range (p_inner p) (p_next p) end) (\<lambda>s. Inr (str_find slash s = None))
           else Inr False)"

definition next_with_ref :: "path \<Rightarrow> (path \<times> string option) result" where
  "next_with_ref p =
     bind_res (str_from (p_inner p) (p_next p)) (\<lambda>rest.
       case str_find slash rest of
         Some i \<Rightarrow>
           bind_res (str_range (p_inner p) (p_next p) (p_next p + i)) (\<lambda>name.
             Inr (p\<lparr>p_next := p_next p + i + 1\<rparr>, Some name))
       | None \<Rightarrow>
           (if p_next p \<ge> length (p_inner p) then Inr (p, None)
            else Inr (p\<lparr>p_next := length (p_inner p)\<rparr>, Some rest)))"

definition path_next :: "path \<Rightarrow> (path \<times> string option) result" where
  "path_next p = next_with_ref p"

definition path_peek :: "path \<Rightarrow> string option result" where
  "path_peek p =
     bind_res (str_from (p_inner p) (p_next p)) (\<lambda>rest.
       case str_find slash rest of
         Some i \<Rightarrow> bind_res (str_range (p_inner p) (p_next p) (p_next p + i)) (\<lambda>name. Inr (Some name))
       | None \<Rightarrow> (if p_next p \<ge> length (p_inner p) then Inr None else Inr (Some rest)))"

text \<open>\<open>drain(0..next)\<close> panics when the cursor is past the end.\<close>

definition into_string :: "path \<Rightarrow> string result" where
  "into_string p = str_from (p_inner p) (p_next p)"

definition remainder :: "path \<Rightarrow> string" where
  "remainder p = (if path_is_empty p then ''.'' else drop (p_next p) (p_inner p))"

text \<open>\<open>PartialEq\<close> compares what is left of the two paths.\<close>

definition path_eq :: "path \<Rightarrow> path \<Rightarrow> bool" where
  "path_eq p q \<longleftrightarrow> remainder p = remainder q"

section \<open>Well-formed paths and what is left of them\<close>

definition valid_component :: "fio \<Rightarrow> string \<Rightarrow> bool" where
  "valid_component K c \<longleftrightarrow>
     c \<noteq> [] \<and> c \<noteq> ''.'' \<and> c \<noteq> ''..'' \<and> slash \<notin> set c \<and> length c \<le> MAX_FILENAME K"

definition max_path :: "fio \<Rightarrow> nat" where
  "max_path K = min (MAX_PATH K) (PATH_MAX K - 1)"

definition path_comps :: "path \<Rightarrow> string list" where
  "path_comps p =
     (let rest = drop (p_next p) (p_inner p)
      in if rest = [] then [] else str_split slash (if p_is_dir p then butlast rest else rest))"

definition path_wf :: "fio \<Rightarrow> path \<Rightarrow> bool" where
  "path_wf K p \<longleftrightarrow>
     p_next p \<le> length (p_inner p) \<and>
     (p_is_dir p \<longleftrightarrow> p_inner p \<noteq> [] \<and> last (p_inner p) = slash) \<and>
     length (p_inner p) \<le> max_path K \<and>
     (\<forall>c \<in> set (path_comps p). valid_component K c)"

lemma check_components_ok:
  "(\<And>c. c \<in> set cs \<Longrightarrow> slash \<notin> set c) \<Longrightarrow>
   check_components K cs = Inr u \<longleftrightarrow> (\<forall>c \<in> set cs. valid_component K c)"
  by (induction cs) (auto simp: valid_component_def)

lemma path_comps_empty_iff: "p_next p \<le> length (p_inner p) \<Longrightarrow> path_comps p = [] \<longleftrightarrow> path_is_empty p"
  by (auto simp: path_comps_def path_is_empty_def Let_def)

lemma path_wf_dot [simp]: "path_wf K path_dot" "path_comps path_dot = []" "path_is_empty path_dot"
  by (simp_all add: path_wf_def path_comps_def path_dot_def path_is_empty_def)

text \<open>One step of the iterator, on a well-formed path.\<close>

lemma next_with_ref_done:
  assumes "path_wf K p" and "path_comps p = []"
  shows "next_with_ref p = Inr (p, None)"
proof -
  from assms have "p_next p \<le> length (p_inner p)" "drop (p_next p) (p_inner p) = []"
    by (auto simp: path_wf_def path_comps_def Let_def split: if_splits)
  then show ?thesis by (simp add: next_with_ref_def)
qed

lemma wf_rest_last:
  assumes "path_wf K p" and "drop (p_next p) (p_inner p) \<noteq> []"
  shows "p_is_dir p \<longleftrightarrow> last (drop (p_next p) (p_inner p)) = slash"
  using assms by (auto simp: path_wf_def)

lemma next_with_ref_step:
  assumes wf: "path_wf K p" and comps: "path_comps p = c # cs"
  shows "\<exists>p'. next_with_ref p = Inr (p', Some c) \<and> path_wf K p' \<and> path_comps p' = cs \<and>
           p_inner p' = p_inner p \<and> p_is_dir p' = p_is_dir p \<and> p_next p < p_next p'"
proof -
  define rest where "rest = drop (p_next p) (p_inner p)"
  have le: "p_next p \<le> length (p_inner p)" using wf by (simp add: path_wf_def)
  have ne: "rest \<noteq> []" using comps by (auto simp: path_comps_def rest_def Let_def split: if_splits)
  have dir: "p_is_dir p \<longleftrightarrow> last rest = slash"
    using wf_rest_last [OF wf] ne by (simp add: rest_def)
  have eq: "c # cs = str_split slash (if p_is_dir p then butlast rest else rest)"
    using comps ne by (auto simp: path_comps_def rest_def Let_def split: if_splits)
  show ?thesis
  proof (cases "str_find slash rest")
    case None
    then have no: "slash \<notin> set rest" by simp
    with ne dir have "\<not> p_is_dir p" using last_in_set by metis
    with eq no have cc: "c = rest" "cs = []" by simp_all
    let ?p' = "p\<lparr>p_next := length (p_inner p)\<rparr>"
    have "next_with_ref p = Inr (?p', Some c)"
      using None le ne cc by (auto simp: next_with_ref_def rest_def)
    moreover have "path_comps ?p' = []" by (simp add: path_comps_def)
    moreover have "p_next p < length (p_inner p)" using ne by (simp add: rest_def)
    ultimately show ?thesis using wf cc by (auto simp: path_wf_def)
  next
    case (Some i)
    define rest' where "rest' = drop (Suc i) rest"
    from str_find_SomeD [OF Some] have i: "i < length rest" and no: "slash \<notin> set (take i rest)" by auto
    have split: "rest = take i rest @ slash # rest'"
      using str_find_split [OF Some] by (simp add: rest'_def)
    let ?p' = "p\<lparr>p_next := p_next p + i + 1\<rparr>"
    have in_range: "p_next p + i < length (p_inner p)" using i by (simp add: rest_def)
    have r': "drop (p_next ?p') (p_inner ?p') = rest'"
      by (simp add: rest'_def rest_def add.commute)
    have step: "c = take i rest \<and> cs = path_comps ?p'"
    proof (cases "p_is_dir p")
      case True
      show ?thesis
      proof (cases "rest' = []")
        case True
        then have "butlast rest = take i rest" using split by (metis butlast_snoc)
        with eq \<open>p_is_dir p\<close> no True r' show ?thesis by (simp add: path_comps_def)
      next
        case False
        then have "butlast rest = take i rest @ slash # butlast rest'"
          using split by (metis butlast.simps(2) butlast_append list.discI)
        with eq \<open>p_is_dir p\<close> no False r' show ?thesis
          by (simp add: path_comps_def)
      qed
    next
      case False
      with dir split have "rest' \<noteq> []" by (metis last_snoc)
      moreover have "str_split slash rest = take i rest # str_split slash rest'"
        using split no by (metis str_split_append)
      ultimately show ?thesis using eq False r' by (simp add: path_comps_def)
    qed
    have "next_with_ref p = Inr (?p', Some c)"
      using Some le in_range step by (simp add: next_with_ref_def rest_def)
    moreover have "path_wf K ?p'"
      using wf step comps in_range by (auto simp: path_wf_def)
    ultimately show ?thesis using step by fastforce
  qed
qed

interpretation pathit: item_iterator path_next path_comps "path_wf K" for K
proof unfold_locales
  fix p assume "path_wf K p" "path_comps p = []"
  then show "\<exists>p'. path_next p = Inr (p', None) \<and> path_wf K p' \<and> path_comps p' = []"
    by (auto simp: path_next_def next_with_ref_done)
next
  fix p c cs assume "path_wf K p" "path_comps p = c # cs"
  from next_with_ref_step [OF this]
  show "\<exists>p'. path_next p = Inr (p', Some c) \<and> path_wf K p' \<and> path_comps p' = cs"
    by (auto simp: path_next_def)
qed

section \<open>Validation\<close>

text \<open>The strings the grammar of the documentation describes, next to what the code computes.\<close>

definition canonical :: "fio \<Rightarrow> string \<Rightarrow> bool" where
  "canonical K s \<longleftrightarrow>
     s = ''.'' \<or> s = ''/'' \<or>
     (\<exists>lead cs trail. lead \<in> {[], [slash]} \<and> trail \<in> {[], [slash]} \<and> cs \<noteq> [] \<and>
        (\<forall>c \<in> set cs. valid_component K c) \<and> s = lead @ str_join slash cs @ trail)"

lemma join_not_slash_ends:
  assumes "cs \<noteq> []" and "\<forall>c \<in> set cs. valid_component K c"
  shows "str_join slash cs \<noteq> []" "hd (str_join slash cs) \<noteq> slash" "last (str_join slash cs) \<noteq> slash"
proof -
  have "str_join slash cs \<noteq> [] \<and> hd (str_join slash cs) \<noteq> slash \<and> last (str_join slash cs) \<noteq> slash"
    using assms
  proof (induction cs)
    case Nil
    then show ?case by simp
  next
    case (Cons c cs)
    then have c: "c \<noteq> []" "slash \<notin> set c" by (auto simp: valid_component_def)
    from c have "hd c \<noteq> slash" "last c \<noteq> slash" by (metis hd_in_set, metis last_in_set)
    with Cons c show ?case by (cases cs) auto
  qed
  then show "str_join slash cs \<noteq> []" "hd (str_join slash cs) \<noteq> slash" "last (str_join slash cs) \<noteq> slash"
    by blast+
qed

text \<open>The parameters of the path that a canonical string becomes.\<close>

lemma validate_canonical:
  assumes lead: "lead \<in> {[], [slash]}" and trail: "trail \<in> {[], [slash]}"
    and cs: "cs \<noteq> []" "\<forall>c \<in> set cs. valid_component K c"
    and s: "s = lead @ str_join slash cs @ trail" and len: "length s \<le> max_path K"
  shows "validate_and_split K s =
     Inr \<lparr>p_is_dir = (trail \<noteq> []), p_inner = s, p_next = length lead\<rparr>"
proof -
  let ?j = "str_join slash cs"
  note ends = join_not_slash_ends [OF cs]
  have nosep: "slash \<notin> set c" if "c \<in> set cs" for c using that cs by (auto simp: valid_component_def)
  have split: "str_split slash ?j = cs" using cs nosep by (intro str_split_join) auto
  have "?j \<noteq> ''.''"
  proof
    assume "?j = ''.''"
    then have "cs = [''.'']" using split by simp
    with cs(2) show False by (simp add: valid_component_def)
  qed
  with ends lead trail have dot: "\<not> (s = ''.'' \<or> s = ''/'')"
    unfolding s by (auto simp: append_eq_Cons_conv)
  have dir: "(s \<noteq> [] \<and> last s = slash) = (trail \<noteq> [])"
    unfolding s using ends trail by auto
  have nxt: "(if length s > 1 \<and> hd s = slash then 1 else 0) = length lead"
    unfolding s using ends lead by (cases ?j) auto
  have check: "(if trail \<noteq> [] then butlast (str_split slash (drop (length lead) s))
                else str_split slash (drop (length lead) s)) = cs"
    unfolding s using trail split by (auto simp: str_split_snoc)
  have ok: "check_components K cs = Inr ()"
    using check_components_ok [OF nosep] cs by auto
  have lim: "\<not> length s > min (MAX_PATH K) (PATH_MAX K - 1)"
    using len by (simp only: max_path_def not_less)
  show ?thesis
    unfolding validate_and_split_def Let_def if_not_P [OF lim] if_not_P [OF dot] dir nxt check ok
    by simp
qed

lemma validate_ok_canonical:
  assumes "validate_and_split K s = Inr p"
  shows "length s \<le> max_path K" and "canonical K s"
proof -
  show len: "length s \<le> max_path K"
    using assms by (auto simp: validate_and_split_def max_path_def split: if_splits)
  show "canonical K s"
  proof (cases "s = ''.'' \<or> s = ''/''")
    case True
    then show ?thesis by (auto simp: canonical_def)
  next
    case False
    define dir where "dir \<longleftrightarrow> s \<noteq> [] \<and> last s = slash"
    define lead where "lead = (if length s > 1 \<and> hd s = slash then [slash] else [])"
    define body where "body = (if dir then butlast (drop (length lead) s) else drop (length lead) s)"
    have rest: "drop (length lead) s \<noteq> []" if dir
      using that False by (cases s) (auto simp: dir_def lead_def split: if_splits)
    have cs: "(if dir then butlast (str_split slash (drop (length lead) s))
               else str_split slash (drop (length lead) s)) = str_split slash body"
    proof (cases dir)
      case True
      with rest have "last (drop (length lead) s) = slash" by (auto simp: dir_def)
      with True rest show ?thesis by (simp add: body_def str_split_snoc_last)
    qed (simp add: body_def)
    have "length lead = (if length s > 1 \<and> hd s = slash then 1 else 0)" by (simp add: lead_def)
    with assms False cs have "check_components K (str_split slash body) = Inr ()"
      by (auto simp: validate_and_split_def Let_def dir_def split: if_splits)
    then have "\<forall>c \<in> set (str_split slash body). valid_component K c"
      using check_components_ok [of "str_split slash body" K "()"] str_split_no_sep by metis
    moreover have "s = lead @ str_join slash (str_split slash body) @ (if dir then [slash] else [])"
    proof -
      have "s = lead @ drop (length lead) s"
        by (cases s) (auto simp: lead_def)
      moreover have "drop (length lead) s = body @ (if dir then [slash] else [])"
        using rest append_butlast_last_id [of "drop (length lead) s"]
        by (auto simp: body_def dir_def)
      ultimately show ?thesis by simp
    qed
    ultimately show ?thesis
      unfolding canonical_def
      by (intro disjI2 exI [of _ lead] exI [of _ "str_split slash body"]
            exI [of _ "if dir then [slash] else []"]) (auto simp: lead_def)
  qed
qed

lemma canonical_validates:
  assumes "canonical K s" and "length s \<le> max_path K"
  shows "\<exists>p. validate_and_split K s = Inr p \<and> path_wf K p \<and>
           path_comps p = (if s = ''.'' then [] else filter (\<lambda>c. c \<noteq> []) (str_split slash s)) \<and>
           (remainder p = s \<or> slash # remainder p = s \<or> s = ''/'')"
proof (cases "s = ''.'' \<or> s = ''/''")
  case True
  with assms(2) show ?thesis
    by (auto simp: validate_and_split_def max_path_def remainder_def)
next
  case False
  with assms(1) obtain lead cs trail where
    lead: "lead \<in> {[], [slash]}" and trail: "trail \<in> {[], [slash]}" and
    cs: "cs \<noteq> []" "\<forall>c \<in> set cs. valid_component K c" and s: "s = lead @ str_join slash cs @ trail"
    unfolding canonical_def by blast
  let ?p = "\<lparr>p_is_dir = (trail \<noteq> []), p_inner = s, p_next = length lead\<rparr>"
  note ends = join_not_slash_ends [OF cs]
  have split: "str_split slash (str_join slash cs) = cs"
    using cs by (intro str_split_join) (auto simp: valid_component_def)
  have rest: "drop (p_next ?p) (p_inner ?p) = str_join slash cs @ trail" by (simp add: s)
  have comps: "path_comps ?p = cs"
    using ends trail split rest by (auto simp: path_comps_def)
  have "path_wf K ?p"
    unfolding path_wf_def comps using assms(2) cs ends trail s by (auto simp: s)
  moreover have "validate_and_split K s = Inr ?p"
    using validate_canonical [OF lead trail cs s assms(2)] by simp
  moreover have "cs = filter (\<lambda>c. c \<noteq> []) (str_split slash s)"
  proof -
    have "filter (\<lambda>c. c \<noteq> []) cs = cs" using cs by (auto simp: valid_component_def filter_id_conv)
    with lead trail split show ?thesis by (auto simp: s str_split_snoc)
  qed
  moreover have "remainder ?p = s \<or> slash # remainder ?p = s"
    using lead ends by (auto simp: remainder_def path_is_empty_def s)
  ultimately show ?thesis using comps False by auto
qed

lemma str_split_single: "length (str_split c s) = 1 \<longleftrightarrow> c \<notin> set s"
proof (induction s)
  case Nil
  show ?case by simp
next
  case (Cons x s)
  then show ?case by (cases "str_split c s") auto
qed

lemma single_component_iff:
  assumes "path_wf K p"
  shows "is_single_component p = Inr (length (path_comps p) = 1)"
proof -
  define rest where "rest = drop (p_next p) (p_inner p)"
  have le: "p_next p \<le> length (p_inner p)" using assms by (simp add: path_wf_def)
  have dir: "p_is_dir p \<Longrightarrow> p_inner p \<noteq> []" using assms by (simp add: path_wf_def)
  show ?thesis
  proof (cases "p_next p < length (p_inner p)")
    case True
    have "take (length (p_inner p) - 1 - p_next p) rest = butlast rest"
      by (simp add: butlast_conv_take rest_def)
    moreover have "take (length (p_inner p) - p_next p) rest = rest" by (simp add: rest_def)
    ultimately have "is_single_component p =
        Inr (slash \<notin> set (if p_is_dir p then butlast rest else rest))"
      using True dir by (auto simp: is_single_component_def rest_def)
    with True show ?thesis
      by (simp add: path_comps_def rest_def str_split_single del: One_nat_def)
  next
    case False
    with dir show ?thesis by (auto simp: is_single_component_def path_comps_def)
  qed
qed

lemma peek_is_next: "bind_res (path_next p) (\<lambda>(_, x). Inr x) = path_peek p"
  by (cases "p_next p \<le> length (p_inner p)")
    (auto simp: path_peek_def path_next_def next_with_ref_def str_from_def str_range_def split: option.splits)

section \<open>Properties\<close>

text \<open>C13. \<open>Path::validate_and_split\<close> accepts exactly the canonical paths of the documentation that are
  no longer than the limit: \<open>"."\<close>, \<open>"/"\<close>, or a non-empty list of components joined by \<open>/\<close>, each of
  them neither empty, \<open>"."\<close>, \<open>".."\<close> nor longer than \<open>MAX_FILENAME\<close>, with an optional leading and an
  optional trailing slash. Every other string is an error, and no input makes it panic.\<close>

theorem validate_and_split_accepts:
  "(is_ok (validate_and_split K s) \<longleftrightarrow>
      canonical K s \<and> length s \<le> min (MAX_PATH K) (PATH_MAX K - 1)) \<and>
   validate_and_split K s \<noteq> Inl Panic"
proof (rule conjI)
  show "is_ok (validate_and_split K s) \<longleftrightarrow>
     canonical K s \<and> length s \<le> min (MAX_PATH K) (PATH_MAX K - 1)"
    unfolding max_path_def [symmetric] is_ok_def
    using validate_ok_canonical canonical_validates by blast
  have "check_components K cs \<noteq> Inl Panic" for cs by (induction cs) auto
  then show "validate_and_split K s \<noteq> Inl Panic"
    by (auto simp: validate_and_split_def Let_def bind_res_Inl_iff)
qed

text \<open>Iterating \<open>Path::next\<close> over a validated path ends and yields, without a panic, exactly the
  non-empty pieces of the string between its slashes, in order (none at all for \<open>"."\<close>).\<close>

theorem path_next_yields_components:
  assumes "validate_and_split K s = Inr p"
  shows "\<exists>q. drain_iter path_next (length s + 2) p =
           Inr (if s = ''.'' then [] else filter (\<lambda>c. c \<noteq> []) (str_split slash s), q)"
proof -
  from validate_ok_canonical [OF assms] have s: "canonical K s" "length s \<le> max_path K" by auto
  from canonical_validates [OF s] assms have p: "path_wf K p"
    "path_comps p = (if s = ''.'' then [] else filter (\<lambda>c. c \<noteq> []) (str_split slash s))" by auto
  have "length (str_split slash s) \<le> length s + 1"
    by (induction s) (auto split: list.splits)
  then have "length (path_comps p) \<le> length s + 1"
    using p(2) le_trans [OF length_filter_le [of "\<lambda>c. c \<noteq> []" "str_split slash s"]]
    by (cases "s = ''.''") auto
  then have "length (path_comps p) < length s + 2" by simp
  from pathit.drain_all [OF p(1) this] p(2) show ?thesis by auto
qed

theorem path_next_yields_components_witness:
  "\<exists>q. drain_iter path_next (length ''/a/bc/'' + 2)
         \<lparr>p_is_dir = True, p_inner = ''/a/bc/'', p_next = 1\<rparr> = Inr ([''a'', ''bc''], q)"
proof -
  have "validate_and_split fio_values ''/a/bc/'' =
        Inr \<lparr>p_is_dir = True, p_inner = ''/a/bc/'', p_next = 1\<rparr>"
    by (simp add: validate_and_split_def)
  from path_next_yields_components [OF this] show ?thesis by simp
qed

text \<open>What is left of a path at any point of the iteration is again a valid path for fuchsia.io:
  \<open>as_ref\<close> of a well-formed path (and every validated path, and every path reached from one by
  \<open>next\<close>, is well formed) is accepted by \<open>validate_and_split\<close> and gives an equal path with the same
  remaining components.\<close>

theorem remainder_revalidates:
  assumes "path_wf K p" and "1 \<le> min (MAX_PATH K) (PATH_MAX K - 1)"
  shows "\<exists>q. validate_and_split K (remainder p) = Inr q \<and> path_eq p q \<and> path_comps q = path_comps p"
proof (cases "path_is_empty p")
  case True
  with assms show ?thesis
    by (auto simp: remainder_def validate_and_split_def path_eq_def path_comps_def path_is_empty_def
        path_dot_def)
next
  case False
  define rest where "rest = drop (p_next p) (p_inner p)"
  have ne: "rest \<noteq> []" using False by (simp add: rest_def path_is_empty_def)
  have r: "remainder p = rest" using False by (simp add: remainder_def rest_def)
  have cs: "path_comps p = str_split slash (if p_is_dir p then butlast rest else rest)"
    using ne by (auto simp: path_comps_def rest_def Let_def)
  have val: "\<forall>c \<in> set (path_comps p). valid_component K c" using assms(1) by (simp add: path_wf_def)
  define trail where "trail = (if p_is_dir p then [slash] else [])"
  have body: "rest = [] @ str_join slash (path_comps p) @ trail"
    using wf_rest_last [OF assms(1)] ne append_butlast_last_id [OF ne]
    by (auto simp: cs trail_def rest_def)
  have len: "length rest \<le> max_path K" using assms(1) by (auto simp: path_wf_def rest_def)
  have "validate_and_split K rest =
     Inr \<lparr>p_is_dir = (trail \<noteq> []), p_inner = rest, p_next = length ([] :: string)\<rparr>"
    by (rule validate_canonical [OF _ _ _ val body len]) (auto simp: trail_def cs)
  with r ne cs show ?thesis
    by (auto simp: path_eq_def remainder_def path_is_empty_def path_comps_def trail_def rest_def)
qed

theorem remainder_revalidates_witness:
  "\<exists>q. validate_and_split fio_values
         (remainder \<lparr>p_is_dir = True, p_inner = ''a/bc/d/'', p_next = 2\<rparr>) = Inr q \<and>
       path_comps q = [''bc'', ''d'']"
proof -
  let ?p = "\<lparr>p_is_dir = True, p_inner = ''a/bc/d/'', p_next = 2\<rparr>"
  have c: "path_comps ?p = [''bc'', ''d'']" by (simp add: path_comps_def)
  have "path_wf fio_values ?p"
    by (simp add: path_wf_def c valid_component_def max_path_def)
  from remainder_revalidates [OF this] c show ?thesis by auto
qed

text \<open>On a well-formed path \<open>peek\<close> returns the component that the following \<open>next\<close> returns, and
  \<open>is_single_component\<close> holds exactly when one component is left; neither panics.\<close>

theorem peek_and_single_component:
  assumes "path_wf K p"
  shows "path_peek p = Inr (case path_comps p of [] \<Rightarrow> None | c # _ \<Rightarrow> Some c) \<and>
         bind_res (path_next p) (\<lambda>(_, x). Inr x) = path_peek p \<and>
         is_single_component p = Inr (length (path_comps p) = 1)"
proof -
  have peek: "path_peek p = Inr (case path_comps p of [] \<Rightarrow> None | c # _ \<Rightarrow> Some c)"
  proof (cases "path_comps p")
    case Nil
    with next_with_ref_done [OF assms] peek_is_next [of p] show ?thesis by (simp add: path_next_def)
  next
    case (Cons c cs)
    with next_with_ref_step [OF assms] peek_is_next [of p] show ?thesis by (auto simp: path_next_def)
  qed
  with peek_is_next single_component_iff [OF assms] show ?thesis by blast
qed

theorem peek_and_single_component_witness:
  "path_peek \<lparr>p_is_dir = True, p_inner = ''a/bc/'', p_next = 2\<rparr> = Inr (Some ''bc'') \<and>
   is_single_component \<lparr>p_is_dir = True, p_inner = ''a/bc/'', p_next = 2\<rparr> = Inr True"
proof -
  let ?p = "\<lparr>p_is_dir = True, p_inner = ''a/bc/'', p_next = 2\<rparr>"
  have c: "path_comps ?p = [''bc'']" by (simp add: path_comps_def)
  have "path_wf fio_values ?p"
    by (simp add: path_wf_def c valid_component_def max_path_def)
  from peek_and_single_component [OF this] c show ?thesis by simp
qed

end
