(* ===== verification/Watchers.thy ===== *)
theory Watchers
  imports Fio Sorted_Map
begin

text \<open>
  Directory watchers: the event producers (\<open>directory/watchers/event_producers.rs\<close>), the controllers
  of the watcher tasks (\<open>directory/watchers/watcher.rs\<close>), the collection of the watchers of one
  directory (\<open>directory/watchers.rs\<close>) and, on the other end of the channel, the client that parses the
  buffers (\<open>fuchsia-vfs-watcher\<close>). The trait \<open>EventProducer\<close> is the record \<open>producer_vt\<close> of its
  methods, and its contract is the locale \<open>event_producer\<close>.
\<close>

section \<open>event\_producers.rs\<close>

definition encode_name :: "fio \<Rightarrow> bool \<Rightarrow> bytes \<Rightarrow> watch_event \<Rightarrow> string \<Rightarrow> (bool \<times> bytes) result" where
  "encode_name K dbg buffer event name =
     (if length buffer + (2 + length name) > MAX_BUF K then Inr (False, buffer)
      else if dbg \<and> \<not> 255 \<ge> MAX_FILENAME K then Inl Panic
      else Inr (True, buffer @ [watch_event_primitive K event, word_of_nat (length name)] @ str_bytes name))"

record CachingEventProducer =
  ce_mask :: WatchMask
  ce_event :: watch_event
  ce_current :: "bytes option"

definition caching_new :: "WatchMask \<Rightarrow> watch_event \<Rightarrow> CachingEventProducer" where
  "caching_new msk event = \<lparr>ce_mask = msk, ce_event = event, ce_current = None\<rparr>"

definition caching_prepare :: "CachingEventProducer \<Rightarrow> CachingEventProducer" where
  "caching_prepare c = c\<lparr>ce_current := None\<rparr>"

text \<open>\<open>buffer\<close> with its callback; the state \<open>'s\<close> the callback captures is passed explicitly.\<close>

definition caching_buffer ::
    "(watch_event \<Rightarrow> 's \<Rightarrow> (bytes \<times> 's) result) \<Rightarrow> CachingEventProducer \<Rightarrow> 's \<Rightarrow>
     (bytes \<times> CachingEventProducer \<times> 's) result" where
  "caching_buffer fill c s =
     (case ce_current c of
        Some buf \<Rightarrow> Inr (buf, c, s)
      | None \<Rightarrow> bind_res (fill (ce_event c) s) (\<lambda>(buf, s'). Inr (buf, c\<lparr>ce_current := Some buf\<rparr>, s')))"

record StaticVecEventProducer =
  sv_cache :: CachingEventProducer
  sv_names :: "string list"
  sv_next :: nat

definition static_vec_new :: "bool \<Rightarrow> WatchMask \<Rightarrow> watch_event \<Rightarrow> string list \<Rightarrow> StaticVecEventProducer result" where
  "static_vec_new dbg msk event names =
     (if dbg \<and> names = [] then Inl Panic
      else Inr \<lparr>sv_cache = caching_new msk event, sv_names = names, sv_next = 0\<rparr>)"

definition static_vec_existing :: "bool \<Rightarrow> string list \<Rightarrow> StaticVecEventProducer result" where
  "static_vec_existing dbg names = static_vec_new dbg {WATCH_EXISTING} EvExisting names"

definition static_vec_added :: "bool \<Rightarrow> string list \<Rightarrow> StaticVecEventProducer result" where
  "static_vec_added dbg names = static_vec_new dbg {WATCH_ADDED} EvAdded names"

definition static_vec_removed :: "bool \<Rightarrow> string list \<Rightarrow> StaticVecEventProducer result" where
  "static_vec_removed dbg names = static_vec_new dbg {WATCH_REMOVED} EvRemoved names"

text \<open>The loop of \<open>fill_buffer\<close>.\<close>

function fill_loop ::
    "fio \<Rightarrow> bool \<Rightarrow> watch_event \<Rightarrow> string list \<Rightarrow> nat \<Rightarrow> bytes \<Rightarrow> (bytes \<times> nat) result" where
  "fill_loop K dbg event names nxt buffer =
     (if nxt < length names then
        bind_res (encode_name K dbg buffer event (names ! nxt)) (\<lambda>(ok, buffer').
          if \<not> ok then Inr (buffer', nxt)
          else fill_loop K dbg event names (nxt + 1) buffer')
      else Inr (buffer, nxt))"
  by pat_completeness auto
termination
  by (relation "measure (\<lambda>(K, dbg, event, names, nxt, buffer). length names - nxt)") auto

declare fill_loop.simps [simp del]

definition fill_buffer :: "fio \<Rightarrow> bool \<Rightarrow> string list \<Rightarrow> watch_event \<Rightarrow> nat \<Rightarrow> (bytes \<times> nat) result" where
  "fill_buffer K dbg names event nxt = fill_loop K dbg event names nxt []"

definition static_vec_mask :: "StaticVecEventProducer \<Rightarrow> WatchMask" where
  "static_vec_mask p = ce_mask (sv_cache p)"

definition static_vec_prepare :: "StaticVecEventProducer \<Rightarrow> bool \<times> StaticVecEventProducer" where
  "static_vec_prepare p =
     (let p' = p\<lparr>sv_cache := caching_prepare (sv_cache p)\<rparr> in (sv_next p' < length (sv_names p'), p'))"

definition static_vec_buffer ::
    "fio \<Rightarrow> bool \<Rightarrow> StaticVecEventProducer \<Rightarrow> (bytes \<times> StaticVecEventProducer) result" where
  "static_vec_buffer K dbg p =
     bind_res (caching_buffer (fill_buffer K dbg (sv_names p)) (sv_cache p) (sv_next p))
       (\<lambda>(buf, c, nxt). Inr (buf, p\<lparr>sv_cache := c, sv_next := nxt\<rparr>))"

datatype SingleBufferEventProducerState = Start | FirstEvent | Done

record SingleBufferEventProducer =
  sb_mask :: WatchMask
  sb_event :: watch_event
  sb_buffer :: bytes
  sb_state :: SingleBufferEventProducerState

definition single_buffer_new ::
    "fio \<Rightarrow> bool \<Rightarrow> WatchMask \<Rightarrow> watch_event \<Rightarrow> bytes \<Rightarrow> SingleBufferEventProducer result" where
  "single_buffer_new K dbg msk event buffer =
     (if dbg \<and> \<not> length buffer \<le> MAX_BUF K then Inl Panic
      else Inr \<lparr>sb_mask = msk, sb_event = event, sb_buffer = buffer, sb_state = Start\<rparr>)"

definition single_buffer_existing :: "fio \<Rightarrow> bool \<Rightarrow> bytes \<Rightarrow> SingleBufferEventProducer result" where
  "single_buffer_existing K dbg buffer =
     (if dbg \<and> \<not> length buffer \<le> MAX_BUF K then Inl Panic
      else single_buffer_new K dbg {WATCH_EXISTING} EvExisting buffer)"

definition single_buffer_prepare :: "SingleBufferEventProducer \<Rightarrow> bool \<times> SingleBufferEventProducer" where
  "single_buffer_prepare p =
     (case sb_state p of
        Start \<Rightarrow> (True, p\<lparr>sb_state := FirstEvent\<rparr>)
      | FirstEvent \<Rightarrow> (False, p\<lparr>sb_state := Done\<rparr>)
      | Done \<Rightarrow> (False, p))"

definition single_buffer_buffer :: "SingleBufferEventProducer \<Rightarrow> (bytes \<times> SingleBufferEventProducer) result" where
  "single_buffer_buffer p = Inr (sb_buffer p, p)"

text \<open>\<open>SingleNameEventProducer\<close> wraps one single-buffer producer.\<close>

definition single_name_new ::
    "fio \<Rightarrow> bool \<Rightarrow> WatchMask \<Rightarrow> watch_event \<Rightarrow> string \<Rightarrow> SingleBufferEventProducer result" where
  "single_name_new K dbg msk event name =
     bind_res (encode_name K dbg [] event name) (\<lambda>(_, buffer). single_buffer_new K dbg msk event buffer)"

definition single_name_deleted :: "fio \<Rightarrow> bool \<Rightarrow> string \<Rightarrow> SingleBufferEventProducer result" where
  "single_name_deleted K dbg name = single_name_new K dbg {WATCH_DELETED} EvDeleted name"

definition single_name_added :: "fio \<Rightarrow> bool \<Rightarrow> string \<Rightarrow> SingleBufferEventProducer result" where
  "single_name_added K dbg name = single_name_new K dbg {WATCH_ADDED} EvAdded name"

definition single_name_removed :: "fio \<Rightarrow> bool \<Rightarrow> string \<Rightarrow> SingleBufferEventProducer result" where
  "single_name_removed K dbg name = single_name_new K dbg {WATCH_REMOVED} EvRemoved name"

definition single_name_existing :: "fio \<Rightarrow> bool \<Rightarrow> string \<Rightarrow> SingleBufferEventProducer result" where
  "single_name_existing K dbg name = single_name_new K dbg {WATCH_EXISTING} EvExisting name"

definition single_name_idle :: "fio \<Rightarrow> bool \<Rightarrow> SingleBufferEventProducer result" where
  "single_name_idle K dbg = single_name_new K dbg {WATCH_IDLE} EvIdle []"

text \<open>The methods of the trait that the watchers call.\<close>

record 'p producer_vt =
  vt_mask :: "'p \<Rightarrow> WatchMask"
  vt_prepare :: "'p \<Rightarrow> bool \<times> 'p"
  vt_buffer :: "'p \<Rightarrow> (bytes \<times> 'p) result"

definition static_vec_vt :: "fio \<Rightarrow> bool \<Rightarrow> StaticVecEventProducer producer_vt" where
  "static_vec_vt K dbg =
     \<lparr>vt_mask = static_vec_mask, vt_prepare = static_vec_prepare, vt_buffer = static_vec_buffer K dbg\<rparr>"

definition single_vt :: "SingleBufferEventProducer producer_vt" where
  "single_vt = \<lparr>vt_mask = sb_mask, vt_prepare = single_buffer_prepare, vt_buffer = single_buffer_buffer\<rparr>"

section \<open>watcher.rs\<close>

datatype Command = Send bytes | Disconnect

text \<open>
  A controller with the commands that are in the channel to its task. The channel is unbounded and a
  send fails only when the receiving task is gone (\<open>c_alive\<close>).
\<close>

record Controller =
  c_mask :: WatchMask
  c_commands :: "Command list"
  c_alive :: bool

definition unbounded_send :: "Controller \<Rightarrow> Command \<Rightarrow> Controller option" where
  "unbounded_send c cmd = (if c_alive c then Some (c\<lparr>c_commands := c_commands c @ [cmd]\<rparr>) else None)"

text \<open>The controller after a send whose failure is only a debug assertion.\<close>

definition send_or_assert :: "bool \<Rightarrow> Controller \<Rightarrow> Command \<Rightarrow> Controller result" where
  "send_or_assert dbg c cmd =
     (case unbounded_send c cmd of Some c' \<Rightarrow> Inr c' | None \<Rightarrow> if dbg then Inl Panic else Inr c)"

definition controller_send_buffer ::
    "'p producer_vt \<Rightarrow> bool \<Rightarrow> WatchMask \<Rightarrow> Controller \<Rightarrow> 'p \<Rightarrow> (Controller \<times> 'p \<times> bool) result" where
  "controller_send_buffer vt dbg msk c p =
     (if \<not> intersects (c_mask c) msk then Inr (c, p, False)
      else bind_res (vt_buffer vt p) (\<lambda>(buf, p').
             bind_res (send_or_assert dbg c (Send buf)) (\<lambda>c'. Inr (c', p', True))))"

text \<open>The loop of \<open>Controller::send_event\<close>; the fuel bounds its rounds.\<close>

fun controller_send_loop ::
    "'p producer_vt \<Rightarrow> bool \<Rightarrow> nat \<Rightarrow> Controller \<Rightarrow> 'p \<Rightarrow> (Controller \<times> 'p) result" where
  "controller_send_loop vt dbg 0 c p = Inl Panic"
| "controller_send_loop vt dbg (Suc n) c p =
     (let (more, p') = vt_prepare vt p
      in if \<not> more then Inr (c, p')
         else bind_res (vt_buffer vt p') (\<lambda>(buf, p'').
                bind_res (send_or_assert dbg c (Send buf)) (\<lambda>c'.
                  controller_send_loop vt dbg n c' p'')))"

definition controller_send_event ::
    "'p producer_vt \<Rightarrow> bool \<Rightarrow> nat \<Rightarrow> Controller \<Rightarrow> 'p \<Rightarrow> (bool \<times> Controller \<times> 'p) result" where
  "controller_send_event vt dbg fuel c p =
     (if \<not> intersects (c_mask c) (vt_mask vt p) then Inr (False, c, p)
      else bind_res (controller_send_loop vt dbg fuel c p) (\<lambda>(c', p'). Inr (True, c', p')))"

definition controller_disconnect :: "bool \<Rightarrow> Controller \<Rightarrow> Controller result" where
  "controller_disconnect dbg c = send_or_assert dbg c Disconnect"

text \<open>
  The task of a watcher: what the \<open>select!\<close> returns, one element per round, until the loop breaks.
  \<open>write_ok\<close> is whether the channel accepts a write. The result is what was written, and whether the
  task is still running; when it is not, its \<open>done\<close> callback has run.
\<close>

datatype task_event = TaskCommand Command | TaskSenderGone | TaskChannelReadable

fun watcher_task :: "(bytes \<Rightarrow> bool) \<Rightarrow> task_event list \<Rightarrow> bytes list \<times> bool" where
  "watcher_task write_ok [] = ([], True)"
| "watcher_task write_ok (TaskCommand (Send buf) # evs) =
     (if write_ok buf then (let (w, r) = watcher_task write_ok evs in (buf # w, r)) else ([], False))"
| "watcher_task write_ok (TaskCommand Disconnect # evs) = ([], False)"
| "watcher_task write_ok (TaskSenderGone # evs) = ([], False)"
| "watcher_task write_ok (TaskChannelReadable # evs) = ([], False)"

section \<open>watchers.rs\<close>

text \<open>
  The slab of controllers, by key. Which key a new entry gets is decided by the \<open>slab\<close> crate
  (\<open>vacant\<close>); it promises a key that is not in use.
\<close>

type_synonym watchers = "(nat, Controller) sorted_map"

definition vacant_ok :: "(nat set \<Rightarrow> nat) \<Rightarrow> bool" where
  "vacant_ok vacant \<longleftrightarrow> (\<forall>keys. finite keys \<longrightarrow> vacant keys \<notin> keys)"

definition watchers_new :: watchers where
  "watchers_new = []"

definition watchers_add :: "(nat set \<Rightarrow> nat) \<Rightarrow> watchers \<Rightarrow> WatchMask \<Rightarrow> nat \<times> watchers" where
  "watchers_add vacant ws msk =
     (let key = vacant (fst ` set ws)
      in (key, sm_insert key \<lparr>c_mask = msk, c_commands = [], c_alive = True\<rparr> ws))"

text \<open>\<open>Slab::remove\<close> panics when the key is not in use.\<close>

definition watchers_remove :: "watchers \<Rightarrow> nat \<Rightarrow> watchers result" where
  "watchers_remove ws key = (if sm_get ws key = None then Inl Panic else Inr (sm_remove key ws))"

fun send_round ::
    "'p producer_vt \<Rightarrow> bool \<Rightarrow> watchers \<Rightarrow> 'p \<Rightarrow> bool \<Rightarrow> (watchers \<times> 'p \<times> bool) result" where
  "send_round vt dbg [] p consumed_any = Inr ([], p, consumed_any)"
| "send_round vt dbg ((key, c) # ws) p consumed_any =
     bind_res (controller_send_buffer vt dbg (vt_mask vt p) c p) (\<lambda>(c', p', used).
       bind_res (send_round vt dbg ws p' (consumed_any \<or> used)) (\<lambda>(ws', p'', consumed).
         Inr ((key, c') # ws', p'', consumed)))"

fun watchers_send_event :: "'p producer_vt \<Rightarrow> bool \<Rightarrow> nat \<Rightarrow> watchers \<Rightarrow> 'p \<Rightarrow> watchers result" where
  "watchers_send_event vt dbg 0 ws p = Inl Panic"
| "watchers_send_event vt dbg (Suc n) ws p =
     (let (more, p') = vt_prepare vt p
      in if \<not> more then Inr ws
         else bind_res (send_round vt dbg ws p' False) (\<lambda>(ws', p'', consumed_any).
                if \<not> consumed_any then Inr ws' else watchers_send_event vt dbg n ws' p''))"

section \<open>fuchsia-vfs-watcher\<close>

text \<open>
  The client's view of one message. The event is the raw byte that the code reinterprets as the FIDL
  enum; \<open>size_of::<vfs_watch_msg_t>()\<close> is 2.
\<close>

record WatchMessage =
  wm_event :: "8 word"
  wm_filename :: string

definition msg_from_raw :: "bytes \<Rightarrow> (8 word \<times> bytes) option" where
  "msg_from_raw buf =
     (if length buf < 2 then None
      else
        let event = buf ! 0; namelen = unat (buf ! 1)
        in if length buf < 2 + namelen then None
           else Some (event, take namelen (drop 2 buf)))"

record Watcher =
  w_buf :: bytes
  w_idx :: nat

definition watcher_reset_buf :: "Watcher \<Rightarrow> Watcher" where
  "watcher_reset_buf w = w\<lparr>w_idx := 0, w_buf := []\<rparr>"

definition get_next_msg :: "Watcher \<Rightarrow> (WatchMessage \<times> Watcher) result" where
  "get_next_msg w =
     (if \<not> w_idx w < length (w_buf w) then Inl Panic
      else case msg_from_raw (drop (w_idx w) (w_buf w)) of
             None \<Rightarrow> Inl Panic
           | Some (event, name) \<Rightarrow>
               Inr (\<lparr>wm_event = event, wm_filename = bytes_str name\<rparr>,
                    w\<lparr>w_idx := w_idx w + (2 + length name)\<rparr>))"

text \<open>What \<open>recv_from\<close> finds on the channel, and what \<open>poll_next\<close> answers.\<close>

datatype recv_result = RecvOk bytes | RecvErr status | RecvPending

datatype watch_poll = PollPending | PollErr status | PollMsg WatchMessage

definition watcher_poll_next :: "Watcher \<Rightarrow> recv_result \<Rightarrow> (watch_poll \<times> Watcher) result" where
  "watcher_poll_next w recv =
     (let w = (if w_idx w \<ge> length (w_buf w) then watcher_reset_buf w else w)
      in if w_idx w = 0 then
           (case recv of
              RecvOk buf \<Rightarrow> bind_res (get_next_msg (w\<lparr>w_buf := buf\<rparr>)) (\<lambda>(m, w'). Inr (PollMsg m, w'))
            | RecvErr st \<Rightarrow> Inr (PollErr st, w)
            | RecvPending \<Rightarrow> Inr (PollPending, w))
         else bind_res (get_next_msg w) (\<lambda>(m, w'). Inr (PollMsg m, w')))"

text \<open>
  A client that polls until the queue of the channel is empty: a buffer is taken from the queue only
  when the poll reads the channel. The fuel bounds the number of polls.
\<close>

fun watcher_drain :: "nat \<Rightarrow> Watcher \<Rightarrow> bytes list \<Rightarrow> WatchMessage list result" where
  "watcher_drain 0 w queue = Inl Panic"
| "watcher_drain (Suc n) w queue =
     (let reads = (w_idx w \<ge> length (w_buf w) \<or> w_idx w = 0);
          recv = (case queue of [] \<Rightarrow> RecvPending | b # _ \<Rightarrow> RecvOk b)
      in bind_res (watcher_poll_next w recv) (\<lambda>(r, w').
           case r of
             PollMsg m \<Rightarrow>
               bind_res (watcher_drain n w' (if reads then tl queue else queue)) (\<lambda>ms. Inr (m # ms))
           | _ \<Rightarrow> Inr []))"

section \<open>The contract of an event producer\<close>

text \<open>
  \<open>pending p\<close> are the buffers the producer has still to deliver; \<open>holding q b bs\<close> says that \<open>q\<close> was
  prepared for the buffer \<open>b\<close>, with \<open>bs\<close> to follow. The laws are those of the trait's documentation:
  a producer is prepared exactly when a buffer is left, and \<open>buffer\<close> returns copies of the same buffer
  until the next preparation.
\<close>

locale event_producer =
  fixes vt :: "'p producer_vt"
    and pending :: "'p \<Rightarrow> bytes list"
    and holding :: "'p \<Rightarrow> bytes \<Rightarrow> bytes list \<Rightarrow> bool"
    and good :: "'p \<Rightarrow> bool"
  assumes prepare_end: "good p \<Longrightarrow> pending p = [] \<Longrightarrow> \<not> fst (vt_prepare vt p)"
    and prepare_more: "good p \<Longrightarrow> pending p = b # bs \<Longrightarrow>
          \<exists>q. vt_prepare vt p = (True, q) \<and> holding q b bs \<and> vt_mask vt q = vt_mask vt p"
    and buffer_current: "holding q b bs \<Longrightarrow>
          \<exists>r. vt_buffer vt q = Inr (b, r) \<and> holding r b bs \<and> good r \<and> pending r = bs \<and>
              vt_mask vt r = vt_mask vt q"
begin

lemma controller_loop_delivers:
  assumes "good p" and "c_alive c" and "length (pending p) < n"
  shows "\<exists>p'. controller_send_loop vt dbg n c p =
           Inr (c\<lparr>c_commands := c_commands c @ map Send (pending p)\<rparr>, p')"
  using assms
proof (induction n arbitrary: p c)
  case 0
  then show ?case by simp
next
  case (Suc n)
  show ?case
  proof (cases "pending p")
    case Nil
    with prepare_end [OF Suc.prems(1)] show ?thesis by (auto split: prod.splits)
  next
    case (Cons b bs)
    then obtain q r where q: "vt_prepare vt p = (True, q)" and
      r: "vt_buffer vt q = Inr (b, r)" "good r" "pending r = bs"
      using prepare_more [OF Suc.prems(1)] buffer_current by metis
    let ?c = "c\<lparr>c_commands := c_commands c @ [Send b]\<rparr>"
    have "\<exists>p'. controller_send_loop vt dbg n ?c r =
        Inr (?c\<lparr>c_commands := c_commands ?c @ map Send (pending r)\<rparr>, p')"
      using Suc.prems Cons r by (intro Suc.IH) auto
    then show ?thesis using q r Cons Suc.prems(2)
      by (auto simp: send_or_assert_def unbounded_send_def)
  qed
qed

text \<open>The effect of an event on one controller: the pending buffers when it asked for them.\<close>

definition deliver :: "'p \<Rightarrow> Controller \<Rightarrow> Controller" where
  "deliver p c =
     (if intersects (c_mask c) (vt_mask vt p)
      then c\<lparr>c_commands := c_commands c @ map Send (pending p)\<rparr> else c)"

lemma controller_event_delivers:
  assumes "good p" and "c_alive c" and "length (pending p) < n"
  shows "\<exists>p'. controller_send_event vt dbg n c p =
           Inr (intersects (c_mask c) (vt_mask vt p), deliver p c, p')"
  using controller_loop_delivers [OF assms] by (auto simp: controller_send_event_def deliver_def)

lemma round_delivers:
  assumes "holding q b bs \<and> (used \<longrightarrow> good q \<and> pending q = bs)" and "\<forall>(k, c) \<in> set ws. c_alive c"
  shows "\<exists>r. send_round vt dbg ws q used =
      Inr (map (\<lambda>(k, c). (k, if intersects (c_mask c) (vt_mask vt q)
              then c\<lparr>c_commands := c_commands c @ [Send b]\<rparr> else c)) ws, r,
            used \<or> (\<exists>(k, c) \<in> set ws. intersects (c_mask c) (vt_mask vt q))) \<and>
      (used \<or> (\<exists>(k, c) \<in> set ws. intersects (c_mask c) (vt_mask vt q)) \<longrightarrow> good r \<and> pending r = bs) \<and>
      vt_mask vt r = vt_mask vt q"
  using assms
proof (induction ws arbitrary: q used)
  case Nil
  then show ?case by auto
next
  case (Cons kc ws)
  obtain k c where kc: "kc = (k, c)" by (cases kc)
  show ?case
  proof (cases "intersects (c_mask c) (vt_mask vt q)")
    case True
    obtain r where r: "vt_buffer vt q = Inr (b, r)" "holding r b bs" "good r" "pending r = bs"
      "vt_mask vt r = vt_mask vt q"
      using buffer_current Cons.prems(1) by metis
    have "c_alive c" using Cons.prems(2) kc by auto
    moreover from Cons.IH [of r True] r Cons.prems(2) obtain r' where
      "send_round vt dbg ws r True =
        Inr (map (\<lambda>(k, c). (k, if intersects (c_mask c) (vt_mask vt q)
                then c\<lparr>c_commands := c_commands c @ [Send b]\<rparr> else c)) ws, r', True)"
      "good r'" "pending r' = bs" "vt_mask vt r' = vt_mask vt q" by auto
    ultimately show ?thesis using True r kc
      by (auto simp: controller_send_buffer_def send_or_assert_def unbounded_send_def)
  next
    case False
    with Cons.IH [of q used] Cons.prems kc show ?thesis
      by (auto simp: controller_send_buffer_def)
  qed
qed

lemma watchers_event_delivers:
  assumes "good p" and "\<forall>(k, c) \<in> set ws. c_alive c" and "length (pending p) < n"
  shows "watchers_send_event vt dbg n ws p = Inr (map (\<lambda>(k, c). (k, deliver p c)) ws)"
  using assms
proof (induction n arbitrary: p ws)
  case 0
  then show ?case by simp
next
  case (Suc n)
  show ?case
  proof (cases "pending p")
    case Nil
    then have "map (\<lambda>(k, c). (k, deliver p c)) ws = ws"
      by (intro map_idI) (auto simp: deliver_def)
    with Nil prepare_end [OF Suc.prems(1)] show ?thesis by (auto split: prod.splits)
  next
    case (Cons b bs)
    then obtain q where q: "vt_prepare vt p = (True, q)" "holding q b bs" "vt_mask vt q = vt_mask vt p"
      using prepare_more [OF Suc.prems(1)] by metis
    let ?m = "vt_mask vt p"
    let ?step = "\<lambda>(k, c). (k, if intersects (c_mask c) ?m
                   then c\<lparr>c_commands := c_commands c @ [Send b]\<rparr> else c)"
    let ?any = "\<exists>(k, c) \<in> set ws. intersects (c_mask c) ?m"
    obtain r where r: "send_round vt dbg ws q False = Inr (map ?step ws, r, ?any)"
      "?any \<longrightarrow> good r \<and> pending r = bs" "vt_mask vt r = ?m"
      using round_delivers [of q b bs False ws dbg] q Suc.prems(2) by auto
    show ?thesis
    proof (cases ?any)
      case True
      have "watchers_send_event vt dbg n (map ?step ws) r =
          Inr (map (\<lambda>(k, c). (k, deliver r c)) (map ?step ws))"
        using Suc.prems r True Cons by (intro Suc.IH) auto
      then show ?thesis using q r True Cons by (auto simp: deliver_def)
    next
      case False
      have "map ?step ws = map (\<lambda>(k, c). (k, deliver p c)) ws"
        using False by (intro map_cong) (auto simp: deliver_def)
      with False q r show ?thesis by simp
    qed
  qed
qed

end

section \<open>The producers meet the contract\<close>

definition single_holding :: "SingleBufferEventProducer \<Rightarrow> bytes \<Rightarrow> bytes list \<Rightarrow> bool" where
  "single_holding p b bs \<longleftrightarrow> sb_state p = FirstEvent \<and> sb_buffer p = b \<and> bs = []"

definition single_pending :: "SingleBufferEventProducer \<Rightarrow> bytes list" where
  "single_pending p = (if sb_state p = Start then [sb_buffer p] else [])"

interpretation single: event_producer single_vt single_pending single_holding "\<lambda>_. True"
  by unfold_locales
    (auto simp: single_vt_def single_pending_def single_holding_def single_buffer_prepare_def
       single_buffer_buffer_def split: if_splits SingleBufferEventProducerState.splits)

text \<open>One record of an event buffer, and the greedy packing of a list of names into one buffer.\<close>

definition event_record :: "fio \<Rightarrow> watch_event \<Rightarrow> string \<Rightarrow> bytes" where
  "event_record K ev name = [watch_event_primitive K ev, word_of_nat (length name)] @ str_bytes name"

lemma length_event_record [simp]: "length (event_record K ev name) = 2 + length name"
  by (simp add: event_record_def)

fun pack_names :: "fio \<Rightarrow> watch_event \<Rightarrow> bytes \<Rightarrow> string list \<Rightarrow> bytes \<times> string list" where
  "pack_names K ev buf [] = (buf, [])"
| "pack_names K ev buf (n # ns) =
     (if length buf + (2 + length n) > MAX_BUF K then (buf, n # ns)
      else pack_names K ev (buf @ event_record K ev n) ns)"

lemma fill_loop_pack:
  "dbg \<longrightarrow> MAX_FILENAME K \<le> 255 \<Longrightarrow> nxt \<le> length names \<Longrightarrow>
   \<exists>nxt'. fill_loop K dbg ev names nxt buf = Inr (fst (pack_names K ev buf (drop nxt names)), nxt') \<and>
     nxt' \<le> length names \<and> drop nxt' names = snd (pack_names K ev buf (drop nxt names))"
proof (induction K dbg ev names nxt buf rule: fill_loop.induct)
  case (1 K dbg ev names nxt buf)
  show ?case
  proof (cases "nxt < length names")
    case True
    then have d: "drop nxt names = (names ! nxt) # drop (Suc nxt) names" by (simp add: Cons_nth_drop_Suc)
    show ?thesis
    proof (cases "length buf + (2 + length (names ! nxt)) > MAX_BUF K")
      case True
      with \<open>nxt < length names\<close> d show ?thesis
        by (subst fill_loop.simps) (auto simp: encode_name_def)
    next
      case False
      let ?buf' = "buf @ event_record K ev (names ! nxt)"
      have enc: "encode_name K dbg buf ev (names ! nxt) = Inr (True, ?buf')"
        using False "1.prems"(1) by (simp add: encode_name_def event_record_def)
      have "\<exists>nxt'. fill_loop K dbg ev names (nxt + 1) ?buf' =
          Inr (fst (pack_names K ev ?buf' (drop (nxt + 1) names)), nxt') \<and>
          nxt' \<le> length names \<and> drop nxt' names = snd (pack_names K ev ?buf' (drop (nxt + 1) names))"
        using True enc "1.prems" by (intro "1.IH") auto
      then show ?thesis
        using True enc d False by (subst fill_loop.simps) auto
    qed
  next
    case False
    with "1.prems" show ?thesis by (subst fill_loop.simps) auto
  qed
qed

lemma pack_names_shorter: "length (snd (pack_names K ev buf ns)) \<le> length ns"
  by (induction K ev buf ns rule: pack_names.induct) auto

text \<open>All the buffers for a list of names, as long as every name fits in a buffer of its own.\<close>

function event_buffers :: "fio \<Rightarrow> watch_event \<Rightarrow> string list \<Rightarrow> bytes list" where
  "event_buffers K ev ns =
     (let (b, rest) = pack_names K ev [] ns
      in if length rest < length ns then b # event_buffers K ev rest else [])"
  by pat_completeness auto
termination
  by (relation "measure (\<lambda>(K, ev, ns). length ns)") auto

declare event_buffers.simps [simp del]

definition names_fit :: "fio \<Rightarrow> string list \<Rightarrow> bool" where
  "names_fit K ns \<longleftrightarrow> (\<forall>n \<in> set ns. length n \<le> MAX_FILENAME K)"

lemma pack_names_progress:
  assumes "fio_lengths K" and "names_fit K ns" and "ns \<noteq> []"
  shows "length (snd (pack_names K ev [] ns)) < length ns"
proof -
  obtain n ns' where ns: "ns = n # ns'" using assms(3) by (cases ns) auto
  then have "length n + 2 \<le> MAX_BUF K" using assms by (auto simp: fio_lengths_def names_fit_def)
  with pack_names_shorter [of K ev "event_record K ev n" ns'] show ?thesis by (simp add: ns)
qed

lemma pack_names_fit: "names_fit K ns \<Longrightarrow> names_fit K (snd (pack_names K ev buf ns))"
  by (induction K ev buf ns rule: pack_names.induct) (auto simp: names_fit_def)

definition static_good :: "fio \<Rightarrow> StaticVecEventProducer \<Rightarrow> bool" where
  "static_good K p \<longleftrightarrow> fio_lengths K \<and> names_fit K (drop (sv_next p) (sv_names p)) \<and> sv_next p \<le> length (sv_names p)"

definition static_pending :: "fio \<Rightarrow> StaticVecEventProducer \<Rightarrow> bytes list" where
  "static_pending K p = event_buffers K (ce_event (sv_cache p)) (drop (sv_next p) (sv_names p))"

definition static_holding :: "fio \<Rightarrow> StaticVecEventProducer \<Rightarrow> bytes \<Rightarrow> bytes list \<Rightarrow> bool" where
  "static_holding K p b bs \<longleftrightarrow> static_good K p \<and>
     (case ce_current (sv_cache p) of
        Some buf \<Rightarrow> buf = b \<and> static_pending K p = bs
      | None \<Rightarrow> static_pending K p = b # bs)"

lemma event_buffers_Nil_iff:
  assumes "fio_lengths K" and "names_fit K ns"
  shows "event_buffers K ev ns = [] \<longleftrightarrow> ns = []"
  using pack_names_progress [OF assms, of ev]
  by (cases "ns = []"; subst event_buffers.simps) (auto split: prod.splits)

interpretation static_vec: event_producer "static_vec_vt K dbg" "static_pending K" "static_holding K" "static_good K"
  for K dbg
proof unfold_locales
  fix p assume g: "static_good K p" and "static_pending K p = []"
  then have "drop (sv_next p) (sv_names p) = []"
    using event_buffers_Nil_iff by (simp add: static_good_def static_pending_def)
  then show "\<not> fst (vt_prepare (static_vec_vt K dbg) p)"
    by (simp add: static_vec_vt_def static_vec_prepare_def)
next
  fix p b bs assume g: "static_good K p" and pend: "static_pending K p = b # bs"
  then have "drop (sv_next p) (sv_names p) \<noteq> []"
    using event_buffers_Nil_iff [of K "[]"] by (auto simp: static_pending_def static_good_def names_fit_def)
  then show "\<exists>q. vt_prepare (static_vec_vt K dbg) p = (True, q) \<and> static_holding K q b bs \<and>
      vt_mask (static_vec_vt K dbg) q = vt_mask (static_vec_vt K dbg) p"
    using g pend
    by (auto simp: static_vec_vt_def static_vec_prepare_def static_holding_def static_good_def
        static_pending_def caching_prepare_def static_vec_mask_def)
next
  fix q b bs assume h: "static_holding K q b bs"
  let ?ns = "drop (sv_next q) (sv_names q)"
  show "\<exists>r. vt_buffer (static_vec_vt K dbg) q = Inr (b, r) \<and> static_holding K r b bs \<and> static_good K r \<and>
      static_pending K r = bs \<and> vt_mask (static_vec_vt K dbg) r = vt_mask (static_vec_vt K dbg) q"
  proof (cases "ce_current (sv_cache q)")
    case (Some buf)
    with h show ?thesis
      by (auto simp: static_vec_vt_def static_vec_buffer_def caching_buffer_def static_holding_def)
  next
    case None
    define ev where "ev = ce_event (sv_cache q)"
    have g: "static_good K q" and pend: "event_buffers K ev ?ns = b # bs"
      using h None by (auto simp: static_holding_def static_pending_def ev_def)
    obtain buf rest where pk: "pack_names K ev [] ?ns = (buf, rest)" by (cases "pack_names K ev [] ?ns")
    from pend pk have b: "b = buf" and bs: "bs = event_buffers K ev rest"
      by (subst (asm) event_buffers.simps, simp split: if_splits)+
    have "dbg \<longrightarrow> MAX_FILENAME K \<le> 255" "sv_next q \<le> length (sv_names q)"
      using g by (auto simp: static_good_def fio_lengths_def)
    from fill_loop_pack [OF this, of ev "[]"] pk obtain nxt where
      nxt: "fill_loop K dbg ev (sv_names q) (sv_next q) [] = Inr (buf, nxt)"
      "nxt \<le> length (sv_names q)" "drop nxt (sv_names q) = rest" by auto
    moreover have "names_fit K rest"
      using pack_names_fit [of K ?ns ev "[]"] pk g by (simp add: static_good_def)
    ultimately show ?thesis
      using None g b bs
      by (auto simp: static_vec_vt_def static_vec_buffer_def caching_buffer_def fill_buffer_def
          static_holding_def static_good_def static_pending_def static_vec_mask_def ev_def)
  qed
qed

section \<open>What the client reads\<close>

text \<open>How the names are distributed over the buffers.\<close>

lemma pack_names_split:
  "\<exists>pre. ns = pre @ snd (pack_names K ev buf ns) \<and>
     fst (pack_names K ev buf ns) = buf @ concat (map (event_record K ev) pre) \<and>
     (length buf \<le> MAX_BUF K \<longrightarrow> length (fst (pack_names K ev buf ns)) \<le> MAX_BUF K)"
proof (induction K ev buf ns rule: pack_names.induct)
  case (1 K ev buf)
  show ?case by simp
next
  case (2 K ev buf n ns)
  show ?case
  proof (cases "length buf + (2 + length n) > MAX_BUF K")
    case True
    then show ?thesis by simp
  next
    case False
    with 2 obtain pre where
      "ns = pre @ snd (pack_names K ev (buf @ event_record K ev n) ns)"
      "fst (pack_names K ev (buf @ event_record K ev n) ns) =
         (buf @ event_record K ev n) @ concat (map (event_record K ev) pre)"
      "length (buf @ event_record K ev n) \<le> MAX_BUF K \<longrightarrow>
         length (fst (pack_names K ev (buf @ event_record K ev n) ns)) \<le> MAX_BUF K" by blast
    with False show ?thesis by (intro exI [of _ "n # pre"]) auto
  qed
qed

lemma event_buffers_split:
  assumes "fio_lengths K"
  shows "names_fit K ns \<Longrightarrow>
    \<exists>ls. event_buffers K ev ns = map (\<lambda>l. concat (map (event_record K ev) l)) ls \<and>
      concat ls = ns \<and> [] \<notin> set ls \<and> (\<forall>b \<in> set (event_buffers K ev ns). length b \<le> MAX_BUF K)"
proof (induction "length ns" arbitrary: ns rule: less_induct)
  case less
  show ?case
  proof (cases "ns = []")
    case True
    then show ?thesis by (intro exI [of _ "[]"]) (simp add: event_buffers.simps)
  next
    case False
    obtain b rest where pk: "pack_names K ev [] ns = (b, rest)" by (cases "pack_names K ev [] ns")
    have short: "length rest < length ns"
      using pack_names_progress [OF assms less.prems False, of ev] pk by simp
    have step: "event_buffers K ev ns = b # event_buffers K ev rest"
      using short pk by (subst event_buffers.simps) simp
    obtain pre where pre: "ns = pre @ rest" "b = concat (map (event_record K ev) pre)" "length b \<le> MAX_BUF K"
      using pack_names_split [of ns K ev "[]"] pk by auto
    have "names_fit K rest" using pack_names_fit [OF less.prems, of ev "[]"] pk by simp
    from less.hyps [OF short this] obtain ls where ls:
      "event_buffers K ev rest = map (\<lambda>l. concat (map (event_record K ev) l)) ls"
      "concat ls = rest" "[] \<notin> set ls" "\<forall>b \<in> set (event_buffers K ev rest). length b \<le> MAX_BUF K" by auto
    with step pre short show ?thesis by (intro exI [of _ "pre # ls"]) auto
  qed
qed

definition record_msg :: "fio \<Rightarrow> watch_event \<Rightarrow> string \<Rightarrow> WatchMessage" where
  "record_msg K ev name = \<lparr>wm_event = watch_event_primitive K ev, wm_filename = name\<rparr>"

lemma msg_from_raw_record:
  assumes "length name \<le> 255"
  shows "msg_from_raw (event_record K ev name @ rest) =
     Some (watch_event_primitive K ev, str_bytes name)"
  using assms by (simp add: msg_from_raw_def event_record_def)

lemma get_next_msg_record:
  assumes "drop (w_idx w) (w_buf w) = event_record K ev name @ rest" and "length name \<le> 255"
  shows "get_next_msg w = Inr (record_msg K ev name, w\<lparr>w_idx := w_idx w + (2 + length name)\<rparr>)"
proof -
  have "w_idx w < length (w_buf w)" using assms(1) by (metis append_is_Nil_conv drop_eq_Nil2
        event_record_def list.discI not_le_imp_less)
  with assms msg_from_raw_record [OF assms(2)] show ?thesis
    by (simp add: get_next_msg_def record_msg_def)
qed

text \<open>Draining what is left of the current buffer.\<close>

lemma drain_current:
  assumes "drop (w_idx w) (w_buf w) = concat (map (\<lambda>(ev, n). event_record K ev n) l)"
    and "w_idx w \<noteq> 0" and "\<forall>(ev, n) \<in> set l. length n \<le> 255"
  shows "watcher_drain (length l + m) w queue =
     bind_res (watcher_drain m (w\<lparr>w_idx := w_idx w + length (concat (map (\<lambda>(ev, n). event_record K ev n) l))\<rparr>) queue)
       (\<lambda>ms. Inr (map (\<lambda>(ev, n). record_msg K ev n) l @ ms))"
  using assms
proof (induction l arbitrary: w)
  case Nil
  then show ?case by (cases "watcher_drain m w queue") auto
next
  case (Cons x l)
  obtain ev n where x: "x = (ev, n)" by (cases x)
  let ?w = "w\<lparr>w_idx := w_idx w + (2 + length n)\<rparr>"
  have d: "drop (w_idx w) (w_buf w) = event_record K ev n @ concat (map (\<lambda>(ev, n). event_record K ev n) l)"
    using Cons.prems(1) x by simp
  have g: "get_next_msg w = Inr (record_msg K ev n, ?w)"
    using get_next_msg_record [OF d] Cons.prems(3) x by simp
  have lt: "w_idx w < length (w_buf w)"
    using d by (metis append_is_Nil_conv drop_eq_Nil2 event_record_def list.discI not_le_imp_less)
  have d': "drop (w_idx ?w) (w_buf ?w) = concat (map (\<lambda>(ev, n). event_record K ev n) l)"
    using arg_cong [OF d, of "drop (2 + length n)"] by (simp add: event_record_def add.commute)
  have "watcher_drain (length l + m) ?w queue =
     bind_res (watcher_drain m (?w\<lparr>w_idx := w_idx ?w + length (concat (map (\<lambda>(ev, n). event_record K ev n) l))\<rparr>) queue)
       (\<lambda>ms. Inr (map (\<lambda>(ev, n). record_msg K ev n) l @ ms))"
    using Cons.prems d' by (intro Cons.IH) auto
  then show ?case
    using g lt Cons.prems(2) x
    by (simp add: watcher_poll_next_def bind_res_assoc add.assoc)
qed

lemma drain_queue:
  assumes "\<forall>l \<in> set ls. l \<noteq> []" and "\<forall>l \<in> set ls. \<forall>(ev, n) \<in> set l. length n \<le> 255"
    and "length (w_buf w) \<le> w_idx w" and "length (concat ls) < m"
  shows "watcher_drain m w (map (\<lambda>l. concat (map (\<lambda>(ev, n). event_record K ev n) l)) ls) =
     Inr (map (\<lambda>(ev, n). record_msg K ev n) (concat ls))"
  using assms
proof (induction ls arbitrary: w m)
  case Nil
  then show ?case by (cases m) (auto simp: watcher_poll_next_def watcher_reset_buf_def)
next
  case (Cons l ls)
  obtain ev n l' where l: "l = (ev, n) # l'" using Cons.prems(1) by (cases l) auto
  let ?rec = "\<lambda>(ev, n). event_record K ev n"
  let ?buf = "concat (map ?rec l)"
  let ?w0 = "w\<lparr>w_idx := 0, w_buf := ?buf\<rparr>"
  let ?w1 = "w\<lparr>w_idx := 2 + length n, w_buf := ?buf\<rparr>"
  let ?w2 = "?w1\<lparr>w_idx := w_idx ?w1 + length (concat (map ?rec l'))\<rparr>"
  define m' where "m' = m - Suc (length l')"
  have m: "m = Suc (length l' + m')" and m': "length (concat ls) < m'"
    using Cons.prems(4) l by (auto simp: m'_def)
  have g: "get_next_msg ?w0 = Inr (record_msg K ev n, ?w1)"
    using get_next_msg_record [of ?w0 K ev n "concat (map ?rec l')"] Cons.prems(2) l by simp
  have poll: "watcher_poll_next w (RecvOk ?buf) = Inr (PollMsg (record_msg K ev n), ?w1)"
    using g Cons.prems(3) by (simp add: watcher_poll_next_def watcher_reset_buf_def)
  have "watcher_drain (length l' + m') ?w1 (map (\<lambda>l. concat (map ?rec l)) ls) =
      bind_res (watcher_drain m' ?w2 (map (\<lambda>l. concat (map ?rec l)) ls))
        (\<lambda>ms. Inr (map (\<lambda>(ev, n). record_msg K ev n) l' @ ms))"
    using Cons.prems(2) l by (intro drain_current) (auto simp: event_record_def)
  moreover have "watcher_drain m' ?w2 (map (\<lambda>l. concat (map ?rec l)) ls) =
      Inr (map (\<lambda>(ev, n). record_msg K ev n) (concat ls))"
    using Cons.prems m' l by (intro Cons.IH) auto
  ultimately show ?case
    using poll Cons.prems(3) m l by simp
qed

lemma length_nonempty_concat: "[] \<notin> set ls \<Longrightarrow> length ls \<le> length (concat ls)"
proof (induction ls)
  case Nil
  show ?case by simp
next
  case (Cons l ls)
  then show ?case by (cases l) auto
qed

text \<open>The buffers of a list of names, read by the client.\<close>

lemma event_buffers_read:
  assumes "fio_lengths K" and "names_fit K ns"
  shows "length (event_buffers K ev ns) \<le> length ns"
    and "\<forall>b \<in> set (event_buffers K ev ns). b \<noteq> [] \<and> length b \<le> MAX_BUF K"
    and "length (w_buf w) \<le> w_idx w \<Longrightarrow> length ns < m \<Longrightarrow>
         watcher_drain m w (event_buffers K ev ns) = Inr (map (record_msg K ev) ns)"
proof -
  obtain ls where ls: "event_buffers K ev ns = map (\<lambda>l. concat (map (event_record K ev) l)) ls"
    "concat ls = ns" "[] \<notin> set ls" "\<forall>b \<in> set (event_buffers K ev ns). length b \<le> MAX_BUF K"
    using event_buffers_split [OF assms] by blast
  show "length (event_buffers K ev ns) \<le> length ns"
    using length_nonempty_concat [OF ls(3)] ls by simp
  have "concat (map (event_record K ev) l) \<noteq> []" if "l \<noteq> []" for l
    using that by (cases l) (auto simp: event_record_def)
  with ls show "\<forall>b \<in> set (event_buffers K ev ns). b \<noteq> [] \<and> length b \<le> MAX_BUF K"
    by (metis (no_types, lifting) image_iff list.set_map)
  assume w: "length (w_buf w) \<le> w_idx w" and m: "length ns < m"
  let ?ls = "map (map (Pair ev)) ls"
  have eq: "event_buffers K ev ns = map (\<lambda>l. concat (map (\<lambda>(ev, n). event_record K ev n) l)) ?ls"
    by (simp add: ls comp_def)
  have cc: "concat ?ls = map (Pair ev) ns" using arg_cong [OF ls(2), of "map (Pair ev)"] by (simp add: map_concat)
  have small: "length n \<le> 255" if "n \<in> set ns" for n
    using that assms by (auto simp: names_fit_def fio_lengths_def)
  have small': "\<forall>l \<in> set ls. \<forall>n \<in> set l. length n \<le> 255"
    using small unfolding ls(2) [symmetric] by auto
  have "watcher_drain m w (map (\<lambda>l. concat (map (\<lambda>(ev, n). event_record K ev n) l)) ?ls) =
     Inr (map (\<lambda>(ev, n). record_msg K ev n) (concat ?ls))"
    using w m cc ls(3) small' by (intro drain_queue) auto
  then show "watcher_drain m w (event_buffers K ev ns) = Inr (map (record_msg K ev) ns)"
    unfolding eq cc by (simp add: comp_def)
qed

text \<open>A listing in groups of names, with the idle event after it when it is asked for.\<close>

lemma listing_drain:
  assumes "[] \<notin> set ls" and "\<forall>n \<in> set (concat ls). length n \<le> 255" and "length (concat ls) + 1 < m"
  shows "watcher_drain m \<lparr>w_buf = [], w_idx = 0\<rparr>
     (map (\<lambda>l. concat (map (event_record K ev) l)) ls @ (if idle then [event_record K EvIdle []] else [])) =
     Inr (map (record_msg K ev) (concat ls) @ (if idle then [record_msg K EvIdle []] else []))"
proof -
  let ?ls = "map (map (Pair ev)) ls @ (if idle then [[(EvIdle, [])]] else [])"
  have cc: "concat (map (map (Pair ev)) ls) = map (Pair ev) (concat ls)" by (simp add: map_concat)
  have "watcher_drain m \<lparr>w_buf = [], w_idx = 0\<rparr> (map (\<lambda>l. concat (map (\<lambda>(ev, n). event_record K ev n) l)) ?ls) =
     Inr (map (\<lambda>(ev, n). record_msg K ev n) (concat ?ls))"
    using assms cc by (intro drain_queue) (auto split: if_splits)
  then show ?thesis using cc by (simp add: comp_def split: if_splits)
qed

lemma static_vec_new_ok:
  assumes "static_vec_new dbg m ev ns = Inr p" and "fio_lengths K" and "names_fit K ns"
  shows "static_good K p" "static_pending K p = event_buffers K ev ns" "vt_mask (static_vec_vt K dbg) p = m"
  using assms
  by (auto simp: static_vec_new_def static_good_def static_pending_def caching_new_def static_vec_vt_def
      static_vec_mask_def)

lemma single_name_new_ok:
  assumes "fio_lengths K" and "length name \<le> MAX_FILENAME K"
  shows "\<exists>p. single_name_new K dbg m ev name = Inr p \<and> single_pending p = [event_record K ev name] \<and>
           vt_mask single_vt p = m"
  using assms
  by (auto simp: single_name_new_def encode_name_def single_buffer_new_def single_pending_def
      event_record_def single_vt_def fio_lengths_def)

lemma event_buffers_single:
  assumes "fio_lengths K" and "length name \<le> MAX_FILENAME K"
  shows "event_buffers K ev [name] = [event_record K ev name]"
  using assms
  by (subst event_buffers.simps) (simp add: fio_lengths_def event_buffers.simps)

section \<open>Properties\<close>

text \<open>C26. What a directory announces is what the client reads. Sending a list of names, each no longer
  than \<open>MAX_FILENAME\<close>, to the watchers of a directory ends without a panic, queues the same buffers for
  exactly the watchers whose mask has the event, and no buffer is empty or larger than \<open>MAX_BUF\<close>; a
  client that polls its watcher on these buffers gets, without a panic, one message per name, in
  order, with that event.\<close>

theorem events_reach_client:
  assumes "fio_lengths K" and "names_fit K ns" and "static_vec_new dbg m ev ns = Inr p"
    and "\<forall>(k, c) \<in> set ws. c_alive c" and "length ns < n"
  shows "\<exists>bufs.
      watchers_send_event (static_vec_vt K dbg) dbg n ws p =
        Inr (map (\<lambda>(k, c). (k, if intersects (c_mask c) m
               then c\<lparr>c_commands := c_commands c @ map Send bufs\<rparr> else c)) ws) \<and>
      (\<forall>b \<in> set bufs. b \<noteq> [] \<and> length b \<le> MAX_BUF K) \<and>
      watcher_drain n \<lparr>w_buf = [], w_idx = 0\<rparr> bufs =
        Inr (map (\<lambda>name. \<lparr>wm_event = watch_event_primitive K ev, wm_filename = name\<rparr>) ns)"
proof -
  note p = static_vec_new_ok [OF assms(3,1,2)]
  note b = event_buffers_read [OF assms(1,2), where ev = ev]
  have "watchers_send_event (static_vec_vt K dbg) dbg n ws p =
      Inr (map (\<lambda>(k, c). (k, static_vec.deliver K dbg p c)) ws)"
    using p(1,2) b(1) assms(4,5) by (intro static_vec.watchers_event_delivers) auto
  moreover have "watcher_drain n \<lparr>w_buf = [], w_idx = 0\<rparr> (event_buffers K ev ns) =
      Inr (map (record_msg K ev) ns)"
    using b(3) assms(5) by simp
  ultimately show ?thesis
    using b(2) unfolding static_vec.deliver_def p(2,3) record_msg_def [abs_def]
    by (intro exI [of _ "event_buffers K ev ns"]) simp
qed

theorem events_reach_client_witness:
  "\<exists>bufs. watchers_send_event (static_vec_vt fio_values True) True 3
          [(0, \<lparr>c_mask = {WATCH_EXISTING}, c_commands = [], c_alive = True\<rparr>)]
          \<lparr>sv_cache = caching_new {WATCH_EXISTING} EvExisting, sv_names = [''.'', ''ab''], sv_next = 0\<rparr> =
        Inr [(0, \<lparr>c_mask = {WATCH_EXISTING}, c_commands = map Send bufs, c_alive = True\<rparr>)] \<and>
      watcher_drain 3 \<lparr>w_buf = [], w_idx = 0\<rparr> bufs =
        Inr [\<lparr>wm_event = 3, wm_filename = ''.''\<rparr>, \<lparr>wm_event = 3, wm_filename = ''ab''\<rparr>]"
proof -
  have p: "static_vec_new True {WATCH_EXISTING} EvExisting [''.'', ''ab''] =
     Inr \<lparr>sv_cache = caching_new {WATCH_EXISTING} EvExisting, sv_names = [''.'', ''ab''], sv_next = 0\<rparr>"
    by (simp add: static_vec_new_def)
  have f: "names_fit fio_values [''.'', ''ab'']" by (simp add: names_fit_def)
  have e: "watch_event_primitive fio_values EvExisting = 3" by (simp add: fio_values_def)
  show ?thesis
    using events_reach_client [OF fio_values_ok(3) f p,
        of "[(0, \<lparr>c_mask = {WATCH_EXISTING}, c_commands = [], c_alive = True\<rparr>)]" 3] e
    by auto
qed

text \<open>The optimised producer of one name is, as documented, functionally equivalent to the general
  producer with a list of one element: both are built without a panic and leave the same commands for
  the same watchers.\<close>

theorem single_name_is_static_vec:
  assumes "fio_lengths K" and "length name \<le> MAX_FILENAME K"
    and "\<forall>(k, c) \<in> set ws. c_alive c" and "1 < n"
  shows "bind_res (single_name_new K dbg m ev name) (watchers_send_event single_vt dbg n ws) =
           bind_res (static_vec_new dbg m ev [name]) (watchers_send_event (static_vec_vt K dbg) dbg n ws) \<and>
         is_ok (bind_res (single_name_new K dbg m ev name) (watchers_send_event single_vt dbg n ws))"
proof -
  obtain p where p: "single_name_new K dbg m ev name = Inr p" "single_pending p = [event_record K ev name]"
    "vt_mask single_vt p = m"
    using single_name_new_ok [OF assms(1,2)] by blast
  obtain q where q: "static_vec_new dbg m ev [name] = Inr q" by (simp add: static_vec_new_def)
  have "names_fit K [name]" using assms(2) by (simp add: names_fit_def)
  note q' = static_vec_new_ok [OF q assms(1) this] event_buffers_single [OF assms(1,2), of ev]
  have "watchers_send_event (static_vec_vt K dbg) dbg n ws q =
      Inr (map (\<lambda>(k, c). (k, static_vec.deliver K dbg q c)) ws)"
    using q' assms(3,4) by (intro static_vec.watchers_event_delivers) auto
  moreover have "watchers_send_event single_vt dbg n ws p =
      Inr (map (\<lambda>(k, c). (k, single.deliver p c)) ws)"
    using p assms(3,4) by (intro single.watchers_event_delivers) auto
  moreover have "static_vec.deliver K dbg q c = single.deliver p c" for c
    by (simp add: static_vec.deliver_def single.deliver_def p q')
  ultimately show ?thesis by (simp add: p q)
qed

theorem single_name_is_static_vec_witness:
  "is_ok (bind_res (single_name_new fio_values True {WATCH_ADDED} EvAdded ''ab'')
     (watchers_send_event single_vt True 2
        [(7, \<lparr>c_mask = {WATCH_ADDED}, c_commands = [], c_alive = True\<rparr>)]))"
  using single_name_is_static_vec [of fio_values "''ab''"
      "[(7, \<lparr>c_mask = {WATCH_ADDED}, c_commands = [], c_alive = True\<rparr>)]" 2 True "{WATCH_ADDED}" EvAdded]
  by auto

end
