(* ===== verification/Dirents.thy ===== *)
theory Dirents
  imports Watchers
begin

text \<open>
  Directory listings: \<open>directory/entry.rs\<close> (\<open>EntryInfo\<close>), \<open>directory/traversal_position.rs\<close>,
  \<open>directory/dirents_sink.rs\<close> (the trait \<open>Sink\<close>, here the record \<open>sink_vt\<close> and the locale
  \<open>dirent_sink\<close>), \<open>encode_dirent\<close> of \<open>directory/common.rs\<close>, \<open>directory/read_dirents.rs\<close> (the sink of
  \<open>ReadDirents\<close> and the generic listing helper) and the sink of the lazy directories' watchers
  (\<open>directory/immutable/lazy/watchers_task.rs\<close>).
\<close>

section \<open>Entries and positions\<close>

datatype EntryInfo = EntryInfo (ei_inode: "64 word") (ei_type: dirent_type)

datatype TraversalPosition = PosStart | PosName string | PosIndex "64 word" | PosEnd

definition traversal_default :: TraversalPosition where
  "traversal_default = PosStart"

datatype ('s, 'd) AppendResult = AppendOk 's | AppendSealed 'd

record ('s, 'd) sink_vt =
  sk_append :: "'s \<Rightarrow> EntryInfo \<Rightarrow> string \<Rightarrow> ('s, 'd) AppendResult result"
  sk_seal :: "'s \<Rightarrow> 'd"

section \<open>encode\_dirent\<close>

text \<open>\<open>write_u64::<LittleEndian>\<close>.\<close>

definition le64 :: "64 word \<Rightarrow> bytes" where
  "le64 w = map (\<lambda>i. ucast (drop_bit (8 * i) w)) [0..<8]"

definition encode_dirent ::
    "fio \<Rightarrow> bytes \<Rightarrow> 64 word \<Rightarrow> EntryInfo \<Rightarrow> string \<Rightarrow> (bool \<times> bytes) result" where
  "encode_dirent K buf max_bytes entry name =
     (let header_size = 8 + 1 + 1
      in if length buf + header_size + length name > unat max_bytes then Inr (False, buf)
         else if \<not> length name \<le> MAX_FILENAME K then Inl Panic
         else if \<not> MAX_FILENAME K \<le> 255 then Inl Panic
         else Inr (True, buf @ le64 (ei_inode entry) @ [word_of_nat (length name)] @
                         [dirent_type_primitive K (ei_type entry)] @ str_bytes name))"

section \<open>read\_dirents.rs\<close>

datatype SinkState = NotCalled | DidNotFit | FitOne

record Sink =
  s_buf :: bytes
  s_max_bytes :: "64 word"
  s_state :: SinkState

record SinkDone =
  d_buf :: bytes
  d_status :: status

definition sink_new :: "64 word \<Rightarrow> Sink" where
  "sink_new max_bytes = \<lparr>s_buf = [], s_max_bytes = max_bytes, s_state = NotCalled\<rparr>"

definition sink_seal :: "Sink \<Rightarrow> SinkDone" where
  "sink_seal s =
     \<lparr>d_buf = s_buf s,
      d_status = (case s_state s of NotCalled \<Rightarrow> OK | FitOne \<Rightarrow> OK | DidNotFit \<Rightarrow> BUFFER_TOO_SMALL)\<rparr>"

definition sink_append :: "fio \<Rightarrow> Sink \<Rightarrow> EntryInfo \<Rightarrow> string \<Rightarrow> (Sink, SinkDone) AppendResult result" where
  "sink_append K s entry name =
     bind_res (encode_dirent K (s_buf s) (s_max_bytes s) entry name) (\<lambda>(ok, buf).
       let s = s\<lparr>s_buf := buf\<rparr>
       in if \<not> ok
          then Inr (AppendSealed (sink_seal (if s_state s = NotCalled then s\<lparr>s_state := DidNotFit\<rparr> else s)))
          else Inr (AppendOk (if s_state s = NotCalled then s\<lparr>s_state := FitOne\<rparr> else s)))"

definition read_dirents_vt :: "fio \<Rightarrow> (Sink, SinkDone) sink_vt" where
  "read_dirents_vt K = \<lparr>sk_append = sink_append K, sk_seal = sink_seal\<rparr>"

text \<open>The loop over the entries from an index on.\<close>

function read_dirents_loop ::
    "('s, 'd) sink_vt \<Rightarrow> (EntryInfo \<times> string) list \<Rightarrow> nat \<Rightarrow> 's \<Rightarrow> (TraversalPosition \<times> 'd) result" where
  "read_dirents_loop vt entries i sink =
     (if i < length entries then
        (let (info, name) = entries ! i
         in bind_res (sk_append vt sink info name) (\<lambda>r.
              case r of
                AppendOk new_sink \<Rightarrow> read_dirents_loop vt entries (i + 1) new_sink
              | AppendSealed sealed \<Rightarrow> Inr (PosIndex (word_of_nat i), sealed)))
      else Inr (PosEnd, sk_seal vt sink))"
  by pat_completeness auto
termination
  by (relation "measure (\<lambda>(vt, entries, i, sink). length entries - i)") auto

declare read_dirents_loop.simps [simp del]

definition read_dirents ::
    "fio \<Rightarrow> ('s, 'd) sink_vt \<Rightarrow> (EntryInfo \<times> string) list \<Rightarrow> TraversalPosition \<Rightarrow> 's \<Rightarrow>
     (TraversalPosition \<times> 'd) result" where
  "read_dirents K vt entries pos sink =
     (case pos of
        PosStart \<Rightarrow>
          bind_res (sk_append vt sink (EntryInfo (INO_UNKNOWN K) DtDirectory) ''.'') (\<lambda>r.
            case r of
              AppendOk new_sink \<Rightarrow> read_dirents_loop vt entries 0 new_sink
            | AppendSealed sealed \<Rightarrow> Inr (PosStart, sealed))
      | PosIndex i \<Rightarrow> read_dirents_loop vt entries (unat i) sink
      | PosEnd \<Rightarrow> Inr (PosEnd, sk_seal vt sink)
      | PosName _ \<Rightarrow> Inl Panic)"

section \<open>The sink of the lazy directory's watchers\<close>

text \<open>The type \<open>single_buffer::Sink\<close> has one field, the buffer; so has its \<open>Sealed\<close>.\<close>

definition buffer_sink_existing :: bytes where
  "buffer_sink_existing = []"

definition buffer_sink_append :: "fio \<Rightarrow> bool \<Rightarrow> bytes \<Rightarrow> EntryInfo \<Rightarrow> string \<Rightarrow> (bytes, bytes) AppendResult result" where
  "buffer_sink_append K dbg buffer entry name =
     bind_res (encode_name K dbg buffer EvExisting name) (\<lambda>(ok, buffer').
       if ok then Inr (AppendOk buffer') else Inr (AppendSealed buffer'))"

definition buffer_sink_seal :: "bytes \<Rightarrow> bytes" where
  "buffer_sink_seal buffer = buffer"

definition buffer_sink_vt :: "fio \<Rightarrow> bool \<Rightarrow> (bytes, bytes) sink_vt" where
  "buffer_sink_vt K dbg = \<lparr>sk_append = buffer_sink_append K dbg, sk_seal = buffer_sink_seal\<rparr>"

definition buffer_sealed_unpack :: "fio \<Rightarrow> bool \<Rightarrow> bytes \<Rightarrow> SingleBufferEventProducer option result" where
  "buffer_sealed_unpack K dbg buffer =
     (if buffer = [] then Inr None
      else bind_res (single_buffer_existing K dbg buffer) (\<lambda>p. Inr (Some p)))"

section \<open>Reading a whole directory\<close>

text \<open>
  A client that reads until the end position, with a fresh sink for every call, and collects the
  sealed sinks. The fuel bounds the number of calls.
\<close>

fun read_all ::
    "(TraversalPosition \<Rightarrow> 's \<Rightarrow> (TraversalPosition \<times> 'd) result) \<Rightarrow> 's \<Rightarrow> nat \<Rightarrow> TraversalPosition \<Rightarrow>
     'd list result" where
  "read_all rd s 0 pos = Inl Panic"
| "read_all rd s (Suc n) pos =
     bind_res (rd pos s) (\<lambda>(pos', d).
       if pos' = PosEnd then Inr [d] else bind_res (read_all rd s n pos') (\<lambda>ds. Inr (d # ds)))"

section \<open>The contract of a sink\<close>

text \<open>
  \<open>holds s es\<close> and \<open>sealed d es\<close> say that the sink and the sealed sink contain the entries \<open>es\<close>;
  \<open>listable e n\<close> is what a sink may assume of an entry. A sink accepts an entry or seals itself
  unchanged, and a fresh sink accepts at least one entry when it has \<open>roomy\<close> capacity.
\<close>

locale dirent_sink =
  fixes vt :: "('s, 'd) sink_vt"
    and holds :: "'s \<Rightarrow> (EntryInfo \<times> string) list \<Rightarrow> bool"
    and sealed :: "'d \<Rightarrow> (EntryInfo \<times> string) list \<Rightarrow> bool"
    and listable :: "string \<Rightarrow> bool"
    and fresh :: 's
    and roomy :: bool
  assumes append_cases: "holds s es \<Longrightarrow> listable n \<Longrightarrow>
        (\<exists>s'. sk_append vt s e n = Inr (AppendOk s') \<and> holds s' (es @ [(e, n)])) \<or>
        (\<exists>d. sk_append vt s e n = Inr (AppendSealed d) \<and> sealed d es)"
    and seal_holds: "holds s es \<Longrightarrow> sealed (sk_seal vt s) es"
    and fresh_holds: "holds fresh []"
    and fresh_accepts: "roomy \<Longrightarrow> listable n \<Longrightarrow> \<exists>s'. sk_append vt fresh e n = Inr (AppendOk s')"
begin

text \<open>One run of the loop consumes a prefix and returns the position of the rest.\<close>

lemma loop_prefix:
  assumes "holds s es" and "\<forall>(e, n) \<in> set entries. listable n" and "i \<le> length entries"
  shows "\<exists>j d pos. read_dirents_loop vt entries i s = Inr (pos, d) \<and> i \<le> j \<and> j \<le> length entries \<and>
     sealed d (es @ take (j - i) (drop i entries)) \<and>
     pos = (if j < length entries then PosIndex (word_of_nat j) else PosEnd)"
  using assms
proof (induction "length entries - i" arbitrary: i s es)
  case 0
  then show ?case
    by (subst read_dirents_loop.simps) (auto intro!: exI [of _ i] seal_holds)
next
  case (Suc k)
  then have i: "i < length entries" by simp
  obtain info name where ei: "entries ! i = (info, name)" by (cases "entries ! i")
  have "(info, name) \<in> set entries" using i ei by (metis nth_mem)
  with Suc.prems(2) have "listable name" by auto
  from append_cases [OF Suc.prems(1) this, of info] show ?case
  proof (elim disjE exE conjE)
    fix s' assume s': "sk_append vt s info name = Inr (AppendOk s')" "holds s' (es @ [(info, name)])"
    have "\<exists>j d pos. read_dirents_loop vt entries (Suc i) s' = Inr (pos, d) \<and> Suc i \<le> j \<and> j \<le> length entries \<and>
     sealed d ((es @ [(info, name)]) @ take (j - Suc i) (drop (Suc i) entries)) \<and>
     pos = (if j < length entries then PosIndex (word_of_nat j) else PosEnd)"
      using Suc.hyps(2) i Suc.prems(2) s'(2) by (intro Suc.hyps(1)) auto
    then obtain j d pos where j: "read_dirents_loop vt entries (Suc i) s' = Inr (pos, d)"
      "Suc i \<le> j" "j \<le> length entries" "sealed d ((es @ [(info, name)]) @ take (j - Suc i) (drop (Suc i) entries))"
      "pos = (if j < length entries then PosIndex (word_of_nat j) else PosEnd)" by blast
    have "read_dirents_loop vt entries i s = Inr (pos, d)"
      using i ei s'(1) j(1) by (subst read_dirents_loop.simps) simp
    moreover have "es @ take (j - i) (drop i entries) =
        (es @ [(info, name)]) @ take (j - Suc i) (drop (Suc i) entries)"
      using i j(2) ei by (simp add: take_range_step)
    ultimately show ?thesis using j i by (intro exI [of _ j]) auto
  next
    fix d assume d: "sk_append vt s info name = Inr (AppendSealed d)" "sealed d es"
    then have "read_dirents_loop vt entries i s = Inr (PosIndex (word_of_nat i), d)"
      using i ei by (subst read_dirents_loop.simps) simp
    then show ?thesis using d i by (intro exI [of _ i]) auto
  qed
qed

text \<open>A fresh sink with room makes progress when an entry is left.\<close>

lemma loop_progress:
  assumes "roomy" and "\<forall>(e, n) \<in> set entries. listable n" and "i < length entries"
  shows "\<exists>j d pos. read_dirents_loop vt entries i fresh = Inr (pos, d) \<and> i < j \<and> j \<le> length entries \<and>
     sealed d (take (j - i) (drop i entries)) \<and>
     pos = (if j < length entries then PosIndex (word_of_nat j) else PosEnd)"
proof -
  obtain info name where ei: "entries ! i = (info, name)" by (cases "entries ! i")
  have "(info, name) \<in> set entries" using assms(3) ei by (metis nth_mem)
  with assms(2) have l: "listable name" by auto
  obtain s' where s': "sk_append vt fresh info name = Inr (AppendOk s')"
    using fresh_accepts [OF assms(1) l] by blast
  with append_cases [OF fresh_holds l, of info] have h: "holds s' [(info, name)]" by auto
  from loop_prefix [OF h assms(2), of "Suc i"] assms(3) obtain j d pos where
    j: "read_dirents_loop vt entries (Suc i) s' = Inr (pos, d)" "Suc i \<le> j" "j \<le> length entries"
    "sealed d ([(info, name)] @ take (j - Suc i) (drop (Suc i) entries))"
    "pos = (if j < length entries then PosIndex (word_of_nat j) else PosEnd)" by auto
  have "read_dirents_loop vt entries i fresh = Inr (pos, d)"
    using assms(3) ei s' j(1) by (subst read_dirents_loop.simps) simp
  moreover have "take (j - i) (drop i entries) = (info, name) # take (j - Suc i) (drop (Suc i) entries)"
    using assms(3) j(2) ei by (simp add: take_range_step)
  ultimately show ?thesis using j by (intro exI [of _ j]) auto
qed

lemma read_all_from:
  assumes "roomy" and "\<forall>(e, n) \<in> set entries. listable n" and "length entries < 2 ^ 64"
    and "i < length entries" and "length entries - i < m"
  shows "\<exists>ds ls. read_all (read_dirents K vt entries) fresh m (PosIndex (word_of_nat i)) = Inr ds \<and>
           list_all2 sealed ds ls \<and> concat ls = drop i entries \<and> [] \<notin> set ls"
  using assms(4,5)
proof (induction m arbitrary: i)
  case 0
  then show ?case by simp
next
  case (Suc m)
  have u: "unat (word_of_nat i :: 64 word) = i"
    using Suc.prems(1) assms(3) by (simp add: unat_of_nat)
  from loop_progress [OF assms(1,2) Suc.prems(1)] obtain j d pos where
    j: "read_dirents_loop vt entries i fresh = Inr (pos, d)" "i < j" "j \<le> length entries"
    "sealed d (take (j - i) (drop i entries))"
    "pos = (if j < length entries then PosIndex (word_of_nat j) else PosEnd)" by blast
  have rd: "read_dirents K vt entries (PosIndex (word_of_nat i)) fresh = Inr (pos, d)"
    using j(1) u by (simp add: read_dirents_def)
  show ?case
  proof (cases "j < length entries")
    case True
    moreover have "length entries - j < m" using j(2) Suc.prems by linarith
    ultimately obtain ds ls where
      "read_all (read_dirents K vt entries) fresh m (PosIndex (word_of_nat j)) = Inr ds"
      "list_all2 sealed ds ls" "concat ls = drop j entries" "[] \<notin> set ls"
      using Suc.IH by blast
    with rd j True show ?thesis
      by (intro exI [of _ "d # ds"] exI [of _ "take (j - i) (drop i entries) # ls"])
        (auto simp: take_range_append)
  next
    case False
    with rd j show ?thesis
      by (intro exI [of _ "[d]"] exI [of _ "[take (j - i) (drop i entries)]"]) auto
  qed
qed

lemma read_all_lists:
  assumes "roomy" and "listable ''.''" and "\<forall>(e, n) \<in> set entries. listable n"
    and "length entries < 2 ^ 64" and "length entries + 1 < m"
  shows "\<exists>ds ls. read_all (read_dirents K vt entries) fresh m PosStart = Inr ds \<and> list_all2 sealed ds ls \<and>
     concat ls = (EntryInfo (INO_UNKNOWN K) DtDirectory, ''.'') # entries \<and> [] \<notin> set ls"
proof -
  let ?dot = "(EntryInfo (INO_UNKNOWN K) DtDirectory, ''.'')"
  obtain s' where s': "sk_append vt fresh (fst ?dot) ''.'' = Inr (AppendOk s')"
    using fresh_accepts [OF assms(1,2)] by blast
  with append_cases [OF fresh_holds assms(2), of "fst ?dot"] have h: "holds s' [?dot]" by auto
  from loop_prefix [OF h assms(3), of 0] obtain j d pos where
    j: "read_dirents_loop vt entries 0 s' = Inr (pos, d)" "j \<le> length entries"
    "sealed d ([?dot] @ take j entries)"
    "pos = (if j < length entries then PosIndex (word_of_nat j) else PosEnd)" by auto
  have rd: "read_dirents K vt entries PosStart fresh = Inr (pos, d)"
    using s' j(1) by (simp add: read_dirents_def)
  obtain m' where m: "m = Suc m'" using assms(5) by (cases m) auto
  show ?thesis
  proof (cases "j < length entries")
    case True
    have "\<exists>ds ls. read_all (read_dirents K vt entries) fresh m' (PosIndex (word_of_nat j)) = Inr ds \<and>
        list_all2 sealed ds ls \<and> concat ls = drop j entries \<and> [] \<notin> set ls"
      using assms m True by (intro read_all_from) auto
    then obtain ds ls where "read_all (read_dirents K vt entries) fresh m' (PosIndex (word_of_nat j)) = Inr ds"
      "list_all2 sealed ds ls" "concat ls = drop j entries" "[] \<notin> set ls" by blast
    with rd j True m show ?thesis
      by (intro exI [of _ "d # ds"] exI [of _ "([?dot] @ take j entries) # ls"]) auto
  next
    case False
    with rd j m show ?thesis
      by (intro exI [of _ "[d]"] exI [of _ "[[?dot] @ take j entries]"]) auto
  qed
qed

end

section \<open>The sinks meet the contract\<close>

definition dirent_record :: "fio \<Rightarrow> EntryInfo \<times> string \<Rightarrow> bytes" where
  "dirent_record K en =
     le64 (ei_inode (fst en)) @ [word_of_nat (length (snd en))] @
     [dirent_type_primitive K (ei_type (fst en))] @ str_bytes (snd en)"

lemma length_dirent_record [simp]: "length (dirent_record K en) = 10 + length (snd en)"
  by (simp add: dirent_record_def le64_def)

definition sink_holds :: "fio \<Rightarrow> 64 word \<Rightarrow> Sink \<Rightarrow> (EntryInfo \<times> string) list \<Rightarrow> bool" where
  "sink_holds K m s es \<longleftrightarrow>
     s_buf s = concat (map (dirent_record K) es) \<and> length (s_buf s) \<le> unat m \<and> s_max_bytes s = m \<and>
     s_state s = (if es = [] then NotCalled else FitOne)"

definition sink_sealed :: "fio \<Rightarrow> 64 word \<Rightarrow> SinkDone \<Rightarrow> (EntryInfo \<times> string) list \<Rightarrow> bool" where
  "sink_sealed K m d es \<longleftrightarrow>
     d_buf d = concat (map (dirent_record K) es) \<and> length (d_buf d) \<le> unat m \<and> (es \<noteq> [] \<longrightarrow> d_status d = OK)"

definition dirent_listable :: "fio \<Rightarrow> string \<Rightarrow> bool" where
  "dirent_listable K n \<longleftrightarrow> fio_lengths K \<and> length n \<le> MAX_FILENAME K"

lemma sink_append_holds:
  assumes "sink_holds K m s es" and "dirent_listable K n"
  shows "if length (s_buf s) + 10 + length n > unat m
     then \<exists>d. sink_append K s e n = Inr (AppendSealed d) \<and> sink_sealed K m d es
     else \<exists>s'. sink_append K s e n = Inr (AppendOk s') \<and> sink_holds K m s' (es @ [(e, n)])"
  using assms
  by (auto simp: sink_append_def encode_dirent_def sink_holds_def sink_sealed_def sink_seal_def
      dirent_listable_def fio_lengths_def dirent_record_def le64_def Let_def)

interpretation rdsink: dirent_sink "read_dirents_vt K" "sink_holds K m" "sink_sealed K m" "dirent_listable K"
    "sink_new m" "10 + MAX_FILENAME K \<le> unat m" for K m
proof unfold_locales
  fix s es n e assume "sink_holds K m s es" "dirent_listable K n"
  from sink_append_holds [OF this, of e]
  show "(\<exists>s'. sk_append (read_dirents_vt K) s e n = Inr (AppendOk s') \<and> sink_holds K m s' (es @ [(e, n)])) \<or>
        (\<exists>d. sk_append (read_dirents_vt K) s e n = Inr (AppendSealed d) \<and> sink_sealed K m d es)"
    by (auto simp: read_dirents_vt_def split: if_splits)
next
  fix s es assume "sink_holds K m s es"
  then show "sink_sealed K m (sk_seal (read_dirents_vt K) s) es"
    by (auto simp: read_dirents_vt_def sink_holds_def sink_sealed_def sink_seal_def)
next
  show h: "sink_holds K m (sink_new m) []" by (simp add: sink_holds_def sink_new_def)
  fix n e assume r: "10 + MAX_FILENAME K \<le> unat m" and l: "dirent_listable K n"
  have "\<not> length (s_buf (sink_new m)) + 10 + length n > unat m"
    using r l by (simp add: sink_new_def dirent_listable_def)
  with sink_append_holds [OF h l, of e]
  show "\<exists>s'. sk_append (read_dirents_vt K) (sink_new m) e n = Inr (AppendOk s')"
    by (auto simp: read_dirents_vt_def)
qed

definition buffer_holds :: "fio \<Rightarrow> bytes \<Rightarrow> (EntryInfo \<times> string) list \<Rightarrow> bool" where
  "buffer_holds K b es \<longleftrightarrow>
     b = concat (map (event_record K EvExisting) (map snd es)) \<and> length b \<le> MAX_BUF K"

lemma buffer_append_holds:
  assumes "buffer_holds K b es" and "dirent_listable K n"
  shows "buffer_sink_append K dbg b e n =
     (if length b + (2 + length n) > MAX_BUF K then Inr (AppendSealed b)
      else Inr (AppendOk (b @ event_record K EvExisting n)))"
  using assms
  by (auto simp: buffer_sink_append_def encode_name_def event_record_def dirent_listable_def fio_lengths_def)

interpretation bufsink: dirent_sink "buffer_sink_vt K dbg" "buffer_holds K" "buffer_holds K" "dirent_listable K"
    buffer_sink_existing "fio_lengths K" for K dbg
proof unfold_locales
  fix s es n e assume h: "buffer_holds K s es" and l: "dirent_listable K n"
  from buffer_append_holds [OF h l, of dbg e] h
  show "(\<exists>s'. sk_append (buffer_sink_vt K dbg) s e n = Inr (AppendOk s') \<and> buffer_holds K s' (es @ [(e, n)])) \<or>
        (\<exists>d. sk_append (buffer_sink_vt K dbg) s e n = Inr (AppendSealed d) \<and> buffer_holds K d es)"
    by (auto simp: buffer_sink_vt_def buffer_holds_def)
next
  fix s es assume "buffer_holds K s es"
  then show "buffer_holds K (sk_seal (buffer_sink_vt K dbg) s) es"
    by (simp add: buffer_sink_vt_def buffer_sink_seal_def)
next
  show h: "buffer_holds K buffer_sink_existing []" by (simp add: buffer_holds_def buffer_sink_existing_def)
  fix n e assume r: "fio_lengths K" and l: "dirent_listable K n"
  with buffer_append_holds [OF h l, of dbg e]
  show "\<exists>s'. sk_append (buffer_sink_vt K dbg) buffer_sink_existing e n = Inr (AppendOk s')"
    by (auto simp: buffer_sink_vt_def buffer_sink_existing_def dirent_listable_def fio_lengths_def)
qed

section \<open>Properties\<close>

text \<open>C31. Reading a listing through the helper \<open>read_dirents\<close> with a buffer that can hold any single entry
  returns everything exactly once. Calling it from the start position until the end position, each
  time with a new sink of the given capacity, ends without a panic; every call succeeds, respects the
  capacity, and the buffers together hold the encodings of \<open>"."\<close> and of all the entries, in order.\<close>

theorem read_dirents_complete:
  assumes "fio_lengths K" and "1 \<le> MAX_FILENAME K" and "\<forall>(e, n) \<in> set entries. length n \<le> MAX_FILENAME K"
    and "10 + MAX_FILENAME K \<le> unat max_bytes" and "length entries < 2 ^ 64"
  shows "\<exists>ds. read_all (read_dirents K (read_dirents_vt K) entries) (sink_new max_bytes)
             (length entries + 2) PosStart = Inr ds \<and>
           (\<forall>d \<in> set ds. d_status d = OK \<and> length (d_buf d) \<le> unat max_bytes) \<and>
           concat (map d_buf ds) =
             concat (map (dirent_record K) ((EntryInfo (INO_UNKNOWN K) DtDirectory, ''.'') # entries))"
proof -
  have l: "dirent_listable K ''.''" "\<forall>(e, n) \<in> set entries. dirent_listable K n"
    using assms(1-3) by (auto simp: dirent_listable_def)
  from rdsink.read_all_lists [OF assms(4) l assms(5), of "length entries + 2" K] obtain ds ls where
    ds: "read_all (read_dirents K (read_dirents_vt K) entries) (sink_new max_bytes) (length entries + 2) PosStart = Inr ds"
    "list_all2 (sink_sealed K max_bytes) ds ls"
    "concat ls = (EntryInfo (INO_UNKNOWN K) DtDirectory, ''.'') # entries" "[] \<notin> set ls" by auto
  have "(\<forall>d \<in> set ds. d_status d = OK \<and> length (d_buf d) \<le> unat max_bytes) \<and>
        concat (map d_buf ds) = concat (map (dirent_record K) (concat ls))"
    using ds(2,4)
    by (induction ds ls rule: list_all2_induct) (auto simp: sink_sealed_def)
  then show ?thesis using ds(1) unfolding ds(3) by blast
qed

theorem read_dirents_complete_witness:
  "\<exists>ds. read_all (read_dirents fio_values (read_dirents_vt fio_values) [(EntryInfo 7 DtFile, ''ab'')]) (sink_new 300)
         3 PosStart = Inr ds \<and>
       concat (map d_buf ds) =
         dirent_record fio_values (EntryInfo (INO_UNKNOWN fio_values) DtDirectory, ''.'') @
         dirent_record fio_values (EntryInfo 7 DtFile, ''ab'')"
proof -
  have "length [(EntryInfo 7 DtFile, ''ab'')] + 2 = (3 :: nat)" by simp
  with read_dirents_complete [of fio_values "[(EntryInfo 7 DtFile, ''ab'')]" 300]
  show ?thesis by (auto simp: numeral_3_eq_3 simp del: read_all.simps)
qed

end
