(* ===== verification/Simple_Dir.thy ===== *)
theory Simple_Dir
  imports Vfs_Path Vfs_Flags Watchers Dirents
begin

text \<open>
  The pseudo directory \<open>Simple\<close> (\<open>directory/simple.rs\<close>) with the traits it implements
  (\<open>directory/helper.rs\<close>: \<open>DirectlyMutable\<close> and the derived \<open>MutableDirectory\<close>), what the two kinds of
  connections do for a missing entry (\<open>entry_not_found\<close>), the tree constructor of
  \<open>directory/mutable/simple.rs\<close> and the rename across directories of \<open>filesystem/simple.rs\<close>.
  The entries are opaque handles \<open>'e\<close> (\<open>Arc<dyn DirectoryEntry>\<close>) with the trait's method
  \<open>entry_info\<close> as an argument.
\<close>

section \<open>State\<close>

definition MAX_NAME_LENGTH :: nat where
  "MAX_NAME_LENGTH = 255"

text \<open>\<open>sd_not_found\<close> is the registered handler, as the list of the names it was called with.\<close>

record 'e simple_dir =
  sd_entries :: "(string, 'e) sorted_map"
  sd_watchers :: watchers
  sd_inode :: "64 word"
  sd_mutable :: bool
  sd_not_found :: "string list option"

definition simple_new :: "bool \<Rightarrow> 64 word \<Rightarrow> 'e simple_dir" where
  "simple_new mutable inode =
     \<lparr>sd_entries = [], sd_watchers = watchers_new, sd_inode = inode, sd_mutable = mutable, sd_not_found = None\<rparr>"

definition mutable_simple :: "fio \<Rightarrow> 'e simple_dir" where
  "mutable_simple K = simple_new True (INO_UNKNOWN K)"

definition immutable_simple :: "fio \<Rightarrow> 'e simple_dir" where
  "immutable_simple K = simple_new False (INO_UNKNOWN K)"

definition immutable_simple_with_inode :: "64 word \<Rightarrow> 'e simple_dir" where
  "immutable_simple_with_inode inode = simple_new False inode"

text \<open>
  An event with one name, sent to all the watchers of the directory: two rounds of the producer are
  always enough.
\<close>

definition send_single :: "bool \<Rightarrow> SingleBufferEventProducer result \<Rightarrow> 'e simple_dir \<Rightarrow> 'e simple_dir result" where
  "send_single dbg producer d =
     bind_res producer (\<lambda>p. bind_res (watchers_send_event single_vt dbg 2 (sd_watchers d) p)
       (\<lambda>ws. Inr (d\<lparr>sd_watchers := ws\<rparr>)))"

section \<open>Missing entries\<close>

definition immutable_entry_not_found :: "OpenFlags \<Rightarrow> 'e result" where
  "immutable_entry_not_found flags =
     (if \<not> intersects flags {CREATE} then Inl (Err NOT_FOUND) else Inl (Err NOT_SUPPORTED))"

text \<open>The scope's entry constructor is an argument.\<close>

definition mutable_entry_not_found ::
    "fio \<Rightarrow> (NewEntryType \<Rightarrow> string \<Rightarrow> path \<Rightarrow> 'e result) option \<Rightarrow> OpenFlags \<Rightarrow> 32 word \<Rightarrow> string \<Rightarrow> path \<Rightarrow>
     'e result" where
  "mutable_entry_not_found K constructor flags mode name path =
     (if \<not> intersects flags {CREATE} then Inl (Err NOT_FOUND)
      else bind_res (from_flags_and_mode K flags mode (path_is_dir path)) (\<lambda>t.
             case constructor of
               None \<Rightarrow> Inl (Err NOT_SUPPORTED)
             | Some create_entry \<Rightarrow> create_entry t name path))"

definition tree_create_entry ::
    "'e \<Rightarrow> (string \<Rightarrow> 'e result) \<Rightarrow> NewEntryType \<Rightarrow> string \<Rightarrow> path \<Rightarrow> 'e result" where
  "tree_create_entry new_dir file_constructor what name path =
     (if \<not> path_is_empty path then Inl (Err NOT_FOUND)
      else case what of NewDirectory \<Rightarrow> Inr new_dir | NewFile \<Rightarrow> file_constructor name)"

section \<open>Operations of Simple\<close>

definition get_or_insert_entry ::
    "(OpenFlags \<Rightarrow> 32 word \<Rightarrow> string \<Rightarrow> path \<Rightarrow> 'e result) \<Rightarrow> OpenFlags \<Rightarrow> 32 word \<Rightarrow> string \<Rightarrow> path \<Rightarrow>
     'e simple_dir \<Rightarrow> 'e result \<times> 'e simple_dir" where
  "get_or_insert_entry entry_not_found flags mode name path d =
     (case sm_get (sd_entries d) name of
        Some entry \<Rightarrow>
          (if intersects flags {CREATE_IF_ABSENT} then (Inl (Err ALREADY_EXISTS), d) else (Inr entry, d))
      | None \<Rightarrow>
          (case entry_not_found flags mode name path of
             Inl e \<Rightarrow> (Inl e, d)
           | Inr entry \<Rightarrow> (Inr entry, d\<lparr>sd_entries := sm_insert name entry (sd_entries d)\<rparr>)))"

text \<open>The handler is replaced; what is kept of it is the list of the calls it gets from now on.\<close>

definition set_not_found_handler :: "'e simple_dir \<Rightarrow> 'e simple_dir" where
  "set_not_found_handler d = d\<lparr>sd_not_found := Some []\<rparr>"

definition get_entry :: "string \<Rightarrow> 'e simple_dir \<Rightarrow> 'e result" where
  "get_entry name d =
     (if length name > MAX_NAME_LENGTH then Inl (Err INVALID_ARGS)
      else case sm_get (sd_entries d) name of Some entry \<Rightarrow> Inr entry | None \<Rightarrow> Inl (Err NOT_FOUND))"

definition get_or_insert :: "string \<Rightarrow> 'e \<Rightarrow> 'e simple_dir \<Rightarrow> 'e \<times> 'e simple_dir" where
  "get_or_insert name f d =
     (case sm_get (sd_entries d) name of
        Some entry \<Rightarrow> (entry, d)
      | None \<Rightarrow> (f, d\<lparr>sd_entries := sm_insert name f (sd_entries d)\<rparr>))"

definition dir_filter_map :: "(string \<Rightarrow> 'e \<Rightarrow> 'b option) \<Rightarrow> 'e simple_dir \<Rightarrow> 'b list" where
  "dir_filter_map f d = List.map_filter (\<lambda>(k, v). f k v) (sd_entries d)"

definition dir_any :: "(string \<Rightarrow> 'e \<Rightarrow> bool) \<Rightarrow> 'e simple_dir \<Rightarrow> bool" where
  "dir_any f d = list_ex (\<lambda>(k, v). f k v) (sd_entries d)"

text \<open>
  What \<open>open\<close> does with the server end: create a connection to the directory itself, hand it to the
  entry of the next component, or send an error.
\<close>

datatype 'e open_outcome =
    OpenConnection OpenFlags
  | OpenForward 'e OpenFlags "32 word" path
  | OpenError "server_msg list"

definition simple_open ::
    "(OpenFlags \<Rightarrow> 32 word \<Rightarrow> string \<Rightarrow> path \<Rightarrow> 'e result) \<Rightarrow> bool \<Rightarrow> OpenFlags \<Rightarrow> 32 word \<Rightarrow> path \<Rightarrow>
     'e simple_dir \<Rightarrow> 'e open_outcome result \<times> 'e simple_dir" where
  "simple_open entry_not_found stream_ok flags mode path d =
     (case next_with_ref path of
        Inl e \<Rightarrow> (Inl e, d)
      | Inr (path', None) \<Rightarrow> (Inr (OpenConnection flags), d)
      | Inr (path', Some name) \<Rightarrow>
          (case get_or_insert_entry entry_not_found flags mode name path' d of
             (Inr entry, d') \<Rightarrow> (Inr (OpenForward entry flags mode path'), d')
           | (Inl Panic, d') \<Rightarrow> (Inl Panic, d')
           | (Inl (Err st), d') \<Rightarrow>
               (bind_res (send_on_open_with_error stream_ok flags st) (\<lambda>msgs. Inr (OpenError msgs)),
                d'\<lparr>sd_not_found := map_option (\<lambda>names. names @ [name]) (sd_not_found d')\<rparr>)))"

definition simple_entry_info :: "'e simple_dir \<Rightarrow> EntryInfo" where
  "simple_entry_info d = EntryInfo (sd_inode d) DtDirectory"

fun simple_read_loop ::
    "('e \<Rightarrow> EntryInfo) \<Rightarrow> ('s, 'd) sink_vt \<Rightarrow> (string \<times> 'e) list \<Rightarrow> 's \<Rightarrow> (TraversalPosition \<times> 'd) result" where
  "simple_read_loop info vt [] sink = Inr (PosEnd, sk_seal vt sink)"
| "simple_read_loop info vt ((name, entry) # es) sink =
     bind_res (sk_append vt sink (info entry) name) (\<lambda>r.
       case r of
         AppendOk new_sink \<Rightarrow> simple_read_loop info vt es new_sink
       | AppendSealed sealed \<Rightarrow> Inr (PosName name, sealed))"

definition simple_read_dirents ::
    "('e \<Rightarrow> EntryInfo) \<Rightarrow> ('s, 'd) sink_vt \<Rightarrow> 'e simple_dir \<Rightarrow> TraversalPosition \<Rightarrow> 's \<Rightarrow>
     (TraversalPosition \<times> 'd) result" where
  "simple_read_dirents info vt d pos sink =
     (case pos of
        PosStart \<Rightarrow>
          bind_res (sk_append vt sink (EntryInfo (sd_inode d) DtDirectory) ''.'') (\<lambda>r.
            case r of
              AppendOk sink' \<Rightarrow> simple_read_loop info vt (sd_entries d) sink'
            | AppendSealed sealed \<Rightarrow>
                (case sd_entries d of
                   [] \<Rightarrow> Inr (PosEnd, sealed)
                 | (first_name, _) # _ \<Rightarrow> Inr (PosName first_name, sealed)))
      | PosName next_name \<Rightarrow> simple_read_loop info vt (sm_range_from next_name (sd_entries d)) sink
      | PosIndex _ \<Rightarrow> Inl Panic
      | PosEnd \<Rightarrow> Inr (PosEnd, sk_seal vt sink))"

definition simple_register_watcher ::
    "fio \<Rightarrow> bool \<Rightarrow> (nat set \<Rightarrow> nat) \<Rightarrow> WatchMask \<Rightarrow> 'e simple_dir \<Rightarrow> 'e simple_dir result" where
  "simple_register_watcher K dbg vacant msk d =
     bind_res (static_vec_existing dbg (''.'' # map fst (sd_entries d))) (\<lambda>names.
       let (key, ws) = watchers_add vacant (sd_watchers d) msk
       in case sm_get ws key of
            None \<Rightarrow> Inl Panic
          | Some controller \<Rightarrow>
              bind_res (controller_send_event (static_vec_vt K dbg) dbg (length (sd_entries d) + 2) controller names)
                (\<lambda>(_, controller', _).
                  bind_res (single_name_idle K dbg) (\<lambda>idle.
                    bind_res (controller_send_event single_vt dbg 2 controller' idle)
                      (\<lambda>(_, controller'', _). Inr (d\<lparr>sd_watchers := sm_insert key controller'' ws\<rparr>)))))"

definition simple_unregister_watcher :: "nat \<Rightarrow> 'e simple_dir \<Rightarrow> 'e simple_dir result" where
  "simple_unregister_watcher key d =
     bind_res (watchers_remove (sd_watchers d) key) (\<lambda>ws. Inr (d\<lparr>sd_watchers := ws\<rparr>))"

definition simple_get_attrs :: "fio \<Rightarrow> 'e simple_dir \<Rightarrow> node_attributes result" where
  "simple_get_attrs K d =
     Inr \<lparr>na_id = sd_inode d,
          na_mode = or (MODE_TYPE_DIRECTORY K) (rights_to_posix_mode_bits K True (sd_mutable d) True),
          na_content_size = 0, na_storage_size = 0, na_link_count = 1, na_modification_time = 0,
          na_creation_time = 0\<rparr>"

section \<open>DirectlyMutable\<close>

text \<open>
  A mutating operation returns its result and the directory. A panic in the middle of an operation
  leaves the directory as it was before, behind a poisoned lock.
\<close>

definition add_entry_impl ::
    "fio \<Rightarrow> bool \<Rightarrow> string \<Rightarrow> 'e \<Rightarrow> bool \<Rightarrow> 'e simple_dir \<Rightarrow> unit result \<times> 'e simple_dir" where
  "add_entry_impl K dbg name entry overwrite d =
     (if length name > MAX_NAME_LENGTH then (Inl (Err INVALID_ARGS), d)
      else if slash \<in> set name then (Inl (Err INVALID_ARGS), d)
      else if \<not> overwrite \<and> sm_get (sd_entries d) name \<noteq> None then (Inl (Err ALREADY_EXISTS), d)
      else case send_single dbg (single_name_added K dbg name) d of
             Inl e \<Rightarrow> (Inl e, d)
           | Inr d' \<Rightarrow> (Inr (), d'\<lparr>sd_entries := sm_insert name entry (sd_entries d')\<rparr>))"

definition add_entry :: "fio \<Rightarrow> bool \<Rightarrow> string \<Rightarrow> 'e \<Rightarrow> 'e simple_dir \<Rightarrow> unit result \<times> 'e simple_dir" where
  "add_entry K dbg name entry d = add_entry_impl K dbg name entry False d"

definition remove_entry_impl ::
    "fio \<Rightarrow> bool \<Rightarrow> ('e \<Rightarrow> EntryInfo) \<Rightarrow> string \<Rightarrow> bool \<Rightarrow> 'e simple_dir \<Rightarrow> 'e option result \<times> 'e simple_dir" where
  "remove_entry_impl K dbg info name must_be_directory d =
     (if length name \<ge> MAX_NAME_LENGTH then (Inl (Err INVALID_ARGS), d)
      else case sm_get (sd_entries d) name of
             None \<Rightarrow> (Inr None, d)
           | Some value \<Rightarrow>
               (if must_be_directory \<and> ei_type (info value) \<noteq> DtDirectory then (Inl (Err NOT_DIR), d)
                else case send_single dbg (single_name_removed K dbg name)
                            (d\<lparr>sd_entries := sm_remove name (sd_entries d)\<rparr>) of
                       Inl e \<Rightarrow> (Inl e, d)
                     | Inr d' \<Rightarrow> (Inr (Some value), d')))"

definition remove_entry ::
    "fio \<Rightarrow> bool \<Rightarrow> ('e \<Rightarrow> EntryInfo) \<Rightarrow> string \<Rightarrow> bool \<Rightarrow> 'e simple_dir \<Rightarrow> 'e option result \<times> 'e simple_dir" where
  "remove_entry K dbg info name must_be_directory d = remove_entry_impl K dbg info name must_be_directory d"

definition dir_unlink ::
    "fio \<Rightarrow> bool \<Rightarrow> ('e \<Rightarrow> EntryInfo) \<Rightarrow> string \<Rightarrow> bool \<Rightarrow> 'e simple_dir \<Rightarrow> unit result \<times> 'e simple_dir" where
  "dir_unlink K dbg info name must_be_directory d =
     (case remove_entry_impl K dbg info name must_be_directory d of
        (Inr (Some _), d') \<Rightarrow> (Inr (), d')
      | (Inr None, d') \<Rightarrow> (Inl (Err NOT_FOUND), d')
      | (Inl e, d') \<Rightarrow> (Inl e, d'))"

text \<open>The callbacks of \<open>rename_from\<close> and \<open>rename_to\<close> act on the other directory, the state \<open>'s\<close>.\<close>

definition rename_from ::
    "fio \<Rightarrow> bool \<Rightarrow> string \<Rightarrow> ('e \<Rightarrow> 's \<Rightarrow> unit result \<times> 's) \<Rightarrow> 'e simple_dir \<Rightarrow> 's \<Rightarrow>
     unit result \<times> 'e simple_dir \<times> 's" where
  "rename_from K dbg src to d s =
     (if length src \<ge> MAX_NAME_LENGTH then (Inl (Err INVALID_ARGS), d, s)
      else case sm_get (sd_entries d) src of
             None \<Rightarrow> (Inl (Err NOT_FOUND), d, s)
           | Some entry \<Rightarrow>
               (case to entry s of
                  (Inl e, s') \<Rightarrow> (Inl e, d, s')
                | (Inr _, s') \<Rightarrow>
                    (case send_single dbg (single_name_removed K dbg src) d of
                       Inl e \<Rightarrow> (Inl e, d, s')
                     | Inr d' \<Rightarrow> (Inr (), d'\<lparr>sd_entries := sm_remove src (sd_entries d')\<rparr>, s'))))"

definition rename_to ::
    "fio \<Rightarrow> bool \<Rightarrow> string \<Rightarrow> ('s \<Rightarrow> 'e result \<times> 's) \<Rightarrow> 'e simple_dir \<Rightarrow> 's \<Rightarrow>
     unit result \<times> 'e simple_dir \<times> 's" where
  "rename_to K dbg dst from d s =
     (if length dst \<ge> MAX_NAME_LENGTH then (Inl (Err INVALID_ARGS), d, s)
      else case from s of
             (Inl e, s') \<Rightarrow> (Inl e, d, s')
           | (Inr entry, s') \<Rightarrow>
               (case send_single dbg (single_name_added K dbg dst) d of
                  Inl e \<Rightarrow> (Inl e, d, s')
                | Inr d' \<Rightarrow> (Inr (), d'\<lparr>sd_entries := sm_insert dst entry (sd_entries d')\<rparr>, s')))"

definition rename_within ::
    "fio \<Rightarrow> bool \<Rightarrow> string \<Rightarrow> string \<Rightarrow> 'e simple_dir \<Rightarrow> unit result \<times> 'e simple_dir" where
  "rename_within K dbg src dst d =
     (if length src \<ge> MAX_NAME_LENGTH \<or> length dst \<ge> MAX_NAME_LENGTH then (Inl (Err INVALID_ARGS), d)
      else if sm_get (sd_entries d) src = None then (Inl (Err NOT_FOUND), d)
      else case bind_res (send_single dbg (single_name_removed K dbg src) d)
                  (send_single dbg (single_name_added K dbg dst)) of
             Inl e \<Rightarrow> (Inl e, d)
           | Inr d' \<Rightarrow>
               (if src = dst then (Inr (), d')
                else case sm_get (sd_entries d') src of
                       None \<Rightarrow> (Inl (Err NOT_FOUND), d')
                     | Some entry \<Rightarrow>
                         (Inr (), d'\<lparr>sd_entries := sm_insert dst entry (sm_remove src (sd_entries d'))\<rparr>)))"

section \<open>SimpleFilesystem\<close>

text \<open>
  The directories live at addresses; a directory of another type is not in the store, and its
  downcast fails. \<open>into_string\<close> of a path is taken where the code takes it.
\<close>

type_synonym 'e dir_store = "nat \<Rightarrow> 'e simple_dir option"

definition fs_rename ::
    "fio \<Rightarrow> bool \<Rightarrow> ('e \<Rightarrow> EntryInfo) \<Rightarrow> nat \<Rightarrow> path \<Rightarrow> nat \<Rightarrow> path \<Rightarrow> 'e dir_store \<Rightarrow>
     unit result \<times> 'e dir_store" where
  "fs_rename K dbg info src_dir src dst_dir dst st =
     (case (st src_dir, st dst_dir) of
        (Some src_parent, Some dst_parent) \<Rightarrow>
          (case into_string src of Inl e \<Rightarrow> (Inl e, st) | Inr src_name \<Rightarrow>
           case into_string dst of Inl e \<Rightarrow> (Inl e, st) | Inr dst_name \<Rightarrow>
             if src_dir < dst_dir then
               (let (r, s', d') = rename_from K dbg src_name
                      (\<lambda>entry d. add_entry_impl K dbg dst_name entry True d) src_parent dst_parent
                in (r, st(src_dir \<mapsto> s', dst_dir \<mapsto> d')))
             else if src_dir = dst_dir then
               (let (r, d') = rename_within K dbg src_name dst_name src_parent
                in (r, st(src_dir \<mapsto> d')))
             else
               (let (r, d', s') = rename_to K dbg dst_name
                      (\<lambda>s. case remove_entry_impl K dbg info src_name False s of
                             (Inl e, s') \<Rightarrow> (Inl e, s')
                           | (Inr None, s') \<Rightarrow> (Inl (Err NOT_FOUND), s')
                           | (Inr (Some entry), s') \<Rightarrow> (Inr entry, s')) dst_parent src_parent
                in (r, st(src_dir \<mapsto> s', dst_dir \<mapsto> d'))))
      | _ \<Rightarrow> (Inl (Err INVALID_ARGS), st))"

definition fs_block_size :: "32 word" where
  "fs_block_size = 1"

section \<open>The invariant, and the events of an operation\<close>

text \<open>\<open>MAX_NAME_LENGTH\<close> is fuchsia.io's \<open>MAX_FILENAME\<close> (the crate has a test for that).\<close>

definition fio_names :: "fio \<Rightarrow> bool" where
  "fio_names K \<longleftrightarrow> MAX_FILENAME K = MAX_NAME_LENGTH \<and> fio_lengths K"

lemma fio_values_names [simp]: "fio_names fio_values"
  by (simp add: fio_names_def MAX_NAME_LENGTH_def)

definition entry_name :: "string \<Rightarrow> bool" where
  "entry_name n \<longleftrightarrow> length n \<le> MAX_NAME_LENGTH \<and> slash \<notin> set n"

definition dir_inv :: "'e simple_dir \<Rightarrow> bool" where
  "dir_inv d \<longleftrightarrow>
     sm_inv (sd_entries d) \<and> (\<forall>n \<in> fst ` set (sd_entries d). entry_name n) \<and>
     sm_inv (sd_watchers d) \<and> (\<forall>(k, c) \<in> set (sd_watchers d). c_alive c)"

abbreviation dir_map :: "'e simple_dir \<Rightarrow> string \<Rightarrow> 'e option" where
  "dir_map d \<equiv> sm_get (sd_entries d)"

text \<open>The watchers of a directory after one event with one name.\<close>

definition announce :: "fio \<Rightarrow> WatchMask \<Rightarrow> watch_event \<Rightarrow> string \<Rightarrow> watchers \<Rightarrow> watchers" where
  "announce K m ev name ws =
     map (\<lambda>(k, c). (k, if intersects (c_mask c) m
            then c\<lparr>c_commands := c_commands c @ [Send (event_record K ev name)]\<rparr> else c)) ws"

lemma announce_keys [simp]: "map fst (announce K m ev name ws) = map fst ws"
  by (simp add: announce_def comp_def case_prod_beta)

lemma announce_inv [simp]: "sm_inv (announce K m ev name ws) = sm_inv ws"
  by (simp add: sm_inv_def)

lemma announce_alive [simp]:
  "(\<forall>(k, c) \<in> set (announce K m ev name ws). c_alive c) = (\<forall>(k, c) \<in> set ws. c_alive c)"
  by (auto simp: announce_def split: if_splits)

lemma dir_inv_announce [simp]:
  "dir_inv (d\<lparr>sd_watchers := announce K m ev name (sd_watchers d)\<rparr>) = dir_inv d"
  by (simp add: dir_inv_def)

lemma send_single_new:
  assumes "fio_names K" and "length name \<le> MAX_NAME_LENGTH" and "\<forall>(k, c) \<in> set (sd_watchers d). c_alive c"
  shows "send_single dbg (single_name_new K dbg m ev name) d =
           Inr (d\<lparr>sd_watchers := announce K m ev name (sd_watchers d)\<rparr>)"
proof -
  have "fio_lengths K" "length name \<le> MAX_FILENAME K" using assms by (auto simp: fio_names_def)
  from single_name_new_ok [OF this, of dbg m ev] obtain p where
    p: "single_name_new K dbg m ev name = Inr p" "single_pending p = [event_record K ev name]"
    "vt_mask single_vt p = m" by blast
  have "watchers_send_event single_vt dbg 2 (sd_watchers d) p =
      Inr (map (\<lambda>(k, c). (k, single.deliver p c)) (sd_watchers d))"
    using p assms(3) by (intro single.watchers_event_delivers) auto
  then show ?thesis
    unfolding send_single_def p(1) single.deliver_def p(2,3) announce_def list.map by simp
qed

lemmas send_events =
  send_single_new [where m = "{WATCH_ADDED}" and ev = EvAdded, folded single_name_added_def]
  send_single_new [where m = "{WATCH_REMOVED}" and ev = EvRemoved, folded single_name_removed_def]

lemma dir_inv_alive: "dir_inv d \<Longrightarrow> \<forall>(k, c) \<in> set (sd_watchers d). c_alive c"
  by (simp add: dir_inv_def)

lemma dir_inv_watcher_insert:
  assumes "dir_inv d" and "c_alive c"
  shows "dir_inv (d\<lparr>sd_watchers := sm_insert key c (sd_watchers d)\<rparr>)"
proof -
  have "set (sm_insert key c ws) \<subseteq> insert (key, c) (set ws)" for ws
    by (induction key c ws rule: sm_insert.induct) auto
  with assms show ?thesis by (fastforce simp: dir_inv_def)
qed

section \<open>What the mutating operations do\<close>

abbreviation announce_added :: "fio \<Rightarrow> string \<Rightarrow> watchers \<Rightarrow> watchers" where
  "announce_added K \<equiv> announce K {WATCH_ADDED} EvAdded"

abbreviation announce_removed :: "fio \<Rightarrow> string \<Rightarrow> watchers \<Rightarrow> watchers" where
  "announce_removed K \<equiv> announce K {WATCH_REMOVED} EvRemoved"

lemma add_entry_impl_eq:
  assumes "fio_names K" and "dir_inv d"
  shows "add_entry_impl K dbg name entry ow d =
     (if \<not> entry_name name then (Inl (Err INVALID_ARGS), d)
      else if \<not> ow \<and> name \<in> dom (dir_map d) then (Inl (Err ALREADY_EXISTS), d)
      else (Inr (), d\<lparr>sd_watchers := announce_added K name (sd_watchers d),
                      sd_entries := sm_insert name entry (sd_entries d)\<rparr>))"
  using send_events(1) [OF assms(1) _ dir_inv_alive [OF assms(2)], of name dbg]
  by (auto simp: add_entry_impl_def entry_name_def dom_def)

lemma remove_entry_impl_eq:
  assumes "fio_names K" and "dir_inv d"
  shows "remove_entry_impl K dbg info name must d =
     (if length name \<ge> MAX_NAME_LENGTH then (Inl (Err INVALID_ARGS), d)
      else case dir_map d name of
        None \<Rightarrow> (Inr None, d)
      | Some e \<Rightarrow>
          (if must \<and> ei_type (info e) \<noteq> DtDirectory then (Inl (Err NOT_DIR), d)
           else (Inr (Some e), d\<lparr>sd_watchers := announce_removed K name (sd_watchers d),
                                 sd_entries := sm_remove name (sd_entries d)\<rparr>)))"
proof -
  let ?d = "d\<lparr>sd_entries := sm_remove name (sd_entries d)\<rparr>"
  have "send_single dbg (single_name_removed K dbg name) ?d =
      Inr (?d\<lparr>sd_watchers := announce_removed K name (sd_watchers ?d)\<rparr>)" if "length name < MAX_NAME_LENGTH"
    using that dir_inv_alive [OF assms(2)] by (intro send_events(2) [OF assms(1)]) auto
  then show ?thesis
    by (auto simp: remove_entry_impl_def split: option.splits)
qed

lemma dir_inv_insert:
  "dir_inv d \<Longrightarrow> entry_name name \<Longrightarrow> dir_inv (d\<lparr>sd_entries := sm_insert name e (sd_entries d)\<rparr>)"
  by (simp add: dir_inv_def)

lemma dir_inv_remove: "dir_inv d \<Longrightarrow> dir_inv (d\<lparr>sd_entries := sm_remove name (sd_entries d)\<rparr>)"
  using sm_remove_keys [of name "sd_entries d"] by (auto simp: dir_inv_def)

lemma dir_inv_updates:
  assumes "dir_inv d"
  shows "entry_name name \<Longrightarrow> dir_inv (d\<lparr>sd_watchers := announce K m ev x (sd_watchers d),
                                  sd_entries := sm_insert name e (sd_entries d)\<rparr>)"
    and "dir_inv (d\<lparr>sd_watchers := announce K m ev x (sd_watchers d),
                    sd_entries := sm_remove name (sd_entries d)\<rparr>)"
  using dir_inv_insert [of "d\<lparr>sd_watchers := announce K m ev x (sd_watchers d)\<rparr>" name e]
    dir_inv_remove [of "d\<lparr>sd_watchers := announce K m ev x (sd_watchers d)\<rparr>" name] assms
  by simp_all

section \<open>The contract of DirectlyMutable\<close>

text \<open>
  What the rename across two directories relies on: adding with overwrite succeeds for an acceptable
  name and binds it, removing returns the bound entry and unbinds it; either reports its event.
\<close>

locale directly_mutable =
  fixes contents :: "'d \<Rightarrow> string \<Rightarrow> 'e option"
    and good :: "'d \<Rightarrow> bool"
    and acceptable :: "string \<Rightarrow> bool"
    and removable :: "string \<Rightarrow> bool"
    and add :: "string \<Rightarrow> 'e \<Rightarrow> 'd \<Rightarrow> unit result \<times> 'd"
    and remove :: "string \<Rightarrow> 'd \<Rightarrow> 'e option result \<times> 'd"
  assumes add_ok: "good d \<Longrightarrow> acceptable n \<Longrightarrow>
            \<exists>d'. add n e d = (Inr (), d') \<and> good d' \<and> contents d' = (contents d)(n \<mapsto> e)"
    and remove_absent: "good d \<Longrightarrow> removable n \<Longrightarrow> contents d n = None \<Longrightarrow> remove n d = (Inr None, d)"
    and remove_present: "good d \<Longrightarrow> removable n \<Longrightarrow> contents d n = Some e \<Longrightarrow>
            \<exists>d'. remove n d = (Inr (Some e), d') \<and> good d' \<and> contents d' = (contents d)(n := None)"
begin

lemma add_then_remove:
  assumes "good d" and "acceptable n" and "removable n"
  shows "\<exists>d'. add n e d = (Inr (), d') \<and>
           (\<exists>d''. remove n d' = (Inr (Some e), d'') \<and> good d'' \<and> contents d'' = (contents d)(n := None))"
  using add_ok [OF assms(1,2), of e] remove_present [OF _ assms(3), of _ e] by fastforce

text \<open>Moving an entry between two directories neither loses nor duplicates it.\<close>

lemma move_entry:
  assumes "good s" and "good d" and "removable a" and "acceptable b" and "contents s a = Some e"
  shows "\<exists>s' d'. remove a s = (Inr (Some e), s') \<and> add b e d = (Inr (), d') \<and> good s' \<and> good d' \<and>
           contents s' = (contents s)(a := None) \<and> contents d' = (contents d)(b \<mapsto> e)"
  using add_ok [OF assms(2,4), of e] remove_present [OF assms(1,3,5)] by blast

end

interpretation sdir: directly_mutable dir_map "\<lambda>d. fio_names K \<and> dir_inv d" entry_name
    "\<lambda>n. length n < MAX_NAME_LENGTH" "\<lambda>n e d. add_entry_impl K dbg n e True d"
    "\<lambda>n d. remove_entry_impl K dbg info n False d"
  for K dbg info
  by unfold_locales
    (auto simp: add_entry_impl_eq remove_entry_impl_eq dir_inv_updates dest: dir_inv_def [THEN iffD1])

section \<open>Renames\<close>

lemma rename_within_eq:
  assumes "fio_names K" and "dir_inv d"
  shows "rename_within K dbg a b d =
     (if length a \<ge> MAX_NAME_LENGTH \<or> length b \<ge> MAX_NAME_LENGTH then (Inl (Err INVALID_ARGS), d)
      else case dir_map d a of
        None \<Rightarrow> (Inl (Err NOT_FOUND), d)
      | Some e \<Rightarrow>
          (Inr (), d\<lparr>sd_watchers := announce_added K b (announce_removed K a (sd_watchers d)),
                     sd_entries := (if a = b then sd_entries d else sm_insert b e (sm_remove a (sd_entries d)))\<rparr>))"
proof (cases "length a \<ge> MAX_NAME_LENGTH \<or> length b \<ge> MAX_NAME_LENGTH")
  case False
  let ?d1 = "d\<lparr>sd_watchers := announce_removed K a (sd_watchers d)\<rparr>"
  have alive: "\<forall>(k, c) \<in> set (sd_watchers ?d1). c_alive c"
    using dir_inv_alive [OF assms(2)] by simp
  have "send_single dbg (single_name_removed K dbg a) d = Inr ?d1"
    using False by (intro send_events(2) [OF assms(1)] dir_inv_alive [OF assms(2)]) auto
  moreover have "send_single dbg (single_name_added K dbg b) ?d1 =
      Inr (?d1\<lparr>sd_watchers := announce_added K b (sd_watchers ?d1)\<rparr>)"
    using False by (intro send_events(1) [OF assms(1)] alive) auto
  ultimately show ?thesis
    using False by (auto simp: rename_within_def split: option.splits)
qed (auto simp: rename_within_def)

lemma rename_from_eq:
  assumes "fio_names K" and "dir_inv s" and "length a < MAX_NAME_LENGTH"
  shows "rename_from K dbg a to s x =
     (case dir_map s a of
        None \<Rightarrow> (Inl (Err NOT_FOUND), s, x)
      | Some e \<Rightarrow>
          (case to e x of
             (Inl err, x') \<Rightarrow> (Inl err, s, x')
           | (Inr _, x') \<Rightarrow>
               (Inr (), s\<lparr>sd_watchers := announce_removed K a (sd_watchers s),
                          sd_entries := sm_remove a (sd_entries s)\<rparr>, x')))"
  using assms(3) send_events(2) [OF assms(1) _ dir_inv_alive [OF assms(2)], of a dbg]
  by (auto simp: rename_from_def split: option.splits sum.splits prod.splits)

lemma rename_to_eq:
  assumes "fio_names K" and "dir_inv d" and "length b < MAX_NAME_LENGTH"
  shows "rename_to K dbg b from d x =
     (case from x of
        (Inl err, x') \<Rightarrow> (Inl err, d, x')
      | (Inr e, x') \<Rightarrow>
          (Inr (), d\<lparr>sd_watchers := announce_added K b (sd_watchers d),
                     sd_entries := sm_insert b e (sd_entries d)\<rparr>, x'))"
  using assms(3) send_events(1) [OF assms(1) _ dir_inv_alive [OF assms(2)], of b dbg]
  by (auto simp: rename_to_def split: sum.splits prod.splits)

text \<open>The two directories after a successful rename of one into the other.\<close>

definition renamed_src :: "fio \<Rightarrow> string \<Rightarrow> 'e simple_dir \<Rightarrow> 'e simple_dir" where
  "renamed_src K a s = s\<lparr>sd_watchers := announce_removed K a (sd_watchers s),
                         sd_entries := sm_remove a (sd_entries s)\<rparr>"

definition renamed_dst :: "fio \<Rightarrow> string \<Rightarrow> 'e \<Rightarrow> 'e simple_dir \<Rightarrow> 'e simple_dir" where
  "renamed_dst K b e d = d\<lparr>sd_watchers := announce_added K b (sd_watchers d),
                           sd_entries := sm_insert b e (sd_entries d)\<rparr>"

lemma fs_rename_eq:
  assumes "fio_names K" and "st i = Some s" and "st j = Some d" and "i \<noteq> j"
    and "dir_inv s" and "dir_inv d" and "into_string src = Inr a" and "into_string dst = Inr b"
    and "length a < MAX_NAME_LENGTH" and "length b < MAX_NAME_LENGTH" and "slash \<notin> set b"
  shows "fs_rename K dbg info i src j dst st =
     (case dir_map s a of
        None \<Rightarrow> (Inl (Err NOT_FOUND), st)
      | Some e \<Rightarrow> (Inr (), st(i \<mapsto> renamed_src K a s, j \<mapsto> renamed_dst K b e d)))"
proof -
  have b: "entry_name b" using assms(10,11) by (simp add: entry_name_def)
  have same: "st(i \<mapsto> s, j \<mapsto> d) = st" using assms(2,3) by auto
  show ?thesis
  proof (cases "i < j")
    case True
    then show ?thesis
      using assms b same
      by (auto simp: fs_rename_def rename_from_eq [OF assms(1,5,9)] add_entry_impl_eq [OF assms(1,6)]
          renamed_src_def renamed_dst_def split: option.splits)
  next
    case False
    then show ?thesis
      using assms b same
      by (auto simp: fs_rename_def rename_to_eq [OF assms(1,6,10)] remove_entry_impl_eq [OF assms(1,5)]
          renamed_src_def renamed_dst_def split: option.splits)
  qed
qed

lemma renamed_dirs:
  assumes "dir_inv s" and "dir_inv d" and "length b < MAX_NAME_LENGTH" and "slash \<notin> set b"
  shows "dir_inv (renamed_src K a s)" and "dir_inv (renamed_dst K b e d)"
    and "dir_map (renamed_src K a s) = (dir_map s)(a := None)"
    and "dir_map (renamed_dst K b e d) = (dir_map d)(b \<mapsto> e)"
    and "sd_watchers (renamed_src K a s) = announce_removed K a (sd_watchers s)"
    and "sd_watchers (renamed_dst K b e d) = announce_added K b (sd_watchers d)"
proof -
  show "dir_inv (renamed_src K a s)"
    unfolding renamed_src_def using assms(1) by (rule dir_inv_updates)
  show "dir_inv (renamed_dst K b e d)"
    unfolding renamed_dst_def using assms(2-4) by (intro dir_inv_updates) (simp_all add: entry_name_def)
qed (use assms in \<open>simp_all add: renamed_src_def renamed_dst_def dir_inv_def\<close>)

section \<open>Listing a directory that changes\<close>

text \<open>The names before a position.\<close>

fun before_pos :: "string \<Rightarrow> TraversalPosition \<Rightarrow> bool" where
  "before_pos n PosStart = False"
| "before_pos n (PosIndex i) = False"
| "before_pos n (PosName m) = (n < m)"
| "before_pos n PosEnd = True"

lemma before_pos_less: "before_pos a p \<Longrightarrow> \<not> before_pos b p \<Longrightarrow> a < b"
  by (cases p) (auto intro: less_le_trans)

text \<open>
  A client that calls \<open>read_dirents\<close> once on each of a sequence of states of one directory, starting
  where the previous call ended.
\<close>

fun read_versions ::
    "('e \<Rightarrow> EntryInfo) \<Rightarrow> ('s, 'd) sink_vt \<Rightarrow> 's \<Rightarrow> 'e simple_dir list \<Rightarrow> TraversalPosition \<Rightarrow>
     ('d list \<times> TraversalPosition) result" where
  "read_versions info vt s [] pos = Inr ([], pos)"
| "read_versions info vt s (d # ds) pos =
     bind_res (simple_read_dirents info vt d pos s) (\<lambda>(pos', x).
       bind_res (read_versions info vt s ds pos') (\<lambda>(xs, p). Inr (x # xs, p)))"

text \<open>The entries a call lists: those between the two positions.\<close>

definition listed :: "('e \<Rightarrow> EntryInfo) \<Rightarrow> 'e simple_dir \<Rightarrow> TraversalPosition \<Rightarrow> TraversalPosition \<Rightarrow> (EntryInfo \<times> string) list" where
  "listed info d p p' =
     (if p = PosStart then [(EntryInfo (sd_inode d) DtDirectory, ''.'')] else []) @
     map (\<lambda>(n, e). (info e, n)) (filter (\<lambda>(n, e). \<not> before_pos n p \<and> before_pos n p') (sd_entries d))"

lemma sm_inv_append:
  "sm_inv (a @ b) \<longleftrightarrow> sm_inv a \<and> sm_inv b \<and> (\<forall>x \<in> set a. \<forall>y \<in> set b. fst x < fst y)"
  by (auto simp: sm_inv_def sorted_wrt_append)

context dirent_sink
begin

lemma simple_loop_prefix:
  assumes "holds s h" and "\<forall>(n, e) \<in> set es. listable n"
  shows "\<exists>pre post x. es = pre @ post \<and>
     simple_read_loop info vt es s = Inr (case post of [] \<Rightarrow> PosEnd | (n, _) # _ \<Rightarrow> PosName n, x) \<and>
     sealed x (h @ map (\<lambda>(n, e). (info e, n)) pre)"
  using assms
proof (induction es arbitrary: s h)
  case Nil
  then show ?case by (auto intro: seal_holds)
next
  case (Cons ne es)
  obtain n e where ne: "ne = (n, e)" by (cases ne)
  have "listable n" using Cons.prems(2) ne by auto
  from append_cases [OF Cons.prems(1) this, of "info e"] show ?case
  proof (elim disjE exE conjE)
    fix s' assume s': "sk_append vt s (info e) n = Inr (AppendOk s')" "holds s' (h @ [(info e, n)])"
    from Cons.IH [OF s'(2)] Cons.prems(2) obtain pre post x where
      "es = pre @ post"
      "simple_read_loop info vt es s' = Inr (case post of [] \<Rightarrow> PosEnd | (n, _) # _ \<Rightarrow> PosName n, x)"
      "sealed x ((h @ [(info e, n)]) @ map (\<lambda>(n, e). (info e, n)) pre)" by auto
    with s'(1) ne show ?thesis
      by (intro exI [of _ "(n, e) # pre"] exI [of _ post] exI [of _ x]) simp
  next
    fix x assume "sk_append vt s (info e) n = Inr (AppendSealed x)" "sealed x h"
    with ne show ?thesis
      by (intro exI [of _ "[]"] exI [of _ "(n, e) # es"] exI [of _ x]) simp
  qed
qed

lemma simple_loop_listed:
  assumes "holds s h" and "\<forall>(n, e) \<in> set es. listable n" and "sm_inv es"
  shows "\<exists>p x. simple_read_loop info vt es s = Inr (p, x) \<and> p \<noteq> PosStart \<and> (\<forall>i. p \<noteq> PosIndex i) \<and>
     sealed x (h @ map (\<lambda>(n, e). (info e, n)) (filter (\<lambda>(n, e). before_pos n p) es)) \<and>
     (\<forall>m. p = PosName m \<longrightarrow> m \<in> fst ` set es)"
proof -
  obtain pre post x where es: "es = pre @ post" and
    r: "simple_read_loop info vt es s = Inr (case post of [] \<Rightarrow> PosEnd | (n, _) # _ \<Rightarrow> PosName n, x)" and
    x: "sealed x (h @ map (\<lambda>(n, e). (info e, n)) pre)"
    using simple_loop_prefix [OF assms(1,2)] by blast
  let ?p = "case post of [] \<Rightarrow> PosEnd | (n, _) # _ \<Rightarrow> PosName n"
  have "filter (\<lambda>(n, e). before_pos n ?p) es = pre"
  proof (cases post)
    case Nil
    then show ?thesis using es by (simp add: case_prod_beta)
  next
    case (Cons ne post')
    obtain m e where ne: "ne = (m, e)" by (cases ne)
    have "\<forall>y \<in> set pre. fst y < m" "\<forall>y \<in> set post. \<not> fst y < m"
      using assms(3) Cons ne unfolding es sm_inv_append by (auto simp: not_less_iff_gr_or_eq)
    then show ?thesis using es Cons ne by (auto simp: filter_id_conv filter_empty_conv case_prod_beta)
  qed
  with r x es show ?thesis
    by (intro exI [of _ ?p] exI [of _ x]) (auto split: list.splits)
qed

lemma simple_read_listed:
  assumes "sm_inv (sd_entries d)" and "\<forall>n \<in> fst ` set (sd_entries d). listable n" and "listable ''.''" and "roomy"
    and "\<forall>i. pos \<noteq> PosIndex i"
  shows "\<exists>p x. simple_read_dirents info vt d pos fresh = Inr (p, x) \<and> p \<noteq> PosStart \<and> (\<forall>i. p \<noteq> PosIndex i) \<and>
     sealed x (listed info d pos p) \<and> (\<forall>n. before_pos n pos \<longrightarrow> before_pos n p)"
proof (cases pos)
  case PosStart
  obtain s' where s': "sk_append vt fresh (EntryInfo (sd_inode d) DtDirectory) ''.'' = Inr (AppendOk s')"
    using fresh_accepts [OF assms(4,3)] by blast
  with append_cases [OF fresh_holds assms(3), of "EntryInfo (sd_inode d) DtDirectory"]
  have "holds s' [(EntryInfo (sd_inode d) DtDirectory, ''.'')]" by auto
  moreover have "\<forall>(n, e) \<in> set (sd_entries d). listable n" using assms(2) by auto
  ultimately show ?thesis
    using simple_loop_listed [of s' _ "sd_entries d" info] assms(1) s' PosStart
    by (fastforce simp: simple_read_dirents_def listed_def)
next
  case (PosName m)
  let ?es = "sm_range_from m (sd_entries d)"
  have inv: "sm_inv ?es" using assms(1) by (simp add: sm_range_from_def)
  have "\<forall>(n, e) \<in> set ?es. listable n" using assms(2) by (auto simp: sm_range_from_def)
  from simple_loop_listed [OF fresh_holds this inv, of info] obtain p x where
    p: "simple_read_loop info vt ?es fresh = Inr (p, x)" "p \<noteq> PosStart" "\<forall>i. p \<noteq> PosIndex i"
    "sealed x (map (\<lambda>(n, e). (info e, n)) (filter (\<lambda>(n, e). before_pos n p) ?es))"
    "\<forall>m. p = PosName m \<longrightarrow> m \<in> fst ` set ?es" by auto
  have "filter (\<lambda>(n, e). before_pos n p) ?es =
      filter (\<lambda>(n, e). \<not> before_pos n (PosName m) \<and> before_pos n p) (sd_entries d)"
    unfolding sm_range_from_def filter_filter by (rule filter_cong) auto
  moreover have "before_pos n p" if "n < m" for n
  proof (cases p)
    case (PosName m')
    then have "m \<le> m'" using p(5) by (auto simp: sm_range_from_def)
    with that PosName show ?thesis by (auto intro: less_le_trans)
  qed (use p in auto)
  ultimately show ?thesis using p PosName by (auto simp: simple_read_dirents_def listed_def)
next
  case PosEnd
  then show ?thesis
    using seal_holds [OF fresh_holds] by (auto simp: simple_read_dirents_def listed_def)
qed (use assms(5) in auto)

lemma versions_listed:
  assumes "\<forall>d \<in> set ds. sm_inv (sd_entries d) \<and> (\<forall>n \<in> fst ` set (sd_entries d). listable n)"
    and "listable ''.''" and "roomy" and "\<forall>i. pos \<noteq> PosIndex i"
  shows "\<exists>xs ls p. read_versions info vt fresh ds pos = Inr (xs, p) \<and> list_all2 sealed xs ls \<and>
     (let es = (if pos = PosStart \<and> ds \<noteq> [] then tl (concat ls) else concat ls)
      in sorted_wrt (<) (map snd es) \<and>
         (\<forall>n \<in> snd ` set es. \<not> before_pos n pos \<and> before_pos n p) \<and>
         (\<forall>n. (\<forall>d \<in> set ds. n \<in> fst ` set (sd_entries d)) \<and> \<not> before_pos n pos \<and> before_pos n p \<longrightarrow>
              n \<in> snd ` set es)) \<and>
     (pos = PosStart \<and> ds \<noteq> [] \<longrightarrow> concat ls \<noteq> [] \<and> snd (hd (concat ls)) = ''.'') \<and>
     (\<forall>n. before_pos n pos \<longrightarrow> before_pos n p)"
  using assms(1,4)
proof (induction ds arbitrary: pos)
  case Nil
  then show ?case by (auto simp: Let_def)
next
  case (Cons d ds)
  obtain p x where p: "simple_read_dirents info vt d pos fresh = Inr (p, x)" "p \<noteq> PosStart"
    "\<forall>i. p \<noteq> PosIndex i" "sealed x (listed info d pos p)" "\<forall>n. before_pos n pos \<longrightarrow> before_pos n p"
    using simple_read_listed [of d pos info] Cons.prems assms(2,3) by auto
  from Cons.IH [OF _ p(3)] Cons.prems(1) p(2) obtain xs ls q where
    q: "read_versions info vt fresh ds p = Inr (xs, q)" "list_all2 sealed xs ls"
    "sorted_wrt (<) (map snd (concat ls))"
    "\<forall>n \<in> snd ` set (concat ls). \<not> before_pos n p \<and> before_pos n q"
    "\<forall>n. (\<forall>d \<in> set ds. n \<in> fst ` set (sd_entries d)) \<and> \<not> before_pos n p \<and> before_pos n q \<longrightarrow>
        n \<in> snd ` set (concat ls)"
    "\<forall>n. before_pos n p \<longrightarrow> before_pos n q" by (auto simp: Let_def)
  define es where "es = map (\<lambda>(n, e). (info e, n))
      (filter (\<lambda>(n, e). \<not> before_pos n pos \<and> before_pos n p) (sd_entries d))"
  have names: "map snd es = map fst (filter (\<lambda>(n, e). \<not> before_pos n pos \<and> before_pos n p) (sd_entries d))"
    by (simp add: es_def comp_def case_prod_beta)
  have "sorted_wrt (<) (map snd es)"
    unfolding names using Cons.prems(1) sm_inv_filter by (auto simp: sm_inv_def)
  moreover have in_es: "n \<in> snd ` set es \<longleftrightarrow> n \<in> fst ` set (sd_entries d) \<and> \<not> before_pos n pos \<and> before_pos n p" for n
    unfolding es_def by force
  ultimately have "sorted_wrt (<) (map snd (es @ concat ls))"
    using q(3,4) before_pos_less [where p = p] by (auto simp: sorted_wrt_append)
  moreover have "\<forall>n \<in> snd ` set (es @ concat ls). \<not> before_pos n pos \<and> before_pos n q"
  proof
    fix n assume "n \<in> snd ` set (es @ concat ls)"
    then consider "n \<in> snd ` set es" | "n \<in> snd ` set (concat ls)" unfolding set_append image_Un by blast
    then show "\<not> before_pos n pos \<and> before_pos n q"
      by cases (use in_es q(4,6) p(5) in blast)+
  qed
  moreover have all: "n \<in> snd ` set (es @ concat ls)"
    if "\<forall>d' \<in> set (d # ds). n \<in> fst ` set (sd_entries d')" "\<not> before_pos n pos" "before_pos n q" for n
  proof (cases "before_pos n p")
    case True
    with that in_es [of n] show ?thesis unfolding set_append image_Un by simp
  next
    case False
    with that q(5) have "n \<in> snd ` set (concat ls)" by (metis list.set_intros(2))
    then show ?thesis unfolding set_append image_Un by blast
  qed
  moreover have "listed info d pos p = (if pos = PosStart then [(EntryInfo (sd_inode d) DtDirectory, ''.'')] else []) @ es"
    by (simp add: listed_def es_def)
  moreover have "(if pos = PosStart \<and> d # ds \<noteq> [] then tl (concat (listed info d pos p # ls))
      else concat (listed info d pos p # ls)) = es @ concat ls"
    by (simp add: listed_def es_def)
  ultimately show ?case
    unfolding Let_def using p q(1,2,6) all
    by (intro exI [of _ "x # xs"] exI [of _ "listed info d pos p # ls"] exI [of _ q] conjI)
      (simp_all only:, auto)
qed

text \<open>A call that starts at a name lists at least the first entry from there on.\<close>

lemma simple_read_progress:
  assumes "sm_inv (sd_entries d)" and "\<forall>n \<in> fst ` set (sd_entries d). listable n" and "roomy"
    and "simple_read_dirents info vt d (PosName m) fresh = Inr (p, x)" and "p \<noteq> PosEnd"
  shows "\<exists>n \<in> fst ` set (sd_entries d). \<not> before_pos n (PosName m) \<and> before_pos n p"
proof (cases "sm_range_from m (sd_entries d)")
  case Nil
  with assms(4,5) show ?thesis by (simp add: simple_read_dirents_def)
next
  case (Cons ne es)
  obtain n e where ne: "ne = (n, e)" by (cases ne)
  have mem: "set (sm_range_from m (sd_entries d)) \<subseteq> set (sd_entries d)" by (auto simp: sm_range_from_def)
  have inv: "sm_inv ((n, e) # es)"
    using sm_inv_filter [OF assms(1), of "\<lambda>(k', _). m \<le> k'"] Cons ne by (simp add: sm_range_from_def)
  have "(n, e) \<in> set (sd_entries d)" using mem Cons ne by auto
  then have n: "n \<in> fst ` set (sd_entries d)" by force
  have "(n, e) \<in> set (sm_range_from m (sd_entries d))" using Cons ne by simp
  then have ge: "m \<le> n" by (auto simp: sm_range_from_def)
  obtain s' where s': "sk_append vt fresh (info e) n = Inr (AppendOk s')"
    using fresh_accepts [OF assms(3)] assms(2) n by blast
  with append_cases [OF fresh_holds, of n "info e"] assms(2) n have h: "holds s' [(info e, n)]" by auto
  have "\<forall>(n, e) \<in> set es. listable n" using assms(2) mem Cons by fastforce
  from simple_loop_prefix [OF h this, of info] obtain pre post y where
    "es = pre @ post" and
    r: "simple_read_loop info vt es s' = Inr (case post of [] \<Rightarrow> PosEnd | (n, _) # _ \<Rightarrow> PosName n, y)" by blast
  moreover have "simple_read_loop info vt es s' = Inr (p, x)"
    using assms(4) Cons ne s' by (simp add: simple_read_dirents_def)
  ultimately have "before_pos n p" using inv by (auto split: list.splits)
  with n ge show ?thesis by (intro bexI [of _ n]) auto
qed

lemma read_versions_end: "\<exists>xs. read_versions info vt fresh ds PosEnd = Inr (xs, PosEnd)"
  by (induction ds) (auto simp: simple_read_dirents_def)

lemma versions_reach_end:
  assumes "sm_inv (sd_entries d)" and "\<forall>n \<in> fst ` set (sd_entries d). listable n" and "listable ''.''" and "roomy"
  shows "(\<forall>i. pos \<noteq> PosIndex i) \<Longrightarrow>
     length (filter (\<lambda>n. \<not> before_pos n pos) (map fst (sd_entries d))) + (if pos = PosStart then 1 else 0) < k \<Longrightarrow>
     \<exists>xs. read_versions info vt fresh (replicate k d) pos = Inr (xs, PosEnd)"
proof (induction k arbitrary: pos)
  case 0
  then show ?case by simp
next
  case (Suc k)
  define left where "left p = length (filter (\<lambda>n. \<not> before_pos n p) (map fst (sd_entries d)))" for p
  obtain p x where p: "simple_read_dirents info vt d pos fresh = Inr (p, x)" "p \<noteq> PosStart"
    "\<forall>i. p \<noteq> PosIndex i" "\<forall>n. before_pos n pos \<longrightarrow> before_pos n p"
    using simple_read_listed [OF assms Suc.prems(1)] by blast
  show ?case
  proof (cases "p = PosEnd")
    case True
    with p read_versions_end [of info "replicate k d"] show ?thesis by auto
  next
    case False
    have "left p \<le> left pos" unfolding left_def using p(4) by (intro length_filter_mono) auto
    moreover have "left p < left pos" if ns: "pos \<noteq> PosStart"
    proof -
      obtain m where m: "pos = PosName m"
        using ns Suc.prems(1) p(1) False by (cases pos) (auto simp: simple_read_dirents_def)
      obtain n where n: "n \<in> set (map fst (sd_entries d))" "\<not> before_pos n pos" "before_pos n p"
        using simple_read_progress [OF assms(1,2,4) p(1) [unfolded m] False] m by auto
      show ?thesis unfolding left_def using n p(4) by (intro length_filter_strict_mono [of _ _ _ n]) auto
    qed
    ultimately have "left p + (if p = PosStart then 1 else 0) < k"
      using Suc.prems(2) [folded left_def] p(2) by (cases "pos = PosStart") auto
    from Suc.IH [OF p(3) this [unfolded left_def]] p(1) show ?thesis by auto
  qed
qed

end

section \<open>Properties\<close>





text \<open>C11. A rename between two different directories is atomic and does not depend on which of the two is
  locked first (the order of their addresses). For names of fewer than 255 bytes and a target without
  a slash: if the source has no such entry, the result is NOT\_FOUND and nothing changes; otherwise the
  entry disappears from the source, which announces its removal, and appears in the target, replacing
  any entry of that name there, which announces its addition; both directories keep their invariant
  and no other directory changes.\<close>

theorem rename_across_directories:
  assumes "fio_names K" and "st i = Some s" and "st j = Some d" and "i \<noteq> j"
    and "dir_inv s" and "dir_inv d" and "into_string src = Inr a" and "into_string dst = Inr b"
    and "length a < MAX_NAME_LENGTH" and "length b < MAX_NAME_LENGTH" and "slash \<notin> set b"
  shows "case dir_map s a of
      None \<Rightarrow> fs_rename K dbg info i src j dst st = (Inl (Err NOT_FOUND), st)
    | Some e \<Rightarrow> \<exists>s' d'. fs_rename K dbg info i src j dst st = (Inr (), st(i \<mapsto> s', j \<mapsto> d')) \<and>
        dir_inv s' \<and> dir_inv d' \<and>
        dir_map s' = (dir_map s)(a := None) \<and> dir_map d' = (dir_map d)(b \<mapsto> e) \<and>
        sd_watchers s' = announce_removed K a (sd_watchers s) \<and>
        sd_watchers d' = announce_added K b (sd_watchers d)"
proof (cases "dir_map s a")
  case None
  then show ?thesis by (simp add: fs_rename_eq [OF assms])
next
  case (Some e)
  with renamed_dirs [OF assms(5,6,10,11)] show ?thesis
    by (simp add: fs_rename_eq [OF assms]) blast
qed

theorem rename_across_directories_witness:
  "\<exists>s' d'. fs_rename fio_values True (\<lambda>_. EntryInfo 0 DtFile) 5
       \<lparr>p_is_dir = False, p_inner = ''x'', p_next = 0\<rparr> 2 \<lparr>p_is_dir = False, p_inner = ''y'', p_next = 0\<rparr>
       [5 \<mapsto> (mutable_simple fio_values)\<lparr>sd_entries := [(''x'', 7 :: nat)]\<rparr>, 2 \<mapsto> mutable_simple fio_values] =
     (Inr (), [5 \<mapsto> s', 2 \<mapsto> d']) \<and> dir_map s' = Map.empty \<and> dir_map d' = [''y'' \<mapsto> 7]"
proof -
  let ?s = "(mutable_simple fio_values)\<lparr>sd_entries := [(''x'', 7 :: nat)]\<rparr>"
  let ?d = "mutable_simple fio_values :: nat simple_dir"
  have inv: "dir_inv ?s" "dir_inv ?d"
    by (simp_all add: dir_inv_def mutable_simple_def simple_new_def watchers_new_def entry_name_def
        MAX_NAME_LENGTH_def)
  have m: "dir_map ?s = [''x'' \<mapsto> 7]" "dir_map ?d = Map.empty"
    by (auto simp: mutable_simple_def simple_new_def)
  show ?thesis
    using rename_across_directories [of fio_values "[5 \<mapsto> ?s, 2 \<mapsto> ?d]" 5 ?s 2 ?d
        "\<lparr>p_is_dir = False, p_inner = ''x'', p_next = 0\<rparr>" "''x''"
        "\<lparr>p_is_dir = False, p_inner = ''y'', p_next = 0\<rparr>" "''y''" True "\<lambda>_. EntryInfo 0 DtFile"]
      inv m by (auto simp: into_string_def MAX_NAME_LENGTH_def)
qed

text \<open>C25. Listing a directory that changes between the calls. A client that calls \<open>ReadDirents\<close> on a
  sequence of states of a directory, with a buffer that can hold any single entry, gets no panic, reads
  \<open>"."\<close> first, and reads the other names in strictly increasing order, so none is read twice; once the
  end is reported, every name that was present in all the states has been read. If the directory does
  not change, one call more than it has entries plus one reaches the end.\<close>

theorem listing_under_modification:
  assumes "fio_names K" and "ds \<noteq> []" and "\<forall>d \<in> set ds. dir_inv d" and "10 + MAX_FILENAME K \<le> unat m"
  shows "\<exists>xs ls p. read_versions info (read_dirents_vt K) (sink_new m) ds PosStart = Inr (xs, p) \<and>
       map d_buf xs = map (\<lambda>l. concat (map (dirent_record K) l)) ls \<and>
       concat ls \<noteq> [] \<and> snd (hd (concat ls)) = ''.'' \<and> sorted_wrt (<) (map snd (tl (concat ls))) \<and>
       (p = PosEnd \<longrightarrow> (\<forall>n. (\<forall>d \<in> set ds. n \<in> dom (dir_map d)) \<longrightarrow> n \<in> snd ` set (tl (concat ls)))) \<and>
       ((\<exists>d. ds = replicate (length (sd_entries d) + 2) d) \<longrightarrow> p = PosEnd)"
proof -
  have lst: "dirent_listable K n" if "d \<in> set ds" "n \<in> fst ` set (sd_entries d)" for d n
    using assms(1,3) that by (auto simp: dirent_listable_def fio_names_def dir_inv_def entry_name_def)
  have dot: "dirent_listable K ''.''"
    using assms(1) by (simp add: dirent_listable_def fio_names_def MAX_NAME_LENGTH_def)
  have ok: "\<forall>d \<in> set ds. sm_inv (sd_entries d) \<and> (\<forall>n \<in> fst ` set (sd_entries d). dirent_listable K n)"
    using assms(3) lst by (auto simp: dir_inv_def)
  obtain xs ls p where v: "read_versions info (read_dirents_vt K) (sink_new m) ds PosStart = Inr (xs, p)"
    "list_all2 (sink_sealed K m) xs ls" "sorted_wrt (<) (map snd (tl (concat ls)))"
    "\<forall>n. (\<forall>d \<in> set ds. n \<in> fst ` set (sd_entries d)) \<and> before_pos n p \<longrightarrow> n \<in> snd ` set (tl (concat ls))"
    "concat ls \<noteq> []" "snd (hd (concat ls)) = ''.''"
    using rdsink.versions_listed [OF ok dot assms(4), of PosStart info] assms(2) by (auto simp: Let_def)
  have "map d_buf xs = map (\<lambda>l. concat (map (dirent_record K) l)) ls"
    using v(2) by (induction rule: list_all2_induct) (auto simp: sink_sealed_def)
  moreover have "p = PosEnd" if "ds = replicate (length (sd_entries d) + 2) d" for d
  proof -
    have "d \<in> set ds" using that by simp
    with ok rdsink.versions_reach_end [of d K m PosStart "length (sd_entries d) + 2" info] dot assms(4) v(1)
    show ?thesis unfolding that by auto
  qed
  moreover have "\<forall>n. (\<forall>d \<in> set ds. n \<in> dom (dir_map d)) \<and> before_pos n p \<longrightarrow> n \<in> snd ` set (tl (concat ls))"
    using v(4) by (simp only: dom_map_of_conv_image_fst)
  ultimately show ?thesis using v by (intro exI [of _ xs] exI [of _ ls] exI [of _ p]) auto
qed

theorem listing_under_modification_witness:
  "\<exists>xs. read_versions (\<lambda>_. EntryInfo 0 DtFile) (read_dirents_vt fio_values) (sink_new 300)
          (replicate 3 ((mutable_simple fio_values)\<lparr>sd_entries := [(''a'', 7 :: nat)]\<rparr>)) PosStart = Inr (xs, PosEnd)"
proof -
  let ?d = "(mutable_simple fio_values)\<lparr>sd_entries := [(''a'', 7 :: nat)]\<rparr>"
  let ?ds = "replicate (length (sd_entries ?d) + 2) ?d"
  have "dir_inv ?d"
    by (simp add: dir_inv_def mutable_simple_def simple_new_def watchers_new_def entry_name_def
        MAX_NAME_LENGTH_def)
  then have "\<forall>d \<in> set ?ds. dir_inv d" by simp
  from listing_under_modification [OF fio_values_names _ this, of 300 "\<lambda>_. EntryInfo 0 DtFile"]
  show ?thesis by (auto simp: numeral_3_eq_3 simp del: read_versions.simps replicate_Suc)
qed

text \<open>A new watcher is told the directory as it is. Registering a watcher succeeds without a panic,
  keeps the entries and the other watchers, and queues for the new watcher exactly what its mask asks
  for: a client reading it gets one message EXISTING for \<open>"."\<close> and for each entry, in order, and then
  one message IDLE with an empty name.\<close>

theorem register_watcher_reports_listing:
  assumes "fio_names K" and "vacant_ok vacant" and "dir_inv d"
  shows "\<exists>key c bufs.
      simple_register_watcher K dbg vacant msk d = Inr (d\<lparr>sd_watchers := sm_insert key c (sd_watchers d)\<rparr>) \<and>
      sm_get (sd_watchers d) key = None \<and> c = \<lparr>c_mask = msk, c_commands = map Send bufs, c_alive = True\<rparr> \<and>
      dir_inv (d\<lparr>sd_watchers := sm_insert key c (sd_watchers d)\<rparr>) \<and>
      watcher_drain (length (sd_entries d) + 3) \<lparr>w_buf = [], w_idx = 0\<rparr> bufs =
        Inr ((if WATCH_EXISTING \<in> msk
              then map (record_msg K EvExisting) (''.'' # map fst (sd_entries d)) else []) @
             (if WATCH_IDLE \<in> msk then [record_msg K EvIdle []] else []))"
proof -
  let ?ns = "''.'' # map fst (sd_entries d)"
  let ?key = "vacant (fst ` set (sd_watchers d))"
  let ?c0 = "\<lparr>c_mask = msk, c_commands = [], c_alive = True\<rparr>"
  have K: "fio_lengths K" using assms(1) by (simp add: fio_names_def)
  have fit: "names_fit K ?ns"
    using assms(1,3) by (auto simp: names_fit_def fio_names_def dir_inv_def entry_name_def MAX_NAME_LENGTH_def)
  obtain p where p: "static_vec_existing dbg ?ns = Inr p"
    by (simp add: static_vec_existing_def static_vec_new_def)
  note pp = static_vec_new_ok [OF p [unfolded static_vec_existing_def] K fit]
  note len = event_buffers_read(1) [OF K fit, of EvExisting]
  obtain q where q: "single_name_idle K dbg = Inr q" "single_pending q = [event_record K EvIdle []]"
    "vt_mask single_vt q = {WATCH_IDLE}"
    using single_name_new_ok [OF K, of "[]" dbg "{WATCH_IDLE}" EvIdle] by (auto simp: single_name_idle_def)
  define b1 where "b1 = (if WATCH_EXISTING \<in> msk then event_buffers K EvExisting ?ns else [])"
  define b2 where "b2 = (if WATCH_IDLE \<in> msk then [event_record K EvIdle []] else [])"
  have s1: "\<exists>p'. controller_send_event (static_vec_vt K dbg) dbg (length (sd_entries d) + 2) ?c0 p =
      Inr (WATCH_EXISTING \<in> msk, ?c0\<lparr>c_commands := map Send b1\<rparr>, p')"
    using static_vec.controller_event_delivers [OF pp(1), of ?c0 "length (sd_entries d) + 2" dbg] pp len
    by (cases "WATCH_EXISTING \<in> msk") (simp_all add: static_vec.deliver_def b1_def)
  have s2: "\<exists>q'. controller_send_event single_vt dbg 2 (?c0\<lparr>c_commands := map Send b1\<rparr>) q =
      Inr (WATCH_IDLE \<in> msk, ?c0\<lparr>c_commands := map Send (b1 @ b2)\<rparr>, q')"
    using single.controller_event_delivers [where p = q and c = "?c0\<lparr>c_commands := map Send b1\<rparr>" and n = 2] q
    by (cases "WATCH_IDLE \<in> msk") (simp_all add: single.deliver_def b2_def)
  have new: "?key \<notin> fst ` set (sd_watchers d)"
    using assms(2) by (simp add: vacant_ok_def)
  have invw: "sm_inv (sd_watchers d)" using assms(3) by (simp add: dir_inv_def)
  let ?c = "\<lparr>c_mask = msk, c_commands = map Send (b1 @ b2), c_alive = True\<rparr>"
  have reg: "simple_register_watcher K dbg vacant msk d = Inr (d\<lparr>sd_watchers := sm_insert ?key ?c (sd_watchers d)\<rparr>)"
    using s1 s2 p q(1) invw
    by (auto simp: simple_register_watcher_def watchers_add_def Let_def)
  obtain ls where ls: "event_buffers K EvExisting ?ns = map (\<lambda>l. concat (map (event_record K EvExisting) l)) ls"
    "concat ls = ?ns" "[] \<notin> set ls"
    using event_buffers_split [OF K fit] by blast
  have "\<forall>n \<in> set (concat ls). length n \<le> 255"
    unfolding ls(2) using fit K by (auto simp: names_fit_def fio_lengths_def)
  then have "watcher_drain (length (sd_entries d) + 3) \<lparr>w_buf = [], w_idx = 0\<rparr> (b1 @ b2) =
      Inr ((if WATCH_EXISTING \<in> msk then map (record_msg K EvExisting) ?ns else []) @
           (if WATCH_IDLE \<in> msk then [record_msg K EvIdle []] else []))"
    using listing_drain [of ls "length (sd_entries d) + 3" K EvExisting "WATCH_IDLE \<in> msk"]
      listing_drain [of "[]" "length (sd_entries d) + 3" K EvExisting "WATCH_IDLE \<in> msk"] ls
    by (cases "WATCH_EXISTING \<in> msk") (simp_all add: b1_def b2_def)
  moreover have "dir_inv (d\<lparr>sd_watchers := sm_insert ?key ?c (sd_watchers d)\<rparr>)"
    using assms(3) dir_inv_watcher_insert [of d ?c ?key] by simp
  ultimately show ?thesis
    using reg new by (intro exI [of _ ?key] exI [of _ ?c] exI [of _ "b1 @ b2"]) (simp add: sm_get_None_iff)
qed

theorem register_watcher_reports_listing_witness:
  "\<exists>key bufs. simple_register_watcher fio_values True (\<lambda>keys. Suc (Max (insert 0 keys))) {WATCH_EXISTING}
        ((mutable_simple fio_values)\<lparr>sd_entries := [(''a'', 7 :: nat)]\<rparr>) =
      Inr (((mutable_simple fio_values)\<lparr>sd_entries := [(''a'', 7 :: nat)]\<rparr>)
        \<lparr>sd_watchers := [(key, \<lparr>c_mask = {WATCH_EXISTING}, c_commands = map Send bufs, c_alive = True\<rparr>)]\<rparr>) \<and>
      watcher_drain 4 \<lparr>w_buf = [], w_idx = 0\<rparr> bufs =
        Inr [record_msg fio_values EvExisting ''.'', record_msg fio_values EvExisting ''a'']"
proof -
  let ?d = "(mutable_simple fio_values)\<lparr>sd_entries := [(''a'', 7 :: nat)]\<rparr>"
  have inv: "dir_inv ?d"
    by (simp add: dir_inv_def mutable_simple_def simple_new_def watchers_new_def entry_name_def
        MAX_NAME_LENGTH_def)
  have vac: "vacant_ok (\<lambda>keys. Suc (Max (insert 0 keys)))"
    unfolding vacant_ok_def by (metis Max_ge Suc_n_not_le_n finite.insertI insertCI)
  have e: "sd_watchers ?d = []" "sd_entries ?d = [(''a'', 7)]"
    by (simp_all add: mutable_simple_def simple_new_def watchers_new_def)
  have l: "length (sd_entries ?d) + 3 = 4" by (simp add: e)
  show ?thesis
    using register_watcher_reports_listing [OF fio_values_names vac inv, of True "{WATCH_EXISTING}"]
    unfolding l e by auto
qed

section \<open>Divergences from the documentation\<close>

text \<open>
  The documentation of \<open>remove_entry\<close> promises INVALID\_ARGS for a name that exceeds the limit; the code
  rejects the limit itself as well, so an entry of exactly 255 bytes can be added and found, but
  neither removed nor renamed.
\<close>

lemma limit_length_name_sticks:
  assumes "fio_names K" and "dir_inv d" and "length n = MAX_NAME_LENGTH" and "slash \<notin> set n" and "dir_map d n = None"
  shows "\<exists>d'. add_entry K dbg n e d = (Inr (), d') \<and> get_entry n d' = Inr e \<and>
           remove_entry K dbg info n False d' = (Inl (Err INVALID_ARGS), d') \<and>
           rename_within K dbg n x d' = (Inl (Err INVALID_ARGS), d')"
proof -
  let ?d = "d\<lparr>sd_watchers := announce_added K n (sd_watchers d), sd_entries := sm_insert n e (sd_entries d)\<rparr>"
  have "add_entry K dbg n e d = (Inr (), ?d)"
    using assms(3-5) by (simp add: add_entry_def add_entry_impl_eq [OF assms(1,2)] entry_name_def dom_def)
  moreover have "get_entry n ?d = Inr e"
    using assms(2,3) by (simp add: get_entry_def dir_inv_def)
  ultimately show ?thesis
    using assms(3) by (simp add: remove_entry_def remove_entry_impl_def rename_within_def)
qed

text \<open>
  A target with a trailing slash passes the checks of \<open>handle_rename\<close>. Within one directory, and when
  the target directory has the smaller address, the entry is stored under a name with a slash, which
  no path can reach; with the other order of addresses the rename is refused.
\<close>

lemma rename_to_name_with_slash:
  assumes "fio_names K" and "dir_inv d" and "dir_map d ''a'' = Some e"
  shows "validate_and_split fio_values ''b/'' = Inr \<lparr>p_is_dir = True, p_inner = ''b/'', p_next = 0\<rparr>"
    and "is_single_component \<lparr>p_is_dir = True, p_inner = ''b/'', p_next = 0\<rparr> = Inr True"
    and "into_string \<lparr>p_is_dir = True, p_inner = ''b/'', p_next = 0\<rparr> = Inr ''b/''"
    and "dir_map (snd (rename_within K dbg ''a'' ''b/'' d)) = (dir_map d)(''a'' := None, ''b/'' \<mapsto> e)"
    and "fst (rename_from K dbg ''a'' (\<lambda>e t. add_entry_impl K dbg ''b/'' e True t) d t) = Inl (Err INVALID_ARGS)"
proof -
  have "sm_inv (sd_entries d)" using assms(2) by (simp add: dir_inv_def)
  then show "dir_map (snd (rename_within K dbg ''a'' ''b/'' d)) = (dir_map d)(''a'' := None, ''b/'' \<mapsto> e)"
    using assms(3) by (simp add: rename_within_eq [OF assms(1,2)] MAX_NAME_LENGTH_def)
  show "fst (rename_from K dbg ''a'' (\<lambda>e t. add_entry_impl K dbg ''b/'' e True t) d t) = Inl (Err INVALID_ARGS)"
    using assms(3) by (simp add: rename_from_def add_entry_impl_def MAX_NAME_LENGTH_def)
qed (simp_all add: validate_and_split_def is_single_component_def into_string_def)

text \<open>
  An entry that \<open>open\<close> creates is inserted without an event, so the watchers of the directory never
  hear of it.
\<close>

lemma created_entry_not_announced:
  assumes "dir_map d name = None" and "nf flags mode name path = Inr e" and "sm_inv (sd_entries d)"
  shows "fst (get_or_insert_entry nf flags mode name path d) = Inr e"
    and "dir_map (snd (get_or_insert_entry nf flags mode name path d)) = (dir_map d)(name \<mapsto> e)"
    and "sd_watchers (snd (get_or_insert_entry nf flags mode name path d)) = sd_watchers d"
  using assms by (simp_all add: get_or_insert_entry_def)

text \<open>
  When not even \<open>"."\<close> fits, the listing reports BUFFER\_TOO\_SMALL but moves on to the first entry, so
  \<open>"."\<close> is lost for the calls that follow; the helper of \<open>read_dirents.rs\<close> stays at the start.
\<close>

lemma dot_skipped_when_too_small:
  assumes "unat m < 11"
  shows "simple_read_dirents info (read_dirents_vt K) d PosStart (sink_new m) =
           Inr (case sd_entries d of [] \<Rightarrow> PosEnd | (n, _) # _ \<Rightarrow> PosName n,
                \<lparr>d_buf = [], d_status = BUFFER_TOO_SMALL\<rparr>)"
    and "read_dirents K (read_dirents_vt K) entries PosStart (sink_new m) =
           Inr (PosStart, \<lparr>d_buf = [], d_status = BUFFER_TOO_SMALL\<rparr>)"
  using assms
  by (auto simp: simple_read_dirents_def read_dirents_def read_dirents_vt_def sink_append_def
      encode_dirent_def sink_new_def sink_seal_def Let_def split: list.splits)

end
