(* ===== verification/Service_Node.thy ===== *)
theory Service_Node
  imports File_Connection Simple_Dir
begin

text \<open>
  Services and remote nodes: \<open>service.rs\<close> (a node that hands its channels to a callback),
  \<open>service/connection/io1.rs\<close> (the connection to the node itself, opened as a node reference) and
  \<open>remote.rs\<close> (a node that forwards every open). The callbacks are code outside the repository; the
  model says with what, if at all, they are called and what else is sent on the channel.
\<close>

section \<open>Connections to a service as a node\<close>

text \<open>
  The replies are those of a file connection, without memory objects, and two kinds of description.
  \<open>stream_ok\<close> and \<open>send_ok\<close>: the channel turns into a stream, and the peer still receives the event.
\<close>

datatype service_reply = SrFile "unit file_reply" | SrServiceInfo | SrConnectorInfo

definition service_connection_start ::
    "fio \<Rightarrow> bool \<Rightarrow> bool \<Rightarrow> bool \<Rightarrow> OpenFlags \<Rightarrow> 32 word \<Rightarrow> server_msg list result \<times> bool" where
  "service_connection_start K dbg stream_ok send_ok flags mode =
     (case service_validate_flags K dbg flags mode of
        Inl (Err st) \<Rightarrow> (send_on_open_with_error stream_ok flags st, False)
      | Inl Panic \<Rightarrow> (Inl Panic, False)
      | Inr flags \<Rightarrow>
          if \<not> stream_ok then (Inr [], False)
          else if intersects flags {DESCRIBE}
          then (if send_ok then (Inr [OnOpen OK (Some 0)], True) else (Inr [], False))
          else (Inr [], True))"

definition service_get_attr :: "fio \<Rightarrow> node_attributes" where
  "service_get_attr K =
     \<lparr> na_id = INO_UNKNOWN K, na_mode = or (MODE_TYPE_SERVICE K) (POSIX_READ_WRITE_PROTECTION_ATTRIBUTES K),
       na_content_size = 0, na_storage_size = 0, na_link_count = 1, na_modification_time = 0, na_creation_time = 0 \<rparr>"

text \<open>A clone starts another connection to the node on the channel it is given.\<close>

definition service_handle_clone :: "fio \<Rightarrow> bool \<Rightarrow> bool \<Rightarrow> bool \<Rightarrow> OpenFlags \<Rightarrow> server_msg list result \<times> bool" where
  "service_handle_clone K dbg stream_ok send_ok flags =
     (case inherit_rights_for_clone K {NODE_REFERENCE} flags of
        Inl (Err st) \<Rightarrow> (send_on_open_with_error stream_ok flags st, False)
      | Inl Panic \<Rightarrow> (Inl Panic, False)
      | Inr flags \<Rightarrow> service_connection_start K dbg stream_ok send_ok flags 0)"

definition ssend :: "bool \<Rightarrow> service_reply \<Rightarrow> service_reply list \<times> file_end" where
  "ssend peer r = (if peer then ([r], FAlive) else ([], FDropped))"

fun service_handle_request ::
    "fio \<Rightarrow> bool \<Rightarrow> bool \<Rightarrow> bool \<Rightarrow> bool \<Rightarrow> file_request \<Rightarrow> service_reply list \<times> file_end" where
  "service_handle_request K dbg peer stream_ok send_ok (FClone flags) =
     (case service_handle_clone K dbg stream_ok send_ok flags of
        (Inl _, _) \<Rightarrow> ([], FPanicked)
      | (Inr msgs, _) \<Rightarrow> ([SrFile (FrObject msgs)], FAlive))"
| "service_handle_request K dbg peer stream_ok send_ok FReopen = ([], FPanicked)"
| "service_handle_request K dbg peer stream_ok send_ok FClose =
     (if peer then ([SrFile (FrUnit (Inr ()))], FClosed) else ([], FDropped))"
| "service_handle_request K dbg peer stream_ok send_ok FDescribe = ssend peer SrServiceInfo"
| "service_handle_request K dbg peer stream_ok send_ok FDescribe2 = ssend peer SrConnectorInfo"
| "service_handle_request K dbg peer stream_ok send_ok FSync = ssend peer (SrFile (FrUnit (Inl NOT_SUPPORTED)))"
| "service_handle_request K dbg peer stream_ok send_ok FGetAttr = ssend peer (SrFile (FrAttrs OK (service_get_attr K)))"
| "service_handle_request K dbg peer stream_ok send_ok (FSetAttr flags attrs) = ssend peer (SrFile (FrStatus NOT_SUPPORTED))"
| "service_handle_request K dbg peer stream_ok send_ok FGetAttributes = ([], FPanicked)"
| "service_handle_request K dbg peer stream_ok send_ok FUpdateAttributes = ([], FPanicked)"
| "service_handle_request K dbg peer stream_ok send_ok (FRead n) = ssend peer (SrFile (FrData (Inl ACCESS_DENIED)))"
| "service_handle_request K dbg peer stream_ok send_ok (FReadAt off n) = ssend peer (SrFile (FrData (Inl ACCESS_DENIED)))"
| "service_handle_request K dbg peer stream_ok send_ok (FWriteDeprecated b) = ssend peer (SrFile (FrWritten ACCESS_DENIED 0))"
| "service_handle_request K dbg peer stream_ok send_ok (FWrite b) = ssend peer (SrFile (FrCount (Inl ACCESS_DENIED)))"
| "service_handle_request K dbg peer stream_ok send_ok (FWriteAt off b) = ssend peer (SrFile (FrCount (Inl ACCESS_DENIED)))"
| "service_handle_request K dbg peer stream_ok send_ok (FSeek origin off) = ssend peer (SrFile (FrCount (Inl ACCESS_DENIED)))"
| "service_handle_request K dbg peer stream_ok send_ok (FResize n) = ssend peer (SrFile (FrUnit (Inl ACCESS_DENIED)))"
| "service_handle_request K dbg peer stream_ok send_ok FGetFlags = ssend peer (SrFile (FrFlags OK {NODE_REFERENCE}))"
| "service_handle_request K dbg peer stream_ok send_ok (FSetFlags flags) = ssend peer (SrFile (FrStatus NOT_SUPPORTED))"
| "service_handle_request K dbg peer stream_ok send_ok (FGetBackingMemory flags) = ssend peer (SrFile (FrVmo (Inl NOT_SUPPORTED)))"
| "service_handle_request K dbg peer stream_ok send_ok FAdvisoryLock = ssend peer (SrFile (FrUnit (Inl NOT_SUPPORTED)))"
| "service_handle_request K dbg peer stream_ok send_ok FQueryFilesystem = ssend peer (SrFile (FrStatus NOT_SUPPORTED))"

text \<open>The loop, over the messages of the channel: a malformed one is \<open>None\<close>.\<close>

fun service_handle_requests ::
    "fio \<Rightarrow> bool \<Rightarrow> (file_request \<times> bool \<times> bool \<times> bool) option list \<Rightarrow> service_reply list" where
  "service_handle_requests K dbg [] = []"
| "service_handle_requests K dbg (None # evs) = []"
| "service_handle_requests K dbg (Some (req, peer, stream_ok, send_ok) # evs) =
     (case service_handle_request K dbg peer stream_ok send_ok req of
        (rs, FAlive) \<Rightarrow> rs @ service_handle_requests K dbg evs
      | (rs, _) \<Rightarrow> rs)"

section \<open>Opening a service\<close>

text \<open>What becomes of the channel: messages of the filesystem protocol, a node connection, or the callback.\<close>

datatype service_open_end =
    ChannelClosed
  | Refused "server_msg list"
  | NodeConnection "server_msg list" bool
  | HandedOver
  | OpenPanicked

definition service_open_as_node :: "fio \<Rightarrow> bool \<Rightarrow> bool \<Rightarrow> bool \<Rightarrow> OpenFlags \<Rightarrow> 32 word \<Rightarrow> service_open_end" where
  "service_open_as_node K dbg stream_ok send_ok flags mode =
     (case service_connection_start K dbg stream_ok send_ok flags mode of
        (Inl _, _) \<Rightarrow> OpenPanicked | (Inr msgs, serving) \<Rightarrow> NodeConnection msgs serving)"

definition service_open_as_service :: "fio \<Rightarrow> bool \<Rightarrow> bool \<Rightarrow> OpenFlags \<Rightarrow> 32 word \<Rightarrow> service_open_end" where
  "service_open_as_service K dbg channel_ok flags mode =
     (case service_validate_flags K dbg flags mode of
        Inl (Err _) \<Rightarrow> ChannelClosed
      | Inl Panic \<Rightarrow> OpenPanicked
      | Inr flags \<Rightarrow>
          if dbg \<and> \<not> RIGHT_READABLE \<in> flags then OpenPanicked
          else if channel_ok then HandedOver else ChannelClosed)"

definition service_open ::
    "fio \<Rightarrow> bool \<Rightarrow> bool \<Rightarrow> bool \<Rightarrow> OpenFlags \<Rightarrow> 32 word \<Rightarrow> path \<Rightarrow> service_open_end" where
  "service_open K dbg stream_ok send_ok flags mode p =
     (if \<not> path_is_empty p then
        (if intersects flags {NODE_REFERENCE}
         then (case send_on_open_with_error stream_ok flags NOT_DIR of Inl _ \<Rightarrow> OpenPanicked | Inr msgs \<Rightarrow> Refused msgs)
         else ChannelClosed)
      else if intersects flags {NODE_REFERENCE} then service_open_as_node K dbg stream_ok send_ok flags mode
      else service_open_as_service K dbg stream_ok flags mode)"

definition service_entry_info :: "fio \<Rightarrow> EntryInfo" where
  "service_entry_info K = EntryInfo (INO_UNKNOWN K) DtService"

section \<open>Remote nodes\<close>

text \<open>What a routing function does with an open request.\<close>

datatype 'x routed = ForwardOpen OpenFlags "32 word" string | ForwardClone OpenFlags | RouteRefused "server_msg list result" | Routed 'x

record 'x remote_node =
  rm_open :: "OpenFlags \<Rightarrow> 32 word \<Rightarrow> path \<Rightarrow> 'x routed result"
  rm_dirent_type :: dirent_type

definition remote_boxed_with_type :: "(OpenFlags \<Rightarrow> 32 word \<Rightarrow> path \<Rightarrow> 'x routed result) \<Rightarrow> dirent_type \<Rightarrow> 'x remote_node" where
  "remote_boxed_with_type f t = \<lparr> rm_open = f, rm_dirent_type = t \<rparr>"

definition remote_boxed :: "(OpenFlags \<Rightarrow> 32 word \<Rightarrow> path \<Rightarrow> 'x routed result) \<Rightarrow> 'x remote_node" where
  "remote_boxed f = remote_boxed_with_type f DtUnknown"

definition remote_dir :: "'x remote_node" where
  "remote_dir = remote_boxed_with_type
     (\<lambda>flags mode p. Inr (ForwardOpen flags mode (remainder p))) DtDirectory"

definition remote_proxy_node :: "bool \<Rightarrow> 'x remote_node" where
  "remote_proxy_node stream_ok = remote_boxed
     (\<lambda>flags mode p. Inr (if \<not> path_is_empty p then RouteRefused (send_on_open_with_error stream_ok flags NOT_DIR)
                        else ForwardClone flags))"

definition remote_open :: "'x remote_node \<Rightarrow> OpenFlags \<Rightarrow> 32 word \<Rightarrow> path \<Rightarrow> 'x routed result" where
  "remote_open r flags mode p = rm_open r flags mode p"

definition remote_entry_info :: "fio \<Rightarrow> 'x remote_node \<Rightarrow> EntryInfo" where
  "remote_entry_info K r = EntryInfo (INO_UNKNOWN K) (rm_dirent_type r)"

section \<open>Properties\<close>

lemma send_on_open_error: "st \<noteq> OK \<Longrightarrow> \<exists>msgs. send_on_open_with_error ok flags st = Inr msgs"
  by (simp add: send_on_open_with_error_def)

lemma service_validate_status: "service_validate_flags K dbg flags mode \<noteq> Inl (Err OK)"
  by (auto simp: service_validate_flags_def Let_def)

lemma service_connection_start_cases:
  assumes "fio_node_reference K"
  shows "\<exists>msgs serving. service_connection_start K dbg ok send_ok flags mode = (Inr msgs, serving)"
proof (cases "service_validate_flags K dbg flags mode")
  case (Inl e)
  then obtain st where "e = Err st" "st \<noteq> OK"
    using service_flags [OF assms, of dbg flags mode] service_validate_status [of K dbg flags mode] by (cases e) auto
  with Inl send_on_open_error [of st ok flags] show ?thesis by (auto simp: service_connection_start_def)
qed (auto simp: service_connection_start_def)

text \<open>C34. Opening a service: it never panics. The channel is handed to the service exactly when nothing is
  left of the path, it was not opened as a node reference, and the flags ask for a readable connection
  with at most the write right. In that case, and whenever a channel was not opened as a node
  reference, no message of the filesystem protocol is sent on it: it may speak another protocol. A
  node reference is never handed to the service.\<close>

theorem service_open_protocol:
  assumes "fio_node_reference K"
  shows "service_open K dbg stream_ok send_ok flags mode p \<noteq> OpenPanicked \<and>
    (service_open K dbg stream_ok send_ok flags mode p = HandedOver \<longleftrightarrow>
       path_is_empty p \<and> stream_ok \<and> NODE_REFERENCE \<notin> flags \<and> DIRECTORY \<notin> flags \<and> RIGHT_READABLE \<in> flags \<and>
       flags \<subseteq> {RIGHT_READABLE, RIGHT_WRITABLE, NOT_DIRECTORY} \<union> posix_flags \<and>
       and (and mode (not (MODE_PROTECTION_MASK K))) (not (MODE_TYPE_SERVICE K)) = 0) \<and>
    (NODE_REFERENCE \<notin> flags \<longrightarrow> service_open K dbg stream_ok send_ok flags mode p \<in> {ChannelClosed, HandedOver})"
proof (cases "NODE_REFERENCE \<in> flags")
  case True
  obtain msgs serving where "service_connection_start K dbg stream_ok send_ok flags mode = (Inr msgs, serving)"
    using service_connection_start_cases [OF assms] by blast
  moreover obtain msgs' where "send_on_open_with_error stream_ok flags NOT_DIR = Inr msgs'"
    using send_on_open_error [of NOT_DIR] by blast
  ultimately show ?thesis
    using True by (simp add: service_open_def service_open_as_node_def intersects_insert)
next
  case False
  note f = service_flags [OF assms, of dbg flags mode]
  from f False have "RIGHT_READABLE \<in> g" if "service_validate_flags K dbg flags mode = Inr g" for g
    using that by auto
  with f False show ?thesis
    by (cases "service_validate_flags K dbg flags mode")
      (auto simp: service_open_def service_open_as_service_def intersects_insert split: fail.splits)
qed

theorem service_open_protocol_witness:
  "service_open fio_values True True True {RIGHT_READABLE, POSIX_WRITABLE} 0 path_dot = HandedOver \<and>
   service_open fio_values True True True {RIGHT_READABLE, DESCRIBE} 0 path_dot = ChannelClosed"
  using service_open_protocol [of fio_values True True True "{RIGHT_READABLE, POSIX_WRITABLE}" 0 path_dot]
    service_open_protocol [of fio_values True True True "{RIGHT_READABLE, DESCRIBE}" 0 path_dot]
  by (auto simp: path_is_empty_def path_dot_def)

text \<open>
  The connection to the node answers every request for contents with an error, whatever flags it was
  asked for: no reply carries data, a position or a memory object.
\<close>

lemma service_node_has_no_content:
  "service_handle_request K dbg peer stream_ok send_ok req = (rs, e) \<Longrightarrow>
   SrFile (FrData (Inr b)) \<notin> set rs \<and> SrFile (FrCount (Inr n)) \<notin> set rs \<and> SrFile (FrVmo (Inr v)) \<notin> set rs"
  by (cases req) (auto simp: ssend_def split: if_splits sum.splits prod.splits)

text \<open>
  A clone of the connection to the node is a connection to the node: a request that would take the
  rights of a service connection is refused.
\<close>

lemma service_clone_is_node:
  assumes "fio_rights K" and "inherit_rights_for_clone K {NODE_REFERENCE} flags = Inr g"
  shows "NODE_REFERENCE \<in> g \<and> RIGHT_READABLE \<notin> g \<and> RIGHT_WRITABLE \<notin> g"
  using assms(2)
  by (auto simp: inherit_rights_for_clone_def FS_RIGHTS_eq [OF assms(1)] stricter_or_same_rights_def Let_def
    intersects_def split: if_splits)

text \<open>
  A remote directory sends on what is left of the path: the server on the other side accepts it and finds
  the same components.
\<close>

lemma remote_dir_forwards_path:
  assumes "path_wf K p" and "1 \<le> min (MAX_PATH K) (PATH_MAX K - 1)"
  shows "\<exists>s q. remote_open remote_dir flags mode p = Inr (ForwardOpen flags mode s) \<and>
     validate_and_split K s = Inr q \<and> path_comps q = path_comps p"
  using remainder_revalidates [OF assms] by (auto simp: remote_open_def remote_dir_def remote_boxed_with_type_def)

end
