(* ===== verification/Lazy_Dir.thy ===== *)
theory Lazy_Dir
  imports Simple_Dir
begin

text \<open>
  The lazy directory: \<open>directory/immutable/lazy.rs\<close> and \<open>lazy/watchers_task.rs\<close>. Its entries come from
  two callbacks of the user, which are arguments here: \<open>get_entry\<close>, and \<open>rd\<close>, the result of reading
  entries from a position on into a fresh \<open>single_buffer\<close> sink. The second component of what \<open>rd\<close> returns
  is \<open>None\<close> when the callback gives back a sealed sink of another type. Watchers are served by a task
  that takes commands from a channel and events from a stream of the user.
\<close>

section \<open>The directory\<close>

datatype WatcherEvent = Deleted string | Added "string list" | Removed "string list"

datatype WatcherCommand = RegisterWatcher WatchMask | UnregisterWatcher nat

text \<open>The sender of the commands, and whether the task still receives them.\<close>

record lazy_dir =
  lz_commands :: "WatcherCommand list"
  lz_receiving :: bool

definition lazy_new :: lazy_dir where
  "lazy_new = \<lparr> lz_commands = [], lz_receiving = False \<rparr>"

text \<open>\<open>spawned\<close>: the scope accepted the task; otherwise the receiver is dropped at once.\<close>

definition lazy_new_with_watchers :: "bool \<Rightarrow> lazy_dir" where
  "lazy_new_with_watchers spawned = \<lparr> lz_commands = [], lz_receiving = spawned \<rparr>"

definition lazy_send :: "WatcherCommand \<Rightarrow> lazy_dir \<Rightarrow> lazy_dir option" where
  "lazy_send cmd d = (if lz_receiving d then Some (d\<lparr> lz_commands := lz_commands d @ [cmd] \<rparr>) else None)"

definition lazy_register_watcher :: "WatchMask \<Rightarrow> lazy_dir \<Rightarrow> unit result \<times> lazy_dir" where
  "lazy_register_watcher msk d =
     (case lazy_send (RegisterWatcher msk) d of Some d' \<Rightarrow> (Inr (), d') | None \<Rightarrow> (Inl (Err NOT_SUPPORTED), d))"

definition lazy_unregister_watcher :: "nat \<Rightarrow> lazy_dir \<Rightarrow> lazy_dir" where
  "lazy_unregister_watcher key d = (case lazy_send (UnregisterWatcher key) d of Some d' \<Rightarrow> d' | None \<Rightarrow> d)"

text \<open>What \<open>open\<close> leads to: a connection to the directory, an open of the entry, or a refusal.\<close>

datatype 'e lazy_open_end =
    LazyConnection OpenFlags
  | LazyEntry 'e OpenFlags "32 word" path
  | LazyRefused "server_msg list"
  | LazyNotSpawned

definition lazy_open ::
    "(string \<Rightarrow> 'e result) \<Rightarrow> bool \<Rightarrow> bool \<Rightarrow> OpenFlags \<Rightarrow> 32 word \<Rightarrow> path \<Rightarrow> 'e lazy_open_end result" where
  "lazy_open get_entry_cb spawned stream_ok flags mode p =
     bind_res (path_next p) (\<lambda>(p', name).
       case name of
         None \<Rightarrow> Inr (LazyConnection flags)
       | Some name \<Rightarrow>
           if \<not> spawned then Inr LazyNotSpawned
           else
             (case get_entry_cb name of
                Inr e \<Rightarrow> Inr (LazyEntry e flags mode p')
              | Inl (Err st) \<Rightarrow> bind_res (send_on_open_with_error stream_ok flags st) (\<lambda>msgs. Inr (LazyRefused msgs))
              | Inl Panic \<Rightarrow> Inl Panic))"

definition lazy_entry_info :: "fio \<Rightarrow> EntryInfo" where
  "lazy_entry_info K = EntryInfo (INO_UNKNOWN K) DtDirectory"

definition lazy_get_attrs :: "fio \<Rightarrow> node_attributes result" where
  "lazy_get_attrs K =
     Inr \<lparr> na_id = INO_UNKNOWN K, na_mode = or (MODE_TYPE_DIRECTORY K) (rights_to_posix_mode_bits K True False True),
           na_content_size = 0, na_storage_size = 0, na_link_count = 1, na_modification_time = 0, na_creation_time = 0 \<rparr>"

definition lazy_close :: "unit result" where
  "lazy_close = Inr ()"

section \<open>The watchers task\<close>

type_synonym lazy_reader = "TraversalPosition \<Rightarrow> (TraversalPosition \<times> bytes option) result"

text \<open>
  The loop of \<open>handle_register_watcher\<close>. The callback decides how long it runs, so the fuel bounds the
  calls. The flag says whether the idle event follows: not after a disconnection.
\<close>

fun lazy_existing_loop ::
    "fio \<Rightarrow> bool \<Rightarrow> lazy_reader \<Rightarrow> nat \<Rightarrow> TraversalPosition \<Rightarrow> Controller \<Rightarrow> (Controller \<times> bool) result" where
  "lazy_existing_loop K dbg rd 0 pos c = Inl Panic"
| "lazy_existing_loop K dbg rd (Suc n) pos c =
     (case rd pos of
        Inl Panic \<Rightarrow> Inl Panic
      | Inl (Err _) \<Rightarrow> bind_res (controller_disconnect dbg c) (\<lambda>c. Inr (c, False))
      | Inr (pos', None) \<Rightarrow> if dbg then Inl Panic else Inr (c, True)
      | Inr (pos', Some sealed) \<Rightarrow>
          bind_res (buffer_sealed_unpack K dbg sealed) (\<lambda>unpacked.
            case unpacked of
              None \<Rightarrow> Inr (c, True)
            | Some existing_event \<Rightarrow>
                bind_res (controller_send_event single_vt dbg 2 c existing_event) (\<lambda>(_, c', _).
                  lazy_existing_loop K dbg rd n pos' c')))"

definition lazy_handle_register ::
    "fio \<Rightarrow> bool \<Rightarrow> (nat set \<Rightarrow> nat) \<Rightarrow> lazy_reader \<Rightarrow> nat \<Rightarrow> WatchMask \<Rightarrow> watchers \<Rightarrow> watchers result" where
  "lazy_handle_register K dbg vacant rd fuel msk ws =
     (let (key, ws) = watchers_add vacant ws msk
      in case sm_get ws key of
           None \<Rightarrow> Inl Panic
         | Some controller \<Rightarrow>
             bind_res (if WATCH_EXISTING \<notin> msk then Inr (controller, True)
                       else lazy_existing_loop K dbg rd fuel PosStart controller) (\<lambda>(controller, idle).
               if \<not> idle then Inr (sm_insert key controller ws)
               else bind_res (single_name_idle K dbg) (\<lambda>ev.
                      bind_res (controller_send_event single_vt dbg 2 controller ev) (\<lambda>(_, controller, _).
                        Inr (sm_insert key controller ws)))))"

text \<open>
  The loop of the task over what \<open>select!\<close> returns; a registration comes with the state of the callback
  at that time. The task ends when the channel of the commands or the stream of the events ends.
\<close>

datatype lazy_input = LazyRegister WatchMask lazy_reader | LazyUnregister nat | LazyEvent WatcherEvent | LazyClosed

definition lazy_send_event :: "fio \<Rightarrow> bool \<Rightarrow> WatcherEvent \<Rightarrow> watchers \<Rightarrow> watchers result" where
  "lazy_send_event K dbg ev ws =
     (case ev of
        Deleted name \<Rightarrow> bind_res (single_name_deleted K dbg name) (watchers_send_event single_vt dbg 2 ws)
      | Added names \<Rightarrow>
          bind_res (static_vec_added dbg names) (watchers_send_event (static_vec_vt K dbg) dbg (length names + 1) ws)
      | Removed names \<Rightarrow>
          bind_res (static_vec_removed dbg names) (watchers_send_event (static_vec_vt K dbg) dbg (length names + 1) ws))"

fun lazy_watchers_run ::
    "fio \<Rightarrow> bool \<Rightarrow> (nat set \<Rightarrow> nat) \<Rightarrow> nat \<Rightarrow> lazy_input list \<Rightarrow> watchers \<Rightarrow> watchers result" where
  "lazy_watchers_run K dbg vacant fuel [] ws = Inr ws"
| "lazy_watchers_run K dbg vacant fuel (LazyRegister msk rd # xs) ws =
     bind_res (lazy_handle_register K dbg vacant rd fuel msk ws) (lazy_watchers_run K dbg vacant fuel xs)"
| "lazy_watchers_run K dbg vacant fuel (LazyUnregister key # xs) ws =
     bind_res (watchers_remove ws key) (lazy_watchers_run K dbg vacant fuel xs)"
| "lazy_watchers_run K dbg vacant fuel (LazyEvent ev # xs) ws =
     bind_res (lazy_send_event K dbg ev ws) (lazy_watchers_run K dbg vacant fuel xs)"
| "lazy_watchers_run K dbg vacant fuel (LazyClosed # xs) ws = Inr watchers_new"

section \<open>A directory read through the helper\<close>

text \<open>
  The callback of a directory that lists its entries with the library's helper \<open>read_dirents\<close>.
\<close>

definition helper_reader :: "fio \<Rightarrow> bool \<Rightarrow> (EntryInfo \<times> string) list \<Rightarrow> lazy_reader" where
  "helper_reader K dbg entries pos =
     bind_res (read_dirents K (buffer_sink_vt K dbg) entries pos buffer_sink_existing) (\<lambda>(pos', d). Inr (pos', Some d))"

lemma buffer_unpack_event:
  assumes "b \<noteq> []" and "length b \<le> MAX_BUF K" and "WATCH_EXISTING \<in> c_mask c" and "c_alive c"
  shows "\<exists>p p' r. buffer_sealed_unpack K dbg b = Inr (Some p) \<and>
     controller_send_event single_vt dbg 2 c p = Inr (r, c\<lparr> c_commands := c_commands c @ [Send b] \<rparr>, p')"
proof -
  obtain p where p: "buffer_sealed_unpack K dbg b = Inr (Some p)" "single_pending p = [b]"
      "vt_mask single_vt p = {WATCH_EXISTING}"
    using assms(1,2)
    by (auto simp: buffer_sealed_unpack_def single_buffer_existing_def single_buffer_new_def single_pending_def single_vt_def)
  from single.controller_event_delivers [where p = p and c = c and n = 2 and dbg = dbg] p assms(3,4)
  show ?thesis by (auto simp: single.deliver_def intersects_insert)
qed

lemma lazy_loop_sends:
  assumes "read_all rd s m pos = Inr ds" and "rd PosEnd s = Inr (PosEnd, [])"
    and "\<forall>b \<in> set ds. b \<noteq> [] \<and> length b \<le> MAX_BUF K" and "WATCH_EXISTING \<in> c_mask c" and "c_alive c"
  shows "lazy_existing_loop K dbg (\<lambda>pos. bind_res (rd pos s) (\<lambda>(pos', d). Inr (pos', Some d))) (Suc m) pos c =
     Inr (c\<lparr> c_commands := c_commands c @ map Send ds \<rparr>, True)"
  using assms
proof (induction m arbitrary: pos c ds)
  case (Suc m)
  obtain pos' d ds' where rd: "rd pos s = Inr (pos', d)" and ds: "ds = d # ds'"
      and rest: "if pos' = PosEnd then ds' = [] else read_all rd s m pos' = Inr ds'"
    using Suc.prems(1) by (auto split: if_splits)
  let ?c = "c\<lparr> c_commands := c_commands c @ [Send d] \<rparr>"
  obtain p p' r where p: "buffer_sealed_unpack K dbg d = Inr (Some p)"
      "controller_send_event single_vt dbg 2 c p = Inr (r, ?c, p')"
    using buffer_unpack_event [of d K c dbg] Suc.prems ds by auto
  show ?case
  proof (cases "pos' = PosEnd")
    case True
    with rest rd p ds Suc.prems(2) show ?thesis by (simp add: buffer_sealed_unpack_def)
  next
    case False
    with rest have "read_all rd s m pos' = Inr ds'" by simp
    from Suc.IH [OF this Suc.prems(2), of ?c] Suc.prems ds rd p show ?thesis
      by (subst lazy_existing_loop.simps) (simp del: lazy_existing_loop.simps)
  qed
qed simp

lemma held_buffers:
  assumes "list_all2 (buffer_holds K) ds ls" and "[] \<notin> set ls"
  shows "ds = map (\<lambda>l. concat (map (event_record K EvExisting) l)) (map (map snd) ls)"
    and "\<forall>b \<in> set ds. b \<noteq> [] \<and> length b \<le> MAX_BUF K"
  using assms
proof (induction rule: list_all2_induct)
  case (Cons d ds l ls)
  { case 1
    with Cons show ?case by (simp add: buffer_holds_def)
  next
    case 2
    have "concat (map (event_record K EvExisting) (map snd l)) \<noteq> []" if "l \<noteq> []"
      using that by (cases l) (auto simp: event_record_def)
    with 2 Cons show ?case by (auto simp: buffer_holds_def)
  }
qed simp_all

text \<open>The loop queues the whole listing, in buffers that together hold \<open>"."\<close> and every entry once.\<close>

lemma lazy_loop_lists:
  assumes "fio_lengths K" and "dirent_listable K ''.''" and "\<forall>(e, n) \<in> set entries. dirent_listable K n"
    and "length entries < 2 ^ 64" and "WATCH_EXISTING \<in> c_mask c" and "c_alive c"
  shows "\<exists>ls. lazy_existing_loop K dbg (helper_reader K dbg entries) (length entries + 3) PosStart c =
       Inr (c\<lparr> c_commands := c_commands c @ map Send (map (\<lambda>l. concat (map (event_record K EvExisting) l)) ls) \<rparr>, True) \<and>
     concat ls = ''.'' # map snd entries \<and> [] \<notin> set ls"
proof -
  let ?rd = "read_dirents K (buffer_sink_vt K dbg) entries"
  obtain ds ls where ds: "read_all ?rd buffer_sink_existing (length entries + 2) PosStart = Inr ds"
      "list_all2 (buffer_holds K) ds ls" "concat ls = (EntryInfo (INO_UNKNOWN K) DtDirectory, ''.'') # entries" "[] \<notin> set ls"
    using bufsink.read_all_lists [OF assms(1-4), of "length entries + 2" K dbg] by auto
  have last: "?rd PosEnd buffer_sink_existing = Inr (PosEnd, [])"
    by (simp add: read_dirents_def buffer_sink_vt_def buffer_sink_seal_def buffer_sink_existing_def)
  note held = held_buffers [OF ds(2,4)]
  have "lazy_existing_loop K dbg (helper_reader K dbg entries) (Suc (length entries + 2)) PosStart c =
      Inr (c\<lparr> c_commands := c_commands c @ map Send ds \<rparr>, True)"
    unfolding helper_reader_def [abs_def] by (rule lazy_loop_sends [OF ds(1) last held(2) assms(5,6)])
  moreover have "concat (map (map snd) ls) = ''.'' # map snd entries"
    using arg_cong [OF ds(3), of "map snd"] by (simp add: map_concat)
  ultimately show ?thesis
    using held(1) ds(4)
    by (intro exI [of _ "map (map snd) ls"]) (auto simp: eval_nat_numeral simp del: lazy_existing_loop.simps)
qed

text \<open>C36. A watcher of a lazy directory is told the listing. When the directory lists its entries with the
  library's helper, handling a registration ends after at most three more calls of the callback than
  there are entries, without a panic, and keeps the other watchers. A client reading what was queued for
  the new watcher gets, as far as its mask asks for them, one message EXISTING for \<open>"."\<close> and for each entry, in
  order, and then one message IDLE.\<close>

theorem lazy_watcher_reports_listing:
  assumes "fio_names K" and "vacant_ok vacant" and "sm_inv ws" and "\<forall>(e, n) \<in> set entries. dirent_listable K n"
    and "length entries < 2 ^ 64"
  shows "\<exists>key bufs.
     lazy_handle_register K dbg vacant (helper_reader K dbg entries) (length entries + 3) msk ws =
       Inr (sm_insert key \<lparr>c_mask = msk, c_commands = map Send bufs, c_alive = True\<rparr> ws) \<and>
     sm_get ws key = None \<and>
     watcher_drain (length entries + 3) \<lparr>w_buf = [], w_idx = 0\<rparr> bufs =
       Inr ((if WATCH_EXISTING \<in> msk then map (record_msg K EvExisting) (''.'' # map snd entries) else []) @
            (if WATCH_IDLE \<in> msk then [record_msg K EvIdle []] else []))"
proof -
  let ?key = "vacant (fst ` set ws)"
  let ?c = "\<lparr>c_mask = msk, c_commands = [], c_alive = True\<rparr>"
  have K: "fio_lengths K" "dirent_listable K ''.''"
    using assms(1) by (auto simp: fio_names_def dirent_listable_def MAX_NAME_LENGTH_def)
  have new: "sm_get ws ?key = None" using assms(2) by (simp add: vacant_ok_def sm_get_None_iff)
  obtain ls where ls: "(if WATCH_EXISTING \<notin> msk then Inr (?c, True)
        else lazy_existing_loop K dbg (helper_reader K dbg entries) (length entries + 3) PosStart ?c) =
      Inr (?c\<lparr> c_commands := map Send (map (\<lambda>l. concat (map (event_record K EvExisting) l)) ls) \<rparr>, True)"
    "concat ls = (if WATCH_EXISTING \<in> msk then ''.'' # map snd entries else [])" "[] \<notin> set ls"
    using lazy_loop_lists [OF K assms(4,5), of ?c dbg] by (cases "WATCH_EXISTING \<in> msk") (auto intro: that [of "[]"])
  define b1 where "b1 = map (\<lambda>l. concat (map (event_record K EvExisting) l)) ls"
  define b2 where "b2 = (if WATCH_IDLE \<in> msk then [event_record K EvIdle []] else [])"
  obtain q where q: "single_name_idle K dbg = Inr q" "single_pending q = [event_record K EvIdle []]"
      "vt_mask single_vt q = {WATCH_IDLE}"
    using single_name_new_ok [OF K(1), of "[]" dbg "{WATCH_IDLE}" EvIdle] by (auto simp: single_name_idle_def)
  have "\<exists>q'. controller_send_event single_vt dbg 2 (?c\<lparr>c_commands := map Send b1\<rparr>) q =
      Inr (WATCH_IDLE \<in> msk, ?c\<lparr>c_commands := map Send (b1 @ b2)\<rparr>, q')"
    using single.controller_event_delivers [where p = q and c = "?c\<lparr>c_commands := map Send b1\<rparr>" and n = 2] q
    by (cases "WATCH_IDLE \<in> msk") (simp_all add: single.deliver_def b2_def)
  then have reg: "lazy_handle_register K dbg vacant (helper_reader K dbg entries) (length entries + 3) msk ws =
      Inr (sm_insert ?key \<lparr>c_mask = msk, c_commands = map Send (b1 @ b2), c_alive = True\<rparr> ws)"
    using ls(1) q(1) assms(3) by (auto simp: lazy_handle_register_def watchers_add_def b1_def)
  have "\<forall>n \<in> set (concat ls). length n \<le> 255"
    unfolding ls(2) using assms(1,4) K by (auto simp: dirent_listable_def fio_lengths_def)
  from listing_drain [OF ls(3) this, of "length entries + 3" K EvExisting "WATCH_IDLE \<in> msk"] ls(2)
  have "watcher_drain (length entries + 3) \<lparr>w_buf = [], w_idx = 0\<rparr> (b1 @ b2) =
      Inr ((if WATCH_EXISTING \<in> msk then map (record_msg K EvExisting) (''.'' # map snd entries) else []) @
           (if WATCH_IDLE \<in> msk then [record_msg K EvIdle []] else []))"
    by (cases "WATCH_EXISTING \<in> msk") (simp_all add: b1_def b2_def)
  with reg new show ?thesis by blast
qed

theorem lazy_watcher_reports_listing_witness:
  "\<exists>key bufs.
     lazy_handle_register fio_values True (\<lambda>keys. Suc (Max (insert 0 keys)))
       (helper_reader fio_values True [(EntryInfo 7 DtFile, ''a'')]) 4 {WATCH_EXISTING} [] =
       Inr [(key, \<lparr>c_mask = {WATCH_EXISTING}, c_commands = map Send bufs, c_alive = True\<rparr>)] \<and>
     watcher_drain 4 \<lparr>w_buf = [], w_idx = 0\<rparr> bufs =
       Inr [record_msg fio_values EvExisting ''.'', record_msg fio_values EvExisting ''a'']"
proof -
  have vac: "vacant_ok (\<lambda>keys. Suc (Max (insert 0 keys)))"
    unfolding vacant_ok_def by (metis Max_ge Suc_n_not_le_n finite.insertI insertCI)
  have l: "length [(EntryInfo 7 DtFile, ''a'')] + 3 = 4" by simp
  have "dirent_listable fio_values ''a''"
    using fio_values_names by (simp add: dirent_listable_def fio_names_def)
  then show ?thesis
    using lazy_watcher_reports_listing [OF fio_values_names vac, of "[]" "[(EntryInfo 7 DtFile, ''a'')]" True
        "{WATCH_EXISTING}", unfolded l]
    by (auto simp del: lazy_existing_loop.simps)
qed

end
