(* ===== verification/Registries.thy ===== *)
theory Registries
  imports Fio "HOL-Library.AList"
begin

text \<open>
  The registries of \<open>vfs/rust/src/registry\<close>: the token registry, which hands out event handles for
  directories so that a client can name a second directory in a rename or link, and the inode
  registry. Hash maps are association lists; a container or node is identified by its address, as in
  the code. The mutex is not part of the model: its lock fails only after a panic of another holder.
\<close>

section \<open>Kernel handles\<close>

text \<open>
  A handle refers to a kernel object, identified by its koid, and carries rights. The kernel calls
  can fail, so they are parameters: the outcome of \<open>Event::create\<close> is an argument, \<open>get_koid\<close> and
  \<open>duplicate_handle\<close> are functions.
\<close>

record handle =
  h_koid :: nat
  h_rights :: Rights

record handle_ops =
  ho_koid :: "handle \<Rightarrow> nat result"
  ho_dup :: "handle \<Rightarrow> Rights \<Rightarrow> handle result"

definition DEFAULT_TOKEN_RIGHTS :: "fio \<Rightarrow> Rights" where
  "DEFAULT_TOKEN_RIGHTS K = RIGHTS_BASIC K"

text \<open>What the kernel documents for valid handles: a duplicate refers to the same object.\<close>

definition kernel_ok :: "handle_ops \<Rightarrow> bool" where
  "kernel_ok H \<longleftrightarrow>
     (\<forall>h. ho_koid H h = Inr (h_koid h)) \<and> (\<forall>h r. ho_dup H h r = Inr (h\<lparr> h_rights := r \<rparr>))"

definition kernel_values :: handle_ops where
  "kernel_values = \<lparr> ho_koid = (\<lambda>h. Inr (h_koid h)), ho_dup = (\<lambda>h r. Inr (h\<lparr> h_rights := r \<rparr>)) \<rparr>"

lemma kernel_values_ok [simp]: "kernel_ok kernel_values"
  by (simp add: kernel_ok_def kernel_values_def)

section \<open>The token registry\<close>

record token_registry =
  container_to_token :: "(nat \<times> handle) list"
  token_to_container :: "(nat \<times> nat) list"

definition token_registry_new :: token_registry where
  "token_registry_new = \<lparr> container_to_token = [], token_to_container = [] \<rparr>"

definition get_token ::
  "fio \<Rightarrow> bool \<Rightarrow> handle_ops \<Rightarrow> handle result \<Rightarrow> nat \<Rightarrow> token_registry \<Rightarrow> handle result \<times> token_registry" where
  "get_token K dbg H ev container_id t =
     (case map_of (container_to_token t) container_id of
        Some h \<Rightarrow> (ho_dup H h (DEFAULT_TOKEN_RIGHTS K), t)
      | None \<Rightarrow>
          (case bind_res ev (\<lambda>h. bind_res (ho_koid H h) (\<lambda>koid.
                  bind_res (ho_dup H h (DEFAULT_TOKEN_RIGHTS K)) (\<lambda>res. Inr (h, koid, res)))) of
             Inl e \<Rightarrow> (Inl e, t)
           | Inr (h, koid, res) \<Rightarrow>
               let t' = t\<lparr> container_to_token := AList.update container_id h (container_to_token t),
                          token_to_container := AList.update koid container_id (token_to_container t) \<rparr> in
               (if dbg \<and> map_of (token_to_container t) koid \<noteq> None then Inl Panic else Inr res, t')))"

text \<open>\<open>alive\<close> tells whether the weak reference to a container can be upgraded.\<close>

definition get_container ::
  "bool \<Rightarrow> handle_ops \<Rightarrow> (nat \<Rightarrow> bool) \<Rightarrow> handle \<Rightarrow> token_registry \<Rightarrow> nat option result" where
  "get_container dbg H alive token t =
     bind_res (ho_koid H token) (\<lambda>koid.
       case map_of (token_to_container t) koid of
         Some c \<Rightarrow> if alive c then Inr (Some c) else if dbg then Inl Panic else Inr None
       | None \<Rightarrow> Inr None)"

definition token_unregister :: "bool \<Rightarrow> handle_ops \<Rightarrow> nat \<Rightarrow> token_registry \<Rightarrow> unit result \<times> token_registry" where
  "token_unregister dbg H container_id t =
     (case map_of (container_to_token t) container_id of
        Some h \<Rightarrow>
          let t1 = t\<lparr> container_to_token := AList.delete container_id (container_to_token t) \<rparr> in
          (case ho_koid H h of
             Inl e \<Rightarrow> (if dbg then Inl Panic else Inr (), t1)
           | Inr koid \<Rightarrow>
               (if dbg \<and> map_of (token_to_container t1) koid = None then Inl Panic else Inr (),
                t1\<lparr> token_to_container := AList.delete koid (token_to_container t1) \<rparr>))
      | None \<Rightarrow> (if dbg then Inl Panic else Inr (), t))"

text \<open>
  The invariant documented in the source: the two maps are inverse to each other.
\<close>

definition token_inv :: "token_registry \<Rightarrow> bool" where
  "token_inv t \<longleftrightarrow>
     (\<forall>c k. (\<exists>h. map_of (container_to_token t) c = Some h \<and> h_koid h = k) \<longleftrightarrow>
            map_of (token_to_container t) k = Some c)"

lemma token_inv_new [simp]: "token_inv token_registry_new"
  by (simp add: token_inv_def token_registry_new_def)

text \<open>
  A koid is unique among live objects, and the registry keeps the events it created alive, so a new
  event has a koid that the registry does not know.
\<close>

definition fresh_event :: "handle result \<Rightarrow> token_registry \<Rightarrow> bool" where
  "fresh_event ev t \<longleftrightarrow> (\<forall>h. ev = Inr h \<longrightarrow> map_of (token_to_container t) (h_koid h) = None)"

lemma get_token_inv:
  assumes "kernel_ok H" and "token_inv t" and "fresh_event ev t"
  shows "token_inv (snd (get_token K dbg H ev c t))"
proof (cases "map_of (container_to_token t) c")
  case None
  show ?thesis
  proof (cases ev)
    case (Inl e)
    with None assms(2) show ?thesis by (simp add: get_token_def)
  next
    case (Inr h)
    then have fresh: "map_of (token_to_container t) (h_koid h) = None" using assms(3) by (simp add: fresh_event_def)
    have "snd (get_token K dbg H ev c t) =
        t\<lparr> container_to_token := AList.update c h (container_to_token t),
           token_to_container := AList.update (h_koid h) c (token_to_container t) \<rparr>"
      using None Inr assms(1) by (simp add: get_token_def kernel_ok_def Let_def)
    then show ?thesis
      using assms(2) fresh None unfolding token_inv_def by (auto simp: update_conv') (metis option.distinct(1))+
  qed
next
  case (Some h)
  with assms(2) show ?thesis by (simp add: get_token_def)
qed

lemma unregister_inv:
  assumes "kernel_ok H" and "token_inv t"
  shows "token_inv (snd (token_unregister dbg H c t))"
proof (cases "map_of (container_to_token t) c")
  case None
  with assms(2) show ?thesis by (simp add: token_unregister_def)
next
  case (Some h)
  have "snd (token_unregister dbg H c t) =
      t\<lparr> container_to_token := AList.delete c (container_to_token t),
         token_to_container := AList.delete (h_koid h) (token_to_container t) \<rparr>"
    using Some assms(1) by (simp add: token_unregister_def kernel_ok_def Let_def)
  then show ?thesis
    using assms(2) Some unfolding token_inv_def
    by (auto simp: delete_conv') (metis option.inject)+
qed

subsection \<open>The contract of a token registry\<close>

text \<open>
  What directory connections rely on: a token that was issued for a live container leads back to it,
  stays valid while other tokens are issued or other containers leave, and leads nowhere once its
  container has left.
\<close>

locale token_service =
  fixes issue :: "nat \<Rightarrow> 't \<Rightarrow> 'h result \<times> 't"
    and resolve :: "'h \<Rightarrow> 't \<Rightarrow> nat option"
    and leave :: "nat \<Rightarrow> 't \<Rightarrow> 't"
    and good :: "'t \<Rightarrow> bool"
  assumes issue_good: "good t \<Longrightarrow> good (snd (issue c t))"
    and leave_good: "good t \<Longrightarrow> good (leave c t)"
    and issue_ok: "good t \<Longrightarrow> \<exists>h. fst (issue c t) = Inr h \<and> resolve h (snd (issue c t)) = Some c"
    and issue_keeps: "good t \<Longrightarrow> resolve h t = Some d \<Longrightarrow> resolve h (snd (issue c t)) = Some d"
    and leave_other: "good t \<Longrightarrow> resolve h t = Some d \<Longrightarrow> d \<noteq> c \<Longrightarrow> resolve h (leave c t) = Some d"
    and leave_self: "good t \<Longrightarrow> resolve h t = Some c \<Longrightarrow> resolve h (leave c t) = None"
begin

lemma issue_twice:
  assumes "good t" and "issue c t = (Inr h, t1)" and "issue d t1 = (Inr h', t2)"
  shows "resolve h t2 = Some c \<and> resolve h' t2 = Some d"
proof -
  have "resolve h t1 = Some c" "good t1"
    using issue_ok [OF assms(1), of c] issue_good [OF assms(1), of c] assms(2) by auto
  then show ?thesis
    using issue_keeps [of t1 h c d] issue_ok [of t1 d] assms(3) by auto
qed

lemma leave_after_issue:
  assumes "good t" and "issue c t = (Inr h, t1)"
  shows "resolve h (leave c t1) = None"
  using issue_ok [OF assms(1), of c] issue_good [OF assms(1), of c] leave_self [of t1 h c] assms(2) by auto

end

text \<open>
  The registry with a kernel that numbers its events: the state carries the next koid.
\<close>

definition numbered_issue :: "fio \<Rightarrow> bool \<Rightarrow> nat \<Rightarrow> token_registry \<times> nat \<Rightarrow> handle result \<times> token_registry \<times> nat" where
  "numbered_issue K dbg c = (\<lambda>(t, n).
     let (r, t') = get_token K dbg kernel_values (Inr \<lparr> h_koid = n, h_rights = UNIV \<rparr>) c t in (r, t', Suc n))"

definition numbered_good :: "token_registry \<times> nat \<Rightarrow> bool" where
  "numbered_good = (\<lambda>(t, n). token_inv t \<and> (\<forall>k c. map_of (token_to_container t) k = Some c \<longrightarrow> k < n))"

definition numbered_resolve :: "handle \<Rightarrow> token_registry \<times> nat \<Rightarrow> nat option" where
  "numbered_resolve h = (\<lambda>(t, n). case get_container True kernel_values (\<lambda>_. True) h t of Inr r \<Rightarrow> r | Inl _ \<Rightarrow> None)"

definition numbered_leave :: "nat \<Rightarrow> token_registry \<times> nat \<Rightarrow> token_registry \<times> nat" where
  "numbered_leave c = (\<lambda>(t, n). (snd (token_unregister False kernel_values c t), n))"

lemma numbered_resolve_eq: "numbered_resolve h (t, n) = map_of (token_to_container t) (h_koid h)"
  by (simp add: numbered_resolve_def get_container_def kernel_values_def split: option.split)

lemma get_token_new:
  assumes "kernel_ok H" and "map_of (container_to_token t) c = None"
    and "map_of (token_to_container t) (h_koid h) = None"
  shows "get_token K dbg H (Inr h) c t =
     (Inr (h\<lparr> h_rights := DEFAULT_TOKEN_RIGHTS K \<rparr>),
      t\<lparr> container_to_token := AList.update c h (container_to_token t),
         token_to_container := AList.update (h_koid h) c (token_to_container t) \<rparr>)"
  using assms by (simp add: get_token_def kernel_ok_def Let_def)

lemma get_token_old:
  assumes "kernel_ok H" and "map_of (container_to_token t) c = Some h"
  shows "get_token K dbg H ev c t = (Inr (h\<lparr> h_rights := DEFAULT_TOKEN_RIGHTS K \<rparr>), t)"
  using assms by (simp add: get_token_def kernel_ok_def)

lemma unregister_known:
  assumes "kernel_ok H" and "token_inv t" and "map_of (container_to_token t) c = Some h"
  shows "token_unregister dbg H c t =
     (Inr (), t\<lparr> container_to_token := AList.delete c (container_to_token t),
                token_to_container := AList.delete (h_koid h) (token_to_container t) \<rparr>)"
proof -
  have "map_of (token_to_container t) (h_koid h) = Some c" using assms(2,3) unfolding token_inv_def by blast
  with assms(1,3) show ?thesis by (simp add: token_unregister_def kernel_ok_def Let_def)
qed

lemma token_inv_koid: "token_inv t \<Longrightarrow> map_of (container_to_token t) c = Some h \<Longrightarrow> map_of (token_to_container t) (h_koid h) = Some c"
  unfolding token_inv_def by blast

lemma token_inv_container: "token_inv t \<Longrightarrow> map_of (token_to_container t) k = Some c \<Longrightarrow>
    \<exists>h. map_of (container_to_token t) c = Some h \<and> h_koid h = k"
  unfolding token_inv_def by blast

lemma numbered_issue_cases:
  assumes "numbered_good (t, n)"
  obtains (old) h where "map_of (container_to_token t) c = Some h"
      "numbered_issue K dbg c (t, n) = (Inr (h\<lparr> h_rights := DEFAULT_TOKEN_RIGHTS K \<rparr>), t, Suc n)"
  | (new) "map_of (container_to_token t) c = None" "map_of (token_to_container t) n = None"
      "numbered_issue K dbg c (t, n) = (Inr \<lparr> h_koid = n, h_rights = DEFAULT_TOKEN_RIGHTS K \<rparr>,
         t\<lparr> container_to_token := AList.update c \<lparr> h_koid = n, h_rights = UNIV \<rparr> (container_to_token t),
            token_to_container := AList.update n c (token_to_container t) \<rparr>, Suc n)"
proof (cases "map_of (container_to_token t) c")
  case None
  have fresh: "map_of (token_to_container t) n = None"
    using assms by (auto simp: numbered_good_def)
  show thesis
    by (rule new [OF None fresh])
      (use get_token_new [OF kernel_values_ok None, of "\<lparr> h_koid = n, h_rights = UNIV \<rparr>" K dbg] fresh
       in \<open>simp add: numbered_issue_def\<close>)
next
  case (Some h)
  show thesis
    by (rule old [OF Some])
      (simp add: numbered_issue_def get_token_old [OF kernel_values_ok Some])
qed

interpretation tokens: token_service "numbered_issue K dbg" numbered_resolve numbered_leave numbered_good
proof (unfold_locales, goal_cases)
  case (1 s c)
  obtain t n where s: "s = (t, n)" by (cases s)
  have "numbered_good (t, n)" using 1 s by simp
  then show ?case
  proof (cases rule: numbered_issue_cases [where c = c and K = K and dbg = dbg])
    case (old h)
    with \<open>numbered_good (t, n)\<close> s show ?thesis by (auto simp: numbered_good_def less_Suc_eq)
  next
    case new
    have "token_inv (snd (get_token K dbg kernel_values (Inr \<lparr> h_koid = n, h_rights = UNIV \<rparr>) c t))"
      by (rule get_token_inv) (use \<open>numbered_good (t, n)\<close> new(2) in \<open>simp_all add: numbered_good_def fresh_event_def\<close>)
    moreover have "snd (get_token K dbg kernel_values (Inr \<lparr> h_koid = n, h_rights = UNIV \<rparr>) c t) =
        fst (snd (numbered_issue K dbg c (t, n)))"
      by (simp add: numbered_issue_def split: prod.split)
    ultimately show ?thesis
      using new \<open>numbered_good (t, n)\<close> s by (auto simp: numbered_good_def update_conv' less_Suc_eq split: if_splits)
  qed
next
  case (2 s c)
  obtain t n where s: "s = (t, n)" by (cases s)
  show ?case
  proof (cases "map_of (container_to_token t) c")
    case None
    with 2 s show ?thesis by (simp add: numbered_leave_def token_unregister_def)
  next
    case (Some h)
    with 2 s unregister_inv [of kernel_values t False c] unregister_known [OF kernel_values_ok _ Some]
    show ?thesis by (auto simp: numbered_leave_def numbered_good_def delete_conv' split: if_splits)
  qed
next
  case (3 s c)
  obtain t n where s: "s = (t, n)" by (cases s)
  have good: "numbered_good (t, n)" using 3 s by simp
  then show ?case
  proof (cases rule: numbered_issue_cases [where c = c and K = K and dbg = dbg])
    case (old h)
    with good s token_inv_koid [OF _ old(1)] show ?thesis
      by (auto simp: numbered_resolve_eq numbered_good_def)
  next
    case new
    with s show ?thesis by (simp add: numbered_resolve_eq update_conv')
  qed
next
  case (4 s h d c)
  obtain t n where s: "s = (t, n)" by (cases s)
  have good: "numbered_good (t, n)" using 4 s by simp
  then show ?case
    by (cases rule: numbered_issue_cases [where c = c and K = K and dbg = dbg])
      (use 4 s in \<open>auto simp: numbered_resolve_eq update_conv'\<close>)
next
  case (5 s h d c)
  obtain t n where s: "s = (t, n)" by (cases s)
  show ?case
  proof (cases "map_of (container_to_token t) c")
    case None
    with 5 s show ?thesis by (simp add: numbered_leave_def token_unregister_def)
  next
    case (Some g)
    have inv: "token_inv t" using 5 s by (simp add: numbered_good_def)
    with 5 s unregister_known [OF kernel_values_ok inv Some] token_inv_koid [OF inv Some]
    show ?thesis by (auto simp: numbered_leave_def numbered_resolve_eq delete_conv')
  qed
next
  case (6 s h c)
  obtain t n where s: "s = (t, n)" by (cases s)
  have inv: "token_inv t" using 6 s by (simp add: numbered_good_def)
  obtain g where g: "map_of (container_to_token t) c = Some g" "h_koid g = h_koid h"
    using token_inv_container [OF inv] 6(2) s by (auto simp: numbered_resolve_eq)
  with s unregister_known [OF kernel_values_ok inv g(1)] show ?case
    by (simp add: numbered_leave_def numbered_resolve_eq delete_conv')
qed

lemma issued_token_resolves:
  assumes "kernel_ok H" and "token_inv t" and "fresh_event (Inr h) t"
  shows "\<exists>g t1. get_token K dbg H (Inr h) c t = (Inr (g\<lparr> h_rights := DEFAULT_TOKEN_RIGHTS K \<rparr>), t1) \<and>
     token_inv t1 \<and> map_of (container_to_token t1) c = Some g \<and>
     (\<forall>alive. alive c \<longrightarrow>
        get_container dbg H alive (g\<lparr> h_rights := DEFAULT_TOKEN_RIGHTS K \<rparr>) t1 = Inr (Some c))"
proof -
  obtain g t1 where one: "get_token K dbg H (Inr h) c t = (Inr (g\<lparr> h_rights := DEFAULT_TOKEN_RIGHTS K \<rparr>), t1)"
    "map_of (container_to_token t1) c = Some g"
  proof (cases "map_of (container_to_token t) c")
    case None
    show thesis
      by (rule that [OF get_token_new [OF assms(1) None]])
        (use assms(3) in \<open>simp_all add: fresh_event_def update_conv'\<close>)
  next
    case (Some g)
    show thesis by (rule that [OF get_token_old [OF assms(1) Some] Some])
  qed
  have inv: "token_inv t1" using get_token_inv [OF assms, of K dbg c] one(1) by simp
  have koid: "map_of (token_to_container t1) (h_koid g) = Some c" using token_inv_koid [OF inv one(2)] .
  with assms(1) one inv show ?thesis by (auto simp: get_container_def kernel_ok_def)
qed

text \<open>The token of a directory leads back to it. In a registry whose two maps are inverse to each other,
  \<open>get_token\<close> succeeds without tripping its assertion, gives a handle with exactly the default token
  rights, keeps the maps inverse, returns the same token on every further call, and \<open>get_container\<close>
  resolves it to the directory; after \<open>unregister\<close>, which also succeeds, the token resolves to nothing.\<close>

theorem token_roundtrip:
  assumes "kernel_ok H" and "token_inv t" and "fresh_event (Inr h) t" and "alive c"
  shows "\<exists>tok t1 t2. get_token K dbg H (Inr h) c t = (Inr tok, t1) \<and> token_inv t1 \<and>
           h_rights tok = DEFAULT_TOKEN_RIGHTS K \<and>
           get_token K dbg H ev c t1 = (Inr tok, t1) \<and>
           get_container dbg H alive tok t1 = Inr (Some c) \<and>
           token_unregister dbg H c t1 = (Inr (), t2) \<and> token_inv t2 \<and>
           get_container dbg H alive tok t2 = Inr None"
proof -
  obtain g t1 where one: "get_token K dbg H (Inr h) c t = (Inr (g\<lparr> h_rights := DEFAULT_TOKEN_RIGHTS K \<rparr>), t1)"
      "map_of (container_to_token t1) c = Some g" and inv: "token_inv t1"
    using issued_token_resolves [OF assms(1-3)] by metis
  have koid: "map_of (token_to_container t1) (h_koid g) = Some c" using token_inv_koid [OF inv one(2)] .
  let ?tok = "g\<lparr> h_rights := DEFAULT_TOKEN_RIGHTS K \<rparr>"
  let ?t2 = "t1\<lparr> container_to_token := AList.delete c (container_to_token t1),
                token_to_container := AList.delete (h_koid g) (token_to_container t1) \<rparr>"
  have "token_unregister dbg H c t1 = (Inr (), ?t2)" by (rule unregister_known [OF assms(1) inv one(2)])
  moreover from this have "token_inv ?t2" using unregister_inv [OF assms(1) inv, of dbg c] by simp
  moreover have "get_container dbg H alive ?tok t1 = Inr (Some c)" "get_container dbg H alive ?tok ?t2 = Inr None"
    using assms(1,4) koid by (simp_all add: get_container_def kernel_ok_def delete_conv')
  moreover have "get_token K dbg H ev c t1 = (Inr ?tok, t1)" by (rule get_token_old [OF assms(1) one(2)])
  ultimately show ?thesis using one(1) inv by (intro exI [of _ ?tok] exI [of _ t1] exI [of _ ?t2]) simp
qed

theorem token_roundtrip_witness:
  "\<exists>tok t1 t2. get_token fio_values True kernel_values (Inr \<lparr> h_koid = 9, h_rights = UNIV \<rparr>) 5 token_registry_new = (Inr tok, t1) \<and>
     get_container True kernel_values (\<lambda>_. True) tok t1 = Inr (Some 5) \<and>
     token_unregister True kernel_values 5 t1 = (Inr (), t2) \<and>
     get_container True kernel_values (\<lambda>_. True) tok t2 = Inr None"
proof -
  have "fresh_event (Inr \<lparr> h_koid = 9, h_rights = UNIV \<rparr>) token_registry_new"
    by (simp add: fresh_event_def token_registry_new_def)
  from token_roundtrip [OF kernel_values_ok token_inv_new this, of "\<lambda>_. True" 5 fio_values True "Inl Panic"]
  show ?thesis by auto
qed

section \<open>The inode registry\<close>

text \<open>\<open>next_inode += 1\<close> panics on overflow when overflow checks are on and wraps otherwise.\<close>

record inode_registry =
  assigned :: "(nat \<times> 64 word) list"
  next_inode :: "64 word"

definition inode_registry_new :: inode_registry where
  "inode_registry_new = \<lparr> assigned = [], next_inode = 0 \<rparr>"

definition get_inode :: "bool \<Rightarrow> nat \<Rightarrow> inode_registry \<Rightarrow> (64 word \<times> inode_registry) result" where
  "get_inode dbg node_id t =
     (case map_of (assigned t) node_id of
        Some inode \<Rightarrow> Inr (inode, t)
      | None \<Rightarrow>
          let inode = next_inode t in
          if dbg \<and> inode = - 1 then Inl Panic
          else Inr (inode, t\<lparr> next_inode := inode + 1, assigned := AList.update node_id inode (assigned t) \<rparr>))"

definition inode_unregister :: "bool \<Rightarrow> nat \<Rightarrow> inode_registry \<Rightarrow> unit result \<times> inode_registry" where
  "inode_unregister dbg node_id t =
     (case map_of (assigned t) node_id of
        Some _ \<Rightarrow> (Inr (), t\<lparr> assigned := AList.delete node_id (assigned t) \<rparr>)
      | None \<Rightarrow> (if dbg then Inl Panic else Inr (), t))"

datatype inode_op = GetInode nat | Unregister nat

text \<open>
  A run of the registry, with the inodes it returned and for which node; \<open>unregister\<close> is called for
  registered nodes only, as the code asks of its callers.
\<close>

fun inode_run :: "bool \<Rightarrow> inode_op list \<Rightarrow> inode_registry \<Rightarrow> ((nat \<times> 64 word) list \<times> inode_registry) result" where
  "inode_run dbg [] t = Inr ([], t)"
| "inode_run dbg (GetInode n # ops) t =
     bind_res (get_inode dbg n t) (\<lambda>(i, t'). bind_res (inode_run dbg ops t') (\<lambda>(log, t''). Inr ((n, i) # log, t'')))"
| "inode_run dbg (Unregister n # ops) t =
     (if map_of (assigned t) n = None then inode_run dbg ops t
      else case inode_unregister dbg n t of
        (Inl e, t') \<Rightarrow> Inl e
      | (Inr _, t') \<Rightarrow> inode_run dbg ops t')"

text \<open>The invariant with the number \<open>m\<close> of inodes issued so far.\<close>

definition inode_inv :: "nat \<Rightarrow> inode_registry \<Rightarrow> bool" where
  "inode_inv m t \<longleftrightarrow>
     next_inode t = word_of_nat m \<and> inj_on (map_of (assigned t)) (dom (map_of (assigned t))) \<and>
     (\<forall>n i. map_of (assigned t) n = Some i \<longrightarrow> unat i < m)"

lemma get_inode_step:
  assumes "inode_inv m t" and "m < 2 ^ 64 - 1"
  shows "\<exists>i t' m'. get_inode dbg n t = Inr (i, t') \<and> inode_inv m' t' \<and> m \<le> m' \<and> m' \<le> Suc m \<and>
           map_of (assigned t') n = Some i \<and> unat i < m' \<and>
           (\<forall>k. k \<noteq> n \<longrightarrow> map_of (assigned t') k = map_of (assigned t) k) \<and>
           (map_of (assigned t) n = None \<longrightarrow> unat i = m)"
proof (cases "map_of (assigned t) n")
  case (Some i)
  with assms show ?thesis by (auto simp: get_inode_def inode_inv_def intro!: exI [of _ m])
next
  case None
  have small: "unat (word_of_nat m :: 64 word) = m" using assms(2) by (simp add: unat_of_nat)
  have "word_of_nat m \<noteq> (- 1 :: 64 word)"
  proof
    assume "word_of_nat m = (- 1 :: 64 word)"
    then have "m = unat (- 1 :: 64 word)" using small by simp
    then show False using assms(2) by (simp add: unsigned_minus_1_eq_mask mask_eq_exp_minus_1)
  qed
  then show ?thesis
    using None assms small
    by (auto simp: get_inode_def inode_inv_def Let_def update_conv' inj_on_def less_Suc_eq
        intro!: exI [of _ "Suc m"]) (metis less_irrefl)+
qed

lemma inode_unregister_step:
  assumes "inode_inv m t" and "map_of (assigned t) n = Some i"
  shows "\<exists>t'. inode_unregister dbg n t = (Inr (), t') \<and> inode_inv m t' \<and>
           map_of (assigned t') = (map_of (assigned t))(n := None)"
  using assms by (auto simp: inode_unregister_def inode_inv_def delete_conv' inj_on_def)

text \<open>What a run returns: inodes that were assigned before, or new ones; none for two nodes.\<close>

definition log_ok :: "nat \<Rightarrow> inode_registry \<Rightarrow> (nat \<times> 64 word) list \<Rightarrow> bool" where
  "log_ok m t log \<longleftrightarrow>
     (\<forall>(n, i) \<in> set log. map_of (assigned t) n = Some i \<or> m \<le> unat i) \<and>
     (\<forall>(a, i) \<in> set log. \<forall>(b, j) \<in> set log. i = j \<longrightarrow> a = b)"

lemma log_ok_assigned:
  assumes "inode_inv m t" and "log_ok m t log" and "(n, i) \<in> set log" and "map_of (assigned t) k = Some i"
  shows "k = n"
proof -
  have "unat i < m" using assms(1,4) by (simp add: inode_inv_def)
  then have "map_of (assigned t) n = Some i" using assms(2,3) by (auto simp: log_ok_def)
  with assms(1,4) show ?thesis unfolding inode_inv_def inj_on_def by (metis domI)
qed

lemma inode_run_ok:
  assumes "inode_inv m t" and "m + length ops < 2 ^ 64"
  shows "\<exists>log t'. inode_run dbg ops t = Inr (log, t') \<and> log_ok m t log"
  using assms
proof (induction ops arbitrary: m t)
  case Nil
  then show ?case by (simp add: log_ok_def)
next
  case (Cons p ops)
  show ?case
  proof (cases p)
    case (GetInode n)
    obtain i t1 m1 where one: "get_inode dbg n t = Inr (i, t1)" "inode_inv m1 t1" "m \<le> m1" "m1 \<le> Suc m"
      "map_of (assigned t1) n = Some i" "\<And>k. k \<noteq> n \<Longrightarrow> map_of (assigned t1) k = map_of (assigned t) k"
      "map_of (assigned t) n = None \<Longrightarrow> unat i = m" "map_of (assigned t) n \<noteq> None \<Longrightarrow> t1 = t"
      using get_inode_step [OF Cons.prems(1), of dbg n] Cons.prems(2)
      by (fastforce simp: get_inode_def split: option.splits)
    from Cons.IH [OF one(2)] Cons.prems(2) one(4) obtain log t' where
      two: "inode_run dbg ops t1 = Inr (log, t')" "log_ok m1 t1 log" by auto
    have owner: "b = n" if "(b, i) \<in> set log" for b
      using log_ok_assigned [OF one(2) two(2) that one(5)] by simp
    have new: "map_of (assigned t) b = Some j \<or> m \<le> unat j" if "(b, j) \<in> set ((n, i) # log)" for b j
    proof (cases "b = n")
      case True
      then show ?thesis
        using that one two(2) unfolding log_ok_def by (cases "map_of (assigned t) n") fastforce+
    next
      case False
      then show ?thesis using that one(3,6) two(2) unfolding log_ok_def by fastforce
    qed
    have "log_ok m t ((n, i) # log)"
      using new owner two(2) unfolding log_ok_def by auto
    with GetInode one(1) two(1) show ?thesis by simp
  next
    case (Unregister n)
    show ?thesis
    proof (cases "map_of (assigned t) n")
      case None
      with Unregister Cons.IH [OF Cons.prems(1)] Cons.prems(2) show ?thesis by auto
    next
      case (Some i)
      obtain t1 where t1: "inode_unregister dbg n t = (Inr (), t1)" "inode_inv m t1"
          "map_of (assigned t1) = (map_of (assigned t))(n := None)"
        using inode_unregister_step [OF Cons.prems(1) Some] by blast
      from Cons.IH [OF t1(2)] Cons.prems(2) obtain log t' where
        "inode_run dbg ops t1 = Inr (log, t')" "log_ok m t1 log" by auto
      moreover from this(2) have "log_ok m t log"
        unfolding log_ok_def t1(3) by (auto split: if_splits)
      ultimately show ?thesis using Unregister Some t1(1) by simp
    qed
  qed
qed

text \<open>Inode numbers are unique. In any run of fewer than $2^{64}$ calls of \<open>get_inode\<close> and \<open>unregister\<close>
  on a new registry nothing panics, and no inode number is ever returned for two different nodes, not
  even after the first of them has been unregistered.\<close>

theorem inodes_unique:
  assumes "length ops < 2 ^ 64"
  shows "\<exists>log t. inode_run dbg ops inode_registry_new = Inr (log, t) \<and>
           (\<forall>a b i. (a, i) \<in> set log \<and> (b, i) \<in> set log \<longrightarrow> a = b)"
proof -
  have "inode_inv 0 inode_registry_new" by (simp add: inode_inv_def inode_registry_new_def)
  from inode_run_ok [OF this, of ops dbg] assms show ?thesis
    unfolding log_ok_def by fastforce
qed

theorem inodes_unique_witness:
  "\<exists>log t. inode_run True [GetInode 4, GetInode 7, Unregister 4, GetInode 8] inode_registry_new = Inr (log, t) \<and>
     (\<forall>a b i. (a, i) \<in> set log \<and> (b, i) \<in> set log \<longrightarrow> a = b)"
  by (rule inodes_unique) simp

end
