(* ===== verification/Dir_Connection.thy ===== *)
theory Dir_Connection
  imports Vfs_Path Vfs_Flags Dirents Registries
begin

text \<open>
  FIDL connections to a directory: \<open>directory/connection\<close> (the base connection and \<open>OpenDirectory\<close>),
  \<open>directory/immutable/connection\<close> and \<open>directory/mutable/connection\<close>. A connection is its access
  flags, its seek position and its open directory; the directory is a trait object, so its methods are
  the record \<open>dir_vt\<close> over a state \<open>'w\<close> that holds whatever the directory refers to. A handler returns
  the new connection, the new state, what it sent, and how the connection goes on.
\<close>

section \<open>The directory behind a connection\<close>

record 'w dir_vt =
  vt_open :: "OpenFlags \<Rightarrow> 32 word \<Rightarrow> path \<Rightarrow> 'w \<Rightarrow> 'w"
  vt_close :: "'w \<Rightarrow> unit result \<times> 'w"
  vt_get_attrs :: "'w \<Rightarrow> node_attributes result"
  vt_read_dirents :: "TraversalPosition \<Rightarrow> Sink \<Rightarrow> 'w \<Rightarrow> (TraversalPosition \<times> SinkDone) result"
  vt_register_watcher :: "WatchMask \<Rightarrow> 'w \<Rightarrow> unit result \<times> 'w"
  vt_query_filesystem :: "'w \<Rightarrow> unit result"
  vt_link :: "nat \<Rightarrow> string \<Rightarrow> string \<Rightarrow> 'w \<Rightarrow> unit result \<times> 'w"
  vt_unlink :: "string \<Rightarrow> bool \<Rightarrow> 'w \<Rightarrow> unit result \<times> 'w"
  vt_set_attrs :: "nat \<Rightarrow> node_attributes \<Rightarrow> 'w \<Rightarrow> unit result \<times> 'w"
  vt_sync :: "'w \<Rightarrow> unit result \<times> 'w"
  vt_rename :: "path \<Rightarrow> nat \<Rightarrow> path \<Rightarrow> 'w \<Rightarrow> unit result \<times> 'w"
  vt_token_registry :: bool
  vt_get_token :: "'w \<Rightarrow> handle result \<times> 'w"
  vt_get_container :: "handle \<Rightarrow> 'w \<Rightarrow> nat option result"

text \<open>
  \<open>OpenDirectory\<close>: the directory is present until it has been closed. \<open>close\<close> takes it out and closes
  it; dropping closes it if it is still there.
\<close>

definition open_directory_close :: "'w dir_vt \<Rightarrow> bool \<Rightarrow> 'w \<Rightarrow> unit result \<times> bool \<times> 'w" where
  "open_directory_close D present w =
     (if present then (let (r, w') = vt_close D w in (r, False, w')) else (Inl (Err BAD_HANDLE), False, w))"

definition open_directory_drop :: "'w dir_vt \<Rightarrow> bool \<Rightarrow> 'w \<Rightarrow> 'w" where
  "open_directory_drop D present w = (if present then snd (vt_close D w) else w)"

record dir_conn =
  dc_present :: bool
  dc_flags :: OpenFlags
  dc_seek :: TraversalPosition

definition base_connection_new :: "OpenFlags \<Rightarrow> dir_conn" where
  "base_connection_new flags = \<lparr> dc_present = True, dc_flags = flags, dc_seek = traversal_default \<rparr>"

section \<open>Requests\<close>

text \<open>
  The requests of \<open>fuchsia.io/Directory\<close> with the arguments the handlers read. \<open>ReqWatch\<close> carries the
  options and whether the watcher channel converts; \<open>ReqUnlink\<close> the flag \<open>MUST_BE_DIRECTORY\<close> if flags
  are given.
\<close>

datatype dir_request =
    ReqClone OpenFlags
  | ReqReopen
  | ReqClose
  | ReqDescribe
  | ReqDescribe2
  | ReqGetAttr
  | ReqGetAttributes
  | ReqUpdateAttributes
  | ReqGetFlags
  | ReqSetFlags OpenFlags
  | ReqOpen OpenFlags "32 word" string
  | ReqOpen2
  | ReqAddInotifyFilter
  | ReqAdvisoryLock
  | ReqReadDirents "64 word"
  | ReqEnumerate
  | ReqRewind
  | ReqLink string handle string
  | ReqWatch WatchMask nat bool
  | ReqQueryFilesystem
  | ReqUnlink string "bool option"
  | ReqGetToken
  | ReqRename string handle string
  | ReqSetAttr nat node_attributes
  | ReqSync

datatype dir_reply =
    ReplyStatus status
  | ReplyInfo
  | ReplyAttrs status node_attributes
  | ReplyFlags status OpenFlags
  | ReplyDirents status bytes
  | ReplyToken status "handle option"
  | ReplyObject "server_msg list"

text \<open>
  How a handler ends: \<open>Ok(Alive)\<close>, \<open>Ok(Closed)\<close>, \<open>Err(_)\<close>, or a panic (the \<open>todo!\<close> arms).
\<close>

datatype conn_end = Alive | Closed | Failed | Panicked

type_synonym 'w handled = "dir_conn \<times> 'w \<times> dir_reply list \<times> conn_end"

text \<open>The status a result is reported as; a panic of the callee is a panic of the handler.\<close>

fun status_of :: "unit result \<Rightarrow> status option" where
  "status_of (Inr _) = Some OK"
| "status_of (Inl (Err e)) = Some e"
| "status_of (Inl Panic) = None"

text \<open>\<open>responder.send(..)?\<close>: the reply is sent when the peer is there, otherwise the handler fails.\<close>

definition respond :: "bool \<Rightarrow> dir_reply \<Rightarrow> conn_end \<Rightarrow> dir_conn \<Rightarrow> 'w \<Rightarrow> 'w handled" where
  "respond peer r next c w = (if peer then (c, w, [r], next) else (c, w, [], Failed))"

definition respond_result :: "bool \<Rightarrow> unit result \<Rightarrow> dir_conn \<Rightarrow> 'w \<Rightarrow> 'w handled" where
  "respond_result peer r c w =
     (case status_of r of None \<Rightarrow> (c, w, [], Panicked) | Some s \<Rightarrow> respond peer (ReplyStatus s) Alive c w)"

section \<open>Handlers shared by both kinds of connections\<close>

text \<open>
  Every use of the directory goes through \<open>Deref for OpenDirectory\<close>, which panics once the directory has
  been taken out: at the level of a request, and inside a handler after its other checks.
\<close>

definition with_directory :: "dir_conn \<Rightarrow> 'w \<Rightarrow> 'w handled \<Rightarrow> 'w handled" where
  "with_directory c w h = (if dc_present c then h else (c, w, [], Panicked))"

definition on_directory :: "dir_conn \<Rightarrow> 'w \<Rightarrow> 'a result \<times> 'w \<Rightarrow> 'a result \<times> 'w" where
  "on_directory c w x = (if dc_present c then x else (Inl Panic, w))"

text \<open>
  Cloning and opening either refuse on the new channel or hand it to \<open>open\<close> of the directory with the
  flags, mode and path to open with. \<open>stream_ok\<close> is whether the refused channel turns into a stream.
\<close>

datatype open_action = Refuse "server_msg list result" | OpenWith OpenFlags "32 word" path

definition handle_clone :: "fio \<Rightarrow> bool \<Rightarrow> OpenFlags \<Rightarrow> 32 word \<Rightarrow> dir_conn \<Rightarrow> open_action" where
  "handle_clone K stream_ok flags mode c =
     (case inherit_rights_for_clone K (dc_flags c) flags of
        Inl (Err st) \<Rightarrow> Refuse (send_on_open_with_error stream_ok flags st)
      | Inl Panic \<Rightarrow> Refuse (Inl Panic)
      | Inr flags' \<Rightarrow> OpenWith flags' mode path_dot)"

definition handle_open :: "fio \<Rightarrow> bool \<Rightarrow> OpenFlags \<Rightarrow> 32 word \<Rightarrow> string \<Rightarrow> dir_conn \<Rightarrow> open_action" where
  "handle_open K stream_ok flags mode s c =
     (if intersects (dc_flags c) {NODE_REFERENCE} then Refuse (send_on_open_with_error stream_ok flags BAD_HANDLE)
      else
        case validate_and_split K s of
          Inl (Err st) \<Rightarrow> Refuse (send_on_open_with_error stream_ok flags st)
        | Inl Panic \<Rightarrow> Refuse (Inl Panic)
        | Inr p \<Rightarrow>
            let flags1 = (if path_is_dir p then flags \<union> {DIRECTORY} else flags) in
            (case check_child_connection_flags K (dc_flags c) flags1 mode of
               Inl (Err st) \<Rightarrow> Refuse (send_on_open_with_error stream_ok flags1 st)
             | Inl Panic \<Rightarrow> Refuse (Inl Panic)
             | Inr (flags2, mode2) \<Rightarrow>
                 if path_is_dot p \<and> intersects flags2 {NOT_DIRECTORY}
                 then Refuse (send_on_open_with_error stream_ok flags2 INVALID_ARGS)
                 else if path_is_dot p \<and> intersects flags2 {CREATE_IF_ABSENT}
                 then Refuse (send_on_open_with_error stream_ok flags2 ALREADY_EXISTS)
                 else OpenWith flags2 mode2 p))"

definition do_open :: "'w dir_vt \<Rightarrow> open_action \<Rightarrow> dir_conn \<Rightarrow> 'w \<Rightarrow> 'w handled" where
  "do_open D a c w =
     (case a of
        Refuse (Inr msgs) \<Rightarrow> (c, w, [ReplyObject msgs], Alive)
      | Refuse (Inl _) \<Rightarrow> (c, w, [], Panicked)
      | OpenWith flags mode p \<Rightarrow>
          if dc_present c then (c, vt_open D flags mode p w, [], Alive) else (c, w, [], Panicked))"

definition handle_read_dirents :: "'w dir_vt \<Rightarrow> 64 word \<Rightarrow> dir_conn \<Rightarrow> 'w \<Rightarrow> (status \<times> bytes) result \<times> dir_conn" where
  "handle_read_dirents D max_bytes c w =
     (if intersects (dc_flags c) {NODE_REFERENCE} then (Inr (BAD_HANDLE, []), c)
      else if \<not> dc_present c then (Inl Panic, c)
      else
        case vt_read_dirents D (dc_seek c) (sink_new max_bytes) w of
          Inl (Err st) \<Rightarrow> (Inr (st, []), c)
        | Inl Panic \<Rightarrow> (Inl Panic, c)
        | Inr (pos, done) \<Rightarrow> (Inr (d_status done, d_buf done), c\<lparr> dc_seek := pos \<rparr>))"

definition handle_link :: "'w dir_vt \<Rightarrow> string \<Rightarrow> handle \<Rightarrow> string \<Rightarrow> dir_conn \<Rightarrow> 'w \<Rightarrow> unit result \<times> 'w" where
  "handle_link D source_name token target_name c w =
     (if slash \<in> set source_name \<or> slash \<in> set target_name then (Inl (Err INVALID_ARGS), w)
      else if \<not> vt_token_registry D then (Inl (Err NOT_SUPPORTED), w)
      else if \<not> intersects (dc_flags c) {RIGHT_WRITABLE} then (Inl (Err BAD_HANDLE), w)
      else
        case vt_get_container D token w of
          Inl e \<Rightarrow> (Inl e, w)
        | Inr None \<Rightarrow> (Inl (Err NOT_FOUND), w)
        | Inr (Some target) \<Rightarrow> on_directory c w (vt_link D target target_name source_name w))"

definition handle_watch :: "'w dir_vt \<Rightarrow> WatchMask \<Rightarrow> dir_conn \<Rightarrow> 'w \<Rightarrow> unit result \<times> 'w" where
  "handle_watch D m c w = on_directory c w (vt_register_watcher D m w)"

text \<open>The attributes reported with an error.\<close>

definition unknown_attrs :: "fio \<Rightarrow> node_attributes" where
  "unknown_attrs K =
     \<lparr> na_id = INO_UNKNOWN K, na_mode = 0, na_content_size = 0, na_storage_size = 0, na_link_count = 1,
       na_modification_time = 0, na_creation_time = 0 \<rparr>"

text \<open>\<open>BaseConnection::handle_request\<close>.\<close>

fun base_handle_request ::
  "fio \<Rightarrow> 'w dir_vt \<Rightarrow> bool \<Rightarrow> bool \<Rightarrow> dir_request \<Rightarrow> dir_conn \<Rightarrow> 'w \<Rightarrow> 'w handled" where
  "base_handle_request K D peer stream_ok (ReqClone flags) c w =
     do_open D (handle_clone K stream_ok flags 0 c) c w"
| "base_handle_request K D peer stream_ok ReqReopen c w = (c, w, [], Panicked)"
| "base_handle_request K D peer stream_ok ReqClose c w =
     (let (r, present, w') = open_directory_close D (dc_present c) w;
          c' = c\<lparr> dc_present := present \<rparr> in
      case status_of r of None \<Rightarrow> (c', w', [], Panicked) | Some s \<Rightarrow> respond peer (ReplyStatus s) Closed c' w')"
| "base_handle_request K D peer stream_ok ReqDescribe c w = respond peer ReplyInfo Alive c w"
| "base_handle_request K D peer stream_ok ReqDescribe2 c w = (c, w, [], Panicked)"
| "base_handle_request K D peer stream_ok ReqGetAttr c w =
     with_directory c w
       (case vt_get_attrs D w of
          Inr a \<Rightarrow> respond peer (ReplyAttrs OK a) Alive c w
        | Inl (Err s) \<Rightarrow> respond peer (ReplyAttrs s (unknown_attrs K)) Alive c w
        | Inl Panic \<Rightarrow> (c, w, [], Panicked))"
| "base_handle_request K D peer stream_ok ReqGetAttributes c w = (c, w, [], Panicked)"
| "base_handle_request K D peer stream_ok ReqUpdateAttributes c w =
     respond peer (ReplyStatus NOT_SUPPORTED) Alive c w"
| "base_handle_request K D peer stream_ok ReqGetFlags c w =
     respond peer (ReplyFlags OK (dc_flags c \<inter> GET_FLAGS_VISIBLE)) Alive c w"
| "base_handle_request K D peer stream_ok (ReqSetFlags _) c w =
     respond peer (ReplyStatus NOT_SUPPORTED) Alive c w"
| "base_handle_request K D peer stream_ok (ReqOpen flags mode path) c w =
     do_open D (handle_open K stream_ok flags mode path c) c w"
| "base_handle_request K D peer stream_ok ReqOpen2 c w = (c, w, [], Panicked)"
| "base_handle_request K D peer stream_ok ReqAddInotifyFilter c w = (c, w, [], Panicked)"
| "base_handle_request K D peer stream_ok ReqAdvisoryLock c w =
     respond peer (ReplyStatus NOT_SUPPORTED) Alive c w"
| "base_handle_request K D peer stream_ok (ReqReadDirents max_bytes) c w =
     (case handle_read_dirents D max_bytes c w of
        (Inl _, c') \<Rightarrow> (c', w, [], Panicked)
      | (Inr (st, b), c') \<Rightarrow> respond peer (ReplyDirents st b) Alive c' w)"
| "base_handle_request K D peer stream_ok ReqEnumerate c w = (c, w, [], Panicked)"
| "base_handle_request K D peer stream_ok ReqRewind c w =
     respond peer (ReplyStatus OK) Alive (c\<lparr> dc_seek := traversal_default \<rparr>) w"
| "base_handle_request K D peer stream_ok (ReqLink src token dst) c w =
     (let (r, w') = handle_link D src token dst c w in respond_result peer r c w')"
| "base_handle_request K D peer stream_ok (ReqWatch m options convertible) c w =
     (if options \<noteq> 0 then respond peer (ReplyStatus INVALID_ARGS) Alive c w
      else if \<not> convertible then (c, w, [], Failed)
      else (let (r, w') = handle_watch D m c w in respond_result peer r c w'))"
| "base_handle_request K D peer stream_ok ReqQueryFilesystem c w =
     with_directory c w (respond_result peer (vt_query_filesystem D w) c w)"
| "base_handle_request K D peer stream_ok (ReqUnlink _ _) c w =
     respond peer (ReplyStatus NOT_SUPPORTED) Alive c w"
| "base_handle_request K D peer stream_ok ReqGetToken c w =
     respond peer (ReplyToken NOT_SUPPORTED None) Alive c w"
| "base_handle_request K D peer stream_ok (ReqRename _ _ _) c w =
     respond peer (ReplyStatus NOT_SUPPORTED) Alive c w"
| "base_handle_request K D peer stream_ok (ReqSetAttr _ _) c w =
     respond peer (ReplyStatus NOT_SUPPORTED) Alive c w"
| "base_handle_request K D peer stream_ok ReqSync c w =
     respond peer (ReplyStatus NOT_SUPPORTED) Alive c w"

text \<open>\<open>ImmutableConnection::handle_request\<close> delegates to the base connection.\<close>

definition immutable_handle_request ::
  "fio \<Rightarrow> 'w dir_vt \<Rightarrow> bool \<Rightarrow> bool \<Rightarrow> dir_request \<Rightarrow> dir_conn \<Rightarrow> 'w \<Rightarrow> 'w handled" where
  "immutable_handle_request K D peer stream_ok req c w = base_handle_request K D peer stream_ok req c w"

section \<open>Mutable connections\<close>

definition handle_setattr :: "'w dir_vt \<Rightarrow> nat \<Rightarrow> node_attributes \<Rightarrow> dir_conn \<Rightarrow> 'w \<Rightarrow> unit result \<times> 'w" where
  "handle_setattr D flags attrs c w =
     (if \<not> intersects (dc_flags c) {RIGHT_WRITABLE} then (Inl (Err BAD_HANDLE), w)
      else on_directory c w (vt_set_attrs D flags attrs w))"

definition handle_unlink :: "'w dir_vt \<Rightarrow> string \<Rightarrow> bool option \<Rightarrow> dir_conn \<Rightarrow> 'w \<Rightarrow> unit result \<times> 'w" where
  "handle_unlink D name options c w =
     (if \<not> intersects (dc_flags c) {RIGHT_WRITABLE} then (Inl (Err BAD_HANDLE), w)
      else if name = [] \<or> slash \<in> set name \<or> name = ''.'' \<or> name = ''..'' then (Inl (Err INVALID_ARGS), w)
      else on_directory c w (vt_unlink D name (case options of Some b \<Rightarrow> b | None \<Rightarrow> False) w))"

definition handle_get_token :: "'w dir_vt \<Rightarrow> dir_conn \<Rightarrow> 'w \<Rightarrow> handle result \<times> 'w" where
  "handle_get_token D c w =
     (if \<not> intersects (dc_flags c) {RIGHT_WRITABLE} then (Inl (Err BAD_HANDLE), w)
      else if \<not> vt_token_registry D then (Inl (Err NOT_SUPPORTED), w)
      else on_directory c w (vt_get_token D w))"

definition handle_rename ::
  "fio \<Rightarrow> 'w dir_vt \<Rightarrow> string \<Rightarrow> handle \<Rightarrow> string \<Rightarrow> dir_conn \<Rightarrow> 'w \<Rightarrow> unit result \<times> 'w" where
  "handle_rename K D src token dst c w =
     (if \<not> intersects (dc_flags c) {RIGHT_WRITABLE} then (Inl (Err BAD_HANDLE), w)
      else
        case bind_res (validate_and_split K src) (\<lambda>s. bind_res (validate_and_split K dst) (\<lambda>d.
               bind_res (is_single_component s) (\<lambda>one. if \<not> one then Inl (Err INVALID_ARGS) else
               bind_res (is_single_component d) (\<lambda>two. if \<not> two then Inl (Err INVALID_ARGS)
                 else Inr (s, d))))) of
          Inl e \<Rightarrow> (Inl e, w)
        | Inr (s, d) \<Rightarrow>
            if \<not> vt_token_registry D then (Inl (Err NOT_SUPPORTED), w)
            else
              case vt_get_container D token w of
                Inl e \<Rightarrow> (Inl e, w)
              | Inr None \<Rightarrow> (Inl (Err NOT_FOUND), w)
              | Inr (Some parent) \<Rightarrow> on_directory c w (vt_rename D s parent d w))"

text \<open>
  \<open>MutableConnection::handle_request\<close> of the \<open>impl MutableConnection\<close> block: \<open>None\<close> hands the request
  back (\<open>Right(request)\<close>), and the trait method then passes it to the base connection.
\<close>

fun mutable_own_request ::
  "fio \<Rightarrow> 'w dir_vt \<Rightarrow> bool \<Rightarrow> dir_request \<Rightarrow> dir_conn \<Rightarrow> 'w \<Rightarrow> 'w handled option" where
  "mutable_own_request K D peer (ReqUnlink name options) c w =
     Some (let (r, w') = handle_unlink D name options c w in respond_result peer r c w')"
| "mutable_own_request K D peer ReqGetToken c w =
     Some (case handle_get_token D c w of
        (Inr token, w') \<Rightarrow> respond peer (ReplyToken OK (Some token)) Alive c w'
      | (Inl (Err s), w') \<Rightarrow> respond peer (ReplyToken s None) Alive c w'
      | (Inl Panic, w') \<Rightarrow> (c, w', [], Panicked))"
| "mutable_own_request K D peer (ReqRename src token dst) c w =
     Some (let (r, w') = handle_rename K D src token dst c w in respond_result peer r c w')"
| "mutable_own_request K D peer (ReqSetAttr flags attrs) c w =
     Some (let (r, w') = handle_setattr D flags attrs c w in respond_result peer r c w')"
| "mutable_own_request K D peer ReqSync c w =
     Some (let (r, w') = on_directory c w (vt_sync D w) in respond_result peer r c w')"
| "mutable_own_request K D peer (ReqSetFlags _) c w = Some (c, w, [], Panicked)"
| "mutable_own_request K D peer ReqUpdateAttributes c w = Some (c, w, [], Panicked)"
| "mutable_own_request K D peer _ c w = None"

definition mutable_handle_request ::
  "fio \<Rightarrow> 'w dir_vt \<Rightarrow> bool \<Rightarrow> bool \<Rightarrow> dir_request \<Rightarrow> dir_conn \<Rightarrow> 'w \<Rightarrow> 'w handled" where
  "mutable_handle_request K D peer stream_ok req c w =
     (case mutable_own_request K D peer req c w of
        Some h \<Rightarrow> h
      | None \<Rightarrow> base_handle_request K D peer stream_ok req c w)"

section \<open>The life of a connection\<close>

text \<open>
  \<open>handle_requests\<close>: the loop over the request stream until the stream ends, a message is malformed,
  the scope shuts down, or a handler ends the connection; then the connection is dropped, and with it
  the open directory. A panic unwinds through the same drop. The end of the list is the end of the
  stream; a request comes with whether its peer is still there and whether a refused channel turns
  into a stream.
\<close>

datatype conn_event = EvRequest dir_request bool bool | EvMalformed | EvShutdown

fun run_requests ::
  "(bool \<Rightarrow> bool \<Rightarrow> dir_request \<Rightarrow> dir_conn \<Rightarrow> 'w \<Rightarrow> 'w handled) \<Rightarrow> conn_event list \<Rightarrow> dir_conn \<Rightarrow> 'w \<Rightarrow>
   dir_conn \<times> 'w \<times> dir_reply list" where
  "run_requests h [] c w = (c, w, [])"
| "run_requests h (EvRequest req peer stream_ok # evs) c w =
     (case h peer stream_ok req c w of
        (c', w', rs, Alive) \<Rightarrow> (let (c'', w'', rs') = run_requests h evs c' w' in (c'', w'', rs @ rs'))
      | (c', w', rs, _) \<Rightarrow> (c', w', rs))"
| "run_requests h (EvMalformed # evs) c w = (c, w, [])"
| "run_requests h (EvShutdown # evs) c w = (c, w, [])"

definition handle_requests ::
  "'w dir_vt \<Rightarrow> (bool \<Rightarrow> bool \<Rightarrow> dir_request \<Rightarrow> dir_conn \<Rightarrow> 'w \<Rightarrow> 'w handled) \<Rightarrow> conn_event list \<Rightarrow> dir_conn \<Rightarrow>
   'w \<Rightarrow> 'w \<times> dir_reply list" where
  "handle_requests D h evs c w =
     (let (c', w', rs) = run_requests h evs c w in (open_directory_drop D (dc_present c') w', rs))"

text \<open>
  Creating a connection: the directory is wrapped first, so every early return closes it. The
  outcomes decided elsewhere are whether the channel turns into a stream, whether \<open>OnOpen\<close> can be sent
  and whether the scope accepts the task (which runs it on the events).
\<close>

definition prepare_connection ::
  "fio \<Rightarrow> bool \<Rightarrow> bool \<Rightarrow> OpenFlags \<Rightarrow> server_msg list result \<times> dir_conn option" where
  "prepare_connection K stream_ok send_ok flags =
     (case dir_validate_flags K flags of
        Inl (Err st) \<Rightarrow> (send_on_open_with_error stream_ok flags st, None)
      | Inl Panic \<Rightarrow> (Inl Panic, None)
      | Inr flags' \<Rightarrow>
          if \<not> stream_ok then (Inr [], None)
          else if intersects flags' {DESCRIBE} then
            (if send_ok then (Inr [OnOpen OK (Some 0)], Some (base_connection_new flags')) else (Inr [], None))
          else (Inr [], Some (base_connection_new flags')))"

definition create_connection ::
  "fio \<Rightarrow> 'w dir_vt \<Rightarrow> (bool \<Rightarrow> bool \<Rightarrow> dir_request \<Rightarrow> dir_conn \<Rightarrow> 'w \<Rightarrow> 'w handled) \<Rightarrow> bool \<Rightarrow> bool \<Rightarrow> bool \<Rightarrow>
   OpenFlags \<Rightarrow> conn_event list \<Rightarrow> 'w \<Rightarrow> server_msg list result \<times> 'w \<times> dir_reply list" where
  "create_connection K D h stream_ok send_ok spawned flags evs w =
     (case prepare_connection K stream_ok send_ok flags of
        (msgs, None) \<Rightarrow> (msgs, open_directory_drop D True w, [])
      | (msgs, Some c) \<Rightarrow>
          if spawned then (let (w', rs) = handle_requests D h evs c w in (msgs, w', rs))
          else (msgs, open_directory_drop D (dc_present c) w, []))"

section \<open>Closing exactly once\<close>

text \<open>
  What the connection relies on to be able to count: \<open>close\<close> of the directory is the only method that
  closes it. \<open>closes\<close> observes how often it has been closed.
\<close>

locale closable_directory =
  fixes D :: "'w dir_vt" and closes :: "'w \<Rightarrow> nat"
  assumes close_counts: "closes (snd (vt_close D w)) = Suc (closes w)"
    and open_keeps: "closes (vt_open D f m p w) = closes w"
    and watch_keeps: "closes (snd (vt_register_watcher D mk w)) = closes w"
    and link_keeps: "closes (snd (vt_link D t a b w)) = closes w"
    and unlink_keeps: "closes (snd (vt_unlink D n must w)) = closes w"
    and set_attrs_keeps: "closes (snd (vt_set_attrs D k at w)) = closes w"
    and sync_keeps: "closes (snd (vt_sync D w)) = closes w"
    and rename_keeps: "closes (snd (vt_rename D sp t dp w)) = closes w"
    and token_keeps: "closes (snd (vt_get_token D w)) = closes w"
begin

text \<open>The number of closes still owed by a connection.\<close>

definition owed :: "dir_conn \<Rightarrow> nat" where
  "owed c = (if dc_present c then 1 else 0)"

lemma respond_keeps: "respond peer r nx c w = (c', w', rs, e) \<Longrightarrow> c' = c \<and> w' = w"
  by (auto simp: respond_def split: if_splits)

lemma respond_result_keeps: "respond_result peer r c w = (c', w', rs, e) \<Longrightarrow> c' = c \<and> w' = w"
  by (auto simp: respond_result_def respond_def split: if_splits option.splits)

lemma do_open_keeps: "do_open D a c w = (c', w', rs, e) \<Longrightarrow> c' = c \<and> closes w' = closes w"
  by (auto simp: do_open_def open_keeps split: open_action.splits sum.splits if_splits)

lemma on_directory_keeps:
  "on_directory c w x = (r, w') \<Longrightarrow> closes (snd x) = closes w \<Longrightarrow> closes w' = closes w"
  by (auto simp: on_directory_def split: if_splits)

lemma handle_link_keeps: "handle_link D a t b c w = (r, w') \<Longrightarrow> closes w' = closes w"
  by (auto simp: handle_link_def link_keeps dest: on_directory_keeps split: if_splits sum.splits option.splits)

lemma handle_watch_keeps: "handle_watch D m c w = (r, w') \<Longrightarrow> closes w' = closes w"
  by (auto simp: handle_watch_def watch_keeps dest: on_directory_keeps)

lemma handle_unlink_keeps: "handle_unlink D n opt c w = (r, w') \<Longrightarrow> closes w' = closes w"
  by (auto simp: handle_unlink_def unlink_keeps dest: on_directory_keeps split: if_splits)

lemma handle_get_token_keeps: "handle_get_token D c w = (r, w') \<Longrightarrow> closes w' = closes w"
  by (auto simp: handle_get_token_def token_keeps dest: on_directory_keeps split: if_splits)

lemma handle_setattr_keeps: "handle_setattr D f a c w = (r, w') \<Longrightarrow> closes w' = closes w"
  by (auto simp: handle_setattr_def set_attrs_keeps dest: on_directory_keeps split: if_splits)

lemma handle_rename_keeps: "handle_rename K D a t b c w = (r, w') \<Longrightarrow> closes w' = closes w"
  by (auto simp: handle_rename_def rename_keeps dest: on_directory_keeps
      split: if_splits sum.splits prod.splits option.splits)

lemmas handler_keeps =
  handle_link_keeps handle_watch_keeps handle_unlink_keeps handle_get_token_keeps handle_setattr_keeps
  handle_rename_keeps

lemma base_keeps:
  assumes "base_handle_request K D peer st req c w = (c', w', rs, e)"
  shows "closes w' + owed c' = closes w + owed c"
proof (cases req)
  case ReqClose
  then show ?thesis
    using assms close_counts [of w]
    by (auto simp: open_directory_close_def owed_def respond_def Let_def split: prod.splits if_splits option.splits)
next
  case (ReqReadDirents n)
  with assms show ?thesis
    by (auto simp: owed_def handle_read_dirents_def
        dest!: respond_keeps split: if_splits prod.splits sum.splits fail.splits)
qed (use assms in \<open>auto simp: with_directory_def owed_def
      dest!: respond_keeps respond_result_keeps do_open_keeps handler_keeps
      split: if_splits sum.splits fail.splits prod.splits\<close>)

lemma own_keeps:
  assumes "mutable_own_request K D peer req c w = Some (c', w', rs, e)"
  shows "closes w' + owed c' = closes w + owed c"
proof (cases req)
  case ReqSync
  with assms on_directory_keeps [of c w "vt_sync D w"] sync_keeps [of w] show ?thesis
    by (auto dest!: respond_result_keeps split: prod.splits)
qed (use assms in \<open>auto dest!: respond_keeps respond_result_keeps handler_keeps
      split: prod.splits sum.splits fail.splits\<close>)

lemma mutable_keeps:
  "mutable_handle_request K D peer st req c w = (c', w', rs, e) \<Longrightarrow> closes w' + owed c' = closes w + owed c"
  by (auto simp: mutable_handle_request_def dest: own_keeps base_keeps split: option.splits)

lemma run_keeps:
  assumes h: "\<And>peer st req c w c' w' rs e. h peer st req c w = (c', w', rs, e) \<Longrightarrow>
      closes w' + owed c' = closes w + owed c"
    and "run_requests h evs c w = (c', w', rs)"
  shows "closes w' + owed c' = closes w + owed c"
  using assms(2)
proof (induction evs arbitrary: c w rs)
  case Nil
  then show ?case by simp
next
  case (Cons ev evs)
  show ?case
  proof (cases ev)
    case (EvRequest req peer st)
    obtain c1 w1 rs1 e where one: "h peer st req c w = (c1, w1, rs1, e)" by (metis prod_cases4)
    from h [OF one] Cons EvRequest one show ?thesis
      by (cases e) (auto split: prod.splits)
  qed (use Cons.prems in auto)
qed

lemma create_closes_once:
  assumes h: "\<And>peer st req c w c' w' rs e. h peer st req c w = (c', w', rs, e) \<Longrightarrow>
      closes w' + owed c' = closes w + owed c"
    and "create_connection K D h stream_ok send_ok spawned flags evs w = (msgs, w', rs)"
  shows "closes w' = Suc (closes w)"
proof -
  have drop: "closes (open_directory_drop D (dc_present c) v) = closes v + owed c" for c v
    by (simp add: open_directory_drop_def owed_def close_counts)
  have "closes (open_directory_drop D True w) = Suc (closes w)"
    by (simp add: open_directory_drop_def close_counts)
  moreover have "owed c = 1" if "prepare_connection K stream_ok send_ok flags = (msgs, Some c)" for c
    using that by (auto simp: prepare_connection_def base_connection_new_def owed_def
        split: sum.splits fail.splits if_splits)
  moreover have "closes v' = closes v + owed c" if "handle_requests D h evs c v = (v', rs')" for c v v' rs'
    using that run_keeps [of h evs c v] h by (auto simp: handle_requests_def drop split: prod.splits)
  ultimately show ?thesis
    using assms(2) drop by (auto simp: create_connection_def split: prod.splits option.splits if_splits)
qed

end

section \<open>Rights\<close>

text \<open>The requests that ask for a change of the directory or of its attributes.\<close>

fun mutating :: "dir_request \<Rightarrow> bool" where
  "mutating (ReqLink _ _ _) = True"
| "mutating (ReqUnlink _ _) = True"
| "mutating (ReqRename _ _ _) = True"
| "mutating (ReqSetAttr _ _) = True"
| "mutating ReqGetToken = True"
| "mutating _ = False"

fun refusal :: "dir_reply \<Rightarrow> bool" where
  "refusal (ReplyStatus s) = (s \<noteq> OK)"
| "refusal (ReplyToken s h) = (s \<noteq> OK \<and> h = None)"
| "refusal _ = False"

definition refused :: "bool \<Rightarrow> dir_conn \<Rightarrow> 'w \<Rightarrow> 'w handled \<Rightarrow> bool" where
  "refused peer c w h \<longleftrightarrow> (if peer then \<exists>r. refusal r \<and> h = (c, w, [r], Alive) else h = (c, w, [], Failed))"

lemma refused_respond: "refusal r \<Longrightarrow> refused peer c w (respond peer r Alive c w)"
  by (simp add: refused_def respond_def)

lemma refused_result: "s \<noteq> OK \<Longrightarrow> refused peer c w (respond_result peer (Inl (Err s)) c w)"
  by (simp add: respond_result_def refused_respond)

lemma base_refuses:
  assumes "mutating req" and "RIGHT_WRITABLE \<notin> dc_flags c"
  shows "refused peer c w (base_handle_request K D peer st req c w)"
  using assms by (cases req) (auto simp: handle_link_def intro!: refused_result refused_respond)

lemma immutable_refuses:
  assumes "mutating req" and "\<forall>a t b. req \<noteq> ReqLink a t b"
  shows "refused peer c w (base_handle_request K D peer st req c w)"
  using assms by (cases req) (auto intro!: refused_respond)

lemma mutable_refuses:
  assumes "mutating req" and "RIGHT_WRITABLE \<notin> dc_flags c"
  shows "refused peer c w (mutable_handle_request K D peer st req c w)"
  using assms
  by (cases req) (auto simp: mutable_handle_request_def handle_unlink_def handle_get_token_def handle_rename_def
      handle_setattr_def handle_link_def intro!: refused_result refused_respond)

text \<open>
  The connections that come out of a connection by cloning it, opening directories through it and
  doing the same with those. The flags reach the new connection as \<open>open\<close> of the directory gets them:
  every directory on the way forwards them unchanged.
\<close>

inductive derived :: "fio \<Rightarrow> dir_conn \<Rightarrow> dir_conn \<Rightarrow> bool" for K c where
  self: "derived K c c"
| clone: "derived K c c1 \<Longrightarrow> handle_clone K st flags mode c1 = OpenWith f m p \<Longrightarrow>
    prepare_connection K s1 s2 f = (msgs, Some c2) \<Longrightarrow> derived K c c2"
| opened: "derived K c c1 \<Longrightarrow> handle_open K st flags mode s c1 = OpenWith f m p \<Longrightarrow>
    prepare_connection K s1 s2 f = (msgs, Some c2) \<Longrightarrow> derived K c c2"

lemma prepare_flags:
  assumes "prepare_connection K s1 s2 f = (msgs, Some c)"
  shows "dir_validate_flags K f = Inr (dc_flags c)"
  using assms
  by (auto simp: prepare_connection_def base_connection_new_def split: sum.splits fail.splits if_splits)

lemma clone_flags:
  assumes "fio_rights K" and "handle_clone K st flags mode c = OpenWith f m p"
  shows "f \<inter> all_rights \<subseteq> dc_flags c" and "f \<inter> posix_flags = {}"
    and "NODE_REFERENCE \<in> dc_flags c \<Longrightarrow> NODE_REFERENCE \<in> f"
  using assms
  by (auto simp: handle_clone_def inherit_rights_for_clone_def FS_RIGHTS_eq Let_def
      split: sum.splits fail.splits if_splits)

lemma open_flags:
  assumes "handle_open K st flags mode s c = OpenWith f m p"
  shows "NODE_REFERENCE \<notin> dc_flags c" and "validate_and_split K s = Inr p"
    and "check_child_connection_flags K (dc_flags c) (if path_is_dir p then flags \<union> {DIRECTORY} else flags) mode =
      Inr (f, m)"
    and "path_is_dot p \<Longrightarrow> NOT_DIRECTORY \<notin> f \<and> CREATE_IF_ABSENT \<notin> f"
  using assms
  by (auto simp: handle_open_def Let_def split: if_splits sum.splits fail.splits)

lemma clone_step:
  assumes "fio_rights K" and "fio_node_reference K" and "handle_clone K st flags mode c = OpenWith f m p"
    and "prepare_connection K s1 s2 f = (msgs, Some c2)"
  shows "dc_flags c2 \<inter> all_rights \<subseteq> dc_flags c" and "NODE_REFERENCE \<in> dc_flags c \<Longrightarrow> NODE_REFERENCE \<in> dc_flags c2"
  using clone_flags [OF assms(1,3)] dir_validate_rights [OF assms(2) prepare_flags [OF assms(4)]]
  by (auto split: if_splits)

lemma open_step:
  assumes "fio_rights K" and "fio_node_reference K" and "handle_open K st flags mode s c = OpenWith f m p"
    and "prepare_connection K s1 s2 f = (msgs, Some c2)"
  shows "dc_flags c2 \<inter> all_rights \<subseteq> dc_flags c"
  using check_child_ok(1-5) [OF assms(1) open_flags(3) [OF assms(3)]]
    dir_validate_rights [OF assms(2) prepare_flags [OF assms(4)]]
  by (auto split: if_splits)

section \<open>Properties\<close>

text \<open>C2. Rights never grow along a chain of connections. However a client clones a directory connection,
  opens directories through it and repeats this on the connections it gets, with any flags, modes and
  paths (POSIX right expansion and \<open>CLONE_SAME_RIGHTS\<close> included), each resulting connection has only
  rights the first one has; and a node reference only leads to node references.\<close>

theorem derived_rights:
  assumes "fio_rights K" and "fio_node_reference K" and "derived K c c'"
  shows "dc_flags c' \<inter> all_rights \<subseteq> dc_flags c \<and> (NODE_REFERENCE \<in> dc_flags c \<longrightarrow> NODE_REFERENCE \<in> dc_flags c')"
  using assms(3)
proof induction
  case self
  then show ?case by auto
next
  case (clone c1 st flags mode f m p s1 s2 msgs c2)
  with clone_step [OF assms(1,2) clone.hyps(2,3)] show ?case by blast
next
  case (opened c1 st flags mode s f m p s1 s2 msgs c2)
  with open_step [OF assms(1,2) opened.hyps(2,3)] open_flags(1) [OF opened.hyps(2)] show ?case by blast
qed

theorem derived_rights_witness:
  "dc_flags (base_connection_new {RIGHT_READABLE}) \<inter> all_rights \<subseteq> {RIGHT_READABLE} \<and>
   derived fio_values (base_connection_new {RIGHT_READABLE}) (base_connection_new {RIGHT_READABLE})"
proof -
  let ?c = "base_connection_new {RIGHT_READABLE}"
  have "handle_clone fio_values True {CLONE_SAME_RIGHTS} 0 ?c = OpenWith {RIGHT_READABLE} 0 path_dot"
    by (simp add: handle_clone_def inherit_rights_for_clone_def FS_RIGHTS_def base_connection_new_def intersects_def)
  moreover have "prepare_connection fio_values True True {RIGHT_READABLE} = (Inr [], Some ?c)"
    by (simp add: prepare_connection_def dir_validate_flags_def intersects_def)
  ultimately have d: "derived fio_values ?c ?c" using derived.clone [OF derived.self] by blast
  with derived_rights [of fio_values ?c ?c] show ?thesis by (simp add: base_connection_new_def)
qed

end
