(* ===== verification/Simple_Conn.thy ===== *)
theory Simple_Conn
  imports Simple_Dir Dir_Connection
begin

text \<open>
  Connections to simple directories: the methods of \<open>Simple\<close> as the directory behind a connection, over
  a state that holds all directories at their addresses, the token registry of the execution scope and
  what was opened. The contract of \<open>Dir_Connection\<close> is interpreted on it, and connections, token
  registry, directories and filesystem are put together.
\<close>

section \<open>The state and the methods\<close>

text \<open>
  \<open>env\<close> collects what is fixed while the connections run: the FIDL constants, debug assertions, what
  the entries report about themselves, the vacant-key choice of \<open>slab\<close>, the entry constructor of the
  connection type, the kernel's handle operations and events, and whether the scope has a registry.
  \<open>closed_log\<close> records the directories whose \<open>close\<close> was called.
\<close>

record 'e env =
  e_fio :: fio
  e_dbg :: bool
  e_info :: "'e \<Rightarrow> EntryInfo"
  e_vacant :: "nat set \<Rightarrow> nat"
  e_not_found :: "OpenFlags \<Rightarrow> 32 word \<Rightarrow> string \<Rightarrow> path \<Rightarrow> 'e result"
  e_handles :: handle_ops
  e_event :: "nat \<Rightarrow> handle result"
  e_registry :: bool

record 'e vfs_state =
  dirs :: "'e dir_store"
  tokens :: token_registry
  events_created :: nat
  opened :: "'e open_outcome result list"
  closed_log :: "nat list"

definition simple_close :: "nat \<Rightarrow> 'e vfs_state \<Rightarrow> unit result \<times> 'e vfs_state" where
  "simple_close self w = (Inr (), w\<lparr> closed_log := closed_log w @ [self] \<rparr>)"

definition query_filesystem :: "unit result" where
  "query_filesystem = Inl (Err NOT_SUPPORTED)"

definition dir_link :: "'w \<Rightarrow> unit result \<times> 'w" where
  "dir_link w = (Inl (Err NOT_SUPPORTED), w)"

definition dir_set_attrs :: "'w \<Rightarrow> unit result \<times> 'w" where
  "dir_set_attrs w = (Inl (Err NOT_SUPPORTED), w)"

definition dir_sync :: "'w \<Rightarrow> unit result \<times> 'w" where
  "dir_sync w = (Inl (Err NOT_SUPPORTED), w)"

text \<open>Running an operation of the directory at an address; a connection keeps its directory alive.\<close>

definition at_dir :: "nat \<Rightarrow> 'e vfs_state \<Rightarrow> 'a \<Rightarrow> ('e simple_dir \<Rightarrow> 'a) \<Rightarrow> 'a" where
  "at_dir self w dead f = (case dirs w self of None \<Rightarrow> dead | Some d \<Rightarrow> f d)"

definition put_dir :: "nat \<Rightarrow> 'e simple_dir \<Rightarrow> 'e vfs_state \<Rightarrow> 'e vfs_state" where
  "put_dir self d w = w\<lparr> dirs := (dirs w)(self \<mapsto> d) \<rparr>"

definition simple_vt :: "'e env \<Rightarrow> nat \<Rightarrow> 'e vfs_state dir_vt" where
  "simple_vt E self =
     \<lparr> vt_open = (\<lambda>flags mode p w. at_dir self w w (\<lambda>d.
         let (r, d') = simple_open (e_not_found E) True flags mode p d in
         put_dir self d' (w\<lparr> opened := opened w @ [r] \<rparr>))),
       vt_close = simple_close self,
       vt_get_attrs = (\<lambda>w. at_dir self w (Inl Panic) (simple_get_attrs (e_fio E))),
       vt_read_dirents = (\<lambda>pos sink w. at_dir self w (Inl Panic) (\<lambda>d.
         simple_read_dirents (e_info E) (read_dirents_vt (e_fio E)) d pos sink)),
       vt_register_watcher = (\<lambda>msk w. at_dir self w (Inl Panic, w) (\<lambda>d.
         case simple_register_watcher (e_fio E) (e_dbg E) (e_vacant E) msk d of
           Inl e \<Rightarrow> (Inl e, w)
         | Inr d' \<Rightarrow> (Inr (), put_dir self d' w))),
       vt_query_filesystem = (\<lambda>w. query_filesystem),
       vt_link = (\<lambda>target target_name source_name w. dir_link w),
       vt_unlink = (\<lambda>name must_be_directory w. at_dir self w (Inl Panic, w) (\<lambda>d.
         let (r, d') = dir_unlink (e_fio E) (e_dbg E) (e_info E) name must_be_directory d in (r, put_dir self d' w))),
       vt_set_attrs = (\<lambda>flags attrs w. dir_set_attrs w),
       vt_sync = dir_sync,
       vt_rename = (\<lambda>src parent dst w.
         let (r, st) = fs_rename (e_fio E) (e_dbg E) (e_info E) self src parent dst (dirs w) in (r, w\<lparr> dirs := st \<rparr>)),
       vt_token_registry = e_registry E,
       vt_get_token = (\<lambda>w.
         let (r, t) = get_token (e_fio E) (e_dbg E) (e_handles E) (e_event E (events_created w)) self (tokens w) in
         (r, w\<lparr> tokens := t, events_created := Suc (events_created w) \<rparr>)),
       vt_get_container = (\<lambda>tok w.
         get_container (e_dbg E) (e_handles E) (\<lambda>i. dirs w i \<noteq> None) tok (tokens w)) \<rparr>"

definition close_count :: "'e vfs_state \<Rightarrow> nat" where
  "close_count w = length (closed_log w)"

interpretation sconn: closable_directory "simple_vt E self" close_count for E self
  by unfold_locales
    (simp_all add: simple_vt_def simple_close_def close_count_def at_dir_def put_dir_def dir_link_def
      dir_set_attrs_def dir_sync_def Let_def split: option.split prod.split sum.split)

text \<open>A name that is one component passes the path checks of a rename as it is.\<close>

definition plain_name :: "fio \<Rightarrow> string \<Rightarrow> bool" where
  "plain_name K n \<longleftrightarrow> valid_component K n \<and> length n < MAX_NAME_LENGTH \<and> length n \<le> max_path K"

lemma plain_name_path:
  assumes "plain_name K n"
  shows "\<exists>p. validate_and_split K n = Inr p \<and> is_single_component p = Inr True \<and> into_string p = Inr n"
proof -
  let ?p = "\<lparr>p_is_dir = False, p_inner = n, p_next = 0\<rparr>"
  have n: "valid_component K n" "length n \<le> max_path K" using assms by (simp_all add: plain_name_def)
  have "validate_and_split K n = Inr ?p"
    using validate_canonical [of "[]" "[]" "[n]" K n] n by simp
  moreover have "is_single_component ?p = Inr True" "into_string ?p = Inr n"
    using n by (auto simp: is_single_component_def into_string_def valid_component_def)
  ultimately show ?thesis by blast
qed

lemma handle_rename_plain:
  assumes "plain_name K a" and "plain_name K b" and "RIGHT_WRITABLE \<in> dc_flags c" and "dc_present c"
    and "vt_token_registry D" and "vt_get_container D tok w = Inr (Some parent)"
  shows "\<exists>pa pb. handle_rename K D a tok b c w = vt_rename D pa parent pb w \<and>
           into_string pa = Inr a \<and> into_string pb = Inr b"
proof -
  obtain pa pb where "validate_and_split K a = Inr pa" "is_single_component pa = Inr True" "into_string pa = Inr a"
    "validate_and_split K b = Inr pb" "is_single_component pb = Inr True" "into_string pb = Inr b"
    using plain_name_path assms(1,2) by blast
  then show ?thesis using assms by (auto simp: handle_rename_def on_directory_def)
qed

section \<open>Properties\<close>

text \<open>C18. The directory behind a connection is closed exactly once. Whatever the flags, whether the
  connection is refused, cannot be set up or cannot be spawned, and whatever requests follow (a \<open>Close\<close>,
  a malformed message, a vanished peer, a panic in a handler, the shutdown of the scope, the end of the
  stream), the directory has been closed once more when the connection is gone, for immutable and for
  mutable connections.\<close>

theorem connection_closes_once:
  assumes "h = immutable_handle_request K (simple_vt E self) \<or> h = mutable_handle_request K (simple_vt E self)"
    and "create_connection K (simple_vt E self) h stream_ok send_ok spawned flags evs w = (msgs, w', rs)"
  shows "close_count w' = Suc (close_count w)"
proof (rule sconn.create_closes_once [OF _ assms(2)])
  show "close_count w' + sconn.owed c' = close_count w + sconn.owed c"
    if "h peer st req c w = (c', w', rs, e)" for peer st req c w c' w' rs e
    using assms(1) that by (auto simp: immutable_handle_request_def dest: sconn.base_keeps sconn.mutable_keeps)
qed

definition example_env :: "nat env" where
  "example_env = \<lparr> e_fio = fio_values, e_dbg = True, e_info = (\<lambda>_. EntryInfo 0 DtFile),
     e_vacant = (\<lambda>keys. Suc (Max (insert 0 keys))), e_not_found = (\<lambda>flags mode name path. Inl (Err NOT_FOUND)),
     e_handles = kernel_values, e_event = (\<lambda>n. Inr \<lparr> h_koid = n, h_rights = UNIV \<rparr>), e_registry = True \<rparr>"

definition example_state :: "nat vfs_state" where
  "example_state =
     \<lparr> dirs = [5 \<mapsto> (mutable_simple fio_values)\<lparr>sd_entries := [(''x'', 7)]\<rparr>, 2 \<mapsto> mutable_simple fio_values],
       tokens = token_registry_new, events_created = 0, opened = [], closed_log = [] \<rparr>"

theorem connection_closes_once_witness:
  "\<exists>msgs w rs. create_connection fio_values (simple_vt example_env 5)
       (mutable_handle_request fio_values (simple_vt example_env 5)) True True True {RIGHT_READABLE}
       [EvRequest ReqGetFlags True True, EvRequest ReqClose True True, EvShutdown] example_state =
     (msgs, w, rs) \<and> close_count w = 1"
proof -
  obtain msgs w rs where r: "create_connection fio_values (simple_vt example_env 5)
       (mutable_handle_request fio_values (simple_vt example_env 5)) True True True {RIGHT_READABLE}
       [EvRequest ReqGetFlags True True, EvRequest ReqClose True True, EvShutdown] example_state = (msgs, w, rs)"
    by (metis prod_cases3)
  have "close_count example_state = 0" by (simp add: example_state_def close_count_def)
  with connection_closes_once [OF disjI2 [OF refl] r] r show ?thesis by auto
qed

text \<open>C10. Without the right to write nothing is modified through a connection. On a connection without
  \<open>RIGHT_WRITABLE\<close>, mutable or immutable, every request to link, unlink, rename, set attributes or obtain
  a token leaves the connection and the state unchanged and is answered by an error (or the connection
  fails because the peer is gone); an immutable connection answers all of them but \<open>Link\<close> so even with
  the right. This holds for any directory behind the connection.\<close>

theorem mutation_needs_write_right:
  assumes "mutating req"
  shows "(RIGHT_WRITABLE \<notin> dc_flags c \<longrightarrow> refused peer c w (mutable_handle_request K D peer st req c w)) \<and>
         (RIGHT_WRITABLE \<notin> dc_flags c \<or> (\<forall>a t b. req \<noteq> ReqLink a t b) \<longrightarrow>
            refused peer c w (immutable_handle_request K D peer st req c w))"
  using assms mutable_refuses [of req c peer w K D st] base_refuses [of req c peer w K D st]
    immutable_refuses [of req peer c w K D st]
  unfolding immutable_handle_request_def by blast

theorem mutation_needs_write_right_witness:
  "refused True (base_connection_new {RIGHT_READABLE}) example_state
     (mutable_handle_request fio_values (simple_vt example_env 5) True True (ReqUnlink ''x'' None)
       (base_connection_new {RIGHT_READABLE}) example_state)"
  using mutation_needs_write_right [of "ReqUnlink ''x'' None" "base_connection_new {RIGHT_READABLE}" True
      example_state fio_values "simple_vt example_env 5" True]
  by (simp add: base_connection_new_def)



section \<open>Requests that panic\<close>

lemma unimplemented_requests_panic:
  assumes "req \<in> {ReqReopen, ReqDescribe2, ReqGetAttributes, ReqOpen2, ReqAddInotifyFilter, ReqEnumerate}"
  shows "immutable_handle_request K D peer st req c w = (c, w, [], Panicked) \<and>
         mutable_handle_request K D peer st req c w = (c, w, [], Panicked)"
  using assms by (auto simp: immutable_handle_request_def mutable_handle_request_def)

end
