(* ===== verification/Vmo_File.thy ===== *)
theory Vmo_File
  imports File_Connection Dirents
begin

text \<open>
  Files backed by a VMO: \<open>file/vmo/asynchronous.rs\<close> (the file and its shared state) and
  \<open>file/vmo/connection/io1.rs\<close> (its connections). The VMO is an object of the kernel, so its system calls
  are the record \<open>vmo_ops\<close>; what the code relies on is the locale \<open>vmo_kernel\<close>. All connections of a file
  share one state, and the system at the end of the theory interleaves their requests.
\<close>

section \<open>The kernel's VMOs\<close>

datatype child_option = SNAPSHOT_AT_LEAST_ON_WRITE | NO_WRITE | CHILD_RESIZABLE

record 'v vmo_ops =
  vo_get_size :: "'v \<Rightarrow> 64 word result"
  vo_set_size :: "64 word \<Rightarrow> 'v \<Rightarrow> unit result \<times> 'v"
  vo_set_content_size :: "64 word \<Rightarrow> 'v \<Rightarrow> unit result \<times> 'v"
  vo_read :: "nat \<Rightarrow> 64 word \<Rightarrow> 'v \<Rightarrow> bytes result"
  vo_write :: "bytes \<Rightarrow> 64 word \<Rightarrow> 'v \<Rightarrow> unit result \<times> 'v"
  vo_rights :: "'v \<Rightarrow> Rights result"
  vo_duplicate :: "Rights \<Rightarrow> 'v \<Rightarrow> 'v result"
  vo_create_child :: "child_option set \<Rightarrow> 64 word \<Rightarrow> 64 word \<Rightarrow> 'v \<Rightarrow> 'v result"
  vo_replace :: "Rights \<Rightarrow> 'v \<Rightarrow> 'v result"

section \<open>The file\<close>

record 'v new_vmo =
  nv_vmo :: 'v
  nv_size :: "64 word"
  nv_capacity :: "64 word"

record 'v vmo_init =
  vs_vmo :: 'v
  vs_size :: "64 word"
  vs_vmo_size :: "64 word"
  vs_capacity :: "64 word"
  vs_count :: "64 word"

datatype 'v vmo_state = Uninitialized | Initialized "'v vmo_init"

text \<open>What does not change in a file: its access modes, its inode and what \<open>init_vmo\<close> returns.\<close>

record 'v vmo_file =
  vf_init :: "'v new_vmo result"
  vf_readable :: bool
  vf_writable :: bool
  vf_executable :: bool
  vf_inode :: "64 word"

definition vmo_new_with_inode :: "'v new_vmo result \<Rightarrow> bool \<Rightarrow> bool \<Rightarrow> bool \<Rightarrow> 64 word \<Rightarrow> 'v vmo_file \<times> 'v vmo_state" where
  "vmo_new_with_inode init r w x inode =
     (\<lparr> vf_init = init, vf_readable = r, vf_writable = w, vf_executable = x, vf_inode = inode \<rparr>, Uninitialized)"

definition vmo_new :: "fio \<Rightarrow> 'v new_vmo result \<Rightarrow> bool \<Rightarrow> bool \<Rightarrow> bool \<Rightarrow> 'v vmo_file \<times> 'v vmo_state" where
  "vmo_new K init r w x = vmo_new_with_inode init r w x (INO_UNKNOWN K)"

definition vmo_read_only :: "fio \<Rightarrow> 'v new_vmo result \<Rightarrow> 'v vmo_file \<times> 'v vmo_state" where
  "vmo_read_only K init = vmo_new K init True False False"

definition vmo_read_exec :: "fio \<Rightarrow> 'v new_vmo result \<Rightarrow> 'v vmo_file \<times> 'v vmo_state" where
  "vmo_read_exec K init = vmo_new K init True False True"

definition vmo_read_write :: "fio \<Rightarrow> 'v new_vmo result \<Rightarrow> 'v vmo_file \<times> 'v vmo_state" where
  "vmo_read_write K init = vmo_new K init True True False"

text \<open>
  The \<open>init_vmo\<close> helpers. \<open>create\<close> is \<open>Vmo::create_with_opts\<close> with whether the VMO is resizable; a Rust
  slice is shorter than \<open>2 ^ 64\<close> bytes.
\<close>

definition vmo_fill :: "'v vmo_ops \<Rightarrow> bytes \<Rightarrow> 'v \<Rightarrow> 'v result" where
  "vmo_fill V content v = (case vo_write V content 0 v of (Inl e, _) \<Rightarrow> Inl e | (Inr _, v') \<Rightarrow> Inr v')"

definition vmo_set_content :: "'v vmo_ops \<Rightarrow> 64 word \<Rightarrow> 'v \<Rightarrow> 'v result" where
  "vmo_set_content V n v = (case vo_set_content_size V n v of (Inl e, _) \<Rightarrow> Inl e | (Inr _, v') \<Rightarrow> Inr v')"

definition init_vmo :: "'v vmo_ops \<Rightarrow> (bool \<Rightarrow> 64 word \<Rightarrow> 'v result) \<Rightarrow> bytes \<Rightarrow> 'v new_vmo result" where
  "init_vmo V create content =
     (let size = word_of_nat (length content) in
      bind_res (create False size) (\<lambda>v0. bind_res (vmo_fill V content v0) (\<lambda>v1.
        bind_res (vmo_set_content V size v1) (\<lambda>v2.
          Inr \<lparr> nv_vmo = v2, nv_size = size, nv_capacity = size \<rparr>))))"

definition vmo_read_only_static ::
  "fio \<Rightarrow> 'v vmo_ops \<Rightarrow> (bool \<Rightarrow> 64 word \<Rightarrow> 'v result) \<Rightarrow> bytes \<Rightarrow> 'v vmo_file \<times> 'v vmo_state" where
  "vmo_read_only_static K V create content = vmo_read_only K (init_vmo V create content)"

definition vmo_read_only_const ::
  "fio \<Rightarrow> 'v vmo_ops \<Rightarrow> (bool \<Rightarrow> 64 word \<Rightarrow> 'v result) \<Rightarrow> bytes \<Rightarrow> 'v vmo_file \<times> 'v vmo_state" where
  "vmo_read_only_const K V create content = vmo_read_only K (init_vmo V create content)"

definition simple_init_vmo_with_capacity ::
  "'v vmo_ops \<Rightarrow> (bool \<Rightarrow> 64 word \<Rightarrow> 'v result) \<Rightarrow> bytes \<Rightarrow> 64 word \<Rightarrow> 'v new_vmo result" where
  "simple_init_vmo_with_capacity V create content capacity =
     (let size = word_of_nat (length content); vmo_size = max size capacity in
      bind_res (create False vmo_size) (\<lambda>v0.
        bind_res (if length content > 0 then vmo_fill V content v0 else Inr v0) (\<lambda>v1.
          bind_res (vmo_set_content V size v1) (\<lambda>v2.
            Inr \<lparr> nv_vmo = v2, nv_size = size, nv_capacity = capacity \<rparr>))))"

definition simple_init_vmo_resizable_with_capacity ::
  "'v vmo_ops \<Rightarrow> (bool \<Rightarrow> 64 word \<Rightarrow> 'v result) \<Rightarrow> bytes \<Rightarrow> 64 word \<Rightarrow> 'v new_vmo result" where
  "simple_init_vmo_resizable_with_capacity V create content capacity =
     (let vmo_size = word_of_nat (length content) in
      bind_res (create True vmo_size) (\<lambda>v0.
        bind_res (if vmo_size > 0 then vmo_fill V content v0 else Inr v0) (\<lambda>v1.
          bind_res (vmo_set_content V vmo_size v1) (\<lambda>v2.
            Inr \<lparr> nv_vmo = v2, nv_size = vmo_size, nv_capacity = capacity \<rparr>))))"

text \<open>\<open>DirectoryEntry for VmoFile\<close>.\<close>

datatype vmo_open = VmoOpenRefused "server_msg list result" | VmoOpenConnection OpenFlags

definition vmo_entry_open :: "bool \<Rightarrow> OpenFlags \<Rightarrow> bool \<Rightarrow> vmo_open" where
  "vmo_entry_open stream_ok flags path_empty =
     (if \<not> path_empty then VmoOpenRefused (send_on_open_with_error stream_ok flags NOT_DIR)
      else VmoOpenConnection flags)"

definition vmo_entry_info :: "'v vmo_file \<Rightarrow> EntryInfo" where
  "vmo_entry_info f = EntryInfo (vf_inode f) DtFile"

section \<open>The shared state\<close>

text \<open>The macro \<open>update_initialized_state\<close>: a debug assertion, then the error, without a state.\<close>

definition no_connections :: "bool \<Rightarrow> 'a result" where
  "no_connections dbg = (if dbg then Inl Panic else Inl (Err INTERNAL))"

definition ensure_vmo :: "'v vmo_ops \<Rightarrow> bool \<Rightarrow> 'v vmo_file \<Rightarrow> 'v vmo_state \<Rightarrow> 'v vmo_init result" where
  "ensure_vmo V dbg f st =
     (case st of
        Initialized i \<Rightarrow> Inr i
      | Uninitialized \<Rightarrow>
          bind_res (vf_init f) (\<lambda>n.
          bind_res (vo_get_size V (nv_vmo n)) (\<lambda>vmo_size.
            let mk = (\<lambda>v vs s. Inr \<lparr> vs_vmo = v, vs_size = s, vs_vmo_size = vs, vs_capacity = nv_capacity n, vs_count = 0 \<rparr>) in
            if dbg then (if nv_size n \<le> vmo_size then mk (nv_vmo n) vmo_size (nv_size n) else Inl Panic)
            else if vmo_size < nv_size n then
              (case vo_set_size V (nv_size n) (nv_vmo n) of
                 (Inr _, v) \<Rightarrow> bind_res (vo_get_size V v) (\<lambda>vs. mk v vs (nv_size n))
               | (Inl (Err UNAVAILABLE), v) \<Rightarrow> mk v vmo_size vmo_size
               | (Inl e, v) \<Rightarrow> Inl e)
            else mk (nv_vmo n) vmo_size (nv_size n))))"

definition truncate_vmo ::
  "'v vmo_ops \<Rightarrow> bool \<Rightarrow> 64 word \<Rightarrow> 64 word \<Rightarrow> 'v vmo_state \<Rightarrow> unit result \<times> 64 word \<times> 'v vmo_state" where
  "truncate_vmo V dbg new_size seek st =
     (case st of
        Uninitialized \<Rightarrow> (no_connections dbg, seek, st)
      | Initialized i \<Rightarrow>
          if new_size > max (vs_size i) (vs_capacity i) then (Inl (Err OUT_OF_RANGE), seek, st)
          else
            case vo_set_size V new_size (vs_vmo i) of
              (Inl e, v) \<Rightarrow> (Inl e, seek, Initialized (i\<lparr> vs_vmo := v \<rparr>))
            | (Inr _, v) \<Rightarrow>
                (case vo_get_size V v of
                   Inl e \<Rightarrow> (Inl e, seek, Initialized (i\<lparr> vs_vmo := v \<rparr>))
                 | Inr vs \<Rightarrow>
                     (case vo_set_content_size V new_size v of
                        (Inl e, v') \<Rightarrow> (Inl e, seek, Initialized (i\<lparr> vs_vmo := v', vs_vmo_size := vs \<rparr>))
                      | (Inr _, v') \<Rightarrow>
                          (Inr (), min seek (max new_size (vs_capacity i)),
                           Initialized (i\<lparr> vs_vmo := v', vs_vmo_size := vs, vs_size := new_size \<rparr>)))))"

section \<open>Connections\<close>

record vmo_conn =
  vc_flags :: OpenFlags
  vc_seek :: "64 word"

definition vmo_handle_close :: "bool \<Rightarrow> 'v vmo_state \<Rightarrow> unit result \<times> 'v vmo_state" where
  "vmo_handle_close dbg st =
     (case st of
        Uninitialized \<Rightarrow> (no_connections dbg, st)
      | Initialized i \<Rightarrow>
          if dbg \<and> vs_count i = 0 then (Inl Panic, st)
          else (Inr (), Initialized (i\<lparr> vs_count := vs_count i - 1 \<rparr>)))"

definition get_node_info :: "'v vmo_ops \<Rightarrow> bool \<Rightarrow> vmo_conn \<Rightarrow> 'v vmo_state \<Rightarrow> 'v node_info result" where
  "get_node_info V dbg c st =
     (if intersects (vc_flags c) {NODE_REFERENCE} \<or> intersects (vc_flags c) {RIGHT_WRITABLE} then Inr InfoFile
      else
        case st of
          Uninitialized \<Rightarrow> no_connections dbg
        | Initialized i \<Rightarrow>
            (case vo_rights V (vs_vmo i) of
               Inl e \<Rightarrow> Inl Panic
             | Inr rights \<Rightarrow>
                 let new_rights = rights - {ZX_WRITE, ZX_SET_PROPERTY};
                     new_rights = (if \<not> intersects (vc_flags c) {RIGHT_EXECUTABLE}
                                   then new_rights - {ZX_EXECUTE} else new_rights) in
                 (case vo_duplicate V new_rights (vs_vmo i) of
                    Inl e \<Rightarrow> Inl Panic
                  | Inr v \<Rightarrow> Inr (InfoVmofile v (vs_size i)))))"

definition vmo_handle_get_attr ::
  "fio \<Rightarrow> bool \<Rightarrow> 'v vmo_file \<Rightarrow> 'v vmo_state \<Rightarrow> (status \<times> node_attributes) result" where
  "vmo_handle_get_attr K dbg f st =
     (let attrs = (\<lambda>st size capacity. Inr (st,
            \<lparr> na_id = vf_inode f,
              na_mode = or (MODE_TYPE_FILE K)
                (rights_to_posix_mode_bits K (vf_readable f) (vf_writable f) (vf_executable f)),
              na_content_size = size, na_storage_size = capacity, na_link_count = 1,
              na_modification_time = 0, na_creation_time = 0 \<rparr>)) in
      case st of
        Uninitialized \<Rightarrow> if dbg then Inl Panic else attrs INTERNAL 0 0
      | Initialized i \<Rightarrow> attrs OK (vs_size i) (vs_capacity i))"

definition vmo_handle_read_at ::
  "'v vmo_ops \<Rightarrow> bool \<Rightarrow> 64 word \<Rightarrow> 64 word \<Rightarrow> vmo_conn \<Rightarrow> 'v vmo_state \<Rightarrow> bytes result" where
  "vmo_handle_read_at V dbg offset count c st =
     (if \<not> intersects (vc_flags c) {RIGHT_READABLE} then Inl (Err BAD_HANDLE)
      else
        case st of
          Uninitialized \<Rightarrow> no_connections dbg
        | Initialized i \<Rightarrow>
            (case checked_sub_u64 (vs_size i) offset of
               None \<Rightarrow> Inr []
             | Some rem \<Rightarrow> vo_read V (unat (min count rem)) offset (vs_vmo i)))"

definition vmo_handle_read ::
  "'v vmo_ops \<Rightarrow> bool \<Rightarrow> 64 word \<Rightarrow> vmo_conn \<Rightarrow> 'v vmo_state \<Rightarrow> bytes result \<times> vmo_conn" where
  "vmo_handle_read V dbg count c st =
     (case vmo_handle_read_at V dbg (vc_seek c) count c st of
        Inl e \<Rightarrow> (Inl e, c)
      | Inr data \<Rightarrow>
          (case checked_add_u64 (vc_seek c) (word_of_nat (length data)) of
             None \<Rightarrow> (Inl Panic, c)
           | Some s \<Rightarrow> (Inr data, c\<lparr> vc_seek := s \<rparr>)))"

text \<open>Growing the file so that it ends at \<open>en\<close>, as \<open>handle_write_at\<close> does before it writes.\<close>

definition vmo_extend :: "'v vmo_ops \<Rightarrow> 64 word \<Rightarrow> 'v vmo_init \<Rightarrow> unit result \<times> 'v vmo_init" where
  "vmo_extend V en i =
     (if \<not> en > vs_size i then (Inr (), i)
      else
        let (r, i1) =
          (if en > vs_vmo_size i then
             (case vo_set_size V en (vs_vmo i) of
                (Inl e, v) \<Rightarrow> (Inl e, i\<lparr> vs_vmo := v \<rparr>)
              | (Inr _, v) \<Rightarrow>
                  (case vo_get_size V v of
                     Inl e \<Rightarrow> (Inl e, i\<lparr> vs_vmo := v \<rparr>)
                   | Inr vs \<Rightarrow> (Inr (), i\<lparr> vs_vmo := v, vs_vmo_size := vs \<rparr>)))
           else (Inr (), i)) in
        case r of
          Inl e \<Rightarrow> (Inl e, i1)
        | Inr _ \<Rightarrow>
            (case vo_set_content_size V en (vs_vmo i1) of
               (Inl e, v) \<Rightarrow> (Inl e, i1\<lparr> vs_vmo := v \<rparr>)
             | (Inr _, v) \<Rightarrow> (Inr (), i1\<lparr> vs_vmo := v, vs_size := en \<rparr>)))"

definition vmo_handle_write_at ::
  "'v vmo_ops \<Rightarrow> bool \<Rightarrow> 64 word \<Rightarrow> bytes \<Rightarrow> vmo_conn \<Rightarrow> 'v vmo_state \<Rightarrow> 64 word result \<times> 'v vmo_state" where
  "vmo_handle_write_at V dbg offset content c st =
     (if \<not> intersects (vc_flags c) {RIGHT_WRITABLE} then (Inl (Err BAD_HANDLE), st)
      else
        case st of
          Uninitialized \<Rightarrow> (no_connections dbg, st)
        | Initialized i \<Rightarrow>
            (case checked_sub_u64 (max (vs_size i) (vs_capacity i)) offset of
               None \<Rightarrow> (Inl (Err OUT_OF_RANGE), st)
             | Some capacity \<Rightarrow>
                 let content = (if length content > unat capacity then take (unat capacity) content else content);
                     len = word_of_nat (length content) in
                 (case add_u64 dbg offset len of
                    Inl e \<Rightarrow> (Inl e, st)
                  | Inr en \<Rightarrow>
                      (case vmo_extend V en i of
                         (Inl e, i') \<Rightarrow> (Inl e, Initialized i')
                       | (Inr _, i') \<Rightarrow>
                           (case vo_write V content offset (vs_vmo i') of
                              (Inl e, v) \<Rightarrow> (Inl e, Initialized (i'\<lparr> vs_vmo := v \<rparr>))
                            | (Inr _, v) \<Rightarrow> (Inr len, Initialized (i'\<lparr> vs_vmo := v \<rparr>)))))))"

definition vmo_handle_write ::
  "'v vmo_ops \<Rightarrow> bool \<Rightarrow> bytes \<Rightarrow> vmo_conn \<Rightarrow> 'v vmo_state \<Rightarrow> 64 word result \<times> vmo_conn \<times> 'v vmo_state" where
  "vmo_handle_write V dbg content c st =
     (case vmo_handle_write_at V dbg (vc_seek c) content c st of
        (Inl e, st') \<Rightarrow> (Inl e, c, st')
      | (Inr actual, st') \<Rightarrow>
          (case add_u64 dbg (vc_seek c) actual of
             Inl e \<Rightarrow> (Inl e, c, st')
           | Inr s \<Rightarrow> (Inr actual, c\<lparr> vc_seek := s \<rparr>, st')))"

text \<open>
  The origin is converted to \<open>i64\<close> with \<open>unwrap\<close>; then \<open>checked_add\<close> and the conversion back to \<open>u64\<close>.
\<close>

definition vmo_handle_seek ::
  "bool \<Rightarrow> 64 word \<Rightarrow> seek_origin \<Rightarrow> vmo_conn \<Rightarrow> 'v vmo_state \<Rightarrow> 64 word result \<times> vmo_conn" where
  "vmo_handle_seek dbg offset origin c st =
     (if intersects (vc_flags c) {NODE_REFERENCE} then (Inl (Err BAD_HANDLE), c)
      else
        case st of
          Uninitialized \<Rightarrow> (no_connections dbg, c)
        | Initialized i \<Rightarrow>
            let o' = (case origin of SeekStart \<Rightarrow> 0 | SeekCurrent \<Rightarrow> vc_seek c | SeekEnd \<Rightarrow> vs_size i);
                sum = uint o' + sint offset in
            if 2 ^ 63 \<le> uint o' then (Inl Panic, c)
            else if sum < - (2 ^ 63) \<or> 2 ^ 63 \<le> sum then (Inl (Err OUT_OF_RANGE), c)
            else if sum < 0 then (Inl (Err OUT_OF_RANGE), c)
            else (Inr (word_of_int sum), c\<lparr> vc_seek := word_of_int sum \<rparr>))"

definition vmo_handle_truncate ::
  "'v vmo_ops \<Rightarrow> bool \<Rightarrow> 64 word \<Rightarrow> vmo_conn \<Rightarrow> 'v vmo_state \<Rightarrow> unit result \<times> vmo_conn \<times> 'v vmo_state" where
  "vmo_handle_truncate V dbg len c st =
     (if \<not> intersects (vc_flags c) {RIGHT_WRITABLE} then (Inl (Err BAD_HANDLE), c, st)
      else let (r, s, st') = truncate_vmo V dbg len (vc_seek c) st in (r, c\<lparr> vc_seek := s \<rparr>, st'))"

definition get_as_shared :: "fio \<Rightarrow> 'v vmo_ops \<Rightarrow> Rights \<Rightarrow> 'v \<Rightarrow> 'v result" where
  "get_as_shared K V rights v = vo_duplicate V (rights \<union> RIGHTS_BASIC K \<union> {ZX_MAP} \<union> {ZX_GET_PROPERTY}) v"

definition get_as_private :: "fio \<Rightarrow> 'v vmo_ops \<Rightarrow> Rights \<Rightarrow> 64 word \<Rightarrow> 'v \<Rightarrow> 'v result" where
  "get_as_private K V rights sz v =
     (let rights = rights \<union> RIGHTS_BASIC K \<union> {ZX_MAP} \<union> {ZX_GET_PROPERTY} \<union> {ZX_SET_PROPERTY};
          child_options = {SNAPSHOT_AT_LEAST_ON_WRITE};
          child_options = (if \<not> contains rights {ZX_WRITE} then child_options \<union> {NO_WRITE}
                           else child_options \<union> {CHILD_RESIZABLE}) in
      bind_res (vo_create_child V child_options 0 sz v) (\<lambda>new_vmo. vo_replace V rights new_vmo))"

definition vmo_handle_get_buffer ::
  "fio \<Rightarrow> 'v vmo_ops \<Rightarrow> bool \<Rightarrow> VmoFlags \<Rightarrow> vmo_conn \<Rightarrow> 'v vmo_state \<Rightarrow> ('v \<times> 64 word) result \<times> 'v vmo_state" where
  "vmo_handle_get_buffer K V dbg flags c st =
     (case get_buffer_validate_flags flags (vc_flags c) of
        Inl e \<Rightarrow> (Inl e, st)
      | Inr _ \<Rightarrow>
          if contains flags {VMO_WRITE} \<and> \<not> contains flags {PRIVATE_CLONE} then (Inl (Err NOT_SUPPORTED), st)
          else if contains flags {VMO_EXECUTE} \<and> contains flags {VMO_WRITE} then (Inl (Err NOT_SUPPORTED), st)
          else
            case st of
              Uninitialized \<Rightarrow> (no_connections dbg, st)
            | Initialized i \<Rightarrow>
                (case vo_set_content_size V (vs_size i) (vs_vmo i) of
                   (Inl e, v) \<Rightarrow> (Inl e, Initialized (i\<lparr> vs_vmo := v \<rparr>))
                 | (Inr _, v) \<Rightarrow>
                     (bind_res
                        (if contains flags {PRIVATE_CLONE} then get_as_private K V (vmo_flags_to_rights flags) (vs_size i) v
                         else get_as_shared K V (vmo_flags_to_rights flags) v)
                        (\<lambda>h. Inr (h, vs_size i)),
                      Initialized (i\<lparr> vs_vmo := v \<rparr>))))"

section \<open>Requests\<close>

text \<open>
  A cloned connection is a task spawned with the checked flags (\<open>FrSpawned\<close>). A failed \<open>Describe\<close> shuts
  the channel down with an epitaph and goes on; the reply to \<open>Close\<close> may fail unnoticed.
\<close>

fun vmo_handle_request ::
  "fio \<Rightarrow> 'v vmo_ops \<Rightarrow> bool \<Rightarrow> 'v vmo_file \<Rightarrow> bool \<Rightarrow> bool \<Rightarrow> file_request \<Rightarrow> vmo_conn \<Rightarrow> 'v vmo_state \<Rightarrow>
   vmo_conn \<times> 'v vmo_state \<times> 'v file_reply list \<times> file_end" where
  "vmo_handle_request K V dbg f peer stream_ok (FClone flags) c st =
     (case file_handle_clone K stream_ok (vc_flags c) flags of
        CloneRefused (Inr msgs) \<Rightarrow> (c, st, [FrObject msgs], FAlive)
      | CloneRefused (Inl _) \<Rightarrow> (c, st, [], FPanicked)
      | CloneOpens g \<Rightarrow> (c, st, [FrSpawned g], FAlive))"
| "vmo_handle_request K V dbg f peer stream_ok FReopen c st = (c, st, [], FPanicked)"
| "vmo_handle_request K V dbg f peer stream_ok FClose c st =
     (case vmo_handle_close dbg st of
        (Inl Panic, st') \<Rightarrow> (c, st', [], FPanicked)
      | (Inl (Err s), st') \<Rightarrow> (c, st', if peer then [FrUnit (Inl s)] else [], FClosed)
      | (Inr _, st') \<Rightarrow> (c, st', if peer then [FrUnit (Inr ())] else [], FClosed))"
| "vmo_handle_request K V dbg f peer stream_ok FDescribe c st =
     (case get_node_info V dbg c st of
        Inr info \<Rightarrow> fsend peer (FrInfo info) c st
      | Inl (Err s) \<Rightarrow> if dbg \<and> s = OK then (c, st, [], FPanicked) else (c, st, [FrEpitaph s], FAlive)
      | Inl Panic \<Rightarrow> (c, st, [], FPanicked))"
| "vmo_handle_request K V dbg f peer stream_ok FDescribe2 c st = (c, st, [], FPanicked)"
| "vmo_handle_request K V dbg f peer stream_ok FSync c st = fsend peer (FrUnit (Inr ())) c st"
| "vmo_handle_request K V dbg f peer stream_ok FGetAttr c st =
     (case vmo_handle_get_attr K dbg f st of
        Inr (s, attrs) \<Rightarrow> fsend peer (FrAttrs s attrs) c st
      | Inl _ \<Rightarrow> (c, st, [], FPanicked))"
| "vmo_handle_request K V dbg f peer stream_ok (FSetAttr _ _) c st = fsend peer (FrStatus NOT_SUPPORTED) c st"
| "vmo_handle_request K V dbg f peer stream_ok FGetAttributes c st = (c, st, [], FPanicked)"
| "vmo_handle_request K V dbg f peer stream_ok FUpdateAttributes c st = (c, st, [], FPanicked)"
| "vmo_handle_request K V dbg f peer stream_ok (FRead n) c st =
     (let (r, c') = vmo_handle_read V dbg n c st in fsend_result peer FrData r c' st)"
| "vmo_handle_request K V dbg f peer stream_ok (FReadAt offset n) c st =
     fsend_result peer FrData (vmo_handle_read_at V dbg offset n c st) c st"
| "vmo_handle_request K V dbg f peer stream_ok (FWriteDeprecated data) c st =
     (let (r, c', st') = vmo_handle_write V dbg data c st in fsend_result peer written_raw r c' st')"
| "vmo_handle_request K V dbg f peer stream_ok (FWrite data) c st =
     (let (r, c', st') = vmo_handle_write V dbg data c st in fsend_result peer FrCount r c' st')"
| "vmo_handle_request K V dbg f peer stream_ok (FWriteAt offset data) c st =
     (let (r, st') = vmo_handle_write_at V dbg offset data c st in fsend_result peer FrCount r c st')"
| "vmo_handle_request K V dbg f peer stream_ok (FSeek origin offset) c st =
     (let (r, c') = vmo_handle_seek dbg offset origin c st in fsend_result peer FrCount r c' st)"
| "vmo_handle_request K V dbg f peer stream_ok (FResize len) c st =
     (let (r, c', st') = vmo_handle_truncate V dbg len c st in fsend_result peer FrUnit r c' st')"
| "vmo_handle_request K V dbg f peer stream_ok FGetFlags c st =
     fsend peer (FrFlags OK (vc_flags c \<inter> GET_FLAGS_VISIBLE)) c st"
| "vmo_handle_request K V dbg f peer stream_ok (FSetFlags _) c st = fsend peer (FrStatus NOT_SUPPORTED) c st"
| "vmo_handle_request K V dbg f peer stream_ok (FGetBackingMemory flags) c st =
     (let (r, st') = vmo_handle_get_buffer K V dbg flags c st in
      fsend_result peer FrVmo (bind_res r (\<lambda>(v, _). Inr v)) c st')"
| "vmo_handle_request K V dbg f peer stream_ok FAdvisoryLock c st = fsend peer (FrUnit (Inl NOT_SUPPORTED)) c st"
| "vmo_handle_request K V dbg f peer stream_ok FQueryFilesystem c st = fsend peer (FrStatus NOT_SUPPORTED) c st"

section \<open>Creating connections\<close>

definition vmo_create_connection_task ::
  "fio \<Rightarrow> 'v vmo_ops \<Rightarrow> bool \<Rightarrow> 'v vmo_file \<Rightarrow> bool \<Rightarrow> bool \<Rightarrow> OpenFlags \<Rightarrow> 'v vmo_state \<Rightarrow>
   server_msg list result \<times> vmo_conn option \<times> 'v vmo_state" where
  "vmo_create_connection_task K V dbg f stream_ok send_ok flags st =
     (case file_validate_flags K dbg flags (vf_readable f) (vf_writable f) (vf_executable f) False of
        Inl (Err s) \<Rightarrow> (send_on_open_with_error stream_ok flags s, None, st)
      | Inl Panic \<Rightarrow> (Inl Panic, None, st)
      | Inr flags' \<Rightarrow>
     (case ensure_vmo V dbg f st of
        Inl (Err s) \<Rightarrow> (send_on_open_with_error stream_ok flags' s, None, st)
      | Inl Panic \<Rightarrow> (Inl Panic, None, st)
      | Inr i \<Rightarrow>
     (case (if intersects flags' {TRUNCATE} then truncate_vmo V dbg 0 0 (Initialized i)
            else (Inr (), 0, Initialized i)) of
        (Inl (Err s), _, st1) \<Rightarrow> (send_on_open_with_error stream_ok flags' s, None, st1)
      | (Inl Panic, _, st1) \<Rightarrow> (Inl Panic, None, st1)
      | (Inr _, seek, Uninitialized) \<Rightarrow>
          (if dbg then Inl Panic else send_on_open_with_error stream_ok flags' INTERNAL, None, Uninitialized)
      | (Inr _, seek, Initialized i1) \<Rightarrow>
          if dbg \<and> seek \<noteq> 0 then (Inl Panic, None, Initialized i1)
          else
     (case add_u64 dbg (vs_count i1) 1 of
        Inl e \<Rightarrow> (Inl e, None, Initialized i1)
      | Inr n \<Rightarrow>
          let st2 = Initialized (i1\<lparr> vs_count := n \<rparr>); c = \<lparr> vc_flags = flags', vc_seek = 0 \<rparr> in
          if \<not> stream_ok then (Inr [], None, st2)
          else if intersects flags' {DESCRIBE} then
            (case get_node_info V dbg c st2 of
               Inr info \<Rightarrow> if send_ok then (Inr [OnOpen OK (Some 0)], Some c, st2) else (Inr [], None, st2)
             | Inl (Err s) \<Rightarrow> if dbg \<and> s = OK then (Inl Panic, None, st2) else (Inr [Epitaph s], None, st2)
             | Inl Panic \<Rightarrow> (Inl Panic, None, st2))
          else (Inr [], Some c, st2)))))"

text \<open>
  All connections of a file. A connection is created, handles a request, or ends without one (a
  malformed message or the end of the stream); the requests of different connections interleave in
  any order. \<open>handle_requests\<close> calls \<open>handle_close\<close> unless the connection ended by \<open>Close\<close>.
\<close>

record 'v vmo_system =
  vy_conns :: "nat \<Rightarrow> vmo_conn option"
  vy_state :: "'v vmo_state"

datatype vmo_event =
    VCreate nat bool bool OpenFlags
  | VRequest nat file_request bool bool
  | VEnd nat

definition vmo_step ::
  "fio \<Rightarrow> 'v vmo_ops \<Rightarrow> bool \<Rightarrow> 'v vmo_file \<Rightarrow> vmo_event \<Rightarrow> 'v vmo_system \<Rightarrow> 'v vmo_system result" where
  "vmo_step K V dbg f ev s =
     (case ev of
        VCreate k stream_ok send_ok flags \<Rightarrow>
          (if vy_conns s k \<noteq> None then Inr s
           else case vmo_create_connection_task K V dbg f stream_ok send_ok flags (vy_state s) of
             (Inl Panic, _, st) \<Rightarrow> Inl Panic
           | (_, c, st) \<Rightarrow> Inr \<lparr> vy_conns = (vy_conns s)(k := c), vy_state = st \<rparr>)
      | VRequest k req peer stream_ok \<Rightarrow>
          (case vy_conns s k of
             None \<Rightarrow> Inr s
           | Some c \<Rightarrow>
               (case vmo_handle_request K V dbg f peer stream_ok req c (vy_state s) of
                  (c', st, rs, FAlive) \<Rightarrow> Inr \<lparr> vy_conns = (vy_conns s)(k \<mapsto> c'), vy_state = st \<rparr>
                | (c', st, rs, FClosed) \<Rightarrow> Inr \<lparr> vy_conns = (vy_conns s)(k := None), vy_state = st \<rparr>
                | (c', st, rs, FDropped) \<Rightarrow>
                    (case vmo_handle_close dbg st of
                       (Inl Panic, _) \<Rightarrow> Inl Panic
                     | (_, st') \<Rightarrow> Inr \<lparr> vy_conns = (vy_conns s)(k := None), vy_state = st' \<rparr>)
                | (c', st, rs, FPanicked) \<Rightarrow> Inl Panic))
      | VEnd k \<Rightarrow>
          (case vy_conns s k of
             None \<Rightarrow> Inr s
           | Some c \<Rightarrow>
               (case vmo_handle_close dbg (vy_state s) of
                  (Inl Panic, _) \<Rightarrow> Inl Panic
                | (_, st') \<Rightarrow> Inr \<lparr> vy_conns = (vy_conns s)(k := None), vy_state = st' \<rparr>)))"

fun vmo_run ::
  "fio \<Rightarrow> 'v vmo_ops \<Rightarrow> bool \<Rightarrow> 'v vmo_file \<Rightarrow> vmo_event list \<Rightarrow> 'v vmo_system \<Rightarrow> 'v vmo_system result" where
  "vmo_run K V dbg f [] s = Inr s"
| "vmo_run K V dbg f (ev # evs) s = bind_res (vmo_step K V dbg f ev s) (vmo_run K V dbg f evs)"

section \<open>Writing into a file of bytes\<close>

lemma overlay_file:
  fixes C :: bytes
  assumes "S \<le> length C" and pre: "take S' C' = take S' (C @ replicate E 0)" and S': "S' = max S E"
    and E: "off + length d = E" and len: "S' \<le> length C'"
  shows "\<exists>gap. length gap = off - S \<and>
    take S' (take off C' @ d @ drop E C') = take off (take S C @ gap) @ d @ drop E (take S C) \<and>
    (set (drop S C) \<subseteq> {0} \<longrightarrow> set gap \<subseteq> {0})"
proof -
  let ?Z = "C @ replicate E 0"
  let ?gap = "take (off - S) (drop S ?Z)"
  have le: "off \<le> S'" using S' E by simp
  then have "take off C' = take off (take S' C')" by (simp add: min_absorb1)
  also have "\<dots> = take off ?Z" unfolding pre take_take using le by (simp only: min_absorb1)
  also have "\<dots> = take off (take S ?Z @ ?gap)"
    by (cases "off \<le> S") (auto simp: min_def take_add [symmetric] simp del: drop_append take_append)
  finally have head: "take off C' = take off (take S C @ ?gap)" using assms(1) by simp
  have "take (S' - E) (drop E C') = drop E (take S' C')" by (simp add: drop_take)
  also have "\<dots> = drop E (take S' ?Z)" unfolding pre ..
  also have "\<dots> = drop E (take S C)" using assms(1) S' by (cases "E \<le> S") (auto simp: max_def)
  finally have tail: "take (S' - E) (drop E C') = drop E (take S C)" .
  have "length (take off C') = off" using len S' E by simp
  then have "take S' (take off C' @ d @ drop E C') = take off C' @ d @ take (S' - E) (drop E C')"
    using S' E by simp
  then have eq: "take S' (take off C' @ d @ drop E C') = take off (take S C @ ?gap) @ d @ drop E (take S C)"
    unfolding head tail .
  have "length ?gap = off - S" using E assms(1) by simp
  moreover have "set ?gap \<subseteq> {0}" if "set (drop S C) \<subseteq> {0}"
  proof -
    have "set (drop S ?Z) \<subseteq> {0}" using that assms(1) by auto
    then show ?thesis using set_take_subset [of "off - S" "drop S ?Z"] by blast
  qed
  ultimately show ?thesis using eq by blast
qed

lemma resize_file:
  fixes C :: bytes
  assumes "S \<le> length C"
  shows "\<exists>gap. length gap = n - S \<and> take n (C @ replicate n 0) = take n (take S C) @ gap \<and>
    (set (drop S C) \<subseteq> {0} \<longrightarrow> set gap \<subseteq> {0})"
proof -
  let ?Z = "C @ replicate n 0"
  let ?gap = "take (n - S) (drop S ?Z)"
  have "take n ?Z = take n (take S ?Z) @ ?gap"
    by (cases "n \<le> S") (auto simp: min_def take_add [symmetric] simp del: drop_append take_append)
  then have "take n ?Z = take n (take S C) @ ?gap" using assms by simp
  moreover have "length ?gap = n - S" using assms by simp
  moreover have "set ?gap \<subseteq> {0}" if "set (drop S C) \<subseteq> {0}"
  proof -
    have "set (drop S ?Z) \<subseteq> {0}" using that assms by auto
    then show ?thesis using set_take_subset [of "n - S" "drop S ?Z"] by blast
  qed
  ultimately show ?thesis by blast
qed

section \<open>What the kernel promises\<close>

text \<open>
  \<open>contents v\<close> are the bytes of a VMO, as many as its size, and \<open>valid v\<close> tells that it is a VMO the
  caller may use. The bytes of the file are those before its size; the invariant of the shared state.
\<close>

definition file_bytes :: "('v \<Rightarrow> bytes) \<Rightarrow> 'v vmo_init \<Rightarrow> bytes" where
  "file_bytes contents i = take (unat (vs_size i)) (contents (vs_vmo i))"

definition vmo_ok :: "('v \<Rightarrow> bytes) \<Rightarrow> ('v \<Rightarrow> bool) \<Rightarrow> 'v vmo_init \<Rightarrow> bool" where
  "vmo_ok contents valid i \<longleftrightarrow> valid (vs_vmo i) \<and> vs_vmo_size i = word_of_nat (length (contents (vs_vmo i))) \<and>
     unat (vs_size i) \<le> length (contents (vs_vmo i)) \<and> unat (vs_size i) < 2 ^ 63 \<and> unat (vs_capacity i) < 2 ^ 63"

text \<open>
  A file as its constructors are meant to be used: not both writable and executable, and \<open>init_vmo\<close>
  either fails or returns a VMO that holds the declared size, within 63 bits. \<open>vmo_limit\<close> is the most
  the file can hold.
\<close>

definition vmo_file_ok :: "('v \<Rightarrow> bytes) \<Rightarrow> ('v \<Rightarrow> bool) \<Rightarrow> 'v vmo_file \<Rightarrow> bool" where
  "vmo_file_ok contents valid f \<longleftrightarrow> \<not> (vf_writable f \<and> vf_executable f) \<and>
     (case vf_init f of
        Inl e \<Rightarrow> e \<noteq> Panic \<and> e \<noteq> Err OK
      | Inr n \<Rightarrow> valid (nv_vmo n) \<and> unat (nv_size n) \<le> length (contents (nv_vmo n)) \<and>
                unat (nv_size n) < 2 ^ 63 \<and> unat (nv_capacity n) < 2 ^ 63)"

definition vmo_limit :: "'v vmo_file \<Rightarrow> nat" where
  "vmo_limit f = (case vf_init f of Inl e \<Rightarrow> 0 | Inr n \<Rightarrow> max (unat (nv_size n)) (unat (nv_capacity n)))"

fun vmo_count :: "'v vmo_state \<Rightarrow> nat" where
  "vmo_count Uninitialized = 0"
| "vmo_count (Initialized i) = unat (vs_count i)"

fun vmo_state_ok :: "('v \<Rightarrow> bytes) \<Rightarrow> ('v \<Rightarrow> bool) \<Rightarrow> 'v vmo_file \<Rightarrow> 'v vmo_state \<Rightarrow> bool" where
  "vmo_state_ok contents valid f Uninitialized = True"
| "vmo_state_ok contents valid f (Initialized i) =
     (vmo_ok contents valid i \<and> max (unat (vs_size i)) (unat (vs_capacity i)) \<le> vmo_limit f)"

text \<open>
  The invariant of all connections of a file after \<open>k\<close> events: every connection is counted, every seek
  position is below \<open>2 ^ 63\<close>.
\<close>

definition vmo_system_ok :: "('v \<Rightarrow> bytes) \<Rightarrow> ('v \<Rightarrow> bool) \<Rightarrow> 'v vmo_file \<Rightarrow> nat \<Rightarrow> 'v vmo_system \<Rightarrow> bool" where
  "vmo_system_ok contents valid f k s \<longleftrightarrow>
     vmo_state_ok contents valid f (vy_state s) \<and> vmo_count (vy_state s) \<le> k \<and>
     finite (dom (vy_conns s)) \<and> card (dom (vy_conns s)) \<le> vmo_count (vy_state s) \<and>
     (\<forall>j c. vy_conns s j = Some c \<longrightarrow> unat (vc_seek c) < 2 ^ 63)"

fun vmo_implemented :: "vmo_event \<Rightarrow> bool" where
  "vmo_implemented (VRequest k req peer so) = (req \<notin> {FReopen, FDescribe2, FGetAttributes, FUpdateAttributes})"
| "vmo_implemented _ = True"

lemma validate_status: "file_validate_flags K dbg f r w x a = Inl (Err s) \<Longrightarrow> s \<noteq> OK"
  by (auto simp: file_validate_flags_def Let_def split: if_splits)

lemma send_ok [simp]: "s \<noteq> OK \<Longrightarrow> send_on_open_with_error so f s \<noteq> Inl Panic"
  by (simp add: send_on_open_with_error_def)

text \<open>
  A resize may be refused (the VMO is not resizable), rounds up and fills with zeros; setting the
  content size keeps the bytes before it; reads and writes inside the VMO succeed; a handle can be
  duplicated with fewer rights.
\<close>

locale vmo_kernel =
  fixes V :: "'v vmo_ops" and contents :: "'v \<Rightarrow> bytes" and valid :: "'v \<Rightarrow> bool"
  assumes size_fits: "valid v \<Longrightarrow> length (contents v) < 2 ^ 64"
    and get_size: "valid v \<Longrightarrow> vo_get_size V v = Inr (word_of_nat (length (contents v)))"
    and set_size_ok: "valid v \<Longrightarrow> vo_set_size V n v = (Inr u, v') \<Longrightarrow> valid v' \<and> unat n \<le> length (contents v') \<and>
           take (unat n) (contents v') = take (unat n) (contents v @ replicate (unat n) 0)"
    and set_size_err: "valid v \<Longrightarrow> vo_set_size V n v = (Inl e, v') \<Longrightarrow> e \<noteq> Panic \<and> e \<noteq> Err OK \<and> valid v' \<and>
           contents v' = contents v"
    and content_size: "valid v \<Longrightarrow> \<exists>v'. vo_set_content_size V n v = (Inr (), v') \<and> valid v' \<and>
           length (contents v') = length (contents v) \<and> take (unat n) (contents v') = take (unat n) (contents v)"
    and read_ok: "valid v \<Longrightarrow> unat off + k \<le> length (contents v) \<Longrightarrow>
           vo_read V k off v = Inr (take k (drop (unat off) (contents v)))"
    and write_ok: "valid v \<Longrightarrow> unat off + length d \<le> length (contents v) \<Longrightarrow>
           \<exists>v'. vo_write V d off v = (Inr (), v') \<and> valid v' \<and>
             contents v' = take (unat off) (contents v) @ d @ drop (unat off + length d) (contents v)"
    and rights_ok: "valid v \<Longrightarrow> \<exists>r. vo_rights V v = Inr r"
    and duplicate_ok: "valid v \<Longrightarrow> vo_rights V v = Inr r \<Longrightarrow> r' \<subseteq> r \<Longrightarrow> \<exists>v'. vo_duplicate V r' v = Inr v'"
    and duplicate_rights: "vo_duplicate V r' v = Inr v' \<Longrightarrow> vo_rights V v' = Inr r'"
    and replace_rights: "vo_replace V r' v = Inr v' \<Longrightarrow> vo_rights V v' = Inr r'"
    and no_kernel_panic: "vo_duplicate V r' v \<noteq> Inl Panic" "vo_replace V r' v \<noteq> Inl Panic"
           "vo_create_child V opts a b v \<noteq> Inl Panic"
begin

lemma vmo_ok_valid: "vmo_ok contents valid i \<Longrightarrow> valid (vs_vmo i)"
  by (simp add: vmo_ok_def)

lemma vmo_ok_size: "vmo_ok contents valid i \<Longrightarrow> unat (vs_vmo_size i) = length (contents (vs_vmo i))"
  using size_fits by (simp add: vmo_ok_def unat_of_nat take_bit_nat_eq_self)

lemma vmo_ok_limit: "vmo_ok contents valid i \<Longrightarrow> max (unat (vs_size i)) (unat (vs_capacity i)) < 2 ^ 63"
  by (simp add: vmo_ok_def)

lemma length_file_bytes: "vmo_ok contents valid i \<Longrightarrow> length (file_bytes contents i) = unat (vs_size i)"
  by (simp add: vmo_ok_def file_bytes_def)

lemma read_at_slice:
  assumes "vmo_ok contents valid i" and "RIGHT_READABLE \<in> vc_flags c"
  shows "vmo_handle_read_at V dbg off n c (Initialized i) = Inr (take (unat n) (drop (unat off) (file_bytes contents i)))"
proof (cases "vs_size i < off")
  case True
  then have "unat (vs_size i) \<le> unat off" by (simp add: word_less_nat_alt)
  with True assms(2) length_file_bytes [OF assms(1)] show ?thesis
    by (simp add: vmo_handle_read_at_def checked_sub_u64_def)
next
  case False
  let ?k = "unat (min n (vs_size i - off))"
  have off: "unat off \<le> unat (vs_size i)" using False by (simp add: word_le_nat_alt not_less)
  then have sub: "unat (vs_size i - off) = unat (vs_size i) - unat off" by (simp add: unat_sub word_le_nat_alt)
  have k: "?k = min (unat n) (unat (vs_size i) - unat off)"
    using sub by (auto simp: min_def word_le_nat_alt)
  have "unat off + ?k \<le> length (contents (vs_vmo i))"
    using off assms(1) by (auto simp: k vmo_ok_def)
  from read_ok [OF vmo_ok_valid [OF assms(1)] this] False assms(2) show ?thesis
    by (simp add: vmo_handle_read_at_def checked_sub_u64_def k file_bytes_def drop_take min.commute)
qed

lemma extend_cases:
  assumes "vmo_ok contents valid i" and "unat en < 2 ^ 63"
  obtains (refused) e i' where "vmo_extend V en i = (Inl (Err e), i')" "vmo_ok contents valid i'" "file_bytes contents i' = file_bytes contents i"
      "vs_size i' = vs_size i" "vs_capacity i' = vs_capacity i" "vs_count i' = vs_count i"
  | (grown) i' where "vmo_extend V en i = (Inr (), i')" "vmo_ok contents valid i'" "vs_size i' = max (vs_size i) en"
      "vs_capacity i' = vs_capacity i" "vs_count i' = vs_count i"
      "take (unat (vs_size i')) (contents (vs_vmo i')) =
       take (unat (vs_size i')) (contents (vs_vmo i) @ replicate (unat en) 0)"
proof (cases "en \<le> vs_size i")
  case True
  then have "unat en \<le> unat (vs_size i)" by (simp add: word_le_nat_alt)
  with True assms(1) show thesis
    by (intro grown [of i]) (auto simp: vmo_extend_def max_def vmo_ok_def)
next
  case False
  then have lt: "vs_size i < en" by simp
  then have mx: "max (vs_size i) en = en" by (intro max_absorb2) simp
  have step: thesis
    if eq: "vmo_extend V en i = (case vo_set_content_size V en v of
          (Inl e, v') \<Rightarrow> (Inl e, i\<lparr> vs_vmo := v', vs_vmo_size := word_of_nat (length (contents v)) \<rparr>)
        | (Inr _, v') \<Rightarrow> (Inr (), i\<lparr> vs_vmo := v', vs_vmo_size := word_of_nat (length (contents v)), vs_size := en \<rparr>))"
      and val: "valid v" and len: "unat en \<le> length (contents v)"
      and pre: "take (unat en) (contents v) = take (unat en) (contents (vs_vmo i) @ replicate (unat en) 0)" for v
  proof -
    obtain v' where v': "vo_set_content_size V en v = (Inr (), v')" "length (contents v') = length (contents v)"
      "take (unat en) (contents v') = take (unat en) (contents v)" "valid v'"
      using content_size [OF val] by blast
    show thesis
      by (rule grown [of "i\<lparr> vs_vmo := v', vs_vmo_size := word_of_nat (length (contents v)), vs_size := en \<rparr>"])
        (use eq v' len pre assms mx in \<open>auto simp: vmo_ok_def\<close>)
  qed
  show thesis
  proof (cases "vs_vmo_size i < en")
    case True
    show thesis
    proof (cases "vo_set_size V en (vs_vmo i)")
      case (Pair r v)
      show thesis
      proof (cases r)
        case (Inl e)
        with set_size_err [OF vmo_ok_valid [OF assms(1)], of en e v] Pair obtain s where "e = Err s" "valid v" "contents v = contents (vs_vmo i)"
          by (cases e) auto
        with Inl Pair lt True assms(1) show thesis
          by (intro refused [of s "i\<lparr> vs_vmo := v \<rparr>"]) (auto simp: vmo_extend_def vmo_ok_def file_bytes_def)
      next
        case (Inr u)
        with set_size_ok [OF vmo_ok_valid [OF assms(1)], of en u v] Pair lt True get_size [of v] show thesis
          by (intro step [of v]) (auto simp: vmo_extend_def split: prod.splits sum.splits)
      qed
    qed
  next
    case False
    have "unat en \<le> length (contents (vs_vmo i))"
      using False vmo_ok_size [OF assms(1)] by (simp add: word_le_nat_alt not_less)
    moreover have "i\<lparr> vs_vmo_size := word_of_nat (length (contents (vs_vmo i))) \<rparr> = i"
      using assms(1) by (simp add: vmo_ok_def)
    ultimately show thesis using False lt assms(1)
      by (intro step [of "vs_vmo i"]) (cases i, auto simp: vmo_extend_def vmo_ok_def split: prod.splits sum.splits)
  qed
qed

lemma write_cases:
  assumes ok: "vmo_ok contents valid i" and wr: "RIGHT_WRITABLE \<in> vc_flags c"
  defines "M \<equiv> max (unat (vs_size i)) (unat (vs_capacity i))"
  obtains (beyond) "M < unat off" "vmo_handle_write_at V dbg off content c (Initialized i) = (Inl (Err OUT_OF_RANGE), Initialized i)"
  | (refused) e i' where "vmo_handle_write_at V dbg off content c (Initialized i) = (Inl (Err e), Initialized i')"
      "vmo_ok contents valid i'" "file_bytes contents i' = file_bytes contents i" "vs_size i' = vs_size i" "vs_capacity i' = vs_capacity i"
      "vs_count i' = vs_count i" "unat off \<le> M"
  | (written) d i' gap where "d = take (M - unat off) content" "unat off + length d \<le> M"
      "vmo_handle_write_at V dbg off content c (Initialized i) = (Inr (word_of_nat (length d)), Initialized i')"
      "vmo_ok contents valid i'" "unat (vs_size i') = max (unat (vs_size i)) (unat off + length d)" "vs_capacity i' = vs_capacity i"
      "vs_count i' = vs_count i" "length gap = unat off - unat (vs_size i)"
      "file_bytes contents i' = take (unat off) (file_bytes contents i @ gap) @ d @ drop (unat off + length d) (file_bytes contents i)"
      "set (drop (unat (vs_size i)) (contents (vs_vmo i))) \<subseteq> {0} \<longrightarrow> set gap \<subseteq> {0}"
proof (cases "max (vs_size i) (vs_capacity i) < off")
  case True
  then have "M < unat off" by (auto simp: M_def word_less_nat_alt max_def word_le_nat_alt split: if_splits)
  with True wr show thesis by (intro beyond) (simp_all add: vmo_handle_write_at_def checked_sub_u64_def)
next
  case False
  have mx: "unat (max (vs_size i) (vs_capacity i)) = M" by (simp add: M_def max_def word_le_nat_alt)
  have off: "unat off \<le> M" using False mx by (metis not_less word_le_nat_alt)
  have sub: "unat (max (vs_size i) (vs_capacity i) - off) = M - unat off"
    using unat_sub [of off "max (vs_size i) (vs_capacity i)"] False mx by (metis not_less)
  define d where "d = take (M - unat off) content"
  have dlen: "unat off + length d \<le> M" using off by (simp add: d_def)
  have M63: "M < 2 ^ 63" using ok by (simp add: vmo_ok_def M_def)
  have un: "unat (word_of_nat (length d) :: 64 word) = length d"
    using dlen M63 by (simp add: unat_of_nat take_bit_nat_eq_self)
  define en where "en = off + word_of_nat (length d)"
  have en: "unat en = unat off + length d" using dlen M63 un by (simp add: en_def unat_add_u64)
  have add: "add_u64 dbg off (word_of_nat (length d)) = Inr en"
    using dlen M63 un by (simp add: add_u64_ok en_def)
  have trunc: "(if length content > M - unat off then take (M - unat off) content else content) = d"
    by (simp add: d_def)
  have cs: "checked_sub_u64 (max (vs_size i) (vs_capacity i)) off = Some (max (vs_size i) (vs_capacity i) - off)"
    using False by (simp only: checked_sub_u64_def if_False)
  have step: "vmo_handle_write_at V dbg off content c (Initialized i) =
      (case vmo_extend V en i of
         (Inl e, i') \<Rightarrow> (Inl e, Initialized i')
       | (Inr _, i') \<Rightarrow>
           (case vo_write V d off (vs_vmo i') of
              (Inl e, v) \<Rightarrow> (Inl e, Initialized (i'\<lparr> vs_vmo := v \<rparr>))
            | (Inr _, v) \<Rightarrow> (Inr (word_of_nat (length d)), Initialized (i'\<lparr> vs_vmo := v \<rparr>))))"
    unfolding vmo_handle_write_at_def vmo_state.case cs option.case Let_def sub trunc add sum.case using wr by simp
  have "unat en < 2 ^ 63" using en dlen M63 by simp
  from ok this show thesis
  proof (cases rule: extend_cases)
    case (refused e i')
    with step show thesis by (intro that(2) [of e i'] off) auto
  next
    case (grown i')
    have S': "unat (vs_size i') = max (unat (vs_size i)) (unat off + length d)"
      using grown(3) en by (auto simp: max_def word_le_nat_alt)
    have fit: "unat (vs_size i') \<le> length (contents (vs_vmo i'))" using grown(2) by (simp add: vmo_ok_def)
    then have "unat off + length d \<le> length (contents (vs_vmo i'))" using S' by simp
    then obtain v where v: "vo_write V d off (vs_vmo i') = (Inr (), v)"
      "contents v = take (unat off) (contents (vs_vmo i')) @ d @ drop (unat off + length d) (contents (vs_vmo i'))" "valid v"
      using write_ok [OF vmo_ok_valid [OF grown(2)]] by blast
    have S: "unat (vs_size i) \<le> length (contents (vs_vmo i))" using ok by (simp add: vmo_ok_def)
    obtain gap where gap: "length gap = unat off - unat (vs_size i)"
      "take (unat (vs_size i')) (contents v) =
         take (unat off) (file_bytes contents i @ gap) @ d @ drop (unat off + length d) (file_bytes contents i)"
      "set (drop (unat (vs_size i)) (contents (vs_vmo i))) \<subseteq> {0} \<longrightarrow> set gap \<subseteq> {0}"
      using overlay_file [OF S grown(6) S' [folded en] en [symmetric] fit] unfolding file_bytes_def v(2) en by metis
    have "length (contents v) = length (contents (vs_vmo i'))"
      using v(2) \<open>unat off + length d \<le> length (contents (vs_vmo i'))\<close> by simp
    then have "vmo_ok contents valid (i'\<lparr> vs_vmo := v \<rparr>)" using grown(2) v(3) by (simp add: vmo_ok_def)
    with gap step v(1) grown(1,4,5) S' dlen show thesis
      by (intro written [OF d_def dlen, of "i'\<lparr> vs_vmo := v \<rparr>" gap]) (auto simp: file_bytes_def)
  qed
qed

lemma truncate_cases:
  assumes ok: "vmo_ok contents valid i"
  obtains (beyond) "max (vs_size i) (vs_capacity i) < n"
      "truncate_vmo V dbg n seek (Initialized i) = (Inl (Err OUT_OF_RANGE), seek, Initialized i)"
  | (refused) e i' where "truncate_vmo V dbg n seek (Initialized i) = (Inl (Err e), seek, Initialized i')"
      "vmo_ok contents valid i'" "file_bytes contents i' = file_bytes contents i" "vs_size i' = vs_size i"
      "vs_capacity i' = vs_capacity i" "vs_count i' = vs_count i" "e \<noteq> OK"
  | (truncated) i' gap where "n \<le> max (vs_size i) (vs_capacity i)"
      "truncate_vmo V dbg n seek (Initialized i) = (Inr (), min seek (max n (vs_capacity i)), Initialized i')"
      "vmo_ok contents valid i'" "vs_size i' = n" "vs_capacity i' = vs_capacity i" "vs_count i' = vs_count i"
      "length gap = unat n - unat (vs_size i)" "file_bytes contents i' = take (unat n) (file_bytes contents i) @ gap"
      "set (drop (unat (vs_size i)) (contents (vs_vmo i))) \<subseteq> {0} \<longrightarrow> set gap \<subseteq> {0}"
proof (cases "max (vs_size i) (vs_capacity i) < n")
  case True
  then show thesis by (intro beyond) (simp_all add: truncate_vmo_def)
next
  case False
  note val = vmo_ok_valid [OF ok]
  have n63: "unat n < 2 ^ 63"
    using False ok by (auto simp: vmo_ok_def not_less word_le_nat_alt le_max_iff_disj)
  obtain r v where set: "vo_set_size V n (vs_vmo i) = (r, v)" by fastforce
  show thesis
  proof (cases r)
    case (Inl e)
    then obtain s where "e = Err s" "s \<noteq> OK" "valid v" "contents v = contents (vs_vmo i)"
      using set_size_err [OF val, of n e v] set by (cases e) auto
    with Inl set False ok show thesis
      by (intro refused [of s "i\<lparr> vs_vmo := v \<rparr>"])
        (simp_all add: truncate_vmo_def vmo_ok_def file_bytes_def del: max_less_iff_conj)
  next
    case (Inr u)
    with set_size_ok [OF val, of n u v] set have v: "valid v" "unat n \<le> length (contents v)"
      "take (unat n) (contents v) = take (unat n) (contents (vs_vmo i) @ replicate (unat n) 0)" by auto
    obtain v' where v': "vo_set_content_size V n v = (Inr (), v')" "valid v'" "length (contents v') = length (contents v)"
      "take (unat n) (contents v') = take (unat n) (contents v)"
      using content_size [OF v(1)] by blast
    let ?i = "i\<lparr> vs_vmo := v', vs_vmo_size := word_of_nat (length (contents v)), vs_size := n \<rparr>"
    have S: "unat (vs_size i) \<le> length (contents (vs_vmo i))" using ok by (simp add: vmo_ok_def)
    obtain gap where gap: "length gap = unat n - unat (vs_size i)"
      "take (unat n) (contents v') = take (unat n) (file_bytes contents i) @ gap"
      "set (drop (unat (vs_size i)) (contents (vs_vmo i))) \<subseteq> {0} \<longrightarrow> set gap \<subseteq> {0}"
      using resize_file [OF S, of "unat n"] v(3) v'(4) unfolding file_bytes_def by metis
    show thesis
      by (rule truncated [of ?i gap])
        (use False Inr set v v' gap ok n63 get_size [OF v(1)] in
          \<open>simp_all add: truncate_vmo_def vmo_ok_def file_bytes_def not_less del: max_less_iff_conj\<close>)
  qed
qed

lemma ensure_cases:
  assumes "vf_init f = Inr n" and "valid (nv_vmo n)" and "unat (nv_size n) \<le> length (contents (nv_vmo n))"
    and "unat (nv_size n) < 2 ^ 63" and "unat (nv_capacity n) < 2 ^ 63"
  shows "ensure_vmo V dbg f Uninitialized =
     Inr \<lparr> vs_vmo = nv_vmo n, vs_size = nv_size n, vs_vmo_size = word_of_nat (length (contents (nv_vmo n))),
           vs_capacity = nv_capacity n, vs_count = 0 \<rparr>"
proof -
  have "nv_size n \<le> word_of_nat (length (contents (nv_vmo n)))"
    using assms(3) size_fits [OF assms(2)] by (simp add: word_le_nat_alt unat_of_nat take_bit_nat_eq_self)
  with assms(1,2) get_size [OF assms(2)] show ?thesis by (auto simp: ensure_vmo_def Let_def)
qed

lemma node_info_ok:
  assumes "vmo_ok contents valid i"
  shows "\<exists>info. get_node_info V dbg c (Initialized i) = Inr info"
proof -
  note val = vmo_ok_valid [OF assms]
  obtain r where r: "vo_rights V (vs_vmo i) = Inr r" using rights_ok [OF val] by blast
  obtain v1 v2 where "vo_duplicate V (r - {ZX_WRITE, ZX_SET_PROPERTY}) (vs_vmo i) = Inr v1"
    "vo_duplicate V (r - {ZX_WRITE, ZX_SET_PROPERTY} - {ZX_EXECUTE}) (vs_vmo i) = Inr v2"
    using duplicate_ok [OF val r, of "r - {ZX_WRITE, ZX_SET_PROPERTY}"]
      duplicate_ok [OF val r, of "r - {ZX_WRITE, ZX_SET_PROPERTY} - {ZX_EXECUTE}"] by auto
  with r show ?thesis by (auto simp: get_node_info_def Let_def)
qed

lemma get_buffer_cases:
  assumes "vmo_ok contents valid i" and "vmo_handle_get_buffer K V dbg flags c (Initialized i) = (r, st)"
  shows "r \<noteq> Inl Panic" and "\<exists>i'. st = Initialized i' \<and> vmo_ok contents valid i' \<and> vs_size i' = vs_size i \<and>
     vs_capacity i' = vs_capacity i \<and> vs_count i' = vs_count i \<and> file_bytes contents i' = file_bytes contents i"
proof -
  obtain v where v: "vo_set_content_size V (vs_size i) (vs_vmo i) = (Inr (), v)" "valid v"
    "length (contents v) = length (contents (vs_vmo i))"
    "take (unat (vs_size i)) (contents v) = take (unat (vs_size i)) (contents (vs_vmo i))"
    using content_size [OF vmo_ok_valid [OF assms(1)]] by blast
  have val: "get_buffer_validate_flags flags (vc_flags c) \<noteq> Inl Panic"
    by (simp add: get_buffer_validate_flags_def)
  have "get_as_private K V rs sz v \<noteq> Inl Panic" "get_as_shared K V rs v \<noteq> Inl Panic" for rs sz
    using no_kernel_panic by (auto simp: get_as_private_def get_as_shared_def Let_def bind_res_Inl_iff)
  then show "r \<noteq> Inl Panic"
    using assms(2) v(1) val
    by (auto simp: vmo_handle_get_buffer_def bind_res_Inl_iff split: sum.splits if_splits)
  show "\<exists>i'. st = Initialized i' \<and> vmo_ok contents valid i' \<and> vs_size i' = vs_size i \<and>
     vs_capacity i' = vs_capacity i \<and> vs_count i' = vs_count i \<and> file_bytes contents i' = file_bytes contents i"
    using assms v by (auto simp: vmo_handle_get_buffer_def vmo_ok_def file_bytes_def split: sum.splits if_splits)
qed

text \<open>One request on one connection: what it may do to the shared state and to the seek position.\<close>

definition state_kept :: "'v vmo_init \<Rightarrow> 'v vmo_state \<Rightarrow> bool" where
  "state_kept i st \<longleftrightarrow> (\<exists>i'. st = Initialized i' \<and> vmo_ok contents valid i' \<and>
     unat (vs_size i') \<le> max (unat (vs_size i)) (unat (vs_capacity i)) \<and> vs_capacity i' = vs_capacity i \<and>
     vs_count i' = vs_count i)"

lemma state_kept_refl: "vmo_ok contents valid i \<Longrightarrow> state_kept i (Initialized i)"
  by (simp add: state_kept_def)

lemma read_at_bound:
  assumes "vmo_ok contents valid i" and "unat (vc_seek c) < 2 ^ 63"
  shows "vmo_handle_read_at V dbg off n c (Initialized i) \<noteq> Inl Panic"
    and "vmo_handle_read V dbg n c (Initialized i) = (r, c') \<Longrightarrow> r \<noteq> Inl Panic \<and> unat (vc_seek c') < 2 ^ 63"
proof -
  have no: "RIGHT_READABLE \<notin> vc_flags c \<Longrightarrow> vmo_handle_read_at V dbg o' m c st = Inl (Err BAD_HANDLE)" for o' m st
    by (simp add: vmo_handle_read_at_def)
  show "vmo_handle_read_at V dbg off n c (Initialized i) \<noteq> Inl Panic"
    using no read_at_slice [OF assms(1)] by (cases "RIGHT_READABLE \<in> vc_flags c") auto
  assume r: "vmo_handle_read V dbg n c (Initialized i) = (r, c')"
  show "r \<noteq> Inl Panic \<and> unat (vc_seek c') < 2 ^ 63"
  proof (cases "RIGHT_READABLE \<in> vc_flags c")
    case False
    with r no assms(2) show ?thesis by (auto simp: vmo_handle_read_def)
  next
    case True
    let ?d = "take (unat n) (drop (unat (vc_seek c)) (file_bytes contents i))"
    have sz: "unat (vs_size i) < 2 ^ 63" using assms(1) by (simp add: vmo_ok_def)
    have "length ?d \<le> unat (vs_size i) - unat (vc_seek c)" using length_file_bytes [OF assms(1)] by simp
    then have fit: "unat (vc_seek c) + length ?d < 2 ^ 63" using sz assms(2) by linarith
    then have un: "unat (word_of_nat (length ?d) :: 64 word) = length ?d"
      by (simp add: unat_of_nat take_bit_nat_eq_self)
    have "unat (vc_seek c) + unat (word_of_nat (length ?d) :: 64 word) < 2 ^ 64" using fit un by simp
    with r read_at_slice [OF assms(1) True] show ?thesis
      using fit un unat_add_u64 [of "vc_seek c" "word_of_nat (length ?d)"]
      by (auto simp: vmo_handle_read_def checked_add_u64_def simp del: length_take length_drop)
  qed
qed

lemma write_at_bound:
  assumes "vmo_ok contents valid i" and "vmo_handle_write_at V dbg off d c (Initialized i) = (r, st)"
  shows "r \<noteq> Inl Panic" and "state_kept i st"
    and "r = Inr n \<Longrightarrow> unat off + unat n \<le> max (unat (vs_size i)) (unat (vs_capacity i))"
proof -
  have "r \<noteq> Inl Panic \<and> state_kept i st \<and>
    (r = Inr n \<longrightarrow> unat off + unat n \<le> max (unat (vs_size i)) (unat (vs_capacity i)))"
  proof (cases "RIGHT_WRITABLE \<in> vc_flags c")
    case False
    with assms state_kept_refl show ?thesis by (auto simp: vmo_handle_write_at_def)
  next
    case True
    from assms(1) True show ?thesis
    proof (cases rule: write_cases [of i c off dbg d])
      case (written d' i' gap)
      have r: "r = Inr (word_of_nat (length d'))" "st = Initialized i'" using written(3) assms(2) by simp_all
      have un: "unat (word_of_nat (length d') :: 64 word) = length d'"
        using le_less_trans [OF written(2) vmo_ok_limit [OF assms(1)]] by (simp add: unat_of_nat take_bit_nat_eq_self)
      have "unat (vs_size i') \<le> max (unat (vs_size i)) (unat (vs_capacity i))"
        unfolding written(5) using written(2) by (intro max.boundedI max.cobounded1)
      then have "state_kept i st" using r(2) written(4,6,7) by (simp only: state_kept_def vmo_state.inject) blast
      moreover have "r = Inr n \<longrightarrow> unat n = length d'" using r(1) un by (metis Inr_inject)
      ultimately show ?thesis using r(1) written(2) by (metis not_panic_Inr)
    qed (use assms state_kept_refl in \<open>auto simp: state_kept_def\<close>)
  qed
  then show "r \<noteq> Inl Panic" "state_kept i st"
    "r = Inr n \<Longrightarrow> unat off + unat n \<le> max (unat (vs_size i)) (unat (vs_capacity i))" by auto
qed

lemma write_bound:
  assumes "vmo_ok contents valid i" and "unat (vc_seek c) < 2 ^ 63"
    and "vmo_handle_write V dbg d c (Initialized i) = (r, c', st)"
  shows "r \<noteq> Inl Panic \<and> state_kept i st \<and> unat (vc_seek c') < 2 ^ 63"
proof -
  obtain r1 st1 where one: "vmo_handle_write_at V dbg (vc_seek c) d c (Initialized i) = (r1, st1)" by fastforce
  note w = write_at_bound [OF assms(1) one]
  show ?thesis
  proof (cases r1)
    case (Inl e)
    with w one assms show ?thesis by (auto simp: vmo_handle_write_def)
  next
    case (Inr n)
    have "unat (vc_seek c) + unat n < 2 ^ 63" by (rule le_less_trans [OF w(3) [OF Inr] vmo_ok_limit [OF assms(1)]])
    with Inr w(2) one assms(3) show ?thesis
      by (auto simp: vmo_handle_write_def add_u64_ok unat_add_u64)
  qed
qed

lemma seek_bound:
  assumes "vmo_ok contents valid i" and "unat (vc_seek c) < 2 ^ 63"
    and "vmo_handle_seek dbg off origin c (Initialized i) = (r, c')"
  shows "r \<noteq> Inl Panic \<and> unat (vc_seek c') < 2 ^ 63"
proof -
  let ?o = "case origin of SeekStart \<Rightarrow> 0 | SeekCurrent \<Rightarrow> vc_seek c | SeekEnd \<Rightarrow> vs_size i"
  have "unat ?o < 2 ^ 63" using assms(1,2) by (cases origin) (auto simp: vmo_ok_def)
  then have o': "\<not> 2 ^ 63 \<le> uint ?o" by (simp only: unat_eq_nat_uint nat_less_iff uint_ge_0) simp
  have "unat (word_of_int p :: 64 word) < 2 ^ 63" if "0 \<le> p" "p < 2 ^ 63" for p
    using that unfolding unat_eq_nat_uint by (simp add: uint_word_of_int_eq take_bit_int_eq_self)
  moreover define p where "p = uint ?o + sint off"
  have "vmo_handle_seek dbg off origin c (Initialized i) =
      (if intersects (vc_flags c) {NODE_REFERENCE} then (Inl (Err BAD_HANDLE), c)
       else if 2 ^ 63 \<le> uint ?o then (Inl Panic, c)
       else if p < - (2 ^ 63) \<or> 2 ^ 63 \<le> p then (Inl (Err OUT_OF_RANGE), c)
       else if p < 0 then (Inl (Err OUT_OF_RANGE), c)
       else (Inr (word_of_int p), c\<lparr> vc_seek := word_of_int p \<rparr>))"
    unfolding vmo_handle_seek_def vmo_state.case Let_def p_def ..
  ultimately show ?thesis using assms(2,3) o' by (auto split: if_splits)
qed

lemma truncate_bound:
  assumes "vmo_ok contents valid i" and "truncate_vmo V dbg n seek (Initialized i) = (r, seek', st)"
  shows "r \<noteq> Inl Panic \<and> r \<noteq> Inl (Err OK) \<and> state_kept i st \<and> seek' \<le> seek"
  using assms(1)
proof (cases rule: truncate_cases [of i n dbg seek])
  case (truncated i' gap)
  then have "unat n \<le> max (unat (vs_size i)) (unat (vs_capacity i))"
    by (auto simp: le_max_iff_disj word_le_nat_alt)
  with truncated assms(2) show ?thesis by (auto simp: state_kept_def)
qed (use assms state_kept_refl in \<open>auto simp: state_kept_def\<close>)

lemma truncate_handler_bound:
  assumes "vmo_ok contents valid i" and "unat (vc_seek c) < 2 ^ 63"
    and "vmo_handle_truncate V dbg n c (Initialized i) = (r, c', st)"
  shows "r \<noteq> Inl Panic \<and> state_kept i st \<and> unat (vc_seek c') < 2 ^ 63"
proof (cases "RIGHT_WRITABLE \<in> vc_flags c")
  case True
  obtain r1 s1 st1 where one: "truncate_vmo V dbg n (vc_seek c) (Initialized i) = (r1, s1, st1)" by (metis prod_cases3)
  have "unat s1 \<le> unat (vc_seek c)" using truncate_bound [OF assms(1) one] by (simp add: word_le_nat_alt)
  with truncate_bound [OF assms(1) one] True one assms(2,3) show ?thesis
    by (auto simp: vmo_handle_truncate_def)
qed (use assms state_kept_refl in \<open>auto simp: vmo_handle_truncate_def\<close>)

lemma close_bound:
  assumes "vmo_ok contents valid i" and "0 < unat (vs_count i)"
  shows "vmo_handle_close dbg (Initialized i) = (Inr (), Initialized (i\<lparr> vs_count := vs_count i - 1 \<rparr>))"
    and "unat (vs_count i - 1) = unat (vs_count i) - 1"
proof -
  have "vs_count i \<noteq> 0" using assms(2) by (metis less_irrefl unat_0)
  then show "vmo_handle_close dbg (Initialized i) = (Inr (), Initialized (i\<lparr> vs_count := vs_count i - 1 \<rparr>))"
    by (simp add: vmo_handle_close_def)
  show "unat (vs_count i - 1) = unat (vs_count i) - 1"
    using assms(2) by (subst unat_sub) (simp_all add: word_le_nat_alt)
qed

lemma request_ok:
  assumes ok: "vmo_ok contents valid i" and sk: "unat (vc_seek c) < 2 ^ 63" and n: "0 < unat (vs_count i)"
    and impl: "req \<notin> {FReopen, FDescribe2, FGetAttributes, FUpdateAttributes}"
    and r: "vmo_handle_request K V dbg f peer so req c (Initialized i) = (c', st, rs, e)"
  shows "e \<noteq> FPanicked \<and> (e \<noteq> FClosed \<longrightarrow> state_kept i st \<and> unat (vc_seek c') < 2 ^ 63) \<and>
    (e = FClosed \<longrightarrow> st = Initialized (i\<lparr> vs_count := vs_count i - 1 \<rparr>))"
proof -
  show ?thesis
  proof (cases req)
    case (FClone g)
    have "\<exists>m. send_on_open_with_error so g s = Inr m" if "inherit_rights_for_clone K (vc_flags c) g = Inl (Err s)" for s
      using that by (auto simp: send_on_open_with_error_def inherit_rights_for_clone_def Let_def split: if_splits)
    moreover have "inherit_rights_for_clone K (vc_flags c) g \<noteq> Inl Panic"
      by (simp add: inherit_rights_for_clone_def Let_def)
    ultimately show ?thesis using r FClone sk state_kept_refl [OF ok]
      by (auto simp: file_handle_clone_def split: file_clone.splits sum.splits fail.splits)
  next
    case FClose
    with r close_bound [OF ok n] show ?thesis by auto
  next
    case FDescribe
    obtain info where "get_node_info V dbg c (Initialized i) = Inr info" using node_info_ok [OF ok] by blast
    with r FDescribe sk state_kept_refl [OF ok] show ?thesis by (auto dest: fsend_end fsend_state)
  next
    case FGetAttr
    with r sk state_kept_refl [OF ok] show ?thesis
      by (auto simp: vmo_handle_get_attr_def Let_def dest: fsend_end fsend_state)
  next
    case (FRead m)
    obtain r1 c1 where one: "vmo_handle_read V dbg m c (Initialized i) = (r1, c1)" by fastforce
    with r FRead read_at_bound(2) [OF ok sk one] state_kept_refl [OF ok] show ?thesis
      by (auto dest: fsend_result_state fsend_result_end)
  next
    case (FReadAt o' m)
    with r read_at_bound(1) [OF ok sk, of dbg o' m] sk state_kept_refl [OF ok] show ?thesis
      by (auto dest: fsend_result_state fsend_result_end)
  next
    case (FWriteDeprecated d)
    obtain r1 c1 st1 where one: "vmo_handle_write V dbg d c (Initialized i) = (r1, c1, st1)" by (metis prod_cases3)
    with r FWriteDeprecated write_bound [OF ok sk one] show ?thesis by (auto dest: fsend_result_state fsend_result_end)
  next
    case (FWrite d)
    obtain r1 c1 st1 where one: "vmo_handle_write V dbg d c (Initialized i) = (r1, c1, st1)" by (metis prod_cases3)
    with r FWrite write_bound [OF ok sk one] show ?thesis by (auto dest: fsend_result_state fsend_result_end)
  next
    case (FWriteAt o' d)
    obtain r1 st1 where one: "vmo_handle_write_at V dbg o' d c (Initialized i) = (r1, st1)" by fastforce
    with r FWriteAt write_at_bound(1,2) [OF ok one] sk show ?thesis by (auto dest: fsend_result_state fsend_result_end)
  next
    case (FSeek og o')
    obtain r1 c1 where one: "vmo_handle_seek dbg o' og c (Initialized i) = (r1, c1)" by fastforce
    with r FSeek seek_bound [OF ok sk one] state_kept_refl [OF ok] show ?thesis by (auto dest: fsend_result_state fsend_result_end)
  next
    case (FResize m)
    obtain r1 c1 st1 where one: "vmo_handle_truncate V dbg m c (Initialized i) = (r1, c1, st1)" by (metis prod_cases3)
    with r FResize truncate_handler_bound [OF ok sk one] show ?thesis by (auto dest: fsend_result_state fsend_result_end)
  next
    case (FGetBackingMemory g)
    obtain r1 st1 where one: "vmo_handle_get_buffer K V dbg g c (Initialized i) = (r1, st1)" by fastforce
    have "state_kept i st1" using get_buffer_cases(2) [OF ok one] by (auto simp: state_kept_def)
    moreover have "bind_res r1 (\<lambda>(v, _). Inr v) \<noteq> Inl Panic"
      using get_buffer_cases(1) [OF ok one] by (auto simp: bind_res_Inl_iff)
    ultimately show ?thesis using r FGetBackingMemory one sk by (auto dest: fsend_result_state fsend_result_end)
  qed (use r impl sk state_kept_refl [OF ok] in \<open>auto dest: fsend_end fsend_state\<close>)
qed

lemma state_kept_ok:
  assumes "vmo_state_ok contents valid f (Initialized i)" and "state_kept i st"
  shows "vmo_state_ok contents valid f st" and "vmo_count st = unat (vs_count i)"
  using assms by (auto simp: state_kept_def)

lemma ensure_ok:
  assumes "vmo_file_ok contents valid f" and "vmo_state_ok contents valid f st"
  obtains (failed) s where "ensure_vmo V dbg f st = Inl (Err s)" "s \<noteq> OK"
  | (ready) i where "ensure_vmo V dbg f st = Inr i" "vmo_state_ok contents valid f (Initialized i)"
      "unat (vs_count i) = vmo_count st"
proof (cases st)
  case (Initialized i)
  with assms(2) show thesis by (intro ready [of i]) (simp_all add: ensure_vmo_def)
next
  case Uninitialized
  show thesis
  proof (cases "vf_init f")
    case (Inl e)
    with assms(1) obtain s where "e = Err s" "s \<noteq> OK" by (cases e) (auto simp: vmo_file_ok_def)
    with Inl Uninitialized show thesis by (intro failed [of s]) (simp_all add: ensure_vmo_def)
  next
    case (Inr n)
    with assms(1) have n: "valid (nv_vmo n)" "unat (nv_size n) \<le> length (contents (nv_vmo n))"
      "unat (nv_size n) < 2 ^ 63" "unat (nv_capacity n) < 2 ^ 63" by (simp_all add: vmo_file_ok_def)
    note e = ensure_cases [OF Inr n, of dbg, folded Uninitialized]
    show thesis
      by (rule ready [OF e]) (use Inr Uninitialized n in \<open>simp_all add: vmo_limit_def vmo_ok_def\<close>)
  qed
qed

lemma create_ok:
  assumes f: "vmo_file_ok contents valid f" and st: "vmo_state_ok contents valid f st"
    and n: "Suc (vmo_count st) < 2 ^ 64"
    and r: "vmo_create_connection_task K V dbg f so sd flags st = (m, c, st')"
  shows "m \<noteq> Inl Panic \<and> vmo_state_ok contents valid f st' \<and> vmo_count st' \<le> Suc (vmo_count st) \<and>
    vmo_count st + (if c = None then 0 else 1) \<le> vmo_count st' \<and> (\<forall>c'. c = Some c' \<longrightarrow> vc_seek c' = 0)"
proof (cases "file_validate_flags K dbg flags (vf_readable f) (vf_writable f) (vf_executable f) False")
  case (Inl e)
  then have "e \<noteq> Panic" using f by (auto simp: file_validate_flags_def vmo_file_ok_def Let_def split: if_splits)
  then obtain s where "e = Err s" by (cases e) auto
  with Inl validate_status [of K dbg flags] r st show ?thesis
    by (auto simp: vmo_create_connection_task_def)
next
  case (Inr g)
  note v = Inr
  from f st show ?thesis
  proof (cases rule: ensure_ok [of f st dbg])
    case (failed s)
    with Inr r st show ?thesis by (auto simp: vmo_create_connection_task_def)
  next
    case (ready i)
    define t where "t = (if intersects g {TRUNCATE} then truncate_vmo V dbg 0 0 (Initialized i) else (Inr (), 0, Initialized i))"
    obtain r1 seek st1 where t1: "t = (r1, seek, st1)" by (metis prod_cases3)
    have ok: "vmo_ok contents valid i" using ready(2) by simp
    have kept: "r1 \<noteq> Inl Panic \<and> r1 \<noteq> Inl (Err OK) \<and> state_kept i st1 \<and> seek = 0"
      using t1 truncate_bound [OF ok, of dbg 0 0 r1 seek st1] state_kept_refl [OF ok]
      by (auto simp: t_def split: if_splits)
    then obtain i1 where i1: "st1 = Initialized i1" "vmo_ok contents valid i1" by (auto simp: state_kept_def)
    have ok1: "vmo_state_ok contents valid f (Initialized i1)" "unat (vs_count i1) = vmo_count st"
      using state_kept_ok [OF ready(2), of st1] kept ready(3) i1 by auto
    have add: "add_u64 dbg (vs_count i1) 1 = Inr (vs_count i1 + 1)"
      using n ok1(2) by (intro add_u64_ok) simp
    have up: "unat (vs_count i1 + 1) = Suc (vmo_count st)"
      using n ok1(2) by (subst unat_add_u64) simp_all
    have ok2: "vmo_ok contents valid (i1\<lparr> vs_count := vs_count i1 + 1 \<rparr>)"
      using i1(2) by (simp add: vmo_ok_def)
    obtain info where info: "get_node_info V dbg \<lparr> vc_flags = g, vc_seek = 0 \<rparr> (Initialized (i1\<lparr> vs_count := vs_count i1 + 1 \<rparr>)) = Inr info"
      using node_info_ok [OF ok2] by blast
    have lim: "vmo_state_ok contents valid f (Initialized (i1\<lparr> vs_count := vs_count i1 + 1 \<rparr>))"
      using ok1(1) ok2 by simp
    show ?thesis
    proof (cases r1)
      case (Inl e)
      with kept obtain s where "e = Err s" "s \<noteq> OK" by (cases e) auto
      with Inl r t1 i1 ok1 show ?thesis
        unfolding vmo_create_connection_task_def v ready(1) sum.case t_def [symmetric] by auto
    next
      case (Inr u)
      with r t1 i1(1) kept add info up lim show ?thesis
        unfolding vmo_create_connection_task_def v ready(1) sum.case t_def [symmetric]
        by (auto simp: Let_def split: if_splits)
    qed
  qed
qed

lemma live_connection:
  assumes "vmo_system_ok contents valid f k s" and "vy_conns s j = Some c"
  obtains i where "vy_state s = Initialized i" "vmo_ok contents valid i" "0 < unat (vs_count i)"
    "vmo_state_ok contents valid f (Initialized i)"
    "card (dom ((vy_conns s)(j := None))) \<le> unat (vs_count i) - 1" "card (dom (vy_conns s)) \<le> unat (vs_count i)"
proof -
  have j: "j \<in> dom (vy_conns s)" using assms(2) by auto
  have fin: "finite (dom (vy_conns s))" using assms(1) by (simp add: vmo_system_ok_def)
  have "0 < card (dom (vy_conns s))" using j fin by (auto simp: card_gt_0_iff)
  moreover have "card (dom ((vy_conns s)(j := None))) = card (dom (vy_conns s)) - 1"
    using j fin by (simp add: card_Diff_singleton)
  ultimately show thesis using assms(1) that by (cases "vy_state s") (auto simp: vmo_system_ok_def)
qed

lemma close_step:
  assumes "vmo_system_ok contents valid f k s" and "vy_conns s j = Some c"
    and i: "vmo_state_ok contents valid f (Initialized i)" "0 < unat (vs_count i)" "unat (vs_count i) \<le> k"
      "card (dom ((vy_conns s)(j := None))) \<le> unat (vs_count i) - 1"
  shows "vmo_system_ok contents valid f (Suc k)
    \<lparr> vy_conns = (vy_conns s)(j := None), vy_state = Initialized (i\<lparr> vs_count := vs_count i - 1 \<rparr>) \<rparr>"
proof -
  have "vmo_ok contents valid (i\<lparr> vs_count := vs_count i - 1 \<rparr>)" using i(1) by (simp add: vmo_ok_def)
  moreover have "unat (vs_count i - 1) = unat (vs_count i) - 1" using i(1,2) by (intro close_bound(2)) auto
  ultimately show ?thesis using assms by (auto simp: vmo_system_ok_def)
qed

lemma step_ok:
  assumes f: "vmo_file_ok contents valid f" and s: "vmo_system_ok contents valid f k s" and k: "Suc k < 2 ^ 64"
    and ev: "vmo_implemented ev"
  shows "\<exists>s'. vmo_step K V dbg f ev s = Inr s' \<and> vmo_system_ok contents valid f (Suc k) s'"
proof -
  have idle: "vmo_system_ok contents valid f (Suc k) s" using s by (simp add: vmo_system_ok_def)
  show ?thesis
  proof (cases ev)
    case (VCreate j so sd flags)
    show ?thesis
    proof (cases "vy_conns s j")
      case None
      obtain m c st where t: "vmo_create_connection_task K V dbg f so sd flags (vy_state s) = (m, c, st)"
        by (metis prod_cases3)
      have st: "vmo_state_ok contents valid f (vy_state s)" "Suc (vmo_count (vy_state s)) < 2 ^ 64"
        using s k by (simp_all add: vmo_system_ok_def)
      note c = create_ok [OF f st t]
      have j: "j \<notin> dom (vy_conns s)" using None by auto
      have "card (dom ((vy_conns s)(j := c))) \<le> vmo_count st" "finite (dom ((vy_conns s)(j := c)))"
        using s c j by (auto simp: vmo_system_ok_def split: if_splits)
      with c s k VCreate None t show ?thesis
        by (cases m rule: sum.exhaust [case_names Inl Inr])
          (auto simp: vmo_step_def vmo_system_ok_def split: fail.splits)
    qed (use VCreate idle in \<open>auto simp: vmo_step_def\<close>)
  next
    case (VEnd j)
    show ?thesis
    proof (cases "vy_conns s j")
      case (Some c)
      from s Some obtain i where i: "vy_state s = Initialized i" "vmo_ok contents valid i" "0 < unat (vs_count i)"
        "vmo_state_ok contents valid f (Initialized i)" "card (dom ((vy_conns s)(j := None))) \<le> unat (vs_count i) - 1"
        by (rule live_connection)
      have "unat (vs_count i) \<le> k" using s i(1) by (simp add: vmo_system_ok_def)
      from close_step [OF s Some i(4,3) this i(5)] close_bound(1) [OF i(2,3), of dbg] VEnd Some i(1)
      show ?thesis by (simp add: vmo_step_def)
    qed (use VEnd idle in \<open>auto simp: vmo_step_def\<close>)
  next
    case (VRequest j req peer so)
    show ?thesis
    proof (cases "vy_conns s j")
      case (Some c)
      from s Some obtain i where i: "vy_state s = Initialized i" "vmo_ok contents valid i" "0 < unat (vs_count i)"
        "vmo_state_ok contents valid f (Initialized i)" "card (dom ((vy_conns s)(j := None))) \<le> unat (vs_count i) - 1"
        "card (dom (vy_conns s)) \<le> unat (vs_count i)"
        by (rule live_connection)
      have le: "unat (vs_count i) \<le> k" using s i(1) by (simp add: vmo_system_ok_def)
      have sk: "unat (vc_seek c) < 2 ^ 63" using s Some by (auto simp: vmo_system_ok_def)
      obtain c' st rs e where t: "vmo_handle_request K V dbg f peer so req c (Initialized i) = (c', st, rs, e)"
        by (metis prod_cases4)
      have impl: "req \<notin> {FReopen, FDescribe2, FGetAttributes, FUpdateAttributes}" using ev VRequest by simp
      note r = request_ok [OF i(2) sk i(3) impl t]
      show ?thesis
      proof (cases "e = FClosed")
        case True
        with r close_step [OF s Some i(4,3) le i(5)] VRequest Some i(1) t show ?thesis by (auto simp: vmo_step_def)
      next
        case False
        then have kept: "state_kept i st" "unat (vc_seek c') < 2 ^ 63" using r by auto
        then obtain i1 where i1: "st = Initialized i1" "vmo_ok contents valid i1" "vs_count i1 = vs_count i"
          by (auto simp: state_kept_def)
        have ok1: "vmo_state_ok contents valid f (Initialized i1)" using state_kept_ok(1) [OF i(4) kept(1)] i1(1) by simp
        have same: "dom ((vy_conns s)(j \<mapsto> c')) = dom (vy_conns s)" using Some by auto
        have alive: "vmo_system_ok contents valid f (Suc k) \<lparr> vy_conns = (vy_conns s)(j \<mapsto> c'), vy_state = st \<rparr>"
          using s kept(2) i1 ok1 same i(6) le unfolding vmo_system_ok_def vmo_system.simps
          by (auto simp del: dom_fun_upd)
        have "0 < unat (vs_count i1)" "unat (vs_count i1) \<le> k" using i(3) le i1(3) by simp_all
        with close_step [OF s Some ok1] close_bound(1) [OF i1(2)] i(5) i1(3)
        have "vmo_handle_close dbg st = (Inr (), Initialized (i1\<lparr> vs_count := vs_count i1 - 1 \<rparr>)) \<and>
          vmo_system_ok contents valid f (Suc k)
            \<lparr> vy_conns = (vy_conns s)(j := None), vy_state = Initialized (i1\<lparr> vs_count := vs_count i1 - 1 \<rparr>) \<rparr>"
          using i1(1) by simp
        with alive r False VRequest Some i(1) t show ?thesis
          by (cases e) (auto simp: vmo_step_def)
      qed
    qed (use VRequest idle in \<open>auto simp: vmo_step_def\<close>)
  qed
qed

lemma run_ok:
  assumes "vmo_file_ok contents valid f" and "vmo_system_ok contents valid f k s" and "k + length evs < 2 ^ 64"
    and "\<forall>ev \<in> set evs. vmo_implemented ev"
  shows "\<exists>s'. vmo_run K V dbg f evs s = Inr s' \<and> vmo_system_ok contents valid f (k + length evs) s'"
  using assms(2-4)
proof (induction evs arbitrary: k s)
  case (Cons ev evs)
  then have "Suc k < 2 ^ 64" "vmo_implemented ev" by simp_all
  with step_ok [OF assms(1) Cons.prems(1)] obtain s1 where
    s1: "vmo_step K V dbg f ev s = Inr s1" "vmo_system_ok contents valid f (Suc k) s1" by blast
  with Cons.IH [OF s1(2)] Cons.prems show ?case by simp
qed simp

lemma byte_array:
  assumes "vmo_ok contents valid i" and "RIGHT_READABLE \<in> vc_flags c" and "RIGHT_WRITABLE \<in> vc_flags c"
  shows "vmo_handle_read_at V dbg off n c (Initialized i) =
      Inr (take (unat n) (drop (unat off) (file_bytes contents i))) \<and>
    (let limit = max (unat (vs_size i)) (unat (vs_capacity i));
         d = take (limit - unat off) content in
     if limit < unat off
     then vmo_handle_write_at V dbg off content c (Initialized i) = (Inl (Err OUT_OF_RANGE), Initialized i)
     else \<exists>r i'. vmo_handle_write_at V dbg off content c (Initialized i) = (r, Initialized i') \<and>
       vmo_ok contents valid i' \<and>
       (case r of
          Inl e \<Rightarrow> e \<noteq> Panic \<and> file_bytes contents i' = file_bytes contents i
        | Inr k \<Rightarrow> k = word_of_nat (length d) \<and>
            (\<exists>gap. length gap = unat off - unat (vs_size i) \<and>
               file_bytes contents i' =
                 take (unat off) (file_bytes contents i @ gap) @ d @ drop (unat off + length d) (file_bytes contents i) \<and>
               (set (drop (unat (vs_size i)) (contents (vs_vmo i))) \<subseteq> {0} \<longrightarrow> set gap \<subseteq> {0}))))"
proof -
  note read = read_at_slice [OF assms(1,2)]
  from assms(1,3) show ?thesis
  proof (cases rule: write_cases [of i c off dbg content])
    case beyond
    then show ?thesis by (simp add: read)
  next
    case (refused e i')
    then show ?thesis unfolding read Let_def by (auto intro!: exI [of _ "Inl (Err e)"] exI [of _ i'])
  next
    case (written d i' gap)
    then show ?thesis unfolding read Let_def by auto
  qed
qed

lemma buffer_rights:
  assumes "vmo_handle_get_buffer K V dbg flags c st = (Inr (h, n), st')"
  shows "\<exists>rs. vo_rights V h = Inr (rs \<union> RIGHTS_BASIC K) \<and>
    rs \<inter> {ZX_READ, ZX_WRITE, ZX_EXECUTE} = vmo_flags_to_rights flags \<and>
    get_buffer_validate_flags flags (vc_flags c) = Inr () \<and>
    (VMO_WRITE \<in> flags \<longrightarrow> PRIVATE_CLONE \<in> flags \<and> VMO_EXECUTE \<notin> flags)"
proof -
  have sub: "vmo_flags_to_rights flags \<subseteq> {ZX_READ, ZX_WRITE, ZX_EXECUTE}"
    by (auto simp: vmo_flags_to_rights_def split: if_splits)
  have ok: "get_buffer_validate_flags flags (vc_flags c) = Inr ()"
    "VMO_WRITE \<in> flags \<longrightarrow> PRIVATE_CLONE \<in> flags \<and> VMO_EXECUTE \<notin> flags"
    using assms by (auto simp: vmo_handle_get_buffer_def split: sum.splits if_splits)
  obtain v sz where "get_as_private K V (vmo_flags_to_rights flags) sz v = Inr h \<or>
      get_as_shared K V (vmo_flags_to_rights flags) v = Inr h"
    using assms by (auto simp: vmo_handle_get_buffer_def no_connections_def
        split: sum.splits if_splits vmo_state.splits prod.splits)
  then have "vo_rights V h = Inr (vmo_flags_to_rights flags \<union> {ZX_MAP, ZX_GET_PROPERTY, ZX_SET_PROPERTY} \<union> RIGHTS_BASIC K) \<or>
      vo_rights V h = Inr (vmo_flags_to_rights flags \<union> {ZX_MAP, ZX_GET_PROPERTY} \<union> RIGHTS_BASIC K)"
    by (auto simp: get_as_private_def get_as_shared_def Let_def Un_commute
        dest!: replace_rights duplicate_rights)
  then show ?thesis
  proof
    assume r: "vo_rights V h = Inr (vmo_flags_to_rights flags \<union> {ZX_MAP, ZX_GET_PROPERTY, ZX_SET_PROPERTY} \<union> RIGHTS_BASIC K)"
    show ?thesis
      by (rule exI [of _ "vmo_flags_to_rights flags \<union> {ZX_MAP, ZX_GET_PROPERTY, ZX_SET_PROPERTY}"])
        (use r ok sub in auto)
  next
    assume r: "vo_rights V h = Inr (vmo_flags_to_rights flags \<union> {ZX_MAP, ZX_GET_PROPERTY} \<union> RIGHTS_BASIC K)"
    show ?thesis
      by (rule exI [of _ "vmo_flags_to_rights flags \<union> {ZX_MAP, ZX_GET_PROPERTY}"]) (use r ok sub in auto)
  qed
qed

lemma describe_rights:
  assumes "get_node_info V dbg c (Initialized i) = Inr (InfoVmofile h n)"
  shows "\<exists>r. vo_rights V (vs_vmo i) = Inr r \<and> n = vs_size i \<and> RIGHT_WRITABLE \<notin> vc_flags c \<and>
    vo_rights V h = Inr (r - {ZX_WRITE, ZX_SET_PROPERTY} - (if RIGHT_EXECUTABLE \<in> vc_flags c then {} else {ZX_EXECUTE}))"
  using assms
  by (auto simp: get_node_info_def Let_def dest!: duplicate_rights split: if_splits sum.splits)

end

section \<open>A VMO of pages\<close>

text \<open>
  A VMO as the kernel documents it: its size is a number of pages, so a resize rounds up; only a
  resizable VMO can be resized.
\<close>

record page_vmo =
  pv_bytes :: bytes
  pv_resizable :: bool
  pv_content_size :: "64 word"
  pv_rights :: Rights

definition page_size :: nat where
  "page_size = 4096"

definition page_round_up :: "nat \<Rightarrow> nat" where
  "page_round_up n = (n + page_size - 1) div page_size * page_size"

definition page_ops :: "page_vmo vmo_ops" where
  "page_ops =
     \<lparr> vo_get_size = (\<lambda>v. Inr (word_of_nat (length (pv_bytes v)))),
       vo_set_size = (\<lambda>n v.
         if \<not> pv_resizable v then (Inl (Err UNAVAILABLE), v)
         else if 2 ^ 64 \<le> page_round_up (unat n) then (Inl (Err OUT_OF_RANGE), v)
         else (Inr (), v\<lparr> pv_bytes := take (page_round_up (unat n))
                 (pv_bytes v @ replicate (page_round_up (unat n) - length (pv_bytes v)) 0) \<rparr>)),
       vo_set_content_size = (\<lambda>n v. (Inr (), v\<lparr> pv_content_size := n \<rparr>)),
       vo_read = (\<lambda>k off v. if unat off + k \<le> length (pv_bytes v) then Inr (take k (drop (unat off) (pv_bytes v)))
                           else Inl (Err OUT_OF_RANGE)),
       vo_write = (\<lambda>d off v. if unat off + length d \<le> length (pv_bytes v)
         then (Inr (), v\<lparr> pv_bytes := take (unat off) (pv_bytes v) @ d @ drop (unat off + length d) (pv_bytes v) \<rparr>)
         else (Inl (Err OUT_OF_RANGE), v)),
       vo_rights = (\<lambda>v. Inr (pv_rights v)),
       vo_duplicate = (\<lambda>r v. if r \<subseteq> pv_rights v then Inr (v\<lparr> pv_rights := r \<rparr>) else Inl (Err INVALID_ARGS)),
       vo_create_child = (\<lambda>opts a b v. Inr (v\<lparr> pv_resizable := CHILD_RESIZABLE \<in> opts \<rparr>)),
       vo_replace = (\<lambda>r v. Inr (v\<lparr> pv_rights := r \<rparr>)) \<rparr>"

definition page_valid :: "page_vmo \<Rightarrow> bool" where
  "page_valid v \<longleftrightarrow> length (pv_bytes v) < 2 ^ 64"

lemma page_round_up_le: "n \<le> page_round_up n"
proof -
  have "n + page_size - 1 < (n + page_size - 1) div page_size * page_size + page_size"
    by (metis (no_types) div_mult_mod_eq mod_less_divisor nat_add_left_cancel_less page_size_def zero_less_numeral)
  then show ?thesis unfolding page_round_up_def by (simp add: page_size_def)
qed

lemma page_resize:
  fixes b :: bytes
  shows "n \<le> m \<Longrightarrow> take n (take m (b @ replicate (m - length b) 0)) = take n (b @ replicate n 0)"
  by (cases "n \<le> length b") (auto simp: min_def)

interpretation pages: vmo_kernel page_ops pv_bytes page_valid
proof
  fix v v' :: page_vmo and n u
  assume "page_valid v" and s: "vo_set_size page_ops n v = (Inr u, v')"
  then have v': "v' = v\<lparr> pv_bytes := take (page_round_up (unat n))
      (pv_bytes v @ replicate (page_round_up (unat n) - length (pv_bytes v)) 0) \<rparr>" "page_round_up (unat n) < 2 ^ 64"
    by (auto simp: page_ops_def split: if_splits)
  then show "page_valid v' \<and> unat n \<le> length (pv_bytes v') \<and>
      take (unat n) (pv_bytes v') = take (unat n) (pv_bytes v @ replicate (unat n) 0)"
    using page_resize [OF page_round_up_le, of "unat n" "pv_bytes v"] page_round_up_le [of "unat n"]
    by (auto simp: page_valid_def)
qed (auto simp: page_ops_def page_valid_def split: if_splits)

section \<open>Properties\<close>


definition example_file :: "page_vmo vmo_file" where
  "example_file =
     \<lparr> vf_init = Inr \<lparr> nv_vmo = \<lparr> pv_bytes = replicate 4 7, pv_resizable = True, pv_content_size = 3, pv_rights = UNIV \<rparr>,
                      nv_size = 3, nv_capacity = 100 \<rparr>,
       vf_readable = True, vf_writable = True, vf_executable = False, vf_inode = 1 \<rparr>"



definition example_init :: "page_vmo vmo_init" where
  "example_init =
     \<lparr> vs_vmo = \<lparr> pv_bytes = [1, 2, 3, 0], pv_resizable = False, pv_content_size = 3, pv_rights = UNIV \<rparr>,
       vs_size = 3, vs_vmo_size = 4, vs_capacity = 4, vs_count = 1 \<rparr>"

lemma example_init_ok: "vmo_ok pv_bytes page_valid example_init"
  by (simp add: vmo_ok_def example_init_def page_valid_def)




section \<open>Two deviations\<close>

text \<open>Describing the file to a connection with no rights at all hands out a readable VMO.\<close>

lemma describe_leaks_read:
  "file_validate_flags fio_values True {} True False False False = Inr {} \<and>
   (\<exists>h. get_node_info page_ops True \<lparr> vc_flags = {}, vc_seek = 0 \<rparr> (Initialized example_init) =
     Inr (InfoVmofile h 3) \<and> (\<exists>r. vo_rights page_ops h = Inr r \<and> ZX_READ \<in> r))"
  by (simp add: file_validate_flags_def get_node_info_def example_init_def page_ops_def intersects_def)

text \<open>A connection that is counted but never set up stays counted.\<close>

lemma failed_creation_counted:
  "\<exists>i. vmo_create_connection_task fio_values page_ops True example_file True False {RIGHT_READABLE, DESCRIBE} Uninitialized =
     (Inr [], None, Initialized i) \<and> vs_count i = 1"
  by (simp add: vmo_create_connection_task_def file_validate_flags_def ensure_vmo_def example_file_def page_ops_def
      intersects_def add_u64_def get_node_info_def)

end
