(* ===== verification/Vmo_Read_Only.thy ===== *)
theory Vmo_Read_Only
  imports Vmo_File
begin

text \<open>
  \<open>ReadOnlyVmoFile\<close> of \<open>file/vmo.rs\<close>: a file over a memory object that the caller hands in. It shares the connections of
  \<open>VmoFile\<close>; its state is initialized from the start, and its \<open>init_vmo\<close> is \<open>unreachable!()\<close>.
\<close>

definition read_only_vmo_file :: "fio \<Rightarrow> 'v vmo_file" where
  "read_only_vmo_file K =
     \<lparr> vf_init = Inl Panic, vf_readable = True, vf_writable = False, vf_executable = False, vf_inode = INO_UNKNOWN K \<rparr>"

definition read_only_vmo_new :: "'v \<Rightarrow> 64 word \<Rightarrow> 'v vmo_state" where
  "read_only_vmo_new vmo sz =
     Initialized \<lparr> vs_vmo = vmo, vs_size = sz, vs_vmo_size = sz, vs_capacity = sz, vs_count = 0 \<rparr>"

definition read_only_vmo_open :: "bool \<Rightarrow> OpenFlags \<Rightarrow> bool \<Rightarrow> vmo_open" where
  "read_only_vmo_open stream_ok flags path_empty =
     (if \<not> path_empty then VmoOpenRefused (send_on_open_with_error stream_ok flags NOT_DIR)
      else VmoOpenConnection flags)"

definition read_only_vmo_entry_info :: "fio \<Rightarrow> EntryInfo" where
  "read_only_vmo_entry_info K = EntryInfo (INO_UNKNOWN K) DtFile"

section \<open>The object is never replaced nor written\<close>

text \<open>What stays: the state is initialized, with these bytes and this size.\<close>

definition holds :: "('v \<Rightarrow> bytes) \<Rightarrow> ('v \<Rightarrow> bool) \<Rightarrow> bytes \<Rightarrow> 64 word \<Rightarrow> 'v vmo_state \<Rightarrow> bool" where
  "holds contents valid b sz st \<longleftrightarrow>
     (\<exists>i. st = Initialized i \<and> valid (vs_vmo i) \<and> take (unat sz) (contents (vs_vmo i)) = b \<and> vs_size i = sz)"

lemma validated_not_writable:
  assumes "fio_node_reference K" and "file_validate_flags K dbg flags r False x a = Inr flags'"
  shows "RIGHT_WRITABLE \<notin> flags' \<and> TRUNCATE \<notin> flags'"
  using assms by (auto simp: file_validate_flags_def fio_node_reference_def Let_def intersects_def split: if_splits)

lemma close_holds:
  "holds contents valid b sz st \<Longrightarrow> vmo_handle_close dbg st = (r, st') \<Longrightarrow> holds contents valid b sz st'"
  by (auto simp: holds_def vmo_handle_close_def split: if_splits)

context vmo_kernel
begin

lemma get_buffer_holds:
  assumes "holds contents valid b sz st" and "vmo_handle_get_buffer K V dbg flags c st = (r, st')"
  shows "holds contents valid b sz st'"
proof -
  obtain i where i: "st = Initialized i" "valid (vs_vmo i)" "take (unat sz) (contents (vs_vmo i)) = b" "vs_size i = sz"
    using assms(1) by (auto simp: holds_def)
  obtain v' where "vo_set_content_size V sz (vs_vmo i) = (Inr (), v')" "valid v'"
    "take (unat sz) (contents v') = take (unat sz) (contents (vs_vmo i))"
    using content_size [OF i(2)] by blast
  with assms(2) i show ?thesis
    by (auto simp: vmo_handle_get_buffer_def holds_def split: sum.splits if_splits)
qed

lemma request_holds:
  assumes "holds contents valid b sz st" and "RIGHT_WRITABLE \<notin> vc_flags c"
    and "vmo_handle_request K V dbg f peer so req c st = (c', st', rs, e)"
  shows "holds contents valid b sz st' \<and> vc_flags c' = vc_flags c"
proof -
  have w: "\<not> intersects (vc_flags c) {RIGHT_WRITABLE}" using assms(2) by (simp add: intersects_def)
  show ?thesis
  proof (cases req)
    case (FRead n)
    then show ?thesis using assms
      by (auto simp: vmo_handle_read_def dest!: fsend_result_state split: sum.splits option.splits prod.splits)
  next
    case (FSeek og o')
    then show ?thesis using assms
      by (auto simp: vmo_handle_seek_def Let_def dest!: fsend_result_state split: vmo_state.splits if_splits prod.splits)
  next
    case FClose
    then show ?thesis using assms close_holds [OF assms(1)]
      by (auto split: prod.splits sum.splits fail.splits)
  next
    case (FGetBackingMemory g)
    then show ?thesis using assms get_buffer_holds [OF assms(1)]
      by (auto dest!: fsend_result_state split: prod.splits)
  qed (use assms w in \<open>auto simp: vmo_handle_write_def vmo_handle_write_at_def vmo_handle_truncate_def
         dest!: fsend_result_state fsend_state split: sum.splits fail.splits if_splits prod.splits file_clone.splits\<close>)
qed

lemma create_holds:
  assumes "fio_node_reference K" and "holds contents valid b sz st" and "vf_writable f = False"
    and "vmo_create_connection_task K V dbg f so sd flags st = (m, oc, st')"
  shows "holds contents valid b sz st' \<and> (\<forall>c. oc = Some c \<longrightarrow> RIGHT_WRITABLE \<notin> vc_flags c)"
proof -
  obtain i where i: "st = Initialized i" using assms(2) by (auto simp: holds_def)
  show ?thesis
  proof (cases "file_validate_flags K dbg flags (vf_readable f) (vf_writable f) (vf_executable f) False")
    case (Inl e)
    then show ?thesis using assms(2,4) by (cases e) (auto simp: vmo_create_connection_task_def)
  next
    case (Inr flags')
    then have "RIGHT_WRITABLE \<notin> flags'" "\<not> intersects flags' {TRUNCATE}"
      using validated_not_writable [OF assms(1)] assms(3) by (auto simp: intersects_def)
    then show ?thesis using assms(2,4) i Inr
      by (auto simp: vmo_create_connection_task_def ensure_vmo_def holds_def Let_def
          split: sum.splits fail.splits if_splits)
  qed
qed

definition ro_system :: "bytes \<Rightarrow> 64 word \<Rightarrow> 'v vmo_system \<Rightarrow> bool" where
  "ro_system b sz s \<longleftrightarrow>
     holds contents valid b sz (vy_state s) \<and> (\<forall>k c. vy_conns s k = Some c \<longrightarrow> RIGHT_WRITABLE \<notin> vc_flags c)"

lemma ro_system_step:
  assumes "fio_node_reference K" and "ro_system b sz s" and "vf_writable f = False" and "vmo_step K V dbg f ev s = Inr s'"
  shows "ro_system b sz s'"
proof (cases ev)
  case (VCreate k so sd flags)
  obtain m oc st where t: "vmo_create_connection_task K V dbg f so sd flags (vy_state s) = (m, oc, st)" by (metis prod_cases3)
  with create_holds [OF assms(1) _ assms(3) t] assms VCreate show ?thesis
    by (auto simp: ro_system_def vmo_step_def split: if_splits sum.splits fail.splits)
next
  case (VRequest k req peer so)
  show ?thesis
  proof (cases "vy_conns s k")
    case None
    then show ?thesis using assms VRequest by (simp add: vmo_step_def)
  next
    case (Some c)
    obtain c' st rs e where t: "vmo_handle_request K V dbg f peer so req c (vy_state s) = (c', st, rs, e)"
      by (metis prod_cases4)
    from request_holds [OF _ _ t, of b sz] assms(2) Some
    have h: "holds contents valid b sz st" "RIGHT_WRITABLE \<notin> vc_flags c'" by (auto simp: ro_system_def)
    show ?thesis using assms(2,4) VRequest Some t h close_holds [OF h(1)]
      by (auto simp: ro_system_def vmo_step_def split: file_end.splits prod.splits sum.splits fail.splits if_splits)
  qed
next
  case (VEnd k)
  then show ?thesis using assms(2,4) close_holds [of contents valid b sz "vy_state s"]
    by (auto simp: ro_system_def vmo_step_def split: option.splits prod.splits sum.splits fail.splits if_splits)
qed

lemma ro_system_run:
  "\<lbrakk> fio_node_reference K; ro_system b sz s; vf_writable f = False; vmo_run K V dbg f evs s = Inr s' \<rbrakk> \<Longrightarrow> ro_system b sz s'"
  by (induction evs arbitrary: s) (auto dest: ro_system_step simp: bind_res_Inr_iff)

end

text \<open>\<open>init_vmo\<close> matters only as long as the state is not initialized.\<close>

lemma step_without_init:
  assumes "vy_state s = Initialized i"
  shows "vmo_step K V dbg (f\<lparr> vf_init := a \<rparr>) ev s = vmo_step K V dbg f ev s"
proof -
  have e: "ensure_vmo V dbg g (Initialized i) = Inr i" for g by (simp add: ensure_vmo_def)
  have c: "vmo_create_connection_task K V dbg (f\<lparr> vf_init := a \<rparr>) so sd flags (vy_state s) =
      vmo_create_connection_task K V dbg f so sd flags (vy_state s)" for so sd flags
    unfolding vmo_create_connection_task_def assms e by simp
  have r: "vmo_handle_request K V dbg (f\<lparr> vf_init := a \<rparr>) peer so req c (vy_state s) =
      vmo_handle_request K V dbg f peer so req c (vy_state s)" for peer so req c
    by (cases req) (simp_all add: vmo_handle_get_attr_def)
  show ?thesis unfolding vmo_step_def c r ..
qed

lemma run_without_init:
  assumes "vmo_kernel V contents valid" and "fio_node_reference K" and "vmo_kernel.ro_system contents valid b sz s"
    and "vf_writable f = False"
  shows "vmo_run K V dbg (f\<lparr> vf_init := a \<rparr>) evs s = vmo_run K V dbg f evs s"
  using assms(3)
proof (induction evs arbitrary: s)
  case Nil
  show ?case by simp
next
  case (Cons ev evs)
  then obtain i where "vy_state s = Initialized i"
    by (auto simp: vmo_kernel.ro_system_def [OF assms(1)] holds_def)
  note st = step_without_init [OF this, where K = K and V = V and dbg = dbg and f = f and a = a and ev = ev]
  show ?case
  proof (cases "vmo_step K V dbg f ev s")
    case (Inr s1)
    then show ?thesis
      using Cons.IH [of s1] vmo_kernel.ro_system_step [OF assms(1,2) Cons.prems assms(4)] st by simp
  qed (use st in simp)
qed


definition example_vmo :: page_vmo where
  "example_vmo = \<lparr> pv_bytes = replicate 4 7, pv_resizable = True, pv_content_size = 3, pv_rights = UNIV \<rparr>"

lemma example_read_only_run:
  "\<exists>s. vmo_run fio_values page_ops True (read_only_vmo_file fio_values)
      [VCreate 0 True True {RIGHT_READABLE}, VRequest 0 (FWrite [1]) True True, VCreate 1 True True {RIGHT_WRITABLE}, VEnd 0]
      \<lparr> vy_conns = (\<lambda>_. None), vy_state = read_only_vmo_new example_vmo 3 \<rparr> = Inr s \<and> vy_conns s = (\<lambda>_. None)"
  by (simp add: vmo_step_def vmo_create_connection_task_def file_validate_flags_def ensure_vmo_def read_only_vmo_file_def
      read_only_vmo_new_def intersects_def add_u64_def vmo_handle_write_def vmo_handle_write_at_def fsend_result_def fsend_def
      vmo_handle_close_def send_on_open_with_error_def Let_def)


text \<open>
  The states of a file are documented as "no connections" and "one or more connections"; closing the last connection keeps
  the state initialized, with a count of zero, so the object is not created anew by the next connection.
\<close>

lemma closed_file_stays_initialized:
  "vs_count i = 1 \<Longrightarrow> vmo_handle_close dbg (Initialized i) = (Inr (), Initialized (i\<lparr> vs_count := 0 \<rparr>))"
  by (simp add: vmo_handle_close_def)

end
