(* ===== verification/Tree_Builder.thy ===== *)
theory Tree_Builder
  imports Simple_Dir "HOL-Library.AList" "HOL-Library.Multiset"
begin

text \<open>
  \<open>tree_builder.rs\<close>: collecting entries under paths in a tree, and building the directories that serve
  them. A node of the builder is a directory of named nodes or a leaf. The map of a directory is an
  association list with distinct names; the order in which a hash map is drained is the order of the
  list, and every statement holds for all of them. Built directories live at addresses, as in the
  simple filesystem.
\<close>

section \<open>Paths and errors\<close>

text \<open>A path is the list of its components; it is displayed with slashes in between.\<close>

datatype 'e tree = TDir "(string \<times> 'e tree) list" | TLeaf 'e

datatype tree_error =
    EmptyPath
  | SlashInComponent string string
  | ComponentNameTooLong string string nat nat
  | LeafOverDirectory string
  | LeafOverLeaf string
  | EntryInsideLeaf string string

definition empty_dir :: "'e tree" where
  "empty_dir = TDir []"

section \<open>Adding entries\<close>

text \<open>
  An inserter works on the map of the last directory of a path; it gets the name, the path for error
  messages and the components traversed.
\<close>

type_synonym 'e inserter =
  "(string \<times> 'e tree) list \<Rightarrow> string \<Rightarrow> string \<Rightarrow> string list \<Rightarrow> (tree_error + unit) \<times> (string \<times> 'e tree) list"

fun add_path ::
  "fio \<Rightarrow> string \<Rightarrow> string list \<Rightarrow> string \<Rightarrow> string list \<Rightarrow> 'e inserter \<Rightarrow> 'e tree \<Rightarrow> (tree_error + unit) \<times> 'e tree" where
  "add_path K full_path traversed name rest ins t =
     (if length name \<ge> MAX_FILENAME K
      then (Inl (ComponentNameTooLong full_path name (length name) (MAX_FILENAME K - 1)), t)
      else if slash \<in> set name then (Inl (SlashInComponent full_path name), t)
      else
        case t of
          TLeaf _ \<Rightarrow> (Inl (EntryInsideLeaf full_path (str_join slash traversed)), t)
        | TDir entries \<Rightarrow>
            (case rest of
               [] \<Rightarrow> let (r, entries') = ins entries name full_path traversed in (r, TDir entries')
             | next_component # rest' \<Rightarrow>
                 (case map_of entries name of
                    None \<Rightarrow>
                      (case add_path K full_path (traversed @ [name]) next_component rest' ins (TDir []) of
                         (Inl e, _) \<Rightarrow> (Inl e, t)
                       | (Inr _, child) \<Rightarrow> (Inr (), TDir (AList.update name child entries)))
                  | Some children \<Rightarrow>
                      let (r, children') = add_path K full_path (traversed @ [name]) next_component rest' ins children in
                      (r, TDir (AList.update name children' entries)))))"

declare add_path.simps [simp del]

definition insert_leaf :: "'e \<Rightarrow> 'e inserter" where
  "insert_leaf entry entries name full_path traversed =
     (case map_of entries name of
        None \<Rightarrow> Inr ()
      | Some (TDir _) \<Rightarrow> Inl (LeafOverDirectory full_path)
      | Some (TLeaf _) \<Rightarrow> Inl (LeafOverLeaf full_path),
      AList.update name (TLeaf entry) entries)"

definition insert_dir :: "'e inserter" where
  "insert_dir entries name full_path traversed =
     (case map_of entries name of
        None \<Rightarrow> (Inr (), AList.update name (TDir []) entries)
      | Some (TDir _) \<Rightarrow> (Inr (), entries)
      | Some (TLeaf _) \<Rightarrow> (Inl (EntryInsideLeaf full_path (str_join slash traversed)), entries))"

definition tree_add_entry :: "fio \<Rightarrow> string list \<Rightarrow> 'e \<Rightarrow> 'e tree \<Rightarrow> (tree_error + unit) \<times> 'e tree" where
  "tree_add_entry K path entry t =
     (case path of
        [] \<Rightarrow> (Inl EmptyPath, t)
      | name # rest \<Rightarrow> add_path K (str_join slash path) [] name rest (insert_leaf entry) t)"

definition tree_add_empty_dir :: "fio \<Rightarrow> string list \<Rightarrow> 'e tree \<Rightarrow> (tree_error + unit) \<times> 'e tree" where
  "tree_add_empty_dir K path t =
     (case path of
        [] \<Rightarrow> (Inl EmptyPath, t)
      | name # rest \<Rightarrow> add_path K (str_join slash path) [] name rest insert_dir t)"

section \<open>Building the directories\<close>

datatype 'e node = DirNode nat | LeafNode 'e

text \<open>The directories built so far, the next address, and the state of the inode generator.\<close>

record ('e, 'g) build_state =
  b_dirs :: "'e node dir_store"
  b_next :: nat
  b_gen :: 'g

definition new_directory :: "64 word \<times> 'g \<Rightarrow> ('e, 'g) build_state \<Rightarrow> nat \<times> ('e, 'g) build_state" where
  "new_directory ig s =
     (b_next s, \<lparr> b_dirs = (b_dirs s)(b_next s \<mapsto> immutable_simple_with_inode (fst ig)),
                 b_next = Suc (b_next s), b_gen = snd ig \<rparr>)"

text \<open>\<open>add_entry(..).expect(..)\<close> on a built directory.\<close>

definition expect_add ::
  "fio \<Rightarrow> bool \<Rightarrow> nat \<Rightarrow> string \<Rightarrow> 'e node \<Rightarrow> ('e, 'g) build_state \<Rightarrow> ('e, 'g) build_state result" where
  "expect_add K dbg a name n s =
     (case b_dirs s a of
        None \<Rightarrow> Inl Panic
      | Some d \<Rightarrow>
          (case add_entry K dbg name n d of
             (Inl _, _) \<Rightarrow> Inl Panic
           | (Inr _, d') \<Rightarrow> Inr (s\<lparr> b_dirs := (b_dirs s)(a \<mapsto> d') \<rparr>)))"

fun build_dyn ::
    "fio \<Rightarrow> bool \<Rightarrow> (string \<Rightarrow> 'g \<Rightarrow> 64 word \<times> 'g) \<Rightarrow> 'e tree \<Rightarrow> string \<Rightarrow> ('e, 'g) build_state \<Rightarrow>
     ('e node \<times> ('e, 'g) build_state) result"
  and build_entries ::
    "fio \<Rightarrow> bool \<Rightarrow> (string \<Rightarrow> 'g \<Rightarrow> 64 word \<times> 'g) \<Rightarrow> (string \<times> 'e tree) list \<Rightarrow> nat \<Rightarrow> ('e, 'g) build_state \<Rightarrow>
     ('e, 'g) build_state result" where
  "build_dyn K dbg get_inode (TLeaf entry) dir s = Inr (LeafNode entry, s)"
| "build_dyn K dbg get_inode (TDir entries) dir s =
     (let (a, s1) = new_directory (get_inode dir (b_gen s)) s in
      bind_res (build_entries K dbg get_inode entries a s1) (\<lambda>s2. Inr (DirNode a, s2)))"
| "build_entries K dbg get_inode [] a s = Inr s"
| "build_entries K dbg get_inode ((name, child) # entries) a s =
     bind_res (build_dyn K dbg get_inode child name s) (\<lambda>(n, s1).
       bind_res (expect_add K dbg a name n s1) (\<lambda>s2. build_entries K dbg get_inode entries a s2))"

definition build_with_inode_generator ::
  "fio \<Rightarrow> bool \<Rightarrow> (string \<Rightarrow> 'g \<Rightarrow> 64 word \<times> 'g) \<Rightarrow> 'e tree \<Rightarrow> ('e, 'g) build_state \<Rightarrow>
   (nat \<times> ('e, 'g) build_state) result" where
  "build_with_inode_generator K dbg get_inode t s =
     (case t of
        TDir entries \<Rightarrow>
          (let (a, s1) = new_directory (get_inode ''.'' (b_gen s)) s in
           bind_res (build_entries K dbg get_inode entries a s1) (\<lambda>s2. Inr (a, s2)))
      | TLeaf _ \<Rightarrow> Inl Panic)"

definition tree_build :: "fio \<Rightarrow> bool \<Rightarrow> 'e tree \<Rightarrow> ('e, unit) build_state \<Rightarrow> (nat \<times> ('e, unit) build_state) result" where
  "tree_build K dbg t s = build_with_inode_generator K dbg (\<lambda>_ g. (INO_UNKNOWN K, g)) t s"

section \<open>The leaves of a tree\<close>

fun leaf_at :: "'e tree \<Rightarrow> string list \<Rightarrow> 'e option" where
  "leaf_at (TLeaf e) p = (if p = [] then Some e else None)"
| "leaf_at (TDir entries) [] = None"
| "leaf_at (TDir entries) (c # cs) = (case map_of entries c of None \<Rightarrow> None | Some t \<Rightarrow> leaf_at t cs)"

fun tree_wf :: "fio \<Rightarrow> 'e tree \<Rightarrow> bool" where
  "tree_wf K (TLeaf e) = True"
| "tree_wf K (TDir entries) =
     (distinct (map fst entries) \<and>
      (\<forall>(n, t) \<in> set entries. length n < MAX_FILENAME K \<and> slash \<notin> set n \<and> tree_wf K t))"

lemma wf_empty [simp]: "tree_wf K (TDir [])"
  by simp

lemma wf_lookup: "tree_wf K (TDir es) \<Longrightarrow> map_of es c = Some t \<Longrightarrow> tree_wf K t"
  by (auto dest!: map_of_SomeD)

lemma wf_update:
  assumes "tree_wf K (TDir es)" and "length n < MAX_FILENAME K" and "slash \<notin> set n" and "tree_wf K t"
  shows "tree_wf K (TDir (AList.update n t es))"
proof -
  have "distinct (map fst (AList.update n t es))" using assms(1) by (simp add: distinct_update)
  moreover have "set (AList.update n t es) \<subseteq> insert (n, t) (set es)"
    by (induction es) auto
  ultimately show ?thesis using assms by auto
qed

declare tree_wf.simps(2) [simp del]

text \<open>The leaves after one node of a directory has been replaced.\<close>

lemma leaf_at_update:
  "leaf_at (TDir (AList.update n t es)) p =
     (case p of [] \<Rightarrow> None | c # cs \<Rightarrow> if c = n then leaf_at t cs else leaf_at (TDir es) p)"
  by (cases p) (simp_all add: update_conv')

text \<open>
  What the two inserters share: on success the directory stays well formed, nothing was at the name
  that holds leaves which are lost, and the leaves are those before, with the new one if it adds one.
\<close>

locale leaf_inserter =
  fixes ins :: "'e inserter" and new :: "'e option"
  assumes ins_wf: "tree_wf K (TDir es) \<Longrightarrow> length n < MAX_FILENAME K \<Longrightarrow> slash \<notin> set n \<Longrightarrow>
           tree_wf K (TDir (snd (ins es n full tr)))"
    and ins_leaves: "ins es n full tr = (Inr u, es') \<Longrightarrow>
           leaf_at (TDir es') = (if new = None then leaf_at (TDir es) else (leaf_at (TDir es))([n] := new))"
    and ins_free: "ins es n full tr = (Inr u, es') \<Longrightarrow> new \<noteq> None \<Longrightarrow> map_of es n = None"
begin

lemma add_path_wf:
  assumes "tree_wf K t"
  shows "tree_wf K (snd (add_path K full tr n rest ins t))"
  using assms
proof (induction rest arbitrary: tr n t)
  case Nil
  then show ?case
    using ins_wf [where K = K and n = n and full = full and tr = tr]
    by (cases t) (auto simp: add_path.simps split: prod.splits, metis snd_conv)
next
  case (Cons m rest)
  have IH: "add_path K full tr' m rest ins t' = (r, t'') \<Longrightarrow> tree_wf K t' \<Longrightarrow> tree_wf K t''" for tr' t' t'' r
    using Cons.IH [of t' tr' m] by simp
  from Cons.prems show ?case
    by (cases t) (auto simp: add_path.simps [of K full tr n "m # rest"] intro!: wf_update
        intro: IH wf_lookup split: prod.splits option.splits sum.splits)
qed

lemma add_path_leaves:
  assumes "add_path K full tr n rest ins t = (Inr u, t')"
  shows "leaf_at t' = (if new = None then leaf_at t else (leaf_at t)(n # rest := new))"
    and "new \<noteq> None \<Longrightarrow> leaf_at t (n # rest) = None"
proof -
  have "leaf_at t' = (if new = None then leaf_at t else (leaf_at t)(n # rest := new)) \<and>
    (new \<noteq> None \<longrightarrow> leaf_at t (n # rest) = None)"
    using assms
  proof (induction rest arbitrary: tr n t t')
    case Nil
    then obtain es es' where es: "t = TDir es" "ins es n full tr = (Inr u, es')" "t' = TDir es'"
      by (auto simp: add_path.simps split: if_splits tree.splits prod.splits)
    with ins_leaves [OF es(2)] ins_free [OF es(2)] show ?case by auto
  next
    case (Cons m rest)
    obtain es where t: "t = TDir es" using Cons.prems
      by (auto simp: add_path.simps [of K full tr n] split: if_splits tree.splits)
    define c where "c = (case map_of es n of None \<Rightarrow> TDir [] | Some c \<Rightarrow> c)"
    have "\<exists>c' v. add_path K full (tr @ [n]) m rest ins c = (Inr v, c') \<and> t' = TDir (AList.update n c' es)"
      using Cons.prems unfolding t c_def
      by (auto simp: add_path.simps [of K full tr n] split: if_splits option.splits prod.splits sum.splits)
    then obtain c' where c': "add_path K full (tr @ [n]) m rest ins c = (Inr u, c')" "t' = TDir (AList.update n c' es)"
      by (metis (full_types) old.unit.exhaust)
    have old: "leaf_at t (n # q) = (if map_of es n = None then None else leaf_at c q)" for q
      by (simp add: t c_def split: option.split)
    have empty: "map_of es n = None \<Longrightarrow> leaf_at c q = None" for q by (cases q) (simp_all add: c_def)
    from Cons.IH [OF c'(1)] show ?case
      using old empty unfolding c'(2) leaf_at_update
      by (auto simp: fun_eq_iff t leaf_at_update split: list.splits if_splits)
  qed
  then show "leaf_at t' = (if new = None then leaf_at t else (leaf_at t)(n # rest := new))"
    "new \<noteq> None \<Longrightarrow> leaf_at t (n # rest) = None" by auto
qed

end

interpretation leaf: leaf_inserter "insert_leaf e" "Some e" for e
proof
  show "leaf_at (TDir es') = (if Some e = None then leaf_at (TDir es) else (leaf_at (TDir es))([n] := Some e))"
    if "insert_leaf e es n full tr = (Inr u, es')" for e es n full tr u es'
  proof -
    have es': "es' = AList.update n (TLeaf e) es" "map_of es n = None"
      using that by (auto simp: insert_leaf_def split: option.splits tree.splits)
    show ?thesis unfolding es'(1) using es'(2)
      by (auto simp: fun_eq_iff leaf_at_update split: list.splits)
  qed
qed (auto simp: insert_leaf_def intro: wf_update split: option.splits tree.splits)

interpretation dir: leaf_inserter insert_dir None
proof
  show "leaf_at (TDir es') = (if None = None then leaf_at (TDir es) else (leaf_at (TDir es))([n] := None))"
    if "insert_dir es n full tr = (Inr u, es')" for es n full tr u es'
  proof (cases "map_of es n")
    case None
    with that have es': "es' = AList.update n (TDir []) es" by (simp add: insert_dir_def)
    have "leaf_at (TDir []) q = None" for q by (cases q) simp_all
    then show ?thesis unfolding es' using None by (auto simp: fun_eq_iff leaf_at_update split: list.splits)
  qed (use that in \<open>auto simp: insert_dir_def split: tree.splits\<close>)
qed (auto simp: insert_dir_def intro: wf_update split: option.splits tree.splits)

section \<open>The built directories mirror the tree\<close>

text \<open>
  \<open>mirrors st lo hi t n\<close>: below node \<open>n\<close>, through the directories at addresses from \<open>lo\<close> up to \<open>hi\<close>, there is
  exactly the tree \<open>t\<close>.
\<close>

fun mirrors :: "'e node dir_store \<Rightarrow> nat \<Rightarrow> nat \<Rightarrow> 'e tree \<Rightarrow> 'e node \<Rightarrow> bool" where
  "mirrors st lo hi (TLeaf e) n = (n = LeafNode e)"
| "mirrors st lo hi (TDir es) n =
     (\<exists>a d. n = DirNode a \<and> lo \<le> a \<and> a < hi \<and> st a = Some d \<and> dir_inv d \<and> dom (dir_map d) = fst ` set es \<and>
        (\<forall>(c, t) \<in> set es. \<exists>m. dir_map d c = Some m \<and> mirrors st lo hi t m))"

lemma mirrors_mono:
  assumes "mirrors st lo hi t n" and same: "\<And>a. lo \<le> a \<Longrightarrow> a < hi \<Longrightarrow> st' a = st a" and "lo' \<le> lo" and "hi \<le> hi'"
  shows "mirrors st' lo' hi' t n"
  using assms(1)
proof (induction t arbitrary: n)
  case (TDir es)
  then obtain a d where d: "n = DirNode a" "lo \<le> a" "a < hi" "st a = Some d" "dir_inv d" "dom (dir_map d) = fst ` set es"
    "\<forall>(c, t) \<in> set es. \<exists>m. dir_map d c = Some m \<and> mirrors st lo hi t m" by auto
  have "\<forall>(c, t) \<in> set es. \<exists>m. dir_map d c = Some m \<and> mirrors st' lo' hi' t m"
    using d(7) TDir.IH by fastforce
  with d same [OF d(2,3)] assms(3,4) show ?case by auto
qed simp

text \<open>Looking a path up in the directories, as a chain of opens does.\<close>

fun node_at :: "'e node dir_store \<Rightarrow> 'e node \<Rightarrow> string list \<Rightarrow> 'e node option" where
  "node_at st n [] = Some n"
| "node_at st (LeafNode e) (c # cs) = None"
| "node_at st (DirNode a) (c # cs) =
     (case st a of
        None \<Rightarrow> None
      | Some d \<Rightarrow> (case dir_map d c of None \<Rightarrow> None | Some m \<Rightarrow> node_at st m cs))"

lemma mirrors_leaves:
  assumes "mirrors st lo hi t n"
  shows "node_at st n p = Some (LeafNode e) \<longleftrightarrow> leaf_at t p = Some e"
  using assms
proof (induction p arbitrary: t n)
  case Nil
  then show ?case by (cases t) auto
next
  case (Cons c cs)
  show ?case
  proof (cases t)
    case (TLeaf e')
    with Cons.prems show ?thesis by simp
  next
    case (TDir es)
    with Cons.prems obtain a d where d: "n = DirNode a" "st a = Some d" "dom (dir_map d) = fst ` set es"
      "\<forall>(c, t) \<in> set es. \<exists>m. dir_map d c = Some m \<and> mirrors st lo hi t m" by auto
    show ?thesis
    proof (cases "map_of es c")
      case None
      then have "dir_map d c = None" using d(3) by (metis domIff map_of_eq_None_iff)
      with None d TDir show ?thesis by simp
    next
      case (Some t')
      then obtain m where m: "dir_map d c = Some m" "mirrors st lo hi t' m" using d(4) map_of_SomeD by fast
      from Cons.IH [OF m(2)] m(1) Some d(1,2) TDir show ?thesis by simp
    qed
  qed
qed

text \<open>Fresh addresses are unused.\<close>

definition fresh_from :: "('e, 'g) build_state \<Rightarrow> bool" where
  "fresh_from s \<longleftrightarrow> (\<forall>a \<ge> b_next s. b_dirs s a = None)"

definition build_grows :: "('e, 'g) build_state \<Rightarrow> ('e, 'g) build_state \<Rightarrow> bool" where
  "build_grows s s' \<longleftrightarrow> fresh_from s' \<and> b_next s \<le> b_next s'"

lemma expect_add_ok:
  assumes "fio_names K" and "b_dirs s a = Some d" and "dir_inv d" and "length n < MAX_FILENAME K" and "slash \<notin> set n"
    and "dir_map d n = None"
  obtains d' where "expect_add K dbg a n m s = Inr (s\<lparr> b_dirs := (b_dirs s)(a \<mapsto> d') \<rparr>)" "dir_inv d'"
    "dir_map d' = (dir_map d)(n \<mapsto> m)"
proof -
  have n: "entry_name n" using assms(1,4,5) by (simp add: entry_name_def fio_names_def)
  let ?d = "d\<lparr>sd_watchers := announce_added K n (sd_watchers d), sd_entries := sm_insert n m (sd_entries d)\<rparr>"
  have "add_entry K dbg n m d = (Inr (), ?d)"
    using n assms(6) by (simp add: add_entry_def add_entry_impl_eq [OF assms(1,3)] dom_def)
  moreover have "dir_inv ?d" using assms(3) n by (intro dir_inv_updates)
  moreover have "dir_map ?d = (dir_map d)(n \<mapsto> m)" using assms(3) by (simp add: dir_inv_def)
  ultimately show thesis using assms(2) that [of ?d] by (simp add: expect_add_def)
qed

lemma build_ok:
  shows "fio_names K \<Longrightarrow> tree_wf K t \<Longrightarrow> fresh_from s \<Longrightarrow>
     \<exists>n s'. build_dyn K dbg gi t dir s = Inr (n, s') \<and> build_grows s s' \<and>
       (\<forall>a < b_next s. b_dirs s' a = b_dirs s a) \<and> mirrors (b_dirs s') (b_next s) (b_next s') t n"
    and "fio_names K \<Longrightarrow> tree_wf K (TDir es) \<Longrightarrow> fresh_from s \<Longrightarrow> a < b_next s \<Longrightarrow> b_dirs s a = Some d \<Longrightarrow> dir_inv d \<Longrightarrow>
     dom (dir_map d) \<inter> fst ` set es = {} \<Longrightarrow>
     \<exists>s' d'. build_entries K dbg gi es a s = Inr s' \<and> build_grows s s' \<and>
       (\<forall>b < b_next s. b \<noteq> a \<longrightarrow> b_dirs s' b = b_dirs s b) \<and> b_dirs s' a = Some d' \<and> dir_inv d' \<and>
       dom (dir_map d') = dom (dir_map d) \<union> fst ` set es \<and> (\<forall>c \<in> dom (dir_map d). dir_map d' c = dir_map d c) \<and>
       (\<forall>(c, t) \<in> set es. \<exists>m. dir_map d' c = Some m \<and> mirrors (b_dirs s') (b_next s) (b_next s') t m)"
proof (induction K dbg gi t dir s and K dbg gi es a s arbitrary: and d rule: build_dyn_build_entries.induct)
  case (1 K dbg gi e dir s)
  then show ?case by (simp add: build_grows_def)
next
  case (2 K dbg gi es dir s)
  define s1 where "s1 = snd (new_directory (gi dir (b_gen s)) s)"
  have new: "new_directory (gi dir (b_gen s)) s = (b_next s, s1)" by (simp add: s1_def new_directory_def)
  let ?d0 = "immutable_simple_with_inode (fst (gi dir (b_gen s))) :: 'a node simple_dir"
  have s1: "b_dirs s1 = (b_dirs s)(b_next s \<mapsto> ?d0)" "b_next s1 = Suc (b_next s)"
    by (simp_all add: s1_def new_directory_def)
  have d0: "dir_inv ?d0" "dom (dir_map ?d0) = {}"
    by (simp_all add: dir_inv_def immutable_simple_with_inode_def simple_new_def watchers_new_def)
  have fr: "fresh_from s1" using 2(4) s1 by (simp add: fresh_from_def)
  obtain s2 d' where s2: "build_entries K dbg gi es (b_next s) s1 = Inr s2" "build_grows s1 s2"
    "\<forall>b < b_next s1. b \<noteq> b_next s \<longrightarrow> b_dirs s2 b = b_dirs s1 b" "b_dirs s2 (b_next s) = Some d'" "dir_inv d'"
    "dom (dir_map d') = fst ` set es"
    "\<forall>(c, t) \<in> set es. \<exists>m. dir_map d' c = Some m \<and> mirrors (b_dirs s2) (b_next s1) (b_next s2) t m"
    using 2(1) [OF new [symmetric] refl 2(2,3) fr, of ?d0] s1 d0 by auto
  have le: "Suc (b_next s) \<le> b_next s2" using s2(2) s1(2) by (simp add: build_grows_def)
  have "mirrors (b_dirs s2) (b_next s) (b_next s2) t m" if "mirrors (b_dirs s2) (b_next s1) (b_next s2) t m" for t m
    using that by (rule mirrors_mono) (simp_all add: s1(2))
  with s2(7) have kids: "\<forall>(c, t) \<in> set es. \<exists>m. dir_map d' c = Some m \<and> mirrors (b_dirs s2) (b_next s) (b_next s2) t m"
    by fast
  have "mirrors (b_dirs s2) (b_next s) (b_next s2) (TDir es) (DirNode (b_next s))"
    using s2(4-6) kids le by simp
  moreover have "\<forall>a < b_next s. b_dirs s2 a = b_dirs s a" using s2(3) s1 by simp
  moreover have "build_grows s s2" using s2(2) le by (simp add: build_grows_def)
  ultimately show ?case using s2(1) new by (auto simp del: mirrors.simps)
next
  case (3 K dbg gi a s)
  then show ?case by (auto simp: build_grows_def)
next
  case (4 K dbg gi name child es a s)
  have wf: "tree_wf K child" "tree_wf K (TDir es)" "length name < MAX_FILENAME K" "slash \<notin> set name"
    "name \<notin> fst ` set es" using 4(4) by (auto simp: tree_wf.simps(2))
  obtain n s1 where s1: "build_dyn K dbg gi child name s = Inr (n, s1)" "build_grows s s1"
    "\<forall>b < b_next s. b_dirs s1 b = b_dirs s b" "mirrors (b_dirs s1) (b_next s) (b_next s1) child n"
    using 4(1) [OF 4(3) wf(1) 4(5)] by blast
  have d1: "b_dirs s1 a = Some d" using s1(3) 4(6,7) by simp
  have free: "dir_map d name = None" using 4(9) by auto
  obtain d1 where add: "expect_add K dbg a name n s1 = Inr (s1\<lparr> b_dirs := (b_dirs s1)(a \<mapsto> d1) \<rparr>)"
    "dir_inv d1" "dir_map d1 = (dir_map d)(name \<mapsto> n)"
    using expect_add_ok [OF 4(3) d1 4(8) wf(3,4) free] by metis
  define s2 where "s2 = s1\<lparr> b_dirs := (b_dirs s1)(a \<mapsto> d1) \<rparr>"
  have le: "b_next s \<le> b_next s1" "fresh_from s1" using s1(2) by (simp_all add: build_grows_def)
  have s2: "b_next s2 = b_next s1" "b_dirs s2 = (b_dirs s1)(a \<mapsto> d1)" "fresh_from s2" "a < b_next s2"
    using le 4(6) by (auto simp: s2_def fresh_from_def)
  have dis: "dom (dir_map d1) \<inter> fst ` set es = {}" using add(3) wf(5) 4(9) by auto
  obtain s3 d' where s3: "build_entries K dbg gi es a s2 = Inr s3" "build_grows s2 s3"
    "\<forall>b < b_next s2. b \<noteq> a \<longrightarrow> b_dirs s3 b = b_dirs s2 b" "b_dirs s3 a = Some d'" "dir_inv d'"
    "dom (dir_map d') = dom (dir_map d1) \<union> fst ` set es" "\<forall>c \<in> dom (dir_map d1). dir_map d' c = dir_map d1 c"
    "\<forall>(c, t) \<in> set es. \<exists>m. dir_map d' c = Some m \<and> mirrors (b_dirs s3) (b_next s2) (b_next s3) t m"
    using 4(2) [OF 4(3) wf(2) s2(3,4) _ add(2) dis] s2(2) by auto
  have le3: "b_next s1 \<le> b_next s3" "fresh_from s3" using s3(2) s2(1) by (simp_all add: build_grows_def)
  have "mirrors (b_dirs s3) (b_next s) (b_next s3) child n"
    using s1(4) by (rule mirrors_mono) (use s3(3) s2(1,2) 4(6) le3 in auto)
  moreover have "dir_map d' name = Some n" using s3(7) add(3) by simp
  moreover have "mirrors (b_dirs s3) (b_next s) (b_next s3) t m" if "mirrors (b_dirs s3) (b_next s2) (b_next s3) t m" for t m
    using that by (rule mirrors_mono) (use le s2(1) in simp_all)
  ultimately have kids: "\<forall>(c, t) \<in> set ((name, child) # es). \<exists>m. dir_map d' c = Some m \<and>
      mirrors (b_dirs s3) (b_next s) (b_next s3) t m"
    using s3(8) by fastforce
  moreover have "\<forall>b < b_next s. b \<noteq> a \<longrightarrow> b_dirs s3 b = b_dirs s b" using s3(3) s2(1,2) s1(3) le by auto
  moreover have "dom (dir_map d') = dom (dir_map d) \<union> fst ` set ((name, child) # es)" using s3(6) add(3) by auto
  moreover have "\<forall>c \<in> dom (dir_map d). dir_map d' c = dir_map d c" using s3(7) add(3) free by auto
  moreover have "build_grows s s3" using le le3 by (simp add: build_grows_def)
  moreover have "build_entries K dbg gi ((name, child) # es) a s = Inr s3"
    using s1(1) add(1) s3(1) by (simp add: s2_def)
  ultimately show ?case using s3(4,5) by blast
qed

section \<open>Sequences of additions\<close>

datatype 'e tree_action = AddEntry "string list" 'e | AddEmptyDir "string list"

fun tree_op :: "fio \<Rightarrow> 'e tree_action \<Rightarrow> 'e tree \<Rightarrow> (tree_error + unit) \<times> 'e tree" where
  "tree_op K (AddEntry p e) t = tree_add_entry K p e t"
| "tree_op K (AddEmptyDir p) t = tree_add_empty_dir K p t"

text \<open>A caller that stops at the first error.\<close>

fun tree_ops :: "fio \<Rightarrow> 'e tree_action list \<Rightarrow> 'e tree \<Rightarrow> tree_error + 'e tree" where
  "tree_ops K [] t = Inr t"
| "tree_ops K (op # ops) t = (case tree_op K op t of (Inl e, _) \<Rightarrow> Inl e | (Inr _, t') \<Rightarrow> tree_ops K ops t')"

lemma tree_op_ok:
  assumes "tree_wf K t" and "tree_op K op t = (Inr u, t')"
  shows "tree_wf K t' \<and>
    (case op of
       AddEntry p e \<Rightarrow> leaf_at t p = None \<and> leaf_at t' = (leaf_at t)(p \<mapsto> e)
     | AddEmptyDir p \<Rightarrow> leaf_at t' = leaf_at t)"
proof (cases op)
  case (AddEntry p e)
  with assms(2) obtain n rest where p: "p = n # rest"
    "add_path K (str_join slash p) [] n rest (insert_leaf e) t = (Inr u, t')"
    by (auto simp: tree_add_entry_def split: list.splits)
  have "tree_wf K t'" using leaf.add_path_wf [OF assms(1), of "str_join slash p" "[]" n rest e] p(2) by simp
  with leaf.add_path_leaves [OF p(2)] p(1) AddEntry show ?thesis by simp
next
  case (AddEmptyDir p)
  with assms(2) obtain n rest where p: "p = n # rest"
    "add_path K (str_join slash p) [] n rest insert_dir t = (Inr u, t')"
    by (auto simp: tree_add_empty_dir_def split: list.splits)
  have "tree_wf K t'" using dir.add_path_wf [OF assms(1), of "str_join slash p" "[]" n rest] p(2) by simp
  with dir.add_path_leaves(1) [OF p(2)] AddEmptyDir show ?thesis by simp
qed

lemma tree_ops_ok:
  assumes "tree_wf K t" and "tree_ops K ops t = Inr t'"
  shows "tree_wf K t' \<and> (\<forall>p e. leaf_at t' p = Some e \<longleftrightarrow> leaf_at t p = Some e \<or> AddEntry p e \<in> set ops)"
  using assms
proof (induction ops arbitrary: t)
  case (Cons op ops)
  then obtain u t1 where one: "tree_op K op t = (Inr u, t1)" "tree_ops K ops t1 = Inr t'"
    by (auto split: prod.splits sum.splits)
  note ok = tree_op_ok [OF Cons.prems(1) one(1)]
  with Cons.IH [OF _ one(2)] show ?case
    by (cases op) auto
qed simp

text \<open>The result is a directory.\<close>

lemma add_path_dir: "add_path K full tr n rest ins t = (Inr u, t') \<Longrightarrow> \<exists>es. t' = TDir es"
  by (auto simp: add_path.simps [of K full tr n rest] split: if_splits tree.splits list.splits option.splits prod.splits sum.splits)

lemma tree_ops_dir:
  assumes "tree_ops K ops (TDir es) = Inr t"
  shows "\<exists>es. t = TDir es"
  using assms
proof (induction ops arbitrary: es)
  case (Cons op ops)
  then obtain u t1 where one: "tree_op K op (TDir es) = (Inr u, t1)" "tree_ops K ops t1 = Inr t"
    by (auto split: prod.splits sum.splits)
  have "\<exists>es. t1 = TDir es"
    using one(1) by (cases op) (auto simp: tree_add_entry_def tree_add_empty_dir_def dest: add_path_dir split: list.splits)
  with Cons.IH one(2) show ?case by blast
qed auto

text \<open>The same tree with the entries of its directories in another order.\<close>

inductive reordered :: "'e tree \<Rightarrow> 'e tree \<Rightarrow> bool" where
  reordered_leaf: "reordered (TLeaf e) (TLeaf e)"
| reordered_dir: "list_all2 (\<lambda>x y. fst x = fst y \<and> reordered (snd x) (snd y)) es xs \<Longrightarrow> mset es' = mset xs \<Longrightarrow>
    reordered (TDir es) (TDir es')"

lemma reordered_refl: "reordered t t"
proof (induction t)
  case (TDir es)
  have "list_all2 (\<lambda>x y. fst x = fst y \<and> reordered (snd x) (snd y)) es es"
    using TDir.IH by (intro list.rel_refl_strong) (metis prod_set_simps(2) singletonI prod.collapse)
  then show ?case by (rule reordered_dir) simp
qed (rule reordered_leaf)

lemma list_all2_lookup:
  assumes "list_all2 (\<lambda>x y. fst x = fst y \<and> R (snd x) (snd y)) es xs"
  shows "map fst xs = map fst es" and "rel_option R (map_of es c) (map_of xs c)"
  using assms by (induction rule: list_all2_induct) auto

lemma reordered_same:
  assumes "reordered t t'" and "tree_wf K t"
  shows "tree_wf K t' \<and> leaf_at t' = leaf_at t"
  using assms
proof (induction rule: reordered.induct)
  case (reordered_leaf e)
  then show ?case by simp
next
  case (reordered_dir es xs es')
  let ?R = "\<lambda>t t'. reordered t t' \<and> (tree_wf K t \<longrightarrow> tree_wf K t' \<and> leaf_at t' = leaf_at t)"
  have R: "list_all2 (\<lambda>x y. fst x = fst y \<and> ?R (snd x) (snd y)) es xs" using reordered_dir.IH by simp
  have dist: "distinct (map fst xs)" using list_all2_lookup(1) [OF R] reordered_dir.prems by (simp add: tree_wf.simps(2))
  have dist': "distinct (map fst es')"
    using dist mset_eq_imp_distinct_iff [of "map fst es'" "map fst xs"] reordered_dir.hyps by simp
  have set: "set es' = set xs" using reordered_dir.hyps by (metis set_mset_mset)
  have look: "map_of es' c = map_of xs c" for c
    using map_of_inject_set [of es' xs] dist dist' set by simp
  have kid: "\<exists>t. map_of es n = Some t \<and> tree_wf K t' \<and> leaf_at t' = leaf_at t" if "(n, t') \<in> set es'" for n t'
  proof -
    have "map_of xs n = Some t'" using that dist set by simp
    then obtain t where t: "map_of es n = Some t" "?R t t'"
      using list_all2_lookup(2) [OF R, of n] by (cases "map_of es n") auto
    with wf_lookup [OF reordered_dir.prems] show ?thesis by blast
  qed
  have names: "length n < MAX_FILENAME K \<and> slash \<notin> set n" if "map_of es n = Some t" for n t
    using reordered_dir.prems map_of_SomeD [OF that] by (auto simp: tree_wf.simps(2))
  have "tree_wf K (TDir es')" using dist' kid names by (fastforce simp: tree_wf.simps(2))
  moreover have "leaf_at (TDir es') p = leaf_at (TDir es) p" for p
  proof (cases p)
    case (Cons c cs)
    show ?thesis
    proof (cases "map_of es' c")
      case None
      then have "map_of es c = None" using look list_all2_lookup(2) [OF R, of c] by (cases "map_of es c") auto
      with None Cons show ?thesis by simp
    next
      case (Some t')
      with kid [OF map_of_SomeD [OF Some]] Cons show ?thesis by auto
    qed
  qed simp
  ultimately show ?case by auto
qed

text \<open>What a built tree serves.\<close>

lemma built_leaves:
  assumes "fio_names K" and "tree_ops K ops empty_dir = Inr t" and "reordered t t'" and "fresh_from s"
  shows "\<exists>root s'. build_with_inode_generator K dbg gi t' s = Inr (root, s') \<and>
    (\<forall>a < b_next s. b_dirs s' a = b_dirs s a) \<and>
    (\<forall>p e. node_at (b_dirs s') (DirNode root) p = Some (LeafNode e) \<longleftrightarrow> AddEntry p e \<in> set ops)"
proof -
  have none: "leaf_at (empty_dir :: 'a tree) p = None" for p by (cases p) (simp_all add: empty_dir_def)
  have wf: "tree_wf K (empty_dir :: 'a tree)" by (simp add: empty_dir_def)
  have "tree_wf K t" "\<And>p e. leaf_at t p = Some e \<longleftrightarrow> AddEntry p e \<in> set ops"
    using tree_ops_ok [OF wf assms(2)] none by simp_all
  with reordered_same [OF assms(3)] have ok: "tree_wf K t'" "\<And>p e. leaf_at t' p = Some e \<longleftrightarrow> AddEntry p e \<in> set ops"
    by simp_all
  obtain es where t': "t' = TDir es"
    using assms(3) tree_ops_dir [OF assms(2) [unfolded empty_dir_def]] by (auto elim: reordered.cases)
  obtain n s' where b: "build_dyn K dbg gi t' ''.'' s = Inr (n, s')" "\<forall>a < b_next s. b_dirs s' a = b_dirs s a"
    "mirrors (b_dirs s') (b_next s) (b_next s') t' n"
    using build_ok(1) [OF assms(1) ok(1) assms(4)] by blast
  from b(1) obtain root where "n = DirNode root" "build_with_inode_generator K dbg gi t' s = Inr (root, s')"
    by (auto simp: t' build_with_inode_generator_def split: prod.splits)
  with b(2) mirrors_leaves [OF b(3)] ok(2) show ?thesis by auto
qed

section \<open>Properties\<close>

text \<open>The built tree serves exactly the entries that were added. If a caller adds entries and empty
  directories at any paths to an empty builder without an error, building succeeds without a panic, with
  any inode generator and in whatever order the hash maps of the tree are drained, leaves existing
  directories alone, and looking up a path through the built directories finds an entry exactly if that
  entry was added at that path.\<close>

theorem tree_builder_serves_entries:
  assumes "fio_names K" and "tree_ops K ops empty_dir = Inr t" and "reordered t t'" and "fresh_from s"
  shows "\<exists>root s'. build_with_inode_generator K dbg gi t' s = Inr (root, s') \<and>
    (\<forall>a < b_next s. b_dirs s' a = b_dirs s a) \<and>
    (\<forall>p e. node_at (b_dirs s') (DirNode root) p = Some (LeafNode e) \<longleftrightarrow> AddEntry p e \<in> set ops)"
  by (rule built_leaves [OF assms])

theorem tree_builder_serves_entries_witness:
  "\<exists>t root s'. tree_ops fio_values [AddEntry [''a'', ''b''] (7 :: nat), AddEmptyDir [''c'']] empty_dir = Inr t \<and>
     build_with_inode_generator fio_values True (\<lambda>_ g. (g, g + 1)) t \<lparr> b_dirs = (\<lambda>_. None), b_next = 0, b_gen = 5 \<rparr> =
       Inr (root, s') \<and> node_at (b_dirs s') (DirNode root) [''a'', ''b''] = Some (LeafNode 7)"
proof -
  let ?ops = "[AddEntry [''a'', ''b''] (7 :: nat), AddEmptyDir [''c'']]"
  let ?s = "\<lparr> b_dirs = (\<lambda>_. None), b_next = 0, b_gen = (5 :: 64 word) \<rparr>"
  obtain t where t: "tree_ops fio_values ?ops empty_dir = Inr t"
    by (simp add: tree_add_entry_def tree_add_empty_dir_def add_path.simps insert_leaf_def insert_dir_def empty_dir_def)
  have fr: "fresh_from ?s" by (simp add: fresh_from_def)
  obtain root s' where b: "build_with_inode_generator fio_values True (\<lambda>_ g. (g, g + 1)) t ?s = Inr (root, s')"
    "\<forall>p e. node_at (b_dirs s') (DirNode root) p = Some (LeafNode e) \<longleftrightarrow> AddEntry p e \<in> set ?ops"
    using tree_builder_serves_entries [OF fio_values_names t reordered_refl fr, of True "\<lambda>_ g. (g, g + 1)"] by blast
  have "node_at (b_dirs s') (DirNode root) [''a'', ''b''] = Some (LeafNode 7)"
    using b(2) by (simp del: node_at.simps)
  with t b(1) show ?thesis by blast
qed

section \<open>A failed addition\<close>

text \<open>Adding a leaf over an existing one reports an error and replaces it all the same.\<close>

lemma failed_add_replaces:
  "tree_add_entry fio_values [''a''] (2 :: nat) (TDir [(''a'', TLeaf 1)]) =
     (Inl (LeafOverLeaf ''a''), TDir [(''a'', TLeaf 2)])"
  by (simp add: tree_add_entry_def add_path.simps insert_leaf_def)

end
