(* ===== verification/Buddy.thy ===== *)
theory Buddy
  imports Sorted_Map "HOL-Library.Multiset"
begin

text \<open>
  The buffer allocator of \<open>storage_device\<close>: \<open>buffer.rs\<close> (ranges and the references to a buffer) and
  \<open>buffer_allocator.rs\<close> (a buddy allocator over a source of memory). Sizes and offsets are \<open>usize\<close>
  values bounded by the sz of a memory area, so they are natural numbers here and no sum wraps
  around; subtractions that would wrap are panics.
\<close>

section \<open>buffer.rs\<close>

type_synonym range = "nat \<times> nat"

definition round_down :: "nat \<Rightarrow> nat \<Rightarrow> nat" where
  "round_down value granularity = value - value mod granularity"

definition round_up :: "nat \<Rightarrow> nat \<Rightarrow> nat" where
  "round_up value granularity = round_down (value + granularity - 1) granularity"

datatype bound = Included nat | Excluded nat | Unbounded

definition subrange :: "range \<Rightarrow> bound \<times> bound \<Rightarrow> range result" where
  "subrange source bounds =
     (let start = (case fst bounds of Included s \<Rightarrow> fst source + s | Excluded s \<Rightarrow> fst source + s + 1
                   | Unbounded \<Rightarrow> fst source);
          end = (case snd bounds of Included e \<Rightarrow> fst source + e + 1 | Excluded e \<Rightarrow> fst source + e
                 | Unbounded \<Rightarrow> snd source)
      in if \<not> end \<le> snd source then Inl Panic else Inr (start, end))"

definition split_range :: "range \<Rightarrow> nat \<Rightarrow> (range \<times> range) result" where
  "split_range r mid =
     (if snd r < fst r then Inl Panic
      else let l = snd r - fst r; base = fst r in Inr ((base, base + mid), (base + mid, base + l)))"

text \<open>A reference to a part of a buffer: the bytes and the range of the source they cover.\<close>

record BufferRef =
  br_slice :: bytes
  br_range :: range

definition buffer_new :: "bytes \<Rightarrow> range \<Rightarrow> BufferRef" where
  "buffer_new sl r = \<lparr>br_slice = sl, br_range = r\<rparr>"

definition buffer_len :: "BufferRef \<Rightarrow> nat result" where
  "buffer_len b = (let (s, e) = br_range b in if e < s then Inl Panic else Inr (e - s))"

definition buffer_is_empty :: "BufferRef \<Rightarrow> bool" where
  "buffer_is_empty b = (snd (br_range b) = fst (br_range b))"

text \<open>Indexing the slice with the bounds, which panics when they do not lie within it.\<close>

definition slice_index :: "bytes \<Rightarrow> bound \<times> bound \<Rightarrow> bytes result" where
  "slice_index sl bounds =
     (let start = (case fst bounds of Included s \<Rightarrow> s | Excluded s \<Rightarrow> s + 1 | Unbounded \<Rightarrow> 0);
          end = (case snd bounds of Included e \<Rightarrow> e + 1 | Excluded e \<Rightarrow> e | Unbounded \<Rightarrow> length sl)
      in str_range sl start end)"

definition buffer_subslice :: "BufferRef \<Rightarrow> bound \<times> bound \<Rightarrow> BufferRef result" where
  "buffer_subslice b bounds =
     bind_res (slice_index (br_slice b) bounds) (\<lambda>sl.
       bind_res (subrange (br_range b) bounds) (\<lambda>r. Inr \<lparr>br_slice = sl, br_range = r\<rparr>))"

definition buffer_as_ref :: "BufferRef \<Rightarrow> BufferRef result" where
  "buffer_as_ref b = buffer_subslice b (Unbounded, Unbounded)"

definition buffer_split_at :: "BufferRef \<Rightarrow> nat \<Rightarrow> (BufferRef \<times> BufferRef) result" where
  "buffer_split_at b mid =
     (if mid > length (br_slice b) then Inl Panic
      else bind_res (split_range (br_range b) mid) (\<lambda>(r1, r2).
             Inr (\<lparr>br_slice = take mid (br_slice b), br_range = r1\<rparr>,
                  \<lparr>br_slice = drop mid (br_slice b), br_range = r2\<rparr>)))"

section \<open>buffer\_allocator.rs\<close>

text \<open>\<open>usize::next_power_of_two\<close>, \<open>is_power_of_two\<close> and \<open>trailing_zeros\<close>.\<close>

fun ceil_log2 :: "nat \<Rightarrow> nat" where
  "ceil_log2 n = (if n \<le> 1 then 0 else Suc (ceil_log2 ((n + 1) div 2)))"

declare ceil_log2.simps [simp del]

definition next_power_of_two :: "nat \<Rightarrow> nat" where
  "next_power_of_two n = 2 ^ ceil_log2 n"

definition is_power_of_two :: "nat \<Rightarrow> bool" where
  "is_power_of_two n \<longleftrightarrow> n = next_power_of_two n"

fun trailing_zeros :: "nat \<Rightarrow> nat" where
  "trailing_zeros n = (if n = 0 then 64 else if odd n then 0 else Suc (trailing_zeros (n div 2)))"

declare trailing_zeros.simps [simp del]

definition order_of :: "nat \<Rightarrow> nat \<Rightarrow> nat" where
  "order_of sz block_size =
     (if sz \<le> block_size then 0
      else let nblocks = round_up sz block_size div block_size
           in trailing_zeros (next_power_of_two nblocks))"

definition order_fit :: "nat \<Rightarrow> nat \<Rightarrow> nat result" where
  "order_fit sz block_size =
     (if \<not> sz \<ge> block_size then Inl Panic
      else let nblocks = round_up sz block_size div block_size
           in if is_power_of_two nblocks then Inr (trailing_zeros nblocks)
              else if trailing_zeros (next_power_of_two nblocks) = 0 then Inl Panic
              else Inr (trailing_zeros (next_power_of_two nblocks) - 1))"

definition size_for_order :: "nat \<Rightarrow> nat \<Rightarrow> nat" where
  "size_for_order order block_size = block_size * 2 ^ order"

text \<open>
  The loop of \<open>initial_free_lists\<close>. It always advances by at least one block; the fuel bounds its
  rounds, and \<open>sz + 1\<close> rounds are enough.
\<close>

fun initial_loop :: "nat \<Rightarrow> nat \<Rightarrow> nat \<Rightarrow> nat \<Rightarrow> nat list list \<Rightarrow> nat list list result" where
  "initial_loop 0 sz block_size offset free_lists = Inl Panic"
| "initial_loop (Suc n) sz block_size offset free_lists =
     (if offset < sz then
        bind_res (order_fit (sz - offset) block_size) (\<lambda>order.
          if \<not> order < length free_lists then Inl Panic
          else initial_loop n sz block_size (offset + size_for_order order block_size)
                 (free_lists[order := free_lists ! order @ [offset]]))
      else Inr free_lists)"

definition initial_free_lists :: "nat \<Rightarrow> nat \<Rightarrow> nat list list result" where
  "initial_free_lists sz block_size =
     (if block_size = 0 then Inl Panic
      else
        let sz = round_down sz block_size
        in if \<not> block_size \<le> sz then Inl Panic
           else if \<not> is_power_of_two block_size then Inl Panic
           else bind_res (order_fit sz block_size) (\<lambda>max_order.
                  initial_loop (sz + 1) sz block_size 0 (replicate (max_order + 1) [])))"

record allocator =
  a_block_size :: nat
  a_source_size :: nat
  a_free_lists :: "nat list list"
  a_map :: "(nat, nat) sorted_map"

definition allocator_new :: "nat \<Rightarrow> nat \<Rightarrow> allocator result" where
  "allocator_new block_size src_size =
     bind_res (initial_free_lists src_size block_size) (\<lambda>fl.
       Inr \<lparr>a_block_size = block_size, a_source_size = src_size, a_free_lists = fl, a_map = []\<rparr>)"

text \<open>\<open>sub_slice\<close> of the source: the range check, which panics.\<close>

definition source_sub_slice :: "nat \<Rightarrow> range \<Rightarrow> unit result" where
  "source_sub_slice sz r = (if fst r \<ge> sz \<or> snd r > sz then Inl Panic else Inr ())"

text \<open>The search for the smallest order with a free entry.\<close>

function find_order :: "nat list list \<Rightarrow> nat \<Rightarrow> nat option" where
  "find_order free_lists idx =
     (if idx \<ge> length free_lists then None
      else if free_lists ! idx \<noteq> [] then Some idx
      else find_order free_lists (idx + 1))"
  by pat_completeness auto
termination
  by (relation "measure (\<lambda>(fl, idx). length fl - idx)") auto

declare find_order.simps [simp del]

text \<open>The loop that splits the free region until it has the right size.\<close>

fun split_loop :: "nat \<Rightarrow> nat \<Rightarrow> nat \<Rightarrow> nat \<Rightarrow> nat list list \<Rightarrow> (nat \<times> nat list list) result" where
  "split_loop block_size offset requested_order order free_lists =
     (if order > requested_order then
        let order = order - 1
        in if \<not> order < length free_lists then Inl Panic
           else if free_lists ! order \<noteq> [] then Inl Panic
           else split_loop block_size offset requested_order order
                  (free_lists[order := free_lists ! order @ [offset + size_for_order order block_size]])
      else Inr (order, free_lists))"

declare split_loop.simps [simp del]

definition try_allocate_buffer :: "nat \<Rightarrow> allocator \<Rightarrow> (range option \<times> allocator) result" where
  "try_allocate_buffer sz a =
     (if sz > a_source_size a then Inl Panic
      else
        let requested_order = order_of sz (a_block_size a)
        in if \<not> requested_order < length (a_free_lists a) then Inl Panic
           else case find_order (a_free_lists a) requested_order of
                  None \<Rightarrow> Inr (None, a)
                | Some order \<Rightarrow>
                    (let offset = last (a_free_lists a ! order);
                         fl = (a_free_lists a)[order := butlast (a_free_lists a ! order)]
                     in bind_res (split_loop (a_block_size a) offset requested_order order fl) (\<lambda>(order, fl).
                          bind_res (source_sub_slice (a_source_size a) (offset, offset + sz)) (\<lambda>_.
                            Inr (Some (offset, offset + sz),
                                 a\<lparr>a_free_lists := fl,
                                   a_map := sm_insert offset (size_for_order order (a_block_size a)) (a_map a)\<rparr>)))))"

definition allocate_buffer :: "nat \<Rightarrow> allocator \<Rightarrow> (range \<times> allocator) result" where
  "allocate_buffer sz a =
     bind_res (try_allocate_buffer sz a) (\<lambda>(r, a').
       case r of None \<Rightarrow> Inl Panic | Some b \<Rightarrow> Inr (b, a'))"

text \<open>\<open>binary_search\<close> on a sorted vector: the index of the element, or where it would be inserted.\<close>

definition binary_search :: "nat list \<Rightarrow> nat \<Rightarrow> nat + nat" where
  "binary_search v x =
     (let i = length (takeWhile (\<lambda>y. y < x) v) in if i < length v \<and> v ! i = x then Inr i else Inl i)"

definition vec_remove :: "nat \<Rightarrow> 'a list \<Rightarrow> 'a list" where
  "vec_remove i v = take i v @ drop (Suc i) v"

definition vec_insert :: "nat \<Rightarrow> 'a \<Rightarrow> 'a list \<Rightarrow> 'a list" where
  "vec_insert i x v = take i v @ x # drop i v"

definition find_buddy :: "nat \<Rightarrow> nat \<Rightarrow> nat \<Rightarrow> nat" where
  "find_buddy block_size offset order = xor offset (size_for_order order block_size)"

text \<open>The loop that merges free slots.\<close>

function merge_loop :: "nat \<Rightarrow> nat \<Rightarrow> nat \<Rightarrow> nat list list \<Rightarrow> nat \<times> nat \<times> nat list list" where
  "merge_loop block_size offset order free_lists =
     (if order < length free_lists - 1 then
        let buddy = find_buddy block_size offset order
        in case binary_search (free_lists ! order) buddy of
             Inl _ \<Rightarrow> (offset, order, free_lists)
           | Inr idx \<Rightarrow>
               merge_loop block_size (min offset buddy) (order + 1)
                 (free_lists[order := vec_remove idx (free_lists ! order)])
      else (offset, order, free_lists))"
  by pat_completeness auto
termination
  by (relation "measure (\<lambda>(b, offset, order, fl). length fl - order)") auto

declare merge_loop.simps [simp del]

definition free_buffer :: "range \<Rightarrow> allocator \<Rightarrow> allocator result" where
  "free_buffer r a =
     (case sm_get (a_map a) (fst r) of
        None \<Rightarrow> Inl Panic
      | Some sz \<Rightarrow>
          (if snd r < fst r then Inl Panic
           else if \<not> snd r - fst r \<le> sz then Inl Panic
           else if a_free_lists a = [] then Inl Panic
           else
             let (offset, order, fl) =
               merge_loop (a_block_size a) (fst r) (order_of sz (a_block_size a)) (a_free_lists a)
             in if \<not> order < length fl then Inl Panic
                else case binary_search (fl ! order) offset of
                       Inr _ \<Rightarrow> Inl Panic
                     | Inl idx \<Rightarrow>
                         Inr (a\<lparr>a_free_lists := fl[order := vec_insert idx offset (fl ! order)],
                                a_map := sm_remove (fst r) (a_map a)\<rparr>)))"

section \<open>Powers of two and orders\<close>

lemma ceil_log2_ge: "n \<le> 2 ^ ceil_log2 n"
proof (induction n rule: ceil_log2.induct)
  case (1 n)
  show ?case
  proof (cases "n \<le> 1")
    case True
    then show ?thesis by (simp add: ceil_log2.simps)
  next
    case False
    then have "(n + 1) div 2 \<le> 2 ^ ceil_log2 ((n + 1) div 2)" using 1 by blast
    then have "n \<le> 2 * 2 ^ ceil_log2 ((n + 1) div 2)" by linarith
    with False show ?thesis by (subst ceil_log2.simps) simp
  qed
qed

lemma ceil_log2_pow [simp]: "ceil_log2 (2 ^ k) = k"
proof (induction k)
  case 0
  show ?case by (simp add: ceil_log2.simps)
next
  case (Suc k)
  have "(2 * 2 ^ k + 1) div 2 = (2 :: nat) ^ k" by simp
  moreover have "\<not> (2 :: nat) * 2 ^ k \<le> 1" using one_le_power [of "2 :: nat" k] by linarith
  ultimately show ?case using Suc by (subst ceil_log2.simps) simp
qed

lemma ceil_log2_lower: "1 < n \<Longrightarrow> 2 ^ (ceil_log2 n - 1) < n"
proof (induction n rule: ceil_log2.induct)
  case (1 n)
  let ?m = "(n + 1) div 2"
  have c: "ceil_log2 n = Suc (ceil_log2 ?m)" using 1 by (subst ceil_log2.simps) simp
  show ?case
  proof (cases "1 < ?m")
    case True
    then have "2 ^ (ceil_log2 ?m - 1) < ?m" using 1 by auto
    moreover have "ceil_log2 ?m \<noteq> 0" using ceil_log2_ge [of ?m] True by (cases "ceil_log2 ?m") auto
    then have "(2 :: nat) ^ ceil_log2 ?m = 2 * 2 ^ (ceil_log2 ?m - 1)" by (cases "ceil_log2 ?m") auto
    ultimately have "2 ^ ceil_log2 ?m < n" by linarith
    with c show ?thesis by simp
  next
    case False
    with "1.prems" have "n = 2" by auto
    then show ?thesis by (simp add: ceil_log2.simps)
  qed
qed

lemma trailing_zeros_pow [simp]: "trailing_zeros (2 ^ k) = k"
proof (induction k)
  case 0
  show ?case by (simp add: trailing_zeros.simps)
next
  case (Suc k)
  then show ?case by (subst trailing_zeros.simps) simp
qed

lemma is_power_of_two_iff: "is_power_of_two n \<longleftrightarrow> (\<exists>k. n = 2 ^ k)"
  by (metis ceil_log2_pow is_power_of_two_def next_power_of_two_def)

lemma size_for_order_Suc: "size_for_order (Suc i) b = size_for_order i b + size_for_order i b"
  by (simp add: size_for_order_def)

lemma size_for_order_pos [simp]: "0 < b \<Longrightarrow> 0 < size_for_order i b"
  by (simp add: size_for_order_def)

lemma round_up_mult: "0 < b \<Longrightarrow> round_up (b * n) b = b * n"
proof -
  assume b: "0 < b"
  have "b * n + b - 1 = b - 1 + b * n" using b by simp
  moreover have "(b - 1 + b * n) mod b = b - 1" using b by (simp only: mod_mult_self2) simp
  ultimately show ?thesis by (simp add: round_up_def round_down_def)
qed

lemma round_up_ge: "0 < b \<Longrightarrow> sz \<le> round_up sz b"
proof -
  assume b: "0 < b"
  have "(sz + b - 1) mod b \<le> b - 1" using b by (simp add: Suc_leI less_Suc_eq_le [symmetric])
  then show ?thesis using b by (simp add: round_up_def round_down_def)
qed

lemma round_down_dvd: "b dvd round_down n b"
  by (simp add: round_down_def minus_mod_eq_mult_div)

lemma round_down_le: "round_down n b \<le> n"
  by (simp add: round_down_def)

lemma order_of_size: "0 < b \<Longrightarrow> order_of (size_for_order i b) b = i"
proof (cases i)
  case 0
  then show ?thesis by (simp add: order_of_def size_for_order_def)
next
  case (Suc j)
  assume b: "0 < b"
  have "b * 2 \<le> b * 2 ^ i" using Suc by simp
  then have "\<not> b * 2 ^ i \<le> b" using b by linarith
  moreover have "round_up (b * 2 ^ i) b div b = 2 ^ i" using b by (simp add: round_up_mult)
  ultimately show ?thesis
    by (simp add: order_of_def size_for_order_def next_power_of_two_def)
qed

lemma order_of_fits: "0 < b \<Longrightarrow> sz \<le> size_for_order (order_of sz b) b"
proof -
  assume b: "0 < b"
  let ?n = "round_up sz b div b"
  have "sz \<le> b * ?n"
    using round_up_ge [OF b, of sz] round_down_dvd [of b "sz + b - 1"] by (simp add: round_up_def)
  also have "\<dots> \<le> b * 2 ^ ceil_log2 ?n" using ceil_log2_ge [of ?n] by simp
  finally show ?thesis
    by (auto simp: order_of_def size_for_order_def next_power_of_two_def)
qed

section \<open>Cells\<close>

text \<open>
  The cells of a block are its byte offsets. The multiset of the cells of all the free blocks and of
  all the allocations says at once that blocks do not overlap and that none is lost.
\<close>

definition cells :: "nat \<Rightarrow> nat \<Rightarrow> nat multiset" where
  "cells off s = mset [off..<off + s]"

definition blk :: "nat \<Rightarrow> nat list \<Rightarrow> nat multiset" where
  "blk s l = (\<Sum>off\<leftarrow>l. cells off s)"

fun fcells :: "nat \<Rightarrow> nat list list \<Rightarrow> nat multiset" where
  "fcells s [] = {#}"
| "fcells s (l # ls) = blk s l + fcells (2 * s) ls"

definition acells :: "(nat, nat) sorted_map \<Rightarrow> nat multiset" where
  "acells am = (\<Sum>(off, s)\<leftarrow>am. cells off s)"

lemma cells_split: "cells off (s + t) = cells off s + cells (off + s) t"
  using upt_add_eq_append [of off "off + s" t] by (simp add: cells_def add.assoc)

lemma count_cells: "count (cells off s) x = (if off \<le> x \<and> x < off + s then 1 else 0)"
  using distinct_count_atmost_1 [of "[off..<off + s]"] by (simp add: cells_def)

lemma blk_simps [simp]: "blk s [] = {#}" "blk s (x # l) = cells x s + blk s l" "blk s (l @ l') = blk s l + blk s l'"
  by (simp_all add: blk_def)

lemma fcells_update:
  "i < length fl \<Longrightarrow> fcells s (fl[i := l]) + blk (s * 2 ^ i) (fl ! i) = fcells s fl + blk (s * 2 ^ i) l"
proof (induction fl arbitrary: s i)
  case Nil
  then show ?case by simp
next
  case (Cons a fl)
  show ?case
  proof (cases i)
    case 0
    then show ?thesis by simp
  next
    case (Suc j)
    with Cons.IH [of j "2 * s"] Cons.prems
    have "fcells (2 * s) (fl[j := l]) + blk (2 * s * 2 ^ j) (fl ! j) = fcells (2 * s) fl + blk (2 * s * 2 ^ j) l"
      by simp
    with Suc show ?thesis by (simp add: ac_simps)
  qed
qed

lemma blk_mem: "x \<in> set l \<Longrightarrow> cells x s \<subseteq># blk s l"
  by (induction l) (auto intro: subset_mset.add_increasing subset_mset.add_increasing2)

lemma fcells_mem: "i < length fl \<Longrightarrow> x \<in> set (fl ! i) \<Longrightarrow> cells x (s * 2 ^ i) \<subseteq># fcells s fl"
proof (induction fl arbitrary: s i)
  case Nil
  then show ?case by simp
next
  case (Cons a fl)
  show ?case
  proof (cases i)
    case 0
    with Cons.prems blk_mem [of x a s] show ?thesis
      by (auto intro: subset_mset.add_increasing2)
  next
    case (Suc j)
    with Cons.IH [of j "2 * s"] Cons.prems show ?thesis
      by (auto simp: ac_simps intro: subset_mset.add_increasing)
  qed
qed

lemma acells_mem: "(off, s) \<in> set am \<Longrightarrow> cells off s \<subseteq># acells am"
  by (induction am) (auto simp: acells_def intro: subset_mset.add_increasing subset_mset.add_increasing2)

lemma acells_two:
  "(off, s) \<in> set am \<Longrightarrow> (off', s') \<in> set am \<Longrightarrow> (off, s) \<noteq> (off', s') \<Longrightarrow> cells off s + cells off' s' \<subseteq># acells am"
proof (induction am)
  case Nil
  then show ?case by simp
next
  case (Cons x am)
  then show ?case
    using acells_mem [of off s am] acells_mem [of off' s' am]
    by (auto simp: acells_def add.commute intro: subset_mset.add_increasing subset_mset.add_mono)
qed

lemma acells_insert: "k \<notin> fst ` set am \<Longrightarrow> acells (sm_insert k v am) = cells k v + acells am"
  by (induction am) (auto simp: acells_def ac_simps)

lemma acells_remove:
  assumes "sm_inv am" and "sm_get am k = Some v"
  shows "acells am = cells k v + acells (sm_remove k am)"
proof -
  have "am = sm_insert k v (sm_remove k am)"
    using slab.move_self [OF assms] by simp
  moreover have "k \<notin> fst ` set (sm_remove k am)" by simp
  ultimately show ?thesis using acells_insert by metis
qed

section \<open>Sorted vectors\<close>

abbreviation strict_sorted :: "nat list \<Rightarrow> bool" where
  "strict_sorted \<equiv> sorted_wrt (<)"

lemma binary_search_found:
  assumes "strict_sorted v" and "binary_search v x = Inr i"
  shows "i < length v" "v ! i = x"
  using assms by (auto simp: binary_search_def Let_def split: if_splits)

lemma vec_remove_at:
  assumes "i < length v"
  shows "v = take i v @ v ! i # drop (Suc i) v" and "blk s v = cells (v ! i) s + blk s (vec_remove i v)"
proof -
  show v: "v = take i v @ v ! i # drop (Suc i) v" using assms by (rule id_take_nth_drop)
  show "blk s v = cells (v ! i) s + blk s (vec_remove i v)"
    by (subst v) (simp add: vec_remove_def ac_simps)
qed

lemma vec_remove_sorted: "strict_sorted v \<Longrightarrow> strict_sorted (vec_remove i v)"
proof -
  assume s: "strict_sorted v"
  have "v = take i v @ drop i v" by simp
  with s have t: "strict_sorted (take i v)" "strict_sorted (drop i v)"
    "\<forall>x \<in> set (take i v). \<forall>y \<in> set (drop i v). x < y"
    by (metis sorted_wrt_append)+
  have "drop (Suc i) v = drop 1 (drop i v)" by simp
  then have "strict_sorted (drop (Suc i) v)" "set (drop (Suc i) v) \<subseteq> set (drop i v)"
    using t(2) sorted_wrt_drop set_drop_subset by metis+
  with t show ?thesis by (auto simp: vec_remove_def sorted_wrt_append)
qed

lemma vec_remove_set: "set (vec_remove i v) \<subseteq> set v"
  by (auto simp: vec_remove_def dest: in_set_takeD in_set_dropD)

lemma binary_search_absent:
  assumes "strict_sorted v" and "binary_search v x = Inl i"
  shows "x \<notin> set v" and "strict_sorted (vec_insert i x v)" and "set (vec_insert i x v) = insert x (set v)"
    and "blk s (vec_insert i x v) = cells x s + blk s v"
proof -
  obtain a b where v: "v = a @ b" and i: "i = length a" and lt: "\<forall>y \<in> set a. y < x"
    and hd: "b \<noteq> [] \<longrightarrow> \<not> hd b < x"
  proof
    let ?a = "takeWhile (\<lambda>y. y < x) v" and ?b = "dropWhile (\<lambda>y. y < x) v"
    show "v = ?a @ ?b" by simp
    show "i = length ?a" using assms(2) by (auto simp: binary_search_def Let_def split: if_splits)
    show "\<forall>y \<in> set ?a. y < x" by (auto dest: set_takeWhileD)
    show "?b \<noteq> [] \<longrightarrow> \<not> hd ?b < x" using hd_dropWhile [of "\<lambda>y. y < x" v] by blast
  qed
  have srt: "strict_sorted a" "strict_sorted b" "\<forall>y \<in> set a. \<forall>z \<in> set b. y < z"
    using assms(1) by (auto simp: v sorted_wrt_append)
  have gt: "\<forall>y \<in> set b. x < y"
  proof (cases b)
    case (Cons h t)
    have "v ! i = h" "i < length v" by (simp_all add: v i Cons)
    moreover have "i = length (takeWhile (\<lambda>y. y < x) v)"
      using assms(2) by (auto simp: binary_search_def Let_def split: if_splits)
    ultimately have "h \<noteq> x" using assms(2) by (auto simp: binary_search_def Let_def split: if_splits)
    with hd Cons have "x < h" by simp
    with srt(2) Cons show ?thesis by auto
  qed simp
  show "x \<notin> set v" using lt gt by (auto simp: v)
  have ins: "vec_insert i x v = a @ x # b" by (simp add: vec_insert_def v i)
  show "strict_sorted (vec_insert i x v)" unfolding ins using srt lt gt by (auto simp: sorted_wrt_append)
  show "set (vec_insert i x v) = insert x (set v)" unfolding ins by (auto simp: v)
  show "blk s (vec_insert i x v) = cells x s + blk s v" unfolding ins by (simp add: v ac_simps)
qed

section \<open>Buddies\<close>

lemma xor_pow: "xor (q * 2 ^ m) (2 ^ m) = (if even q then q + 1 else q - 1) * (2 :: nat) ^ m"
proof -
  have "xor (q * 2 ^ m) (2 ^ m) = xor (push_bit m q) (push_bit m 1)" by (simp add: push_bit_eq_mult)
  also have "\<dots> = push_bit m (xor q 1)" by (simp only: push_bit_xor)
  also have "xor q 1 = (if even q then q + 1 else q - 1)" by (simp add: xor_Suc_0_eq)
  finally show ?thesis by (simp only: push_bit_eq_mult)
qed

lemma find_buddy_eq:
  assumes "b = 2 ^ k" and "off = q * size_for_order i b"
  shows "find_buddy b off i = (if even q then q + 1 else q - 1) * size_for_order i b"
  using xor_pow [of q "k + i"] assms by (simp add: find_buddy_def size_for_order_def power_add)

text \<open>What the merge of two buddies relies on.\<close>

lemma buddy_facts:
  assumes "b = 2 ^ k" and "size_for_order i b dvd off"
  shows "find_buddy b off i \<noteq> off" and "size_for_order i b dvd find_buddy b off i"
    and "find_buddy b (find_buddy b off i) i = off"
    and "size_for_order (Suc i) b dvd min off (find_buddy b off i)"
    and "cells (min off (find_buddy b off i)) (size_for_order (Suc i) b) =
         cells off (size_for_order i b) + cells (find_buddy b off i) (size_for_order i b)"
proof -
  obtain q where q: "off = q * size_for_order i b" using assms(2) by (metis dvd_def mult.commute)
  have pos: "0 < size_for_order i b" using assms(1) by simp
  note f = find_buddy_eq [OF assms(1)]
  show "find_buddy b off i \<noteq> off" using f [OF q] q pos by (auto elim!: oddE)
  show "size_for_order i b dvd find_buddy b off i" using f [OF q] by simp
  show "find_buddy b (find_buddy b off i) i = off"
    using f [OF q] f [of "find_buddy b off i" "if even q then q + 1 else q - 1"] q by (auto elim!: oddE)
  have dbl: "size_for_order (Suc i) b = 2 * size_for_order i b" by (simp add: size_for_order_def)
  show "size_for_order (Suc i) b dvd min off (find_buddy b off i)"
  proof (cases "even q")
    case True
    then have "min off (find_buddy b off i) = q * size_for_order i b" using f [OF q] q by simp
    with True show ?thesis unfolding dbl by (auto elim!: evenE)
  next
    case False
    then have "min off (find_buddy b off i) = (q - 1) * size_for_order i b" using f [OF q] q by simp
    with False show ?thesis unfolding dbl by (auto elim!: oddE)
  qed
  show "cells (min off (find_buddy b off i)) (size_for_order (Suc i) b) =
         cells off (size_for_order i b) + cells (find_buddy b off i) (size_for_order i b)"
  proof (cases "even q")
    case True
    then have "find_buddy b off i = off + size_for_order i b" using f [OF q] q by simp
    then show ?thesis by (simp add: size_for_order_Suc cells_split)
  next
    case False
    then have "off = find_buddy b off i + size_for_order i b" using f [OF q] q by (auto elim!: oddE)
    then have "min off (find_buddy b off i) = find_buddy b off i"
      "cells off (size_for_order i b) = cells (find_buddy b off i + size_for_order i b) (size_for_order i b)" by simp_all
    then show ?thesis by (simp add: size_for_order_Suc cells_split add.commute)
  qed
qed

section \<open>The invariant\<close>

definition lists_ok :: "nat \<Rightarrow> nat list list \<Rightarrow> bool" where
  "lists_ok b fl \<longleftrightarrow> fl \<noteq> [] \<and> (\<forall>i < length fl. strict_sorted (fl ! i) \<and> (\<forall>off \<in> set (fl ! i). size_for_order i b dvd off))"

text \<open>No two buddies are free at the same time: everything that can be merged has been merged.\<close>

definition coalesced :: "nat \<Rightarrow> nat list list \<Rightarrow> bool" where
  "coalesced b fl \<longleftrightarrow> (\<forall>i < length fl - 1. \<forall>off \<in> set (fl ! i). find_buddy b off i \<notin> set (fl ! i))"

definition allocs_ok :: "nat \<Rightarrow> nat \<Rightarrow> (nat, nat) sorted_map \<Rightarrow> bool" where
  "allocs_ok b n am \<longleftrightarrow> sm_inv am \<and> (\<forall>(off, s) \<in> set am. \<exists>i < n. s = size_for_order i b \<and> s dvd off)"

definition buddy_inv :: "allocator \<Rightarrow> bool" where
  "buddy_inv a \<longleftrightarrow>
     (let b = a_block_size a; fl = a_free_lists a
      in is_power_of_two b \<and> lists_ok b fl \<and> coalesced b fl \<and> allocs_ok b (length fl) (a_map a) \<and>
         fcells b fl + acells (a_map a) = mset [0..<round_down (a_source_size a) b])"

lemma total_count_le:
  assumes "buddy_inv a"
  shows "count (fcells (a_block_size a) (a_free_lists a)) x + count (acells (a_map a)) x \<le> 1"
proof -
  have eq: "fcells (a_block_size a) (a_free_lists a) + acells (a_map a) =
      cells 0 (round_down (a_source_size a) (a_block_size a))"
    using assms by (simp add: buddy_inv_def Let_def cells_def)
  from arg_cong [OF eq, of "\<lambda>m. count m x"] show ?thesis by (simp add: count_cells split: if_splits)
qed

lemma buddy_alloc_pos:
  assumes "buddy_inv a" and "(off, s) \<in> set (a_map a)"
  shows "0 < s"
proof -
  have b: "0 < a_block_size a" using assms(1) by (auto simp: buddy_inv_def Let_def is_power_of_two_iff)
  obtain i where "s = size_for_order i (a_block_size a)"
    using assms by (auto simp: buddy_inv_def Let_def allocs_ok_def)
  with b show ?thesis by simp
qed

lemma buddy_allocs_disjoint:
  assumes "buddy_inv a" and "(off, s) \<in> set (a_map a)" and "(off', s') \<in> set (a_map a)" and "off \<noteq> off'"
  shows "off + s \<le> off' \<or> off' + s' \<le> off"
proof (rule ccontr)
  assume "\<not> ?thesis"
  then have "count (cells off s) (max off off') = 1" "count (cells off' s') (max off off') = 1"
    using assms buddy_alloc_pos [OF assms(1,2)] buddy_alloc_pos [OF assms(1,3)] by (auto simp: count_cells)
  moreover have "count (cells off s + cells off' s') x \<le> count (acells (a_map a)) x" for x
    using assms(4) by (intro mset_subset_eq_count acells_two [OF assms(2,3)]) simp
  from this [of "max off off'"] calculation have "2 \<le> count (acells (a_map a)) (max off off')"
    by simp
  with total_count_le [OF assms(1), of "max off off'"] show False by linarith
qed

lemma buddy_alloc_bounds:
  assumes "buddy_inv a" and "(off, s) \<in> set (a_map a)"
  shows "off + s \<le> round_down (a_source_size a) (a_block_size a)" and "off + s \<le> a_source_size a"
proof -
  note s = buddy_alloc_pos [OF assms]
  have "cells off s \<subseteq># mset [0..<round_down (a_source_size a) (a_block_size a)]"
    using acells_mem [OF assms(2)] assms(1)
    by (metis (no_types, lifting) buddy_inv_def mset_subset_eq_add_right subset_mset.trans)
  moreover have "off + s - 1 \<in># cells off s" using s by (simp add: cells_def)
  ultimately have "off + s - 1 < round_down (a_source_size a) (a_block_size a)"
    by (metis atLeastLessThan_iff mset_subset_eqD set_mset_mset set_upt)
  with s show le: "off + s \<le> round_down (a_source_size a) (a_block_size a)" by linarith
  then show "off + s \<le> a_source_size a" using round_down_le by (rule le_trans)
qed

section \<open>The loops\<close>

lemma find_order_spec:
  "find_order fl idx = r \<Longrightarrow>
     (case r of
        None \<Rightarrow> \<forall>j. idx \<le> j \<and> j < length fl \<longrightarrow> fl ! j = []
      | Some k \<Rightarrow> idx \<le> k \<and> k < length fl \<and> fl ! k \<noteq> [] \<and> (\<forall>j. idx \<le> j \<and> j < k \<longrightarrow> fl ! j = []))"
proof (induction fl idx arbitrary: r rule: find_order.induct)
  case (1 fl idx)
  show ?case
  proof (cases "idx \<ge> length fl \<or> fl ! idx \<noteq> []")
    case True
    with "1.prems" show ?thesis by (subst (asm) find_order.simps) (auto split: if_splits)
  next
    case False
    then have eq: "find_order fl (idx + 1) = r" using "1.prems" by (subst (asm) find_order.simps) simp
    have empty: "fl ! idx = []" using False by simp
    have step: "j = idx \<or> idx + 1 \<le> j" if "idx \<le> j" for j using that by linarith
    from "1.IH" [OF _ _ eq] False empty show ?thesis
      by (auto split: option.splits dest: step)
  qed
qed

text \<open>Splitting puts the upper half of every order on the way down into its empty list.\<close>

lemma split_loop_spec:
  assumes "req \<le> ord" and "ord \<le> length fl" and "\<forall>j. req \<le> j \<and> j < ord \<longrightarrow> fl ! j = []"
  shows "\<exists>fl'. split_loop b off req ord fl = Inr (req, fl') \<and> length fl' = length fl \<and>
     (\<forall>j < length fl. fl' ! j = (if req \<le> j \<and> j < ord then [off + size_for_order j b] else fl ! j)) \<and>
     fcells b fl' + cells off (size_for_order req b) = fcells b fl + cells off (size_for_order ord b)"
  using assms
proof (induction ord arbitrary: fl)
  case 0
  then show ?case by (subst split_loop.simps) auto
next
  case (Suc ord)
  show ?case
  proof (cases "req = Suc ord")
    case True
    then show ?thesis by (subst split_loop.simps) auto
  next
    case False
    let ?fl = "fl[ord := [off + size_for_order ord b]]"
    have e: "fl ! ord = []" "ord < length fl" using Suc.prems False by auto
    have fc: "fcells b ?fl = fcells b fl + cells (off + size_for_order ord b) (size_for_order ord b)"
      using fcells_update [OF e(2), of b "[off + size_for_order ord b]"] e(1)
      by (simp add: size_for_order_def)
    have "\<exists>fl'. split_loop b off req ord ?fl = Inr (req, fl') \<and> length fl' = length ?fl \<and>
     (\<forall>j < length ?fl. fl' ! j = (if req \<le> j \<and> j < ord then [off + size_for_order j b] else ?fl ! j)) \<and>
     fcells b fl' + cells off (size_for_order req b) = fcells b ?fl + cells off (size_for_order ord b)"
      using Suc.prems False by (intro Suc.IH) auto
    then obtain fl' where fl': "split_loop b off req ord ?fl = Inr (req, fl')" "length fl' = length fl"
      "\<forall>j < length fl. fl' ! j = (if req \<le> j \<and> j < ord then [off + size_for_order j b] else ?fl ! j)"
      "fcells b fl' + cells off (size_for_order req b) = fcells b ?fl + cells off (size_for_order ord b)"
      by auto
    have "split_loop b off req (Suc ord) fl = Inr (req, fl')"
      using e Suc.prems(1) False fl'(1) by (subst split_loop.simps) simp
    moreover have "\<forall>j < length fl. fl' ! j = (if req \<le> j \<and> j < Suc ord then [off + size_for_order j b] else fl ! j)"
      using fl'(3) Suc.prems(1) False e(2) by (auto simp: nth_list_update less_Suc_eq)
    moreover have "fcells b fl' + cells off (size_for_order req b) = fcells b fl + cells off (size_for_order (Suc ord) b)"
      using fl'(4) fc by (simp add: size_for_order_Suc cells_split ac_simps)
    ultimately show ?thesis using fl'(2) by blast
  qed
qed

lemma lists_ok_update:
  assumes "lists_ok b fl" and "strict_sorted l" and "\<forall>off \<in> set l. size_for_order i b dvd off"
  shows "lists_ok b (fl[i := l])"
  using assms by (cases "i < length fl") (auto simp: lists_ok_def nth_list_update)

lemma coalesced_subset:
  assumes "coalesced b fl" and "length fl' = length fl" and "\<forall>j < length fl. set (fl' ! j) \<subseteq> set (fl ! j)"
  shows "coalesced b fl'"
  unfolding coalesced_def
proof (intro allI impI ballI)
  fix i off assume i: "i < length fl' - 1" and off: "off \<in> set (fl' ! i)"
  then have "i < length fl" "i < length fl - 1" using assms(2) by auto
  with off assms(1,3) show "find_buddy b off i \<notin> set (fl' ! i)"
    unfolding coalesced_def by blast
qed

lemma merge_loop_spec:
  "b = 2 ^ k \<Longrightarrow> merge_loop b off ord fl = (off', ord', fl') \<Longrightarrow> lists_ok b fl \<Longrightarrow> ord < length fl \<Longrightarrow>
     size_for_order ord b dvd off \<Longrightarrow>
     lists_ok b fl' \<and> length fl' = length fl \<and> ord' < length fl \<and> size_for_order ord' b dvd off' \<and>
     (\<forall>j < length fl. set (fl' ! j) \<subseteq> set (fl ! j)) \<and>
     (ord' < length fl - 1 \<longrightarrow> find_buddy b off' ord' \<notin> set (fl' ! ord')) \<and>
     fcells b fl' + cells off' (size_for_order ord' b) = fcells b fl + cells off (size_for_order ord b)"
proof (induction b off ord fl rule: merge_loop.induct)
  case (1 b off ord fl)
  let ?buddy = "find_buddy b off ord"
  have srt: "strict_sorted (fl ! ord)" using "1.prems" by (simp add: lists_ok_def)
  show ?case
  proof (cases "ord < length fl - 1")
    case False
    then have "merge_loop b off ord fl = (off, ord, fl)" by (subst merge_loop.simps) simp
    with False "1.prems" show ?thesis by simp
  next
    case True
    show ?thesis
    proof (cases "binary_search (fl ! ord) ?buddy")
      case (Inl i)
      with True have "merge_loop b off ord fl = (off, ord, fl)" by (subst merge_loop.simps) (simp add: Let_def)
      with "1.prems" binary_search_absent(1) [OF srt Inl] show ?thesis by simp
    next
      case (Inr idx)
      note f = binary_search_found [OF srt Inr]
      let ?l = "vec_remove idx (fl ! ord)"
      let ?fl = "fl[ord := ?l]"
      let ?off = "min off ?buddy"
      note bf = buddy_facts [OF "1.prems"(1,5)]
      have step: "merge_loop b off ord fl = merge_loop b ?off (ord + 1) ?fl"
        using True Inr by (subst merge_loop.simps) (simp add: Let_def)
      have ok: "lists_ok b ?fl"
        using "1.prems"(3,4) vec_remove_sorted [OF srt] vec_remove_set [of idx "fl ! ord"]
        by (intro lists_ok_update) (auto simp: lists_ok_def)
      have fc: "fcells b ?fl + cells ?buddy (size_for_order ord b) = fcells b fl"
      proof -
        have "fcells b ?fl + blk (size_for_order ord b) (fl ! ord) = fcells b fl + blk (size_for_order ord b) ?l"
          using fcells_update [OF "1.prems"(4), of b ?l] by (simp add: size_for_order_def)
        moreover have "blk (size_for_order ord b) (fl ! ord) =
            cells ?buddy (size_for_order ord b) + blk (size_for_order ord b) ?l"
          using vec_remove_at(2) [OF f(1)] f(2) by simp
        ultimately show ?thesis by (simp add: add.assoc [symmetric])
      qed
      have IH: "lists_ok b fl' \<and> length fl' = length ?fl \<and> ord' < length ?fl \<and> size_for_order ord' b dvd off' \<and>
        (\<forall>j < length ?fl. set (fl' ! j) \<subseteq> set (?fl ! j)) \<and>
        (ord' < length ?fl - 1 \<longrightarrow> find_buddy b off' ord' \<notin> set (fl' ! ord')) \<and>
        fcells b fl' + cells off' (size_for_order ord' b) = fcells b ?fl + cells ?off (size_for_order (ord + 1) b)"
        using "1.IH" [OF True refl Inr "1.prems"(1)] step "1.prems" ok bf(4) True by simp
      moreover have "set (?fl ! j) \<subseteq> set (fl ! j)" for j
        using vec_remove_set [of idx "fl ! ord"] "1.prems"(4) by (cases "j = ord") auto
      moreover have "fcells b ?fl + cells ?off (size_for_order (ord + 1) b) = fcells b fl + cells off (size_for_order ord b)"
        using fc bf(5) by (simp add: ac_simps)
      ultimately show ?thesis by fastforce
    qed
  qed
qed

section \<open>Allocation\<close>

lemma buddy_inv_block:
  assumes "buddy_inv a"
  obtains k where "a_block_size a = 2 ^ k" and "0 < a_block_size a"
  using assms by (auto simp: buddy_inv_def Let_def is_power_of_two_iff)

lemma buddy_invD:
  assumes "buddy_inv a"
  shows "lists_ok (a_block_size a) (a_free_lists a)" and "coalesced (a_block_size a) (a_free_lists a)"
    and "allocs_ok (a_block_size a) (length (a_free_lists a)) (a_map a)"
    and "fcells (a_block_size a) (a_free_lists a) + acells (a_map a) =
         cells 0 (round_down (a_source_size a) (a_block_size a))"
  using assms by (simp_all add: buddy_inv_def Let_def cells_def)

lemma cells_subset_bound:
  assumes "cells off s \<subseteq># cells 0 n" and "0 < s"
  shows "off + s \<le> n"
proof -
  have "off + s - 1 \<in># cells off s" using assms(2) by (simp add: cells_def)
  then have "off + s - 1 \<in># cells 0 n" using assms(1) mset_subset_eqD by fast
  then show ?thesis using assms(2) by (simp add: cells_def)
qed

lemma free_block:
  assumes "buddy_inv a" and "i < length (a_free_lists a)" and "off \<in> set (a_free_lists a ! i)"
  shows "off + size_for_order i (a_block_size a) \<le> a_source_size a"
    and "off \<notin> fst ` set (a_map a)" and "size_for_order i (a_block_size a) dvd off"
proof -
  let ?b = "a_block_size a"
  obtain k where b: "?b = 2 ^ k" "0 < ?b" using assms(1) by (rule buddy_inv_block)
  have pos: "0 < size_for_order i ?b" using b by simp
  have sub: "cells off (size_for_order i ?b) \<subseteq># fcells ?b (a_free_lists a)"
    using fcells_mem [OF assms(2,3)] by (simp add: size_for_order_def)
  then have "cells off (size_for_order i ?b) \<subseteq># cells 0 (round_down (a_source_size a) ?b)"
    unfolding buddy_invD(4) [OF assms(1), symmetric] by (rule subset_mset.order_trans) simp
  from cells_subset_bound [OF this pos] show "off + size_for_order i ?b \<le> a_source_size a"
    using round_down_le by (rule le_trans)
  show "size_for_order i ?b dvd off"
    using buddy_invD(1) [OF assms(1)] assms(2,3) by (simp add: lists_ok_def)
  show "off \<notin> fst ` set (a_map a)"
  proof
    assume "off \<in> fst ` set (a_map a)"
    then obtain s where s: "(off, s) \<in> set (a_map a)" by auto
    have "1 \<le> count (acells (a_map a)) off"
      using mset_subset_eq_count [OF acells_mem [OF s], of off] buddy_alloc_pos [OF assms(1) s]
      by (simp add: count_cells)
    moreover have "1 \<le> count (fcells ?b (a_free_lists a)) off"
      using mset_subset_eq_count [OF sub, of off] pos by (simp add: count_cells)
    ultimately show False using total_count_le [OF assms(1), of off] by linarith
  qed
qed

lemma size_for_order_dvd: "i \<le> j \<Longrightarrow> size_for_order i b dvd size_for_order j b"
  by (simp add: size_for_order_def le_imp_power_dvd)

lemma size_for_order_mono: "i \<le> j \<Longrightarrow> size_for_order i b \<le> size_for_order j b"
  by (simp add: size_for_order_def)

lemma butlast_sorted:
  assumes "strict_sorted l" and "l \<noteq> []"
  shows "strict_sorted (butlast l)" and "set (butlast l) \<subseteq> set l"
    and "\<forall>x \<in> set (butlast l). x < last l"
    and "blk s l = blk s (butlast l) + cells (last l) s"
proof -
  have l: "l = butlast l @ [last l]" using assms(2) by simp
  have "strict_sorted (butlast l @ [last l])" using assms by simp
  then show "strict_sorted (butlast l)" "\<forall>x \<in> set (butlast l). x < last l"
    unfolding sorted_wrt_append by auto
  show "set (butlast l) \<subseteq> set l" by (auto dest: in_set_butlastD)
  have "blk s (butlast l @ [last l]) = blk s (butlast l) + cells (last l) s" by simp
  then show "blk s l = blk s (butlast l) + cells (last l) s" using l by metis
qed

text \<open>The lists after an allocation of order \<open>req\<close> from a block of order \<open>k\<close>.\<close>

lemma allocate_spec:
  assumes inv: "buddy_inv a" and sz: "sz \<le> a_source_size a"
    and req: "req = order_of sz (a_block_size a)" "req < length (a_free_lists a)"
    and found: "find_order (a_free_lists a) req = Some k"
  obtains off fl where "off = last (a_free_lists a ! k)" and "off \<in> set (a_free_lists a ! k)"
    and "try_allocate_buffer sz a = Inr (Some (off, off + sz),
           a\<lparr>a_free_lists := fl, a_map := sm_insert off (size_for_order req (a_block_size a)) (a_map a)\<rparr>)"
    and "length fl = length (a_free_lists a)"
    and "\<forall>j < length (a_free_lists a). fl ! j =
           (if req \<le> j \<and> j < k then [off + size_for_order j (a_block_size a)]
            else if j = k then butlast (a_free_lists a ! k) else a_free_lists a ! j)"
    and "fcells (a_block_size a) fl + cells off (size_for_order req (a_block_size a)) =
         fcells (a_block_size a) (a_free_lists a)"
proof -
  let ?b = "a_block_size a" and ?fl = "a_free_lists a"
  obtain e where b: "?b = 2 ^ e" "0 < ?b" using inv by (rule buddy_inv_block)
  have k: "req \<le> k" "k < length ?fl" "?fl ! k \<noteq> []" "\<forall>j. req \<le> j \<and> j < k \<longrightarrow> ?fl ! j = []"
    using find_order_spec [OF found] by auto
  define off where "off = last (?fl ! k)"
  let ?fl1 = "?fl[k := butlast (?fl ! k)]"
  have mem: "off \<in> set (?fl ! k)" using k(3) by (simp add: off_def)
  have srt: "strict_sorted (?fl ! k)" using buddy_invD(1) [OF inv] k(2) by (simp add: lists_ok_def)
  note bl = butlast_sorted [OF srt k(3)]
  have "fcells ?b ?fl1 + blk (size_for_order k ?b) (?fl ! k) =
      fcells ?b ?fl + blk (size_for_order k ?b) (butlast (?fl ! k))"
    using fcells_update [OF k(2), of ?b "butlast (?fl ! k)"] by (simp add: size_for_order_def)
  then have fc: "fcells ?b ?fl1 + cells off (size_for_order k ?b) = fcells ?b ?fl"
    unfolding bl(4) off_def [symmetric] by (simp add: ac_simps)
  have "\<forall>j. req \<le> j \<and> j < k \<longrightarrow> ?fl1 ! j = []" using k(4) by auto
  from split_loop_spec [OF k(1) _ this, of ?b off] k(2) obtain fl where
    fl: "split_loop ?b off req k ?fl1 = Inr (req, fl)" "length fl = length ?fl"
    "\<forall>j < length ?fl. fl ! j = (if req \<le> j \<and> j < k then [off + size_for_order j ?b] else ?fl1 ! j)"
    "fcells ?b fl + cells off (size_for_order req ?b) = fcells ?b ?fl1 + cells off (size_for_order k ?b)" by auto
  have "off + size_for_order k ?b \<le> a_source_size a" using free_block(1) [OF inv k(2) mem] .
  moreover have "sz \<le> size_for_order k ?b"
    using order_of_fits [OF b(2), of sz] size_for_order_mono [OF k(1), of ?b] req(1) by simp
  moreover have "0 < size_for_order k ?b" using b by simp
  ultimately have slice: "source_sub_slice (a_source_size a) (off, off + sz) = Inr ()"
    by (simp add: source_sub_slice_def)
  have tr: "try_allocate_buffer sz a = Inr (Some (off, off + sz),
           a\<lparr>a_free_lists := fl, a_map := sm_insert off (size_for_order req ?b) (a_map a)\<rparr>)"
    using sz req found fl(1) slice
    by (simp add: try_allocate_buffer_def Let_def off_def [symmetric])
  show thesis
    using k(2) fl(3) fl(4) fc
    by (intro that [OF off_def mem tr fl(2)]) (auto simp: nth_list_update)
qed

lemma allocate_inv:
  assumes inv: "buddy_inv a" and sz: "sz \<le> a_source_size a"
    and req: "req = order_of sz (a_block_size a)" "req < length (a_free_lists a)"
    and res: "try_allocate_buffer sz a = Inr (Some r, a')"
  shows "buddy_inv a'" and "fst r \<notin> fst ` set (a_map a)" and "snd r = fst r + sz"
    and "a_map a' = sm_insert (fst r) (size_for_order req (a_block_size a)) (a_map a)"
    and "a_block_size a' = a_block_size a" and "a_source_size a' = a_source_size a"
    and "length (a_free_lists a') = length (a_free_lists a)"
proof -
  let ?b = "a_block_size a" and ?fl = "a_free_lists a"
  obtain e where b: "?b = 2 ^ e" "0 < ?b" using inv by (rule buddy_inv_block)
  obtain k where k: "find_order ?fl req = Some k"
    using res req sz by (cases "find_order ?fl req") (auto simp: try_allocate_buffer_def Let_def)
  obtain off fl where s: "off = last (?fl ! k)" "off \<in> set (?fl ! k)"
    "try_allocate_buffer sz a = Inr (Some (off, off + sz),
           a\<lparr>a_free_lists := fl, a_map := sm_insert off (size_for_order req ?b) (a_map a)\<rparr>)"
    "length fl = length ?fl"
    "\<forall>j < length ?fl. fl ! j = (if req \<le> j \<and> j < k then [off + size_for_order j ?b]
            else if j = k then butlast (?fl ! k) else ?fl ! j)"
    "fcells ?b fl + cells off (size_for_order req ?b) = fcells ?b ?fl"
    by (rule allocate_spec [OF inv sz req k])
  have kk: "req \<le> k" "k < length ?fl" "?fl ! k \<noteq> []" using find_order_spec [OF k] by auto
  have r: "r = (off, off + sz)"
    and a': "a' = a\<lparr>a_free_lists := fl, a_map := sm_insert off (size_for_order req ?b) (a_map a)\<rparr>"
    using res s(3) by simp_all
  note fb = free_block [OF inv kk(2) s(2)]
  show "fst r \<notin> fst ` set (a_map a)" using fb(2) r by simp
  show "snd r = fst r + sz" "a_map a' = sm_insert (fst r) (size_for_order req ?b) (a_map a)"
    "a_block_size a' = ?b" "a_source_size a' = a_source_size a" "length (a_free_lists a') = length ?fl"
    using r a' s(4) by simp_all
  have al: "size_for_order j ?b dvd off" if "j \<le> k" for j
    using fb(3) size_for_order_dvd [OF that, of ?b] dvd_trans by blast
  have lk: "strict_sorted (?fl ! k)" using buddy_invD(1) [OF inv] kk by (simp add: lists_ok_def)
  have "lists_ok ?b fl"
    unfolding lists_ok_def
  proof (intro conjI allI impI)
    show "fl \<noteq> []" using s(4) kk(2) by auto
    fix j assume "j < length fl"
    then show "strict_sorted (fl ! j)" "\<forall>x \<in> set (fl ! j). size_for_order j ?b dvd x"
      using s(4,5) buddy_invD(1) [OF inv] butlast_sorted(1,2) [OF lk kk(3)] al [of j]
      by (auto simp: lists_ok_def)
  qed
  moreover have "coalesced ?b fl"
    unfolding coalesced_def
  proof (intro allI impI ballI)
    fix j x assume j: "j < length fl - 1" and x: "x \<in> set (fl ! j)"
    show "find_buddy ?b x j \<notin> set (fl ! j)"
    proof (cases "req \<le> j \<and> j < k")
      case True
      then have "fl ! j = [off + size_for_order j ?b]" using s(4,5) j by auto
      moreover have "size_for_order j ?b dvd off + size_for_order j ?b" using al [of j] True by simp
      ultimately show ?thesis using buddy_facts(1) [OF b(1)] x by fastforce
    next
      case False
      then have sub: "set (fl ! j) \<subseteq> set (?fl ! j)"
        using s(4,5) j butlast_sorted(2) [OF lk kk(3)] by auto
      moreover have "j < length ?fl - 1" using j s(4) by simp
      ultimately show ?thesis using buddy_invD(2) [OF inv] x unfolding coalesced_def by blast
    qed
  qed
  moreover have "allocs_ok ?b (length fl) (a_map a')"
  proof -
    have "set (a_map a') \<subseteq> insert (off, size_for_order req ?b) (set (a_map a))"
    proof -
      have "set (sm_insert x v m) \<subseteq> insert (x, v) (set m)" for x :: nat and v :: nat and m
        by (induction x v m rule: sm_insert.induct) auto
      then show ?thesis by (simp add: a')
    qed
    then show ?thesis
      using buddy_invD(3) [OF inv] s(4) req(2) al [OF kk(1)] by (auto simp: allocs_ok_def a')
  qed
  moreover have "fcells ?b fl + acells (a_map a') = cells 0 (round_down (a_source_size a) ?b)"
    using buddy_invD(4) [OF inv] s(6) acells_insert [OF fb(2), of "size_for_order req ?b"]
    by (simp add: a' ac_simps)
  ultimately show "buddy_inv a'"
    using inv by (simp add: buddy_inv_def Let_def a' cells_def)
qed

section \<open>Deallocation\<close>

lemma free_spec:
  assumes inv: "buddy_inv a" and m: "sm_get (a_map a) (fst r) = Some s" and r: "fst r \<le> snd r" "snd r \<le> fst r + s"
  obtains a' where "free_buffer r a = Inr a'" and "buddy_inv a'" and "a_map a' = sm_remove (fst r) (a_map a)"
    and "a_block_size a' = a_block_size a" and "a_source_size a' = a_source_size a"
    and "length (a_free_lists a') = length (a_free_lists a)"
proof -
  let ?b = "a_block_size a" and ?fl = "a_free_lists a" and ?off = "fst r"
  obtain e where b: "?b = 2 ^ e" "0 < ?b" using inv by (rule buddy_inv_block)
  have mem: "(?off, s) \<in> set (a_map a)" using m by (rule sm_get_SomeD)
  obtain i where i: "i < length ?fl" "s = size_for_order i ?b" "s dvd ?off"
    using buddy_invD(3) [OF inv] mem by (auto simp: allocs_ok_def)
  have ord: "order_of s ?b = i" using order_of_size [OF b(2)] i(2) by simp
  obtain off ord fl where ml: "merge_loop ?b ?off i ?fl = (off, ord, fl)" by (cases "merge_loop ?b ?off i ?fl") auto
  note ms = merge_loop_spec [OF b(1) ml buddy_invD(1) [OF inv] i(1) i(3) [unfolded i(2)]]
  have sminv: "sm_inv (a_map a)" using buddy_invD(3) [OF inv] by (simp add: allocs_ok_def)
  have total: "fcells ?b fl + cells off (size_for_order ord ?b) + acells (sm_remove ?off (a_map a)) =
      cells 0 (round_down (a_source_size a) ?b)"
    using ms buddy_invD(4) [OF inv] acells_remove [OF sminv m] i(2) by (simp add: ac_simps)
  have ordlt: "ord < length fl" using ms by simp
  have srt: "strict_sorted (fl ! ord)" using ms ordlt by (simp add: lists_ok_def)
  have "off \<notin> set (fl ! ord)"
  proof
    assume "off \<in> set (fl ! ord)"
    then have "cells off (size_for_order ord ?b) \<subseteq># fcells ?b fl"
      using fcells_mem [OF ordlt, of off ?b] by (simp add: size_for_order_def)
    then have "1 \<le> count (fcells ?b fl) off"
      using mset_subset_eq_count [of "cells off (size_for_order ord ?b)" "fcells ?b fl" off] b by (simp add: count_cells)
    moreover have "count (fcells ?b fl) off + count (cells off (size_for_order ord ?b)) off \<le> 1"
      using arg_cong [OF total, of "\<lambda>m. count m off"] by (simp add: count_cells split: if_splits)
    moreover have "count (cells off (size_for_order ord ?b)) off = 1" using b by (simp add: count_cells)
    ultimately show False by linarith
  qed
  with binary_search_found [OF srt] obtain idx where idx: "binary_search (fl ! ord) off = Inl idx"
    by (cases "binary_search (fl ! ord) off") (metis nth_mem)+
  note ba = binary_search_absent [OF srt idx]
  let ?l = "vec_insert idx off (fl ! ord)"
  let ?a = "a\<lparr>a_free_lists := fl[ord := ?l], a_map := sm_remove ?off (a_map a)\<rparr>"
  have free: "free_buffer r a = Inr ?a"
    using m r i(1) ord ml ordlt idx by (auto simp: free_buffer_def Let_def)
  have "lists_ok ?b (fl[ord := ?l])"
    using ms ba(2,3) ordlt by (intro lists_ok_update) (auto simp: lists_ok_def)
  moreover have "coalesced ?b (fl[ord := ?l])"
    unfolding coalesced_def
  proof (intro allI impI ballI)
    fix j x assume j: "j < length (fl[ord := ?l]) - 1" and x: "x \<in> set (fl[ord := ?l] ! j)"
    have c: "coalesced ?b fl" using coalesced_subset [OF buddy_invD(2) [OF inv], of fl] ms by simp
    show "find_buddy ?b x j \<notin> set (fl[ord := ?l] ! j)"
    proof (cases "j = ord")
      case False
      with j x c show ?thesis by (simp add: coalesced_def)
    next
      case True
      have l: "fl[ord := ?l] ! j = ?l" using True ordlt by simp
      have nb: "find_buddy ?b off ord \<notin> set (fl ! ord)" using ms j True by simp
      have doff: "size_for_order ord ?b dvd off" using ms by simp
      have "find_buddy ?b x ord \<noteq> off \<and> find_buddy ?b x ord \<notin> set (fl ! ord)"
      proof (cases "x = off")
        case True
        then show ?thesis using nb buddy_facts(1) [OF b(1) doff] by simp
      next
        case False
        then have xin: "x \<in> set (fl ! ord)" using x l ba(3) by simp
        then have "size_for_order ord ?b dvd x" using ms ordlt by (simp add: lists_ok_def)
        then have "find_buddy ?b x ord \<noteq> off" using buddy_facts(3) [OF b(1)] nb xin by metis
        moreover have "find_buddy ?b x ord \<notin> set (fl ! ord)" using c xin j True by (simp add: coalesced_def)
        ultimately show ?thesis by simp
      qed
      then show ?thesis unfolding True l [unfolded True] ba(3) by simp
    qed
  qed
  moreover have "allocs_ok ?b (length (fl[ord := ?l])) (sm_remove ?off (a_map a))"
  proof -
    have "set (sm_remove ?off (a_map a)) \<subseteq> set (a_map a)" by (auto simp: sm_remove_def)
    then show ?thesis using buddy_invD(3) [OF inv] sminv ms by (auto simp: allocs_ok_def)
  qed
  moreover have "fcells ?b (fl[ord := ?l]) + acells (sm_remove ?off (a_map a)) =
      cells 0 (round_down (a_source_size a) ?b)"
  proof -
    have "fcells ?b (fl[ord := ?l]) + blk (size_for_order ord ?b) (fl ! ord) =
        fcells ?b fl + blk (size_for_order ord ?b) ?l"
      using fcells_update [OF ordlt, of ?b ?l] by (simp add: size_for_order_def)
    then have "fcells ?b (fl[ord := ?l]) = fcells ?b fl + cells off (size_for_order ord ?b)"
      unfolding ba(4) by (simp add: ac_simps)
    with total show ?thesis by simp
  qed
  ultimately have "buddy_inv ?a" using inv by (simp add: buddy_inv_def Let_def cells_def)
  then show thesis using free ms by (intro that [of ?a]) auto
qed

section \<open>Freeing what was just allocated\<close>

text \<open>The merge undoes the splits of an allocation one by one.\<close>

lemma merge_unsplit:
  assumes "b = 2 ^ e" and "req \<le> k" and "k < length fl" and "size_for_order k b dvd off"
    and "\<forall>j. req \<le> j \<and> j < k \<longrightarrow> fl ! j = [off + size_for_order j b]"
  shows "\<exists>fl'. merge_loop b off req fl = merge_loop b off k fl' \<and> length fl' = length fl \<and>
     (\<forall>j < length fl. fl' ! j = (if req \<le> j \<and> j < k then [] else fl ! j))"
  using assms(2,3,5)
proof (induction "k - req" arbitrary: req fl)
  case 0
  then show ?case by auto
next
  case (Suc n)
  then have lt: "req < k" by simp
  let ?buddy = "off + size_for_order req b"
  have "size_for_order (Suc req) b dvd off"
    using size_for_order_dvd [of "Suc req" k b] lt assms(4) dvd_trans by auto
  then obtain q where q: "off = (2 * q) * size_for_order req b"
    by (metis dvd_def mult.assoc mult.commute mult_2 size_for_order_Suc)
  have bd: "find_buddy b off req = ?buddy"
    unfolding find_buddy_eq [OF assms(1) q] using q by simp
  have l: "fl ! req = [?buddy]" using Suc.prems(3) lt by simp
  let ?fl = "fl[req := []]"
  have "req < length fl - 1" using lt Suc.prems(2) by simp
  then have step: "merge_loop b off req fl = merge_loop b off (req + 1) ?fl"
    using l bd
    by (subst merge_loop.simps) (simp add: Let_def binary_search_def vec_remove_def)
  have "\<exists>fl'. merge_loop b off (req + 1) ?fl = merge_loop b off k fl' \<and> length fl' = length ?fl \<and>
     (\<forall>j < length ?fl. fl' ! j = (if req + 1 \<le> j \<and> j < k then [] else ?fl ! j))"
    using Suc.hyps(2) Suc.prems lt by (intro Suc.hyps(1)) auto
  then obtain fl' where fl': "merge_loop b off (req + 1) ?fl = merge_loop b off k fl'" "length fl' = length fl"
    "\<forall>j < length fl. fl' ! j = (if req + 1 \<le> j \<and> j < k then [] else ?fl ! j)" by auto
  have "\<forall>j < length fl. fl' ! j = (if req \<le> j \<and> j < k then [] else fl ! j)"
    using fl'(3) lt Suc.prems(2) by (auto simp: nth_list_update)
  with fl' step show ?case by auto
qed

lemma binary_search_last:
  assumes "strict_sorted l" and "l \<noteq> []"
  shows "binary_search (butlast l) (last l) = Inl (length (butlast l))"
proof -
  have tw: "takeWhile (\<lambda>y. y < last l) (butlast l) = butlast l"
    using butlast_sorted(3) [OF assms] by simp
  show ?thesis unfolding binary_search_def tw Let_def by simp
qed

lemma allocate_free_restores:
  assumes inv: "buddy_inv a" and sz: "sz \<le> a_source_size a"
    and req: "order_of sz (a_block_size a) < length (a_free_lists a)"
    and al: "try_allocate_buffer sz a = Inr (Some r, a')"
  shows "free_buffer r a' = Inr a"
proof -
  let ?b = "a_block_size a" and ?fl = "a_free_lists a" and ?req = "order_of sz (a_block_size a)"
  obtain e where b: "?b = 2 ^ e" "0 < ?b" using inv by (rule buddy_inv_block)
  obtain k where found: "find_order ?fl ?req = Some k"
    using al req sz by (cases "find_order ?fl ?req") (auto simp: try_allocate_buffer_def Let_def)
  have k: "?req \<le> k" "k < length ?fl" "?fl ! k \<noteq> []" "\<forall>j. ?req \<le> j \<and> j < k \<longrightarrow> ?fl ! j = []"
    using find_order_spec [OF found] by auto
  obtain off fl where s: "off = last (?fl ! k)" "off \<in> set (?fl ! k)"
    "try_allocate_buffer sz a = Inr (Some (off, off + sz),
           a\<lparr>a_free_lists := fl, a_map := sm_insert off (size_for_order ?req ?b) (a_map a)\<rparr>)"
    "length fl = length ?fl"
    "\<forall>j < length ?fl. fl ! j = (if ?req \<le> j \<and> j < k then [off + size_for_order j ?b]
            else if j = k then butlast (?fl ! k) else ?fl ! j)"
    by (rule allocate_spec [OF inv sz refl req found])
  have r: "r = (off, off + sz)"
    and a': "a' = a\<lparr>a_free_lists := fl, a_map := sm_insert off (size_for_order ?req ?b) (a_map a)\<rparr>"
    using al s(3) by simp_all
  note fb = free_block [OF inv k(2) s(2)]
  have sminv: "sm_inv (a_map a)" using buddy_invD(3) [OF inv] by (simp add: allocs_ok_def)
  have srt: "strict_sorted (?fl ! k)" using buddy_invD(1) [OF inv] k(2) by (simp add: lists_ok_def)
  have "\<forall>j. ?req \<le> j \<and> j < k \<longrightarrow> fl ! j = [off + size_for_order j ?b]" using s(5) k(2) by auto
  from merge_unsplit [OF b(1) k(1) _ fb(3) this] s(4) k(2) obtain fl' where
    fl': "merge_loop ?b off ?req fl = merge_loop ?b off k fl'" "length fl' = length ?fl"
    "\<forall>j < length ?fl. fl' ! j = (if ?req \<le> j \<and> j < k then [] else fl ! j)" by auto
  have flk: "fl' ! k = butlast (?fl ! k)" using fl'(3) s(5) k(2) by simp
  have stop: "merge_loop ?b off k fl' = (off, k, fl')"
  proof (cases "k < length ?fl - 1")
    case True
    have "find_buddy ?b off k \<notin> set (?fl ! k)" using buddy_invD(2) [OF inv] True s(2) by (simp add: coalesced_def)
    then have "find_buddy ?b off k \<notin> set (fl' ! k)" using flk butlast_sorted(2) [OF srt k(3)] by auto
    moreover have "strict_sorted (fl' ! k)" using flk butlast_sorted(1) [OF srt k(3)] by simp
    ultimately obtain i where "binary_search (fl' ! k) (find_buddy ?b off k) = Inl i"
      using binary_search_found by (cases "binary_search (fl' ! k) (find_buddy ?b off k)") (metis nth_mem)+
    then show ?thesis by (subst merge_loop.simps) (simp add: Let_def)
  next
    case False
    then show ?thesis using fl'(2) by (subst merge_loop.simps) simp
  qed
  have search: "binary_search (fl' ! k) off = Inl (length (butlast (?fl ! k)))"
    unfolding flk s(1) by (rule binary_search_last [OF srt k(3)])
  have ins: "vec_insert (length (butlast (?fl ! k))) off (fl' ! k) = ?fl ! k"
    unfolding flk vec_insert_def using s(1) k(3) by simp
  have "fl'[k := ?fl ! k] = ?fl"
  proof (rule nth_equalityI)
    show "length (fl'[k := ?fl ! k]) = length ?fl" using fl'(2) by simp
    fix j assume "j < length (fl'[k := ?fl ! k])"
    then show "fl'[k := ?fl ! k] ! j = ?fl ! j"
      using fl'(2,3) s(5) k(2,4) by (simp add: nth_list_update)
  qed
  moreover have "sm_get (a_map a') off = Some (size_for_order ?req ?b)" using sminv by (simp add: a')
  moreover have "order_of (size_for_order ?req ?b) ?b = ?req" by (rule order_of_size [OF b(2)])
  moreover have "sz \<le> size_for_order ?req ?b" by (rule order_of_fits [OF b(2)])
  moreover have "fl \<noteq> []" using s(4) k(2) by auto
  ultimately show ?thesis
    using fl'(1) stop search ins k(2) fl'(2) sminv fb(2)
    by (simp add: free_buffer_def Let_def r a')
qed

section \<open>Initial state\<close>

lemma order_fit_blocks:
  assumes "b = 2 ^ k" and "0 < n"
  shows "\<exists>i. order_fit (b * n) b = Inr i \<and> 2 ^ i \<le> n \<and> n < 2 ^ Suc i"
proof -
  have b: "0 < b" using assms(1) by simp
  have div: "round_up (b * n) b div b = n" using b by (simp add: round_up_mult)
  show ?thesis
  proof (cases "is_power_of_two n")
    case True
    then obtain i where "n = 2 ^ i" by (auto simp: is_power_of_two_iff)
    with True b assms(2) div show ?thesis by (auto simp: order_fit_def Let_def)
  next
    case False
    then have n: "1 < n" using assms(2) is_power_of_two_iff [of n] by (metis One_nat_def Suc_lessI power_0)
    let ?c = "ceil_log2 n"
    have c: "?c \<noteq> 0" using ceil_log2_ge [of n] n by (cases ?c) auto
    have "order_fit (b * n) b = Inr (?c - 1)"
      using False div b assms(2) c by (simp add: order_fit_def Let_def next_power_of_two_def)
    moreover have "2 ^ (?c - 1) \<le> n" using ceil_log2_lower [OF n] by simp
    moreover have "n < 2 ^ Suc (?c - 1)"
      using ceil_log2_ge [of n] False c by (auto simp: is_power_of_two_def next_power_of_two_def le_less)
    ultimately show ?thesis by blast
  qed
qed

text \<open>
  The loop works off the binary expansion of the number of blocks: the lists below the current bound
  are still empty and the offset is a multiple of every block size to come.
\<close>

lemma initial_loop_spec:
  assumes b: "b = 2 ^ k"
  shows "off = b * q \<Longrightarrow> sz = b * (q + n) \<Longrightarrow> n < 2 ^ m \<Longrightarrow> 2 ^ m dvd q \<Longrightarrow> n < fuel \<Longrightarrow>
     (0 < n \<longrightarrow> (\<exists>i. order_fit (b * n) b = Inr i \<and> i < length fl)) \<Longrightarrow> lists_ok b fl \<Longrightarrow>
     (\<forall>j < length fl. length (fl ! j) \<le> 1) \<Longrightarrow> (\<forall>j < length fl. j < m \<longrightarrow> fl ! j = []) \<Longrightarrow>
     \<exists>fl'. initial_loop fuel sz b off fl = Inr fl' \<and> length fl' = length fl \<and> lists_ok b fl' \<and>
       (\<forall>j < length fl. length (fl' ! j) \<le> 1) \<and> fcells b fl' = fcells b fl + cells off (b * n)"
proof (induction fuel arbitrary: off q n m fl)
  case 0
  then show ?case by simp
next
  case (Suc fuel)
  have bp: "0 < b" using b by simp
  show ?case
  proof (cases "n = 0")
    case True
    with Suc.prems show ?thesis by (simp add: cells_def)
  next
    case False
    then obtain i where i: "order_fit (b * n) b = Inr i" "i < length fl" using Suc.prems(6) by auto
    from order_fit_blocks [OF b, of n] False i have le: "2 ^ i \<le> n" "n < 2 ^ Suc i" by auto
    have im: "i < m"
    proof (rule ccontr)
      assume "\<not> i < m"
      then have "(2 :: nat) ^ m \<le> 2 ^ i" by simp
      with le Suc.prems(3) show False by linarith
    qed
    have rest: "sz - off = b * n" using Suc.prems(1,2) by (simp add: distrib_left)
    have lt: "off < sz" using Suc.prems(1,2) False bp by simp
    let ?fl = "fl[i := fl ! i @ [off]]"
    have empty: "fl ! i = []" using Suc.prems(9) i(2) im by blast
    have dvd: "size_for_order i b dvd off"
    proof -
      have "2 ^ i dvd q" using Suc.prems(4) im by (meson dvd_trans le_imp_power_dvd less_imp_le)
      then show ?thesis using Suc.prems(1) by (simp add: size_for_order_def)
    qed
    have step: "initial_loop (Suc fuel) sz b off fl = initial_loop fuel sz b (off + size_for_order i b) ?fl"
      using lt rest i by simp
    have smaller: "n - 2 ^ i < 2 ^ i" using le by simp
    have fits: "0 < n - 2 ^ i \<longrightarrow> (\<exists>j. order_fit (b * (n - 2 ^ i)) b = Inr j \<and> j < length ?fl)"
    proof
      assume "0 < n - 2 ^ i"
      from order_fit_blocks [OF b this] obtain j where j: "order_fit (b * (n - 2 ^ i)) b = Inr j" "2 ^ j \<le> n - 2 ^ i" by auto
      then have "(2 :: nat) ^ j < 2 ^ i" using smaller by linarith
      then have "j < i" by simp
      with j i(2) show "\<exists>j. order_fit (b * (n - 2 ^ i)) b = Inr j \<and> j < length ?fl" by auto
    qed
    have "\<exists>fl'. initial_loop fuel sz b (off + size_for_order i b) ?fl = Inr fl' \<and> length fl' = length ?fl \<and> lists_ok b fl' \<and>
       (\<forall>j < length ?fl. length (fl' ! j) \<le> 1) \<and>
       fcells b fl' = fcells b ?fl + cells (off + size_for_order i b) (b * (n - 2 ^ i))"
    proof (rule Suc.IH [of _ "q + 2 ^ i" "n - 2 ^ i" i])
      show "off + size_for_order i b = b * (q + 2 ^ i)"
        using Suc.prems(1) by (simp add: size_for_order_def distrib_left)
      show "sz = b * (q + 2 ^ i + (n - 2 ^ i))" using Suc.prems(2) le(1) by simp
      show "n - 2 ^ i < 2 ^ i" by (rule smaller)
      show "2 ^ i dvd q + 2 ^ i" using Suc.prems(4) im by (meson dvd_add dvd_refl dvd_trans le_imp_power_dvd less_imp_le)
      show "n - 2 ^ i < fuel" using Suc.prems(5) le(1) one_le_power [of "2 :: nat" i] by linarith
      show "0 < n - 2 ^ i \<longrightarrow> (\<exists>j. order_fit (b * (n - 2 ^ i)) b = Inr j \<and> j < length ?fl)" by (rule fits)
      show "lists_ok b ?fl" using Suc.prems(7) empty dvd by (intro lists_ok_update) auto
      show "\<forall>j < length ?fl. length (?fl ! j) \<le> 1"
        using Suc.prems(8) empty by (simp add: nth_list_update i(2))
      show "\<forall>j < length ?fl. j < i \<longrightarrow> ?fl ! j = []" using Suc.prems(9) im by auto
    qed
    moreover have "fcells b ?fl = fcells b fl + cells off (size_for_order i b)"
      using fcells_update [OF i(2), of b "fl ! i @ [off]"] empty by (simp add: size_for_order_def)
    moreover have "cells off (b * n) = cells off (size_for_order i b) + cells (off + size_for_order i b) (b * (n - 2 ^ i))"
      using cells_split [of off "size_for_order i b" "b * (n - 2 ^ i)"] le(1)
      by (simp add: size_for_order_def flip: distrib_left)
    ultimately show ?thesis unfolding step by (auto simp: ac_simps)
  qed
qed

lemma fcells_replicate [simp]: "fcells s (replicate n []) = {#}"
  by (induction n arbitrary: s) auto

lemma allocator_new_ok:
  assumes "b = 2 ^ k" and "b \<le> src"
  shows "\<exists>a. allocator_new b src = Inr a \<and> buddy_inv a \<and> a_map a = [] \<and> a_block_size a = b \<and> a_source_size a = src"
proof -
  have bp: "0 < b" using assms(1) by simp
  define n where "n = src div b"
  have rd: "round_down src b = b * n" by (simp add: round_down_def n_def minus_mod_eq_mult_div)
  have n: "0 < n" using assms(2) bp by (simp add: n_def div_greater_zero_iff)
  obtain i where i: "order_fit (b * n) b = Inr i" "2 ^ i \<le> n" "n < 2 ^ Suc i"
    using order_fit_blocks [OF assms(1) n] by blast
  have "n < 2 ^ n" by (rule less_exp)
  then have "\<exists>fl'. initial_loop (b * n + 1) (b * n) b 0 (replicate (i + 1) []) = Inr fl' \<and> length fl' = length (replicate (i + 1) ([] :: nat list)) \<and>
      lists_ok b fl' \<and> (\<forall>j < length (replicate (i + 1) ([] :: nat list)). length (fl' ! j) \<le> 1) \<and>
      fcells b fl' = fcells b (replicate (i + 1) []) + cells 0 (b * n)"
    using i(1) bp n
    by (intro initial_loop_spec [OF assms(1), of 0 0 _ n n])
      (auto simp: lists_ok_def nth_append simp del: replicate_Suc intro: order.strict_trans2)
  then obtain fl where fl: "initial_loop (b * n + 1) (b * n) b 0 (replicate (i + 1) []) = Inr fl" "lists_ok b fl"
    "\<forall>j < i + 1. length (fl ! j) \<le> 1" "length fl = i + 1" "fcells b fl = cells 0 (b * n)" by auto
  have "is_power_of_two b" using assms(1) is_power_of_two_iff by blast
  have le: "b \<le> b * n" using n by simp
  have "initial_free_lists src b = Inr fl"
    using fl(1) i(1) bp rd le \<open>is_power_of_two b\<close> by (simp add: initial_free_lists_def Let_def)
  moreover have "coalesced b fl"
    unfolding coalesced_def
  proof (intro allI impI ballI)
    fix j x assume j: "j < length fl - 1" and x: "x \<in> set (fl ! j)"
    have "length (fl ! j) \<le> 1" using fl(3,4) j by simp
    then have "fl ! j = [x]" using x by (cases "fl ! j") auto
    moreover have "size_for_order j b dvd x" using fl(2) j x by (simp add: lists_ok_def)
    ultimately show "find_buddy b x j \<notin> set (fl ! j)" using buddy_facts(1) [OF assms(1)] by simp
  qed
  ultimately show ?thesis
    using fl(2,5) rd \<open>is_power_of_two b\<close>
    by (simp add: allocator_new_def buddy_inv_def Let_def allocs_ok_def acells_def cells_def)
qed

section \<open>Runs of the allocator\<close>

text \<open>
  A step is an allocation that succeeds or the drop of a buffer that was allocated. \<open>Buffer\<close> values
  keep the range they were created with, so a drop frees a range that starts at an allocation and is
  no longer than it.
\<close>

inductive allocator_step :: "allocator \<Rightarrow> allocator \<Rightarrow> bool" where
  step_allocate: "try_allocate_buffer sz a = Inr (Some r, a') \<Longrightarrow> allocator_step a a'"
| step_drop: "sm_get (a_map a) (fst r) = Some s \<Longrightarrow> fst r \<le> snd r \<Longrightarrow> snd r \<le> fst r + s \<Longrightarrow>
     free_buffer r a = Inr a' \<Longrightarrow> allocator_step a a'"

inductive allocator_reach :: "nat \<Rightarrow> nat \<Rightarrow> allocator \<Rightarrow> bool" for block_size src_size where
  reach_new: "allocator_new block_size src_size = Inr a \<Longrightarrow> allocator_reach block_size src_size a"
| reach_step: "allocator_reach block_size src_size a \<Longrightarrow> allocator_step a a' \<Longrightarrow> allocator_reach block_size src_size a'"

lemma try_allocate_Some:
  assumes "try_allocate_buffer sz a = Inr (Some r, a')"
  shows "sz \<le> a_source_size a" and "order_of sz (a_block_size a) < length (a_free_lists a)"
  using assms by (auto simp: try_allocate_buffer_def Let_def split: if_splits)

lemma allocator_step_inv:
  assumes "buddy_inv a" and "allocator_step a a'"
  shows "buddy_inv a'" and "a_block_size a' = a_block_size a" and "a_source_size a' = a_source_size a"
proof -
  have "buddy_inv a' \<and> a_block_size a' = a_block_size a \<and> a_source_size a' = a_source_size a"
    using assms(2)
  proof cases
    case (step_allocate sz r)
    note ai = allocate_inv [OF assms(1) try_allocate_Some(1) [OF step_allocate] refl
        try_allocate_Some(2) [OF step_allocate] step_allocate]
    show ?thesis by (intro conjI ai(1,5,6))
  next
    case (step_drop r s)
    obtain x where "free_buffer r a = Inr x" "buddy_inv x" "a_block_size x = a_block_size a"
      "a_source_size x = a_source_size a"
      using free_spec [OF assms(1) step_drop(1-3)] by blast
    with step_drop(4) show ?thesis by simp
  qed
  then show "buddy_inv a'" "a_block_size a' = a_block_size a" "a_source_size a' = a_source_size a" by auto
qed

lemma allocator_new_conditions:
  assumes "allocator_new b src = Inr a"
  shows "\<exists>k. b = 2 ^ k" and "b \<le> src"
  using assms round_down_le [of src b]
  by (auto simp: allocator_new_def initial_free_lists_def Let_def is_power_of_two_iff split: if_splits)

lemma allocator_reach_inv:
  assumes "allocator_reach b src a"
  shows "buddy_inv a \<and> a_block_size a = b \<and> a_source_size a = src"
  using assms
proof (induction rule: allocator_reach.induct)
  case (reach_new a)
  from allocator_new_conditions [OF reach_new] allocator_new_ok reach_new show ?case by fastforce
next
  case (reach_step a a')
  with allocator_step_inv show ?case by metis
qed

lemma try_allocate_found:
  assumes "buddy_inv a" and "a_block_size a = b" and "a_source_size a = src" and "sz \<le> src"
    and "order_of sz b < length (a_free_lists a)" and "find_order (a_free_lists a) (order_of sz b) = Some k"
  shows "\<exists>r a'. try_allocate_buffer sz a = Inr (Some r, a') \<and> buddy_inv a' \<and> snd r = fst r + sz \<and> snd r \<le> src \<and>
      sz \<le> size_for_order (order_of sz b) b \<and> size_for_order (order_of sz b) b dvd fst r \<and>
      sm_get (a_map a') = (sm_get (a_map a))(fst r \<mapsto> size_for_order (order_of sz b) b) \<and>
      (\<forall>(off, s) \<in> set (a_map a). off + s \<le> fst r \<or> snd r \<le> off)"
proof -
  note inv = assms(1-3)
  let ?req = "order_of sz b"
  have bp: "0 < b" using buddy_inv_block [OF inv(1)] inv(2) by metis
  obtain off fl where tr: "try_allocate_buffer sz a = Inr (Some (off, off + sz),
         a\<lparr>a_free_lists := fl, a_map := sm_insert off (size_for_order ?req b) (a_map a)\<rparr>)"
    using allocate_spec [OF inv(1), of sz ?req k] assms by metis
  let ?a = "a\<lparr>a_free_lists := fl, a_map := sm_insert off (size_for_order ?req b) (a_map a)\<rparr>"
  have ok: "sz \<le> a_source_size a" "?req = order_of sz (a_block_size a)" using assms by simp_all
  note ai = allocate_inv [OF inv(1) ok(1) ok(2) assms(5) tr]
  have sminv: "sm_inv (a_map a)" using buddy_invD(3) [OF inv(1)] by (simp add: allocs_ok_def)
  have g: "sm_get (a_map ?a) = (sm_get (a_map a))(off \<mapsto> size_for_order ?req b)"
    using sminv by simp
  then have mem: "(off, size_for_order ?req b) \<in> set (a_map ?a)" by (intro sm_get_SomeD) simp
  have fits: "sz \<le> size_for_order ?req b" using order_of_fits [OF bp] .
  have "size_for_order ?req b dvd off"
    using buddy_invD(3) [OF ai(1)] mem inv by (auto simp: allocs_ok_def)
  moreover have "off + sz \<le> src"
    using buddy_alloc_bounds(2) [OF ai(1) mem] inv fits by simp
  moreover have "off' + s \<le> off \<or> off + sz \<le> off'" if os: "(off', s) \<in> set (a_map a)" for off' s
  proof -
    have ne: "off' \<noteq> off" using ai(2) os by force
    have "sm_get (a_map a) off' = Some s"
      using os sm_inv_distinct [OF sminv] by simp
    then have "(off', s) \<in> set (a_map ?a)" using g ne by (intro sm_get_SomeD) simp
    from buddy_allocs_disjoint [OF ai(1) this mem ne] fits show ?thesis by linarith
  qed
  ultimately show ?thesis using tr g fits ai(1) by auto
qed

lemma allocate_buffer_Inr:
  assumes "allocator_reach b src a" and "allocate_buffer sz a = Inr (r, a')"
  shows "allocator_reach b src a'" and "snd r = fst r + sz" and "snd r \<le> src" and "b dvd fst r"
    and "\<exists>s. (fst r, s) \<in> set (a_map a') \<and> sz \<le> s"
    and "(off, s) \<in> set (a_map a) \<Longrightarrow> off + s \<le> fst r \<or> snd r \<le> off"
proof -
  have inv: "buddy_inv a" "a_block_size a = b" "a_source_size a = src"
    using allocator_reach_inv [OF assms(1)] by auto
  have tr: "try_allocate_buffer sz a = Inr (Some r, a')"
    using assms(2) by (auto simp: allocate_buffer_def split: option.splits)
  note pre = try_allocate_Some [OF tr]
  obtain k where "find_order (a_free_lists a) (order_of sz b) = Some k"
    using tr pre inv by (cases "find_order (a_free_lists a) (order_of sz b)") (auto simp: try_allocate_buffer_def Let_def)
  from try_allocate_found [OF inv pre(1) [unfolded inv] pre(2) [unfolded inv] this] tr inv
  have *: "snd r = fst r + sz" "snd r \<le> src" "sz \<le> size_for_order (order_of sz b) b"
      "size_for_order (order_of sz b) b dvd fst r"
      "sm_get (a_map a') = (sm_get (a_map a))(fst r \<mapsto> size_for_order (order_of sz b) b)"
      "\<forall>(off, s) \<in> set (a_map a). off + s \<le> fst r \<or> snd r \<le> off"
    by auto
  show "allocator_reach b src a'" using assms(1) step_allocate [OF tr] by (rule reach_step)
  show "snd r = fst r + sz" "snd r \<le> src" by (fact *)+
  show "b dvd fst r" using *(4) by (auto simp: size_for_order_def elim: dvd_trans [rotated])
  show "\<exists>s. (fst r, s) \<in> set (a_map a') \<and> sz \<le> s" using *(3,5) by (metis fun_upd_same sm_get_SomeD)
  show "off + s \<le> fst r \<or> snd r \<le> off" if "(off, s) \<in> set (a_map a)" using *(6) that by auto
qed

section \<open>Properties\<close>

text \<open>C4. Buffers never overlap and never leave the source, in any run of the allocator: starting from
  \<open>BufferAllocator::new\<close> and after any sequence of successful allocations and drops, any two
  allocations cover disjoint ranges, each lies within the source and starts at a multiple of its own
  size, and the free blocks and the allocations together cover every usable byte exactly once.\<close>

theorem allocations_never_overlap:
  assumes "allocator_reach b src a"
  shows "(\<forall>(off, s) \<in> set (a_map a). 0 < s \<and> s dvd off \<and> off + s \<le> src \<and>
            (\<forall>(off', s') \<in> set (a_map a). off \<noteq> off' \<longrightarrow> off + s \<le> off' \<or> off' + s' \<le> off)) \<and>
         fcells b (a_free_lists a) + acells (a_map a) = mset [0..<src - src mod b]"
proof -
  have inv: "buddy_inv a" "a_block_size a = b" "a_source_size a = src"
    using allocator_reach_inv [OF assms] by auto
  have "s dvd off" if "(off, s) \<in> set (a_map a)" for off s
    using buddy_invD(3) [OF inv(1)] that by (auto simp: allocs_ok_def)
  moreover have "fcells b (a_free_lists a) + acells (a_map a) = mset [0..<src - src mod b]"
    using buddy_invD(4) [OF inv(1)] inv by (simp add: cells_def round_down_def)
  ultimately show ?thesis
    using buddy_alloc_pos [OF inv(1)] buddy_alloc_bounds(2) [OF inv(1)] buddy_allocs_disjoint [OF inv(1)] inv
    by (simp add: case_prod_beta) (metis prod.collapse)
qed

theorem allocations_never_overlap_witness:
  "\<exists>a. allocator_new 2 8 = Inr a \<and> fcells 2 (a_free_lists a) = mset [0..<8]"
proof -
  obtain a where a: "allocator_new 2 8 = Inr a" "a_map a = []"
    using allocator_new_ok [of 2 1 8] by auto
  have "allocator_reach 2 8 a" using a(1) by (rule reach_new)
  from allocations_never_overlap [OF this] a show ?thesis by (auto simp: acells_def)
qed

text \<open>Allocating: from any reachable state, asking for a size within the source whose order exists
  never panics. It returns nothing only when no free block of that order or a larger one exists;
  otherwise it returns a range of exactly that size whose block is at least that large, starts at a
  multiple of its size, and overlaps no allocation made before, all of which are kept.\<close>

theorem allocate_buffer_correct:
  assumes "allocator_reach b src a" and "sz \<le> src" and "order_of sz b < length (a_free_lists a)"
  shows "case try_allocate_buffer sz a of
      Inl _ \<Rightarrow> False
    | Inr (None, a') \<Rightarrow> a' = a \<and> (\<forall>j. order_of sz b \<le> j \<and> j < length (a_free_lists a) \<longrightarrow> a_free_lists a ! j = [])
    | Inr (Some r, a') \<Rightarrow> snd r = fst r + sz \<and> snd r \<le> src \<and> sz \<le> size_for_order (order_of sz b) b \<and>
        size_for_order (order_of sz b) b dvd fst r \<and>
        sm_get (a_map a') = (sm_get (a_map a))(fst r \<mapsto> size_for_order (order_of sz b) b) \<and>
        (\<forall>(off, s) \<in> set (a_map a). off + s \<le> fst r \<or> snd r \<le> off)"
proof -
  have inv: "buddy_inv a" "a_block_size a = b" "a_source_size a = src"
    using allocator_reach_inv [OF assms(1)] by auto
  show ?thesis
  proof (cases "find_order (a_free_lists a) (order_of sz b)")
    case None
    then have "try_allocate_buffer sz a = Inr (None, a)"
      using assms inv by (simp add: try_allocate_buffer_def Let_def)
    with find_order_spec [OF None] show ?thesis by simp
  next
    case (Some k)
    from try_allocate_found [OF inv assms(2,3) Some] show ?thesis by auto
  qed
qed

theorem allocate_buffer_correct_witness:
  "\<exists>r a'. try_allocate_buffer 3 \<lparr>a_block_size = 2, a_source_size = 8, a_free_lists = [[], [], [0]], a_map = []\<rparr> = Inr (Some r, a') \<and> snd r = fst r + 3"
proof -
  let ?a = "\<lparr>a_block_size = 2, a_source_size = 8, a_free_lists = [[], [], [0]], a_map = []\<rparr>"
  have new: "allocator_new 2 8 = Inr ?a"
    by (code_simp)
  have reach: "allocator_reach 2 8 ?a" using new by (rule reach_new)
  have ord: "order_of 3 2 = 1" by code_simp
  from allocate_buffer_correct [OF reach, of 3] ord
  have "case try_allocate_buffer 3 ?a of Inl _ \<Rightarrow> False | Inr (None, a') \<Rightarrow> False | Inr (Some r, a') \<Rightarrow> snd r = fst r + 3"
    by (auto split: sum.splits prod.splits option.splits)
  then show ?thesis by (auto split: sum.splits prod.splits option.splits)
qed

text \<open>Dropping a buffer: from any reachable state, freeing a range that starts at an allocation and is
  no longer than it never panics, removes exactly that allocation, and leads to a reachable state, so
  its bytes can be allocated again.\<close>

theorem free_buffer_correct:
  assumes "allocator_reach b src a" and "sm_get (a_map a) (fst r) = Some s"
    and "fst r \<le> snd r" and "snd r \<le> fst r + s"
  shows "\<exists>a'. free_buffer r a = Inr a' \<and> allocator_reach b src a' \<and>
           sm_get (a_map a') = (sm_get (a_map a))(fst r := None)"
proof -
  have inv: "buddy_inv a" using allocator_reach_inv [OF assms(1)] by auto
  obtain a' where a': "free_buffer r a = Inr a'" "a_map a' = sm_remove (fst r) (a_map a)"
    using free_spec [OF inv assms(2-4)] by blast
  moreover have "allocator_reach b src a'"
    using assms(1) step_drop [OF assms(2-4) a'(1)] by (rule reach_step)
  ultimately show ?thesis by simp
qed

theorem free_buffer_correct_witness:
  "\<exists>a'. free_buffer (0, 3) \<lparr>a_block_size = 2, a_source_size = 8, a_free_lists = [[], [4], []], a_map = [(0, 4)]\<rparr> = Inr a' \<and>
        sm_get (a_map a') 0 = None"
proof -
  let ?a = "\<lparr>a_block_size = 2, a_source_size = 8, a_free_lists = [[], [], [0]], a_map = []\<rparr>"
  let ?a1 = "\<lparr>a_block_size = 2, a_source_size = 8, a_free_lists = [[], [4], []], a_map = [(0, 4)]\<rparr>"
  have new: "allocator_new 2 8 = Inr ?a" by code_simp
  have al: "try_allocate_buffer 3 ?a = Inr (Some (0, 3), ?a1)" by code_simp
  have "allocator_reach 2 8 ?a1"
    using reach_new [OF new] step_allocate [OF al] by (rule reach_step)
  from free_buffer_correct [OF this, of "(0, 3)" 4] show ?thesis by auto
qed

text \<open>Freeing a buffer right after allocating it restores the allocator exactly, its free lists
  included: the merges of \<open>free_buffer\<close> undo the splits of \<open>try_allocate_buffer\<close>.\<close>

theorem allocate_free_roundtrip:
  assumes "allocator_reach b src a" and "try_allocate_buffer sz a = Inr (Some r, a')"
  shows "free_buffer r a' = Inr a"
  using allocator_reach_inv [OF assms(1)] try_allocate_Some [OF assms(2)] assms(2)
  by (intro allocate_free_restores) auto

theorem allocate_free_roundtrip_witness:
  "\<exists>r a'. try_allocate_buffer 3 \<lparr>a_block_size = 2, a_source_size = 8, a_free_lists = [[], [], [0]], a_map = []\<rparr> = Inr (Some r, a') \<and>
     free_buffer r a' = Inr \<lparr>a_block_size = 2, a_source_size = 8, a_free_lists = [[], [], [0]], a_map = []\<rparr>"
proof -
  let ?a = "\<lparr>a_block_size = 2, a_source_size = 8, a_free_lists = [[], [], [0]], a_map = []\<rparr>"
  have new: "allocator_new 2 8 = Inr ?a" by code_simp
  have al: "try_allocate_buffer 3 ?a =
      Inr (Some (0, 3), \<lparr>a_block_size = 2, a_source_size = 8, a_free_lists = [[], [4], []], a_map = [(0, 4)]\<rparr>)"
    by code_simp
  from allocate_free_roundtrip [OF reach_new [OF new] al] al show ?thesis by blast
qed

text \<open>C35. Creating an allocator: the loop of \<open>initial_free_lists\<close> ends within the rounds it is given and
  the constructor returns exactly for a block size that is a power of two and no larger than the
  source; every other request panics on one of its assertions. The free lists it returns cover the
  whole blocks of the source, each byte once, and no allocation exists.\<close>

theorem allocator_new_returns:
  "case allocator_new b src of
     Inr a \<Rightarrow> is_power_of_two b \<and> b \<le> src \<and> a_map a = [] \<and> fcells b (a_free_lists a) = mset [0..<src - src mod b]
   | Inl e \<Rightarrow> e = Panic \<and> (is_power_of_two b \<longrightarrow> src < b)"
proof (cases "is_power_of_two b \<and> b \<le> src")
  case True
  then obtain k where "b = 2 ^ k" by (auto simp: is_power_of_two_iff)
  with allocator_new_ok [OF this] True obtain a where
    "allocator_new b src = Inr a" "buddy_inv a" "a_map a = []" "a_block_size a = b" "a_source_size a = src" by blast
  with buddy_invD(4) [of a] True show ?thesis by (simp add: cells_def acells_def round_down_def)
next
  case False
  then have "allocator_new b src = Inl Panic" using round_down_le [of src b]
    by (auto simp: allocator_new_def initial_free_lists_def Let_def)
  with False show ?thesis by auto
qed

theorem allocator_new_returns_witness: "\<exists>e. allocator_new 3 8 = Inl e \<and> e = Panic"
proof -
  have "allocator_new 3 8 = Inl Panic" by code_simp
  with allocator_new_returns [of 3 8] show ?thesis by auto
qed

section \<open>Divergence from the documentation\<close>

text \<open>
  The documentation of \<open>try_allocate_buffer\<close> says that it returns \<open>None\<close> when the allocation cannot be
  satisfied; when the source is not a power of two, a size within the source can have an order beyond
  the free lists, and the code panics.
\<close>

lemma try_allocate_panics:
  "bind_res (allocator_new 2 123) (try_allocate_buffer 100) = Inl Panic"
  by code_simp

end
