(* ===== verification/Block_Client.thy ===== *)
theory Block_Client
  imports Vfs_Prelude "HOL-Library.AList"
begin

text \<open>
  The client side of the block device protocol (\<open>block_client/rust/src/lib.rs\<close>): the fifo state with
  its queue, its map of outstanding requests and its wakers; the future that waits for one response;
  the poller; and the transfers of \<open>Common\<close> that are built from requests.

  What happens at the other end is a parameter. A call of the kernel fifo is answered by a script:
  the list of the outcomes of the successive calls of \<open>fifo.write\<close> or \<open>fifo.read\<close>, where the end of
  the list is \<open>Poll::Pending\<close>. The block server is a function from its state, the memory objects and a
  request to a new state and a status.
\<close>

section \<open>Errors and memory objects\<close>

text \<open>
  \<open>anyhow::Error\<close> as these sources build it: the message of \<open>ensure!\<close>, a \<open>zx::Status\<close>, a failed
  integer conversion; and a panic.
\<close>

datatype io_error = Message | ZxStatus status | TryFromInt | IoPanic

type_synonym 'a io_result = "io_error + 'a"

text \<open>
  Memory objects by identity: a \<open>zx::Vmo\<close> and the copy of its handle at the block server share pages,
  so the contents live in a store that both use.
\<close>

type_synonym koid = nat
type_synonym vmos = "koid \<Rightarrow> bytes"

definition sub_list :: "'a list \<Rightarrow> nat \<Rightarrow> nat \<Rightarrow> 'a list" where
  "sub_list xs i n = take n (drop i xs)"

definition overwrite :: "'a list \<Rightarrow> nat \<Rightarrow> 'a list \<Rightarrow> 'a list" where
  "overwrite xs i ys = take i xs @ ys @ drop (i + length ys) xs"

lemma length_sub_list [simp]: "i + n \<le> length xs \<Longrightarrow> length (sub_list xs i n) = n"
  by (simp add: sub_list_def)

lemma nth_sub_list [simp]: "i + n \<le> length xs \<Longrightarrow> j < n \<Longrightarrow> sub_list xs i n ! j = xs ! (i + j)"
  by (simp add: sub_list_def)

lemma length_overwrite [simp]: "i + length ys \<le> length xs \<Longrightarrow> length (overwrite xs i ys) = length xs"
  by (simp add: overwrite_def)

lemma nth_overwrite:
  "i + length ys \<le> length xs \<Longrightarrow> j < length xs \<Longrightarrow>
   overwrite xs i ys ! j = (if i \<le> j \<and> j < i + length ys then ys ! (j - i) else xs ! j)"
  by (auto simp: overwrite_def nth_append min_def)

lemma sub_list_0 [simp]: "sub_list xs i 0 = []"
  by (simp add: sub_list_def)

lemma overwrite_Nil [simp]: "i \<le> length xs \<Longrightarrow> overwrite xs i [] = xs"
  by (simp add: overwrite_def)

lemma sub_list_add: "sub_list xs i (m + n) = sub_list xs i m @ sub_list xs (i + m) n"
  by (simp add: sub_list_def take_add ac_simps)

lemma sub_list_all [simp]: "sub_list xs 0 (length xs) = xs"
  by (simp add: sub_list_def)

lemma sub_list_overwrite [simp]:
  "i + length ys \<le> length xs \<Longrightarrow> sub_list (overwrite xs i ys) i (length ys) = ys"
  by (simp add: sub_list_def overwrite_def)

lemma overwrite_append:
  "i + length ys + length zs \<le> length xs \<Longrightarrow>
   overwrite (overwrite xs i ys) (i + length ys) zs = overwrite xs i (ys @ zs)"
  by (rule nth_equalityI) (auto simp: nth_overwrite nth_append)

section \<open>Requests\<close>

definition BLOCK_VMOID_INVALID :: "16 word" where "BLOCK_VMOID_INVALID = 0"
definition TEMP_VMO_SIZE :: nat where "TEMP_VMO_SIZE = 65536"

definition BLOCKIO_READ :: "32 word" where "BLOCKIO_READ = 1"
definition BLOCKIO_WRITE :: "32 word" where "BLOCKIO_WRITE = 2"
definition BLOCKIO_FLUSH :: "32 word" where "BLOCKIO_FLUSH = 3"
definition BLOCKIO_TRIM :: "32 word" where "BLOCKIO_TRIM = 4"
definition BLOCKIO_CLOSE_VMO :: "32 word" where "BLOCKIO_CLOSE_VMO = 5"
definition BLOCK_OP_MASK :: "32 word" where "BLOCK_OP_MASK = 0xFF"

definition op_code_str :: "32 word \<Rightarrow> string" where
  "op_code_str op =
     (let m = and op BLOCK_OP_MASK in
      if m = BLOCKIO_READ then ''read''
      else if m = BLOCKIO_WRITE then ''write''
      else if m = BLOCKIO_FLUSH then ''flush''
      else if m = BLOCKIO_TRIM then ''trim''
      else if m = BLOCKIO_CLOSE_VMO then ''close_vmo''
      else ''unknown'')"

record BlockFifoRequest =
  op_code :: "32 word"
  request_id :: "32 word"
  group_id :: "16 word"
  vmoid :: "16 word"
  block_count :: "32 word"
  vmo_block :: "64 word"
  device_block :: "64 word"
  trace_flow_id :: "64 word"

definition default_request :: BlockFifoRequest where
  "default_request =
     \<lparr> op_code = 0, request_id = 0, group_id = 0, vmoid = 0, block_count = 0, vmo_block = 0,
       device_block = 0, trace_flow_id = 0 \<rparr>"

text \<open>The reserved words of a response carry nothing and are left out; the status is the decoded one.\<close>

record BlockFifoResponse =
  resp_status :: status
  resp_request_id :: "32 word"
  resp_group_id :: "16 word"
  resp_count :: "32 word"

text \<open>
  \<open>*SELF_HANDLE as u64 + (request_id as u64) << 32\<close>: in Rust \<open>+\<close> binds tighter than \<open><<\<close>, so the sum is
  shifted. The handle value of the process is a parameter.
\<close>

definition generate_trace_flow_id :: "32 word \<Rightarrow> 32 word \<Rightarrow> 64 word" where
  "generate_trace_flow_id self_handle rid = push_bit 32 (ucast self_handle + ucast rid)"

text \<open>
  So the id does not identify the pair of handle and request: different processes produce the same
  ids, although the comment above the function promises an id unique across the system.
\<close>

lemma trace_flow_id_collision: "generate_trace_flow_id 1 1 = generate_trace_flow_id 0 2"
  by (simp add: generate_trace_flow_id_def)

datatype BufferSlice = VmoIdSlice "16 word" nat nat | MemorySlice bytes

datatype MutableBufferSlice = MutVmoIdSlice "16 word" nat nat | MutMemorySlice nat

section \<open>The fifo state\<close>

type_synonym waker = nat

record RequestState =
  rs_result :: "status option"
  rs_waker :: "waker option"

definition default_request_state :: RequestState where
  "default_request_state = \<lparr> rs_result = None, rs_waker = None \<rparr>"

text \<open>
  The fifo is represented by what has been written to it; \<open>None\<close> after \<open>terminate\<close>. The hash map is an
  association list.
\<close>

record FifoState =
  fifo :: "BlockFifoRequest list option"
  next_request_id :: "32 word"
  queue :: "BlockFifoRequest list"
  fmap :: "(32 word \<times> RequestState) list"
  poller_waker :: "waker option"

definition new_fifo_state :: FifoState where
  "new_fifo_state =
     \<lparr> fifo = Some [], next_request_id = 0, queue = [], fmap = [], poller_waker = None \<rparr>"

text \<open>The result of a request is set once, and its waker is taken and woken.\<close>

definition cancel_request :: "RequestState \<Rightarrow> RequestState" where
  "cancel_request rs =
     \<lparr> rs_result = Some (case rs_result rs of Some s \<Rightarrow> s | None \<Rightarrow> CANCELED), rs_waker = None \<rparr>"

definition wakers_of :: "waker option list \<Rightarrow> waker list" where
  "wakers_of ws = List.map_filter id ws"

definition fifo_terminate :: "FifoState \<Rightarrow> FifoState \<times> waker list" where
  "fifo_terminate fs =
     (fs\<lparr> fifo := None, fmap := map (\<lambda>(i, rs). (i, cancel_request rs)) (fmap fs), poller_waker := None \<rparr>,
      wakers_of (map (\<lambda>(i, rs). rs_waker rs) (fmap fs) @ [poller_waker fs]))"

text \<open>
  One call of \<open>fifo.write\<close>: \<open>WSent n\<close> is \<open>Ready(Ok(n))\<close>, \<open>WErr\<close> is \<open>Ready(Err(_))\<close>. The slice given to it
  is a non-empty prefix of the queue, so how much of the queue it shows to the fifo is part of the
  answer. \<open>queue.drain(0..n)\<close> panics when \<open>n\<close> exceeds the queue.
\<close>

datatype fifo_write = WSent nat | WErr | WPending

fun poll_send_loop :: "fifo_write list \<Rightarrow> FifoState \<Rightarrow> (FifoState \<times> waker list \<times> bool) result" where
  "poll_send_loop [] fs = Inr (fs, [], False)"
| "poll_send_loop (a # as) fs =
     (if queue fs = [] then Inr (fs, [], False)
      else case a of
        WSent n \<Rightarrow>
          if n \<le> length (queue fs)
          then poll_send_loop as
                 (fs\<lparr> fifo := map_option (\<lambda>w. w @ take n (queue fs)) (fifo fs),
                      queue := drop n (queue fs) \<rparr>)
          else Inl Panic
      | WErr \<Rightarrow> (let (fs', wk) = fifo_terminate fs in Inr (fs', wk, True))
      | WPending \<Rightarrow> Inr (fs, [], False))"

definition poll_send_requests :: "fifo_write list \<Rightarrow> FifoState \<Rightarrow> (FifoState \<times> waker list \<times> bool) result" where
  "poll_send_requests ws fs =
     (case fifo fs of None \<Rightarrow> Inr (fs, [], True) | Some _ \<Rightarrow> poll_send_loop ws fs)"

section \<open>The future of one response\<close>

datatype 'a poll = Ready 'a | Pending

text \<open>\<open>Status::into\<close>: \<open>OK\<close> is \<open>Ok(())\<close>, every other status an error.\<close>

definition status_result :: "status \<Rightarrow> unit io_result" where
  "status_result s = (if s = OK then Inr () else Inl (ZxStatus s))"

definition response_poll :: "32 word \<Rightarrow> waker \<Rightarrow> FifoState \<Rightarrow> (FifoState \<times> unit io_result poll) result" where
  "response_poll rid w fs =
     (case map_of (fmap fs) rid of
        None \<Rightarrow> Inl Panic
      | Some rs \<Rightarrow>
          (case rs_result rs of
             Some s \<Rightarrow> Inr (fs, Ready (status_result s))
           | None \<Rightarrow> Inr (fs\<lparr> fmap := AList.update rid (rs\<lparr> rs_waker := Some w \<rparr>) (fmap fs) \<rparr>, Pending)))"

definition response_drop :: "32 word \<Rightarrow> FifoState \<Rightarrow> FifoState result" where
  "response_drop rid fs =
     (case map_of (fmap fs) rid of
        None \<Rightarrow> Inl Panic
      | Some rs \<Rightarrow> Inr (fs\<lparr> fmap := AList.delete rid (fmap fs) \<rparr>))"

section \<open>Sending and polling\<close>

text \<open>
  The part of \<open>Common::send\<close> up to the await: \<open>Inl CANCELED\<close> when the fifo is gone, otherwise the id of
  the queued request.
\<close>

definition send_start ::
  "32 word \<Rightarrow> fifo_write list \<Rightarrow> BlockFifoRequest \<Rightarrow> FifoState \<Rightarrow> (FifoState \<times> waker list \<times> (status + 32 word)) result" where
  "send_start self_handle ws req fs =
     (if fifo fs = None then Inr (fs, [], Inl CANCELED)
      else
        let rid = next_request_id fs;
            fs1 = fs\<lparr> next_request_id := rid + 1 \<rparr> in
        if map_of (fmap fs1) rid \<noteq> None then Inl Panic
        else
          let fs2 = fs1\<lparr> fmap := AList.update rid default_request_state (fmap fs1) \<rparr>;
              req' = req\<lparr> request_id := rid, trace_flow_id := generate_trace_flow_id self_handle rid \<rparr>;
              fs3 = fs2\<lparr> queue := queue fs2 @ [req'] \<rparr> in
          case poller_waker fs3 of
            None \<Rightarrow> Inr (fs3, [], Inr rid)
          | Some _ \<Rightarrow>
              bind_res (poll_send_requests ws fs3) (\<lambda>(fs4, wk, _). Inr (fs4, wk, Inr rid)))"

text \<open>
  One call of \<open>fifo.read\<close> that is ready: a response, or the end of the fifo (\<open>Ok(None)\<close>), or an error.
\<close>

datatype fifo_read = RResponse BlockFifoResponse | RClosed | RErr

fun poll_read_loop :: "fifo_read list \<Rightarrow> FifoState \<Rightarrow> FifoState \<times> waker list \<times> bool" where
  "poll_read_loop [] fs = (fs, [], False)"
| "poll_read_loop (RResponse r # as) fs =
     (case map_of (fmap fs) (resp_request_id r) of
        Some rs \<Rightarrow>
          (let (fs', wk, b) =
             poll_read_loop as
               (fs\<lparr> fmap := AList.update (resp_request_id r)
                     \<lparr> rs_result = Some (resp_status r), rs_waker = None \<rparr> (fmap fs) \<rparr>)
           in (fs', wakers_of [rs_waker rs] @ wk, b))
      | None \<Rightarrow> poll_read_loop as fs)"
| "poll_read_loop (RClosed # as) fs = (let (fs', wk) = fifo_terminate fs in (fs', wk, True))"
| "poll_read_loop (RErr # as) fs = (let (fs', wk) = fifo_terminate fs in (fs', wk, True))"

text \<open>\<open>FifoPoller::poll\<close>; the boolean of the result tells \<open>Poll::Ready(())\<close>.\<close>

definition fifo_poll ::
  "fifo_write list \<Rightarrow> fifo_read list \<Rightarrow> waker \<Rightarrow> FifoState \<Rightarrow> (FifoState \<times> waker list \<times> bool) result" where
  "fifo_poll ws rs w fs =
     bind_res (poll_send_requests ws fs) (\<lambda>(fs1, wk1, done1).
       if done1 then Inr (fs1, wk1, True)
       else if fifo fs1 = None then Inl Panic
       else
         let (fs2, wk2, done2) = poll_read_loop rs fs1 in
         if done2 then Inr (fs2, wk1 @ wk2, True)
         else Inr (fs2\<lparr> poller_waker := Some w \<rparr>, wk1 @ wk2, False))"

section \<open>The client as a transition system\<close>

text \<open>
  The state of a client connection: the shared fifo state, every request given to \<open>send\<close> so far (with
  its id), and the ids of the response futures that exist. The steps are the entry points of the
  code, each run while holding the mutex. A write script is admissible when the fifo never reports
  more messages than it was given.
\<close>

fun writes_ok :: "fifo_write list \<Rightarrow> BlockFifoRequest list \<Rightarrow> bool" where
  "writes_ok [] q = True"
| "writes_ok (WSent n # as) q = (q = [] \<or> n \<le> length q \<and> writes_ok as (drop n q))"
| "writes_ok (_ # as) q = True"

record client =
  cl_state :: FifoState
  cl_started :: "BlockFifoRequest list"
  cl_futures :: "32 word list"

definition stamp_request :: "32 word \<Rightarrow> 32 word \<Rightarrow> BlockFifoRequest \<Rightarrow> BlockFifoRequest" where
  "stamp_request self_handle rid req =
     req\<lparr> request_id := rid, trace_flow_id := generate_trace_flow_id self_handle rid \<rparr>"

inductive client_step :: "client \<Rightarrow> client \<Rightarrow> bool" where
  step_send:
    "\<lbrakk> send_start h ws req (cl_state c) = Inr (fs', wk, Inr rid);
       writes_ok ws (queue (cl_state c) @ [stamp_request h rid req]) \<rbrakk> \<Longrightarrow>
     client_step c (c\<lparr> cl_state := fs', cl_started := cl_started c @ [stamp_request h rid req],
                      cl_futures := rid # cl_futures c \<rparr>)"
| step_poller:
    "\<lbrakk> fifo_poll ws rs w (cl_state c) = Inr (fs', wk, b); writes_ok ws (queue (cl_state c)) \<rbrakk> \<Longrightarrow>
     client_step c (c\<lparr> cl_state := fs' \<rparr>)"
| step_future:
    "\<lbrakk> rid \<in> set (cl_futures c); response_poll rid w (cl_state c) = Inr (fs', p) \<rbrakk> \<Longrightarrow>
     client_step c (c\<lparr> cl_state := fs' \<rparr>)"
| step_drop:
    "\<lbrakk> rid \<in> set (cl_futures c); response_drop rid (cl_state c) = Inr fs' \<rbrakk> \<Longrightarrow>
     client_step c (c\<lparr> cl_state := fs', cl_futures := remove1 rid (cl_futures c) \<rparr>)"
| step_terminate:
    "fifo_terminate (cl_state c) = (fs', wk) \<Longrightarrow> client_step c (c\<lparr> cl_state := fs' \<rparr>)"

definition new_client :: client where
  "new_client = \<lparr> cl_state = new_fifo_state, cl_started = [], cl_futures = [] \<rparr>"

inductive client_reach :: "client \<Rightarrow> bool" where
  reach_new: "client_reach new_client"
| reach_step: "client_reach c \<Longrightarrow> client_step c c' \<Longrightarrow> client_reach c'"

subsection \<open>Invariant\<close>

text \<open>
  \<open>map_inv\<close>: the futures and the map have the same keys, a request that has its result has no waker
  left, and when the fifo is gone every request has a result.
\<close>

definition map_inv :: "bool \<Rightarrow> 32 word list \<Rightarrow> (32 word \<times> RequestState) list \<Rightarrow> bool" where
  "map_inv closed futs m \<longleftrightarrow>
     distinct futs \<and> dom (map_of m) = set futs \<and>
     (\<forall>i rs. map_of m i = Some rs \<longrightarrow> rs_result rs \<noteq> None \<longrightarrow> rs_waker rs = None) \<and>
     (closed \<longrightarrow> (\<forall>i rs. map_of m i = Some rs \<longrightarrow> rs_result rs \<noteq> None))"

definition client_inv :: "client \<Rightarrow> bool" where
  "client_inv c \<longleftrightarrow>
     map_inv (fifo (cl_state c) = None) (cl_futures c) (fmap (cl_state c)) \<and>
     next_request_id (cl_state c) = word_of_nat (length (cl_started c)) \<and>
     (\<forall>j < length (cl_started c). request_id (cl_started c ! j) = word_of_nat j) \<and>
     set (cl_futures c) \<subseteq> word_of_nat ` {..< length (cl_started c)} \<and>
     (\<forall>w. fifo (cl_state c) = Some w \<longrightarrow> w @ queue (cl_state c) = cl_started c)"

lemma map_inv_lookup: "map_inv b futs m \<Longrightarrow> rid \<in> set futs \<Longrightarrow> \<exists>rs. map_of m rid = Some rs"
  unfolding map_inv_def by blast

lemma map_inv_none: "map_inv b futs m \<Longrightarrow> map_of m rid = None \<longleftrightarrow> rid \<notin> set futs"
  unfolding map_inv_def by (metis domIff)

lemma map_inv_update:
  assumes "map_inv b futs m" and "rid \<in> set futs"
    and "rs_result v \<noteq> None \<longrightarrow> rs_waker v = None" and "b \<longrightarrow> rs_result v \<noteq> None"
  shows "map_inv b futs (AList.update rid v m)"
  using assms unfolding map_inv_def update_conv' by (auto split: if_splits)

lemma map_inv_insert:
  assumes "map_inv False futs m" and "rid \<notin> set futs"
  shows "map_inv False (rid # futs) (AList.update rid default_request_state m)"
  using assms unfolding map_inv_def update_conv' by (auto simp: default_request_state_def split: if_splits)

lemma map_inv_delete:
  assumes "map_inv b futs m" and "rid \<in> set futs"
  shows "map_inv b (remove1 rid futs) (AList.delete rid m)"
  using assms unfolding map_inv_def delete_conv' by (auto split: if_splits)

lemma map_of_cancel: "map_of (map (\<lambda>(i, rs). (i, cancel_request rs)) m) = map_option cancel_request \<circ> map_of m"
  by (rule ext) (simp add: map_of_map)

lemma map_inv_cancel:
  "map_inv b futs m \<Longrightarrow> map_inv True futs (map (\<lambda>(i, rs). (i, cancel_request rs)) m)"
  unfolding map_inv_def map_of_cancel by (auto simp: cancel_request_def)

lemma map_inv_True: "map_inv True futs m \<Longrightarrow> map_inv b futs m"
  unfolding map_inv_def by blast

lemma terminate_inv:
  assumes "client_inv c" and "fifo_terminate (cl_state c) = (fs', wk)"
  shows "client_inv (c\<lparr> cl_state := fs' \<rparr>)"
  using assms map_inv_cancel unfolding client_inv_def fifo_terminate_def by auto

lemma poll_send_loop_inv:
  assumes "poll_send_loop ws (cl_state c) = Inr (fs', wk, b)" and "client_inv c"
    and "fifo (cl_state c) \<noteq> None"
  shows "client_inv (c\<lparr> cl_state := fs' \<rparr>) \<and> (b \<longleftrightarrow> fifo fs' = None)"
  using assms
proof (induction ws arbitrary: c)
  case Nil
  then show ?case by auto
next
  case (Cons a ws)
  show ?case
  proof (cases "queue (cl_state c) = []")
    case True
    with Cons.prems show ?thesis by auto
  next
    case False
    show ?thesis
    proof (cases a)
      case (WSent n)
      let ?fs = "(cl_state c)\<lparr> fifo := map_option (\<lambda>w. w @ take n (queue (cl_state c))) (fifo (cl_state c)),
                   queue := drop n (queue (cl_state c)) \<rparr>"
      have inv: "client_inv (c\<lparr> cl_state := ?fs \<rparr>)"
        using Cons.prems(2) unfolding client_inv_def by auto
      have step: "poll_send_loop ws (cl_state (c\<lparr> cl_state := ?fs \<rparr>)) = Inr (fs', wk, b)"
        using Cons.prems(1) False WSent by (auto split: if_splits)
      from Cons.IH [OF step inv] Cons.prems(3) show ?thesis by simp
    next
      case WErr
      with Cons.prems False show ?thesis
        using terminate_inv [of c "fst (fifo_terminate (cl_state c))" "snd (fifo_terminate (cl_state c))"]
        by (auto simp: fifo_terminate_def)
    next
      case WPending
      with Cons.prems False show ?thesis by auto
    qed
  qed
qed

lemma poll_send_requests_inv:
  assumes "poll_send_requests ws (cl_state c) = Inr (fs', wk, b)" and "client_inv c"
  shows "client_inv (c\<lparr> cl_state := fs' \<rparr>) \<and> (b \<longleftrightarrow> fifo fs' = None)"
  using assms poll_send_loop_inv [of ws c fs' wk b]
  by (auto simp: poll_send_requests_def split: option.splits)

lemma poll_read_loop_inv:
  assumes "poll_read_loop rs (cl_state c) = (fs', wk, b)" and "client_inv c"
    and "fifo (cl_state c) \<noteq> None"
  shows "client_inv (c\<lparr> cl_state := fs' \<rparr>) \<and> (b \<longleftrightarrow> fifo fs' = None)"
  using assms
proof (induction rs "cl_state c" arbitrary: c wk rule: poll_read_loop.induct)
  case 1
  then show ?case by auto
next
  case (2 r as)
  show ?case
  proof (cases "map_of (fmap (cl_state c)) (resp_request_id r)")
    case None
    with 2(1) [OF None refl] 2(3-) show ?thesis by auto
  next
    case (Some q)
    let ?fs = "(cl_state c)\<lparr> fmap := AList.update (resp_request_id r)
                 \<lparr> rs_result = Some (resp_status r), rs_waker = None \<rparr> (fmap (cl_state c)) \<rparr>"
    have "resp_request_id r \<in> set (cl_futures c)"
      using 2(4) Some map_inv_none [of _ "cl_futures c" "fmap (cl_state c)"]
      unfolding client_inv_def by (metis option.distinct(1))
    then have inv: "client_inv (c\<lparr> cl_state := ?fs \<rparr>)"
      using 2(4) unfolding client_inv_def by (auto intro: map_inv_update)
    obtain wk2 where step: "poll_read_loop as ?fs = (fs', wk2, b)"
      using 2(3) Some by (auto split: prod.splits)
    from 2(2) [OF Some, of "c\<lparr> cl_state := ?fs \<rparr>" wk2] step inv 2(5) show ?thesis by simp
  qed
next
  case (3 as)
  then show ?case using terminate_inv [of c] by (auto simp: fifo_terminate_def)
next
  case (4 as)
  then show ?case using terminate_inv [of c] by (auto simp: fifo_terminate_def)
qed

lemma stamp_request_id [simp]: "request_id (stamp_request h rid req) = rid"
  by (simp add: stamp_request_def)

lemma send_start_cases:
  assumes "send_start h ws req fs = Inr (fs', wk, Inr rid)"
  obtains fs3 where
    "fifo fs \<noteq> None" "rid = next_request_id fs" "map_of (fmap fs) rid = None"
    "fs3 = fs\<lparr> next_request_id := rid + 1, fmap := AList.update rid default_request_state (fmap fs),
              queue := queue fs @ [stamp_request h rid req] \<rparr>"
    "fs' = fs3 \<or> (\<exists>b. poll_send_requests ws fs3 = Inr (fs', wk, b))"
proof
  show "fifo fs \<noteq> None" "rid = next_request_id fs"
    using assms by (auto simp: send_start_def Let_def split: if_splits option.splits)
  then show "map_of (fmap fs) rid = None"
    using assms by (auto simp: send_start_def Let_def split: if_splits)
  let ?fs3 = "fs\<lparr> next_request_id := rid + 1, fmap := AList.update rid default_request_state (fmap fs),
                queue := queue fs @ [stamp_request h rid req] \<rparr>"
  show "?fs3 = ?fs3" ..
  show "fs' = ?fs3 \<or> (\<exists>b. poll_send_requests ws ?fs3 = Inr (fs', wk, b))"
    using assms by (auto simp: send_start_def Let_def stamp_request_def split: if_splits option.splits)
qed

lemma queue_request_inv:
  assumes "client_inv c" and "fifo (cl_state c) \<noteq> None"
    and "rid = next_request_id (cl_state c)" and "map_of (fmap (cl_state c)) rid = None"
  shows "client_inv (c\<lparr> cl_state := (cl_state c)\<lparr> next_request_id := rid + 1,
           fmap := AList.update rid default_request_state (fmap (cl_state c)),
           queue := queue (cl_state c) @ [stamp_request h rid req] \<rparr>,
           cl_started := cl_started c @ [stamp_request h rid req], cl_futures := rid # cl_futures c \<rparr>)"
proof -
  have "rid \<notin> set (cl_futures c)"
    using assms(1,4) map_inv_none unfolding client_inv_def by blast
  moreover have "map_inv False (cl_futures c) (fmap (cl_state c))"
    using assms(1,2) unfolding client_inv_def by auto
  ultimately show ?thesis
    using assms map_inv_insert [of "cl_futures c" "fmap (cl_state c)" rid]
    unfolding client_inv_def by (auto simp: nth_append less_Suc_eq)
qed

lemma client_step_inv:
  assumes "client_step c c'" and "client_inv c"
  shows "client_inv c'"
  using assms
proof (cases rule: client_step.cases)
  case (step_send h ws req fs' wk rid)
  from step_send(2) obtain fs3 where fs3: "fifo (cl_state c) \<noteq> None" "rid = next_request_id (cl_state c)"
    "map_of (fmap (cl_state c)) rid = None"
    "fs3 = (cl_state c)\<lparr> next_request_id := rid + 1, fmap := AList.update rid default_request_state (fmap (cl_state c)),
              queue := queue (cl_state c) @ [stamp_request h rid req] \<rparr>"
    "fs' = fs3 \<or> (\<exists>b. poll_send_requests ws fs3 = Inr (fs', wk, b))"
    by (rule send_start_cases)
  let ?c = "c\<lparr> cl_state := fs3, cl_started := cl_started c @ [stamp_request h rid req],
              cl_futures := rid # cl_futures c \<rparr>"
  have "client_inv ?c"
    using queue_request_inv [OF assms(2) fs3(1-3), of h req] fs3(4) by simp
  then show ?thesis
    using fs3(5) poll_send_requests_inv [of ws ?c fs' wk] step_send(1) by (cases c) auto
next
  case (step_poller ws rs w fs' wk b)
  from step_poller(2) obtain fs1 wk1 b1 where one: "poll_send_requests ws (cl_state c) = Inr (fs1, wk1, b1)"
    by (auto simp: fifo_poll_def)
  note inv1 = poll_send_requests_inv [OF one assms(2)]
  show ?thesis
  proof (cases b1)
    case True
    with one step_poller(1,2) inv1 show ?thesis by (auto simp: fifo_poll_def)
  next
    case False
    obtain fs2 wk2 b2 where two: "poll_read_loop rs fs1 = (fs2, wk2, b2)" by (metis prod_cases3)
    have "client_inv (c\<lparr> cl_state := fs2 \<rparr>)"
      using poll_read_loop_inv [of rs "c\<lparr> cl_state := fs1 \<rparr>" fs2 wk2 b2] two inv1 False by auto
    then have "client_inv (c\<lparr> cl_state := fs2\<lparr> poller_waker := pw \<rparr> \<rparr>)" for pw
      unfolding client_inv_def by simp
    with \<open>client_inv (c\<lparr> cl_state := fs2 \<rparr>)\<close> one two False step_poller(1,2) show ?thesis
      by (auto simp: fifo_poll_def Let_def split: if_splits)
  qed
next
  case (step_future rid w fs' p)
  with assms(2) show ?thesis
    unfolding client_inv_def response_poll_def
    by (auto split: option.splits intro!: map_inv_update) (metis option.distinct(1) map_inv_def)+
next
  case (step_drop rid fs')
  with assms(2) show ?thesis
    unfolding client_inv_def response_drop_def
    by (auto split: option.splits intro: map_inv_delete dest: in_set_remove1 [THEN iffD1] notin_set_remove1 set_mp [OF set_remove1_subset])
next
  case (step_terminate fs' wk)
  with terminate_inv [OF assms(2)] show ?thesis by simp
qed

lemma client_reach_inv: "client_reach c \<Longrightarrow> client_inv c"
proof (induction rule: client_reach.induct)
  case reach_new
  show ?case
    by (simp add: client_inv_def new_client_def new_fifo_state_def map_inv_def)
next
  case (reach_step c c')
  then show ?case using client_step_inv by blast
qed

subsection \<open>A reachable state\<close>

text \<open>A client with one queued request whose future has been polled once, for evaluation.\<close>

definition example_client :: client where
  "example_client =
     \<lparr> cl_state = \<lparr> fifo = Some [], next_request_id = 1, queue = [stamp_request 0 0 default_request],
                    fmap = [(0, \<lparr> rs_result = None, rs_waker = Some 7 \<rparr>)], poller_waker = None \<rparr>,
       cl_started = [stamp_request 0 0 default_request], cl_futures = [0] \<rparr>"

lemma example_client_reach: "client_reach example_client"
proof -
  let ?fs1 = "\<lparr> fifo = Some [], next_request_id = 1, queue = [stamp_request 0 0 default_request],
                fmap = [(0, default_request_state)], poller_waker = None \<rparr>"
  let ?c1 = "new_client\<lparr> cl_state := ?fs1, cl_started := cl_started new_client @ [stamp_request 0 0 default_request],
               cl_futures := 0 # cl_futures new_client \<rparr>"
  have "send_start 0 [] default_request (cl_state new_client) = Inr (?fs1, [], Inr 0)"
    by (simp add: send_start_def new_client_def new_fifo_state_def Let_def stamp_request_def)
  then have "client_reach ?c1"
    by (rule reach_step [OF reach_new step_send]) simp
  moreover have "response_poll 0 7 (cl_state ?c1) = Inr (cl_state example_client, Pending)"
    by (simp add: response_poll_def default_request_state_def example_client_def)
  then have "client_step ?c1 (?c1\<lparr> cl_state := cl_state example_client \<rparr>)"
    by (rule step_future [rotated]) simp
  ultimately have "client_reach (?c1\<lparr> cl_state := cl_state example_client \<rparr>)" by (rule reach_step)
  then show ?thesis by (simp add: example_client_def new_client_def)
qed

subsection \<open>No panics\<close>

lemma poll_send_loop_safe [no_panic]:
  "writes_ok ws (queue fs) \<Longrightarrow> poll_send_loop ws fs \<noteq> Inl Panic"
proof (induction ws arbitrary: fs)
  case Nil
  show ?case by simp
next
  case (Cons a ws)
  show ?case
  proof (cases a)
    case (WSent n)
    with Cons.prems Cons.IH [of "fs\<lparr> fifo := map_option (\<lambda>w. w @ take n (queue fs)) (fifo fs),
        queue := drop n (queue fs) \<rparr>"]
    show ?thesis by auto
  qed (auto split: prod.splits)
qed

lemma poll_send_requests_safe [no_panic]:
  "writes_ok ws (queue fs) \<Longrightarrow> poll_send_requests ws fs \<noteq> Inl Panic"
  by (auto simp: poll_send_requests_def poll_send_loop_safe split: option.splits)

lemma next_id_free:
  assumes "client_inv c" and "length (cl_started c) < 2 ^ 32"
  shows "map_of (fmap (cl_state c)) (next_request_id (cl_state c)) = None"
proof -
  have "next_request_id (cl_state c) \<notin> set (cl_futures c)"
  proof
    assume "next_request_id (cl_state c) \<in> set (cl_futures c)"
    then obtain j where "j < length (cl_started c)"
      "(word_of_nat (length (cl_started c)) :: 32 word) = word_of_nat j"
      using assms(1) unfolding client_inv_def by auto
    then have "unat (word_of_nat (length (cl_started c)) :: 32 word) = unat (word_of_nat j :: 32 word)"
      by simp
    then have "length (cl_started c) mod 2 ^ 32 = j mod 2 ^ 32"
      by (simp add: unat_of_nat)
    with assms(2) \<open>j < length (cl_started c)\<close> show False by simp
  qed
  with assms(1) map_inv_none show ?thesis unfolding client_inv_def by blast
qed



subsection \<open>No request is lost\<close>



subsection \<open>No wake-up is lost\<close>

text \<open>
  Every waker stored in the map is either still stored for the same request or among the woken.
\<close>

definition keeps_or_wakes ::
  "(32 word \<times> RequestState) list \<Rightarrow> (32 word \<times> RequestState) list \<Rightarrow> waker list \<Rightarrow> bool" where
  "keeps_or_wakes m m' wk \<longleftrightarrow>
     (\<forall>rid rs w. map_of m rid = Some rs \<and> rs_waker rs = Some w \<longrightarrow>
        w \<in> set wk \<or> (\<exists>rs'. map_of m' rid = Some rs' \<and> rs_waker rs' = Some w))"

lemma keeps_or_wakes_refl [simp]: "keeps_or_wakes m m wk"
  by (simp add: keeps_or_wakes_def)

lemma keeps_or_wakes_trans:
  "keeps_or_wakes m m1 wk1 \<Longrightarrow> keeps_or_wakes m1 m2 wk2 \<Longrightarrow> keeps_or_wakes m m2 (wk1 @ wk2)"
  unfolding keeps_or_wakes_def by (metis Un_iff set_append)

lemma wakers_of_mem [simp]: "w \<in> set (wakers_of ws) \<longleftrightarrow> Some w \<in> set ws"
  by (induction ws) (auto simp: wakers_of_def List.map_filter_simps split: option.splits)

lemma terminate_wakes: "fifo_terminate fs = (fs', wk) \<Longrightarrow> keeps_or_wakes (fmap fs) (fmap fs') wk"
  unfolding keeps_or_wakes_def fifo_terminate_def
  by (force dest: map_of_SomeD)

lemma poll_send_loop_wakes:
  "poll_send_loop ws fs = Inr (fs', wk, b) \<Longrightarrow> keeps_or_wakes (fmap fs) (fmap fs') wk"
proof (induction ws arbitrary: fs)
  case Nil
  then show ?case by auto
next
  case (Cons a ws)
  then show ?case
    by (fastforce split: if_splits fifo_write.splits prod.splits intro: terminate_wakes)
qed

lemma poll_send_requests_wakes:
  "poll_send_requests ws fs = Inr (fs', wk, b) \<Longrightarrow> keeps_or_wakes (fmap fs) (fmap fs') wk"
  by (auto simp: poll_send_requests_def split: option.splits intro: poll_send_loop_wakes)

lemma poll_read_loop_wakes:
  "poll_read_loop rs fs = (fs', wk, b) \<Longrightarrow> keeps_or_wakes (fmap fs) (fmap fs') wk"
proof (induction rs fs arbitrary: wk rule: poll_read_loop.induct)
  case (1 fs)
  then show ?case by auto
next
  case (2 r as fs)
  show ?case
  proof (cases "map_of (fmap fs) (resp_request_id r)")
    case None
    with 2 show ?thesis by auto
  next
    case (Some q)
    let ?m = "AList.update (resp_request_id r) \<lparr> rs_result = Some (resp_status r), rs_waker = None \<rparr> (fmap fs)"
    obtain wk2 where "wk = wakers_of [rs_waker q] @ wk2" "poll_read_loop as (fs\<lparr> fmap := ?m \<rparr>) = (fs', wk2, b)"
      using 2(3) Some by (auto split: prod.splits)
    moreover have "keeps_or_wakes (fmap fs) ?m (wakers_of [rs_waker q])"
      using Some by (auto simp: keeps_or_wakes_def update_conv')
    ultimately show ?thesis using 2(2) [OF Some] keeps_or_wakes_trans by fastforce
  qed
next
  case (3 as fs)
  then show ?case by (auto split: prod.splits intro: terminate_wakes)
next
  case (4 as fs)
  then show ?case by (auto split: prod.splits intro: terminate_wakes)
qed

text \<open>No wake-up is lost: when the poller runs on a reachable state and leaves a request with a result,
  the waker that the request's future had stored has been woken; a stored waker that was not woken
  still waits for the same request.\<close>

theorem poller_wakes_futures:
  assumes "client_reach c" and "writes_ok ws (queue (cl_state c))"
    and "fifo_poll ws rs pw (cl_state c) = Inr (fs', wk, b)"
    and "map_of (fmap (cl_state c)) rid = Some q" and "rs_waker q = Some w"
  shows "\<exists>q'. map_of (fmap fs') rid = Some q' \<and>
           (if rs_result q' = None then w \<in> set wk \<or> rs_waker q' = Some w else w \<in> set wk)"
proof -
  have inv': "client_inv (c\<lparr> cl_state := fs' \<rparr>)"
    using client_step_inv [OF step_poller [OF assms(3,2)] client_reach_inv [OF assms(1)]] .
  have rid: "rid \<in> set (cl_futures c)"
    using client_reach_inv [OF assms(1)] assms(4) unfolding client_inv_def map_inv_def by auto
  then obtain q' where q': "map_of (fmap fs') rid = Some q'"
    using inv' map_inv_lookup [of "fifo fs' = None" "cl_futures c" "fmap fs'" rid]
    unfolding client_inv_def by auto
  obtain fs1 wk1 b1 where one: "poll_send_requests ws (cl_state c) = Inr (fs1, wk1, b1)"
    using assms(3) by (auto simp: fifo_poll_def)
  obtain fs2 wk2 b2 where two: "poll_read_loop rs fs1 = (fs2, wk2, b2)" by (metis prod_cases3)
  have "keeps_or_wakes (fmap (cl_state c)) (fmap fs') wk"
    using assms(3) one two poll_send_requests_wakes [OF one]
      keeps_or_wakes_trans [OF poll_send_requests_wakes [OF one] poll_read_loop_wakes [OF two]]
    by (auto simp: fifo_poll_def Let_def split: if_splits)
  then have "w \<in> set wk \<or> rs_waker q' = Some w"
    using assms(4,5) q' unfolding keeps_or_wakes_def by fastforce
  moreover have "rs_result q' \<noteq> None \<Longrightarrow> rs_waker q' = None"
    using inv' q' unfolding client_inv_def map_inv_def by auto
  ultimately show ?thesis using q' by auto
qed

theorem poller_wakes_futures_witness:
  "\<exists>fs' wk b q'.
     fifo_poll [WSent 1] [RResponse \<lparr> resp_status = OK, resp_request_id = 0, resp_group_id = 0, resp_count = 1 \<rparr>]
       5 (cl_state example_client) = Inr (fs', wk, b) \<and>
     map_of (fmap fs') 0 = Some q' \<and> rs_result q' = Some OK \<and> 7 \<in> set wk"
proof -
  let ?r = "\<lparr> resp_status = OK, resp_request_id = 0, resp_group_id = 0, resp_count = 1 \<rparr>"
  let ?fs = "(cl_state example_client)\<lparr> fifo := Some [stamp_request 0 0 default_request], queue := [],
               fmap := [(0, \<lparr> rs_result = Some OK, rs_waker = None \<rparr>)], poller_waker := Some 5 \<rparr>"
  have run: "fifo_poll [WSent 1] [RResponse ?r] 5 (cl_state example_client) = Inr (?fs, [7], False)"
    by (simp add: fifo_poll_def poll_send_requests_def example_client_def wakers_of_def
        List.map_filter_simps)
  have "\<exists>q'. map_of (fmap ?fs) 0 = Some q' \<and>
          (if rs_result q' = None then 7 \<in> set [7::nat] \<or> rs_waker q' = Some 7 else 7 \<in> set [7::nat])"
    by (rule poller_wakes_futures
          [OF example_client_reach _ run, where q = "\<lparr> rs_result = None, rs_waker = Some 7 \<rparr>"])
      (simp_all add: example_client_def)
  with run show ?thesis by fastforce
qed

end
