(* ===== verification/Block_Transfer.thy ===== *)
theory Block_Transfer
  imports Block_Client Sorted_Map
begin

text \<open>
  Transfers to and from a block device: \<open>VmoId\<close>, the operations of \<open>Common\<close> in
  \<open>block_client/rust/src/lib.rs\<close> (one request per transfer to an attached memory object, a loop over
  the temporary object for a transfer to memory), and the in-memory \<open>FakeBlockClient\<close> of \<open>testing.rs\<close>.
  The locale \<open>block_client\<close> is the contract of the trait \<open>BlockClient\<close> that the cache relies on.
\<close>

section \<open>VmoId\<close>

text \<open>A \<open>VmoId\<close> is an atomic \<open>u16\<close>; \<open>take\<close> and \<open>into_id\<close> leave the invalid id behind.\<close>

type_synonym VmoId = "16 word"

definition vmo_id_take :: "VmoId \<Rightarrow> VmoId \<times> VmoId" where
  "vmo_id_take i = (BLOCK_VMOID_INVALID, i)"

definition vmo_id_is_valid :: "VmoId \<Rightarrow> bool" where
  "vmo_id_is_valid i \<longleftrightarrow> i \<noteq> BLOCK_VMOID_INVALID"

definition vmo_id_into_id :: "VmoId \<Rightarrow> VmoId \<times> 16 word" where
  "vmo_id_into_id i = (BLOCK_VMOID_INVALID, i)"

definition vmo_id_drop :: "VmoId \<Rightarrow> unit io_result" where
  "vmo_id_drop i = (if i = BLOCK_VMOID_INVALID then Inr () else Inl IoPanic)"

text \<open>\<open>zx::Vmo::read\<close> and \<open>write\<close>: the range has to lie within the object.\<close>

definition vmo_read :: "vmos \<Rightarrow> koid \<Rightarrow> nat \<Rightarrow> nat \<Rightarrow> bytes io_result" where
  "vmo_read v k off n =
     (if off + n \<le> length (v k) then Inr (sub_list (v k) off n) else Inl (ZxStatus OUT_OF_RANGE))"

definition vmo_write :: "vmos \<Rightarrow> koid \<Rightarrow> nat \<Rightarrow> bytes \<Rightarrow> vmos io_result" where
  "vmo_write v k off b =
     (if off + length b \<le> length (v k) then Inr (v(k := overwrite (v k) off b))
      else Inl (ZxStatus OUT_OF_RANGE))"

section \<open>Common\<close>

record common =
  cm_block_size :: nat
  cm_block_count :: nat
  cm_temp_vmo :: koid
  cm_temp_vmo_id :: VmoId
  cm_fifo :: FifoState

text \<open>\<open>bytes % 0\<close> panics.\<close>

definition to_blocks :: "common \<Rightarrow> nat \<Rightarrow> nat io_result" where
  "to_blocks c n =
     (if cm_block_size c = 0 then Inl IoPanic
      else if n mod cm_block_size c = 0 then Inr (n div cm_block_size c)
      else Inl Message)"

text \<open>
  The block server: its state and the memory objects, and a request, give a new state and a status.
  The other parameters of a run are the handle of the process and the wakers of the executor.
\<close>

type_synonym 'd world = "'d \<times> vmos"
type_synonym 'd server = "'d world \<Rightarrow> BlockFifoRequest \<Rightarrow> 'd world \<times> status"

text \<open>
  \<open>Common::send\<close> under an executor that runs the poller, lets the server answer and polls the response
  future: the request is queued and written, the server handles what was written, its response is
  received, the future is ready and dropped.
\<close>

definition common_send ::
  "32 word \<Rightarrow> 'd server \<Rightarrow> BlockFifoRequest \<Rightarrow> common \<times> 'd world \<Rightarrow> (common \<times> 'd world) \<times> unit io_result" where
  "common_send h serve req = (\<lambda>(c, w).
     case send_start h [WSent 1] req (cm_fifo c) of
       Inl _ \<Rightarrow> ((c, w), Inl IoPanic)
     | Inr (fs1, _, Inl st) \<Rightarrow> ((c\<lparr> cm_fifo := fs1 \<rparr>, w), Inl (ZxStatus st))
     | Inr (fs1, _, Inr rid) \<Rightarrow>
         (case fifo_poll [WSent 1] [] 0 fs1 of
            Inl _ \<Rightarrow> ((c, w), Inl IoPanic)
          | Inr (fs2, _, _) \<Rightarrow>
              (let sent = last (the (fifo fs2));
                   (w', st) = serve w sent;
                   resp = \<lparr> resp_status = st, resp_request_id = request_id sent,
                           resp_group_id = group_id sent, resp_count = 1 \<rparr> in
               case fifo_poll [] [RResponse resp] 0 fs2 of
                 Inl _ \<Rightarrow> ((c, w'), Inl IoPanic)
               | Inr (fs3, _, _) \<Rightarrow>
                   (case response_poll rid 1 fs3 of
                      Inr (fs4, Ready r) \<Rightarrow>
                        (case response_drop rid fs4 of
                           Inl _ \<Rightarrow> ((c, w'), Inl IoPanic)
                         | Inr fs5 \<Rightarrow> ((c\<lparr> cm_fifo := fs5 \<rparr>, w'), r))
                    | _ \<Rightarrow> ((c, w'), Inl IoPanic)))))"

text \<open>The result of a step that may fail, with the state kept: Rust's \<open>?\<close> on \<open>self\<close> operations.\<close>

definition io_bind :: "'s \<times> 'a io_result \<Rightarrow> ('a \<Rightarrow> 's \<Rightarrow> 's \<times> 'b io_result) \<Rightarrow> 's \<times> 'b io_result" where
  "io_bind m f = (case m of (s, Inl e) \<Rightarrow> (s, Inl e) | (s, Inr a) \<Rightarrow> f a s)"

definition io_lift :: "'a io_result \<Rightarrow> 's \<Rightarrow> 's \<times> 'a io_result" where
  "io_lift r s = (s, r)"

lemma io_bind_simps [simp]:
  "io_bind (s, Inl e) f = (s, Inl e)" "io_bind (s, Inr a) f = f a s"
  "io_bind (io_lift (Inl e) s) f = (s, Inl e)" "io_bind (io_lift (Inr a) s) f = f a s"
  by (simp_all add: io_bind_def io_lift_def)

definition common_detach_vmo :: "32 word \<Rightarrow> 'd server \<Rightarrow> VmoId \<Rightarrow> common \<times> 'd world \<Rightarrow> (common \<times> 'd world) \<times> unit io_result" where
  "common_detach_vmo h serve i =
     common_send h serve (default_request\<lparr> op_code := BLOCKIO_CLOSE_VMO, vmoid := i \<rparr>)"

definition common_flush :: "32 word \<Rightarrow> 'd server \<Rightarrow> common \<times> 'd world \<Rightarrow> (common \<times> 'd world) \<times> unit io_result" where
  "common_flush h serve =
     common_send h serve (default_request\<lparr> op_code := BLOCKIO_FLUSH, vmoid := BLOCK_VMOID_INVALID \<rparr>)"

text \<open>\<open>try_into\<close> from \<open>u64\<close> to \<open>u32\<close>.\<close>

definition try_u32 :: "nat \<Rightarrow> 32 word io_result" where
  "try_u32 n = (if n < 2 ^ 32 then Inr (word_of_nat n) else Inl TryFromInt)"

text \<open>The request that both directions send for an attached memory object.\<close>

definition common_vmo_transfer ::
  "32 word \<Rightarrow> 'd server \<Rightarrow> 32 word \<Rightarrow> VmoId \<Rightarrow> nat \<Rightarrow> nat \<Rightarrow> nat \<Rightarrow>
   common \<times> 'd world \<Rightarrow> (common \<times> 'd world) \<times> unit io_result" where
  "common_vmo_transfer h serve op i off n doff s =
     io_bind (io_lift (to_blocks (fst s) n) s) (\<lambda>count s.
     io_bind (io_lift (try_u32 count) s) (\<lambda>bc s.
     io_bind (io_lift (to_blocks (fst s) off) s) (\<lambda>vb s.
     io_bind (io_lift (to_blocks (fst s) doff) s) (\<lambda>db s.
       common_send h serve
         (default_request\<lparr> op_code := op, vmoid := i, block_count := bc, vmo_block := word_of_nat vb,
                           device_block := word_of_nat db \<rparr>) s))))"

text \<open>The loop of \<open>read_at\<close> for a memory slice of \<open>n\<close> bytes; the bytes read are collected.\<close>

lemma TEMP_VMO_SIZE_pos [simp]: "0 < TEMP_VMO_SIZE"
  by (simp add: TEMP_VMO_SIZE_def)

function read_memory_loop ::
  "32 word \<Rightarrow> 'd server \<Rightarrow> nat \<Rightarrow> 64 word \<Rightarrow> common \<times> 'd world \<Rightarrow> (common \<times> 'd world) \<times> bytes io_result" where
  "read_memory_loop h serve n db s =
     (let to_do = min TEMP_VMO_SIZE n in
      io_bind (io_lift (to_blocks (fst s) to_do) s) (\<lambda>count s.
      let bc = word_of_nat count :: 32 word in
      io_bind (common_send h serve
         (default_request\<lparr> op_code := BLOCKIO_READ, vmoid := cm_temp_vmo_id (fst s), block_count := bc,
                           vmo_block := 0, device_block := db \<rparr>) s) (\<lambda>_ s.
      io_bind (io_lift (vmo_read (snd (snd s)) (cm_temp_vmo (fst s)) 0 to_do) s) (\<lambda>b s.
      if to_do = n then (s, Inr b)
      else io_bind (read_memory_loop h serve (n - to_do) (db + ucast bc) s) (\<lambda>b' s. (s, Inr (b @ b')))))))"
  by pat_completeness auto
termination
  by (relation "measure (\<lambda>(h, serve, n, db, s). n)") (auto simp: min_def split: if_splits)

function write_memory_loop ::
  "32 word \<Rightarrow> 'd server \<Rightarrow> bytes \<Rightarrow> 64 word \<Rightarrow> common \<times> 'd world \<Rightarrow> (common \<times> 'd world) \<times> unit io_result" where
  "write_memory_loop h serve b db s =
     (let to_do = min TEMP_VMO_SIZE (length b) in
      io_bind (io_lift (to_blocks (fst s) to_do) s) (\<lambda>count s.
      let bc = word_of_nat count :: 32 word in
      io_bind (io_lift (vmo_write (snd (snd s)) (cm_temp_vmo (fst s)) 0 (take to_do b)) s) (\<lambda>v s.
      let s = (fst s, fst (snd s), v) in
      io_bind (common_send h serve
         (default_request\<lparr> op_code := BLOCKIO_WRITE, vmoid := cm_temp_vmo_id (fst s), block_count := bc,
                           vmo_block := 0, device_block := db \<rparr>) s) (\<lambda>_ s.
      if to_do = length b then (s, Inr ())
      else write_memory_loop h serve (drop to_do b) (db + ucast bc) s))))"
  by pat_completeness auto
termination
  by (relation "measure (\<lambda>(h, serve, b, db, s). length b)") (auto simp: min_def TEMP_VMO_SIZE_def split: if_splits)

declare read_memory_loop.simps [simp del] write_memory_loop.simps [simp del]

definition common_read_at ::
  "32 word \<Rightarrow> 'd server \<Rightarrow> MutableBufferSlice \<Rightarrow> nat \<Rightarrow> common \<times> 'd world \<Rightarrow> (common \<times> 'd world) \<times> bytes io_result" where
  "common_read_at h serve sl doff s =
     (case sl of
        MutVmoIdSlice i off n \<Rightarrow>
          io_bind (common_vmo_transfer h serve BLOCKIO_READ i off n doff s) (\<lambda>_ s. (s, Inr []))
      | MutMemorySlice n \<Rightarrow>
          io_bind (io_lift (to_blocks (fst s) doff) s) (\<lambda>db s. read_memory_loop h serve n (word_of_nat db) s))"

definition common_write_at ::
  "32 word \<Rightarrow> 'd server \<Rightarrow> BufferSlice \<Rightarrow> nat \<Rightarrow> common \<times> 'd world \<Rightarrow> (common \<times> 'd world) \<times> unit io_result" where
  "common_write_at h serve sl doff s =
     (case sl of
        VmoIdSlice i off n \<Rightarrow> common_vmo_transfer h serve BLOCKIO_WRITE i off n doff s
      | MemorySlice b \<Rightarrow>
          io_bind (io_lift (to_blocks (fst s) doff) s) (\<lambda>db s. write_memory_loop h serve b (word_of_nat db) s))"

definition common_is_connected :: "common \<Rightarrow> bool" where
  "common_is_connected c \<longleftrightarrow> fifo (cm_fifo c) \<noteq> None"

text \<open>\<open>Common::new\<close> with the geometry the device reports, its temporary object and the id of it.\<close>

definition common_new :: "nat \<Rightarrow> nat \<Rightarrow> koid \<Rightarrow> VmoId \<Rightarrow> common" where
  "common_new bs count temp temp_id =
     \<lparr> cm_block_size = bs, cm_block_count = count, cm_temp_vmo = temp, cm_temp_vmo_id = temp_id,
       cm_fifo = new_fifo_state \<rparr>"

text \<open>\<open>close\<close> of the remote client: the id is leaked and the status of \<open>close_fifo\<close> decides.\<close>

definition remote_close :: "status \<Rightarrow> common \<Rightarrow> common \<times> unit io_result" where
  "remote_close st c =
     (c\<lparr> cm_temp_vmo_id := fst (vmo_id_take (cm_temp_vmo_id c)) \<rparr>, status_result st)"

text \<open>\<open>Drop for Common\<close>: the temporary id is leaked on purpose and the fifo state terminated.\<close>

definition common_drop :: "common \<Rightarrow> common \<times> waker list" where
  "common_drop c =
     (let (fs, wk) = fifo_terminate (cm_fifo c) in
      (c\<lparr> cm_temp_vmo_id := fst (vmo_id_take (cm_temp_vmo_id c)), cm_fifo := fs \<rparr>, wk))"

section \<open>Sending from an idle connection\<close>

definition idle :: "FifoState \<Rightarrow> bool" where
  "idle fs \<longleftrightarrow> fifo fs \<noteq> None \<and> queue fs = [] \<and> fmap fs = []"

lemma common_send_idle:
  assumes "idle (cm_fifo c)"
  shows "\<exists>fs'. common_send h serve req (c, w) =
           ((c\<lparr> cm_fifo := fs' \<rparr>, fst (serve w (stamp_request h (next_request_id (cm_fifo c)) req))),
            status_result (snd (serve w (stamp_request h (next_request_id (cm_fifo c)) req)))) \<and> idle fs'"
proof -
  obtain wr where "fifo (cm_fifo c) = Some wr" "queue (cm_fifo c) = []" "fmap (cm_fifo c) = []"
    using assms unfolding idle_def by blast
  then show ?thesis
    by (cases "serve w (stamp_request h (next_request_id (cm_fifo c)) req)")
      (auto simp: common_send_def send_start_def fifo_poll_def poll_send_requests_def Let_def
        response_poll_def response_drop_def idle_def stamp_request_def default_request_state_def
        wakers_of_def List.map_filter_simps split: option.splits)
qed

section \<open>A server that does what the protocol says\<close>

text \<open>
  What the protocol documents for a read and a write of a registered memory object within the bounds
  of the object and of the device: the blocks are copied and the status is \<open>OK\<close>.
\<close>

definition request_fits :: "nat \<Rightarrow> bytes \<Rightarrow> bytes \<Rightarrow> BlockFifoRequest \<Rightarrow> bool" where
  "request_fits bs dev mem r \<longleftrightarrow>
     (unat (device_block r) + unat (block_count r)) * bs \<le> length dev \<and>
     (unat (vmo_block r) + unat (block_count r)) * bs \<le> length mem"

definition serves_blocks :: "'d server \<Rightarrow> ('d \<Rightarrow> bytes) \<Rightarrow> ('d \<Rightarrow> VmoId \<Rightarrow> koid option) \<Rightarrow> nat \<Rightarrow> bool" where
  "serves_blocks serve content reg bs \<longleftrightarrow>
     (\<forall>d v r k. reg d (vmoid r) = Some k \<and> request_fits bs (content d) (v k) r \<longrightarrow>
        (op_code r = BLOCKIO_READ \<longrightarrow>
           (\<exists>d'. serve (d, v) r =
              ((d', v(k := overwrite (v k) (unat (vmo_block r) * bs)
                      (sub_list (content d) (unat (device_block r) * bs) (unat (block_count r) * bs)))), OK) \<and>
              content d' = content d \<and> reg d' = reg d)) \<and>
        (op_code r = BLOCKIO_WRITE \<longrightarrow>
           (\<exists>d'. serve (d, v) r = ((d', v), OK) \<and>
              content d' = overwrite (content d) (unat (device_block r) * bs)
                      (sub_list (v k) (unat (vmo_block r) * bs) (unat (block_count r) * bs)) \<and>
              reg d' = reg d)))"

lemma stamp_request_sel [simp]:
  "op_code (stamp_request h i r) = op_code r" "vmoid (stamp_request h i r) = vmoid r"
  "block_count (stamp_request h i r) = block_count r" "vmo_block (stamp_request h i r) = vmo_block r"
  "device_block (stamp_request h i r) = device_block r"
  by (simp_all add: stamp_request_def)

lemma request_fits_stamp [simp]: "request_fits bs dev mem (stamp_request h i r) = request_fits bs dev mem r"
  by (simp add: request_fits_def)

lemma send_read:
  assumes "serves_blocks serve content reg bs" and "idle (cm_fifo c)"
    and "reg d (vmoid r) = Some k" and "request_fits bs (content d) (v k) r"
    and "op_code r = BLOCKIO_READ"
  shows "\<exists>fs' d'. common_send h serve r (c, d, v) =
           ((c\<lparr> cm_fifo := fs' \<rparr>, d', v(k := overwrite (v k) (unat (vmo_block r) * bs)
              (sub_list (content d) (unat (device_block r) * bs) (unat (block_count r) * bs)))), Inr ()) \<and>
           idle fs' \<and> content d' = content d \<and> reg d' = reg d"
proof -
  let ?r = "stamp_request h (next_request_id (cm_fifo c)) r"
  obtain d' where d': "serve (d, v) ?r =
      ((d', v(k := overwrite (v k) (unat (vmo_block r) * bs)
         (sub_list (content d) (unat (device_block r) * bs) (unat (block_count r) * bs)))), OK)"
      "content d' = content d" "reg d' = reg d"
    using assms(1,3,4,5) unfolding serves_blocks_def
    by (metis (no_types, lifting) request_fits_stamp stamp_request_sel)
  with common_send_idle [OF assms(2), of h serve r "(d, v)"] show ?thesis
    by (auto simp: status_result_def)
qed

lemma send_write:
  assumes "serves_blocks serve content reg bs" and "idle (cm_fifo c)"
    and "reg d (vmoid r) = Some k" and "request_fits bs (content d) (v k) r"
    and "op_code r = BLOCKIO_WRITE"
  shows "\<exists>fs' d'. common_send h serve r (c, d, v) = ((c\<lparr> cm_fifo := fs' \<rparr>, d', v), Inr ()) \<and>
           idle fs' \<and> reg d' = reg d \<and>
           content d' = overwrite (content d) (unat (device_block r) * bs)
              (sub_list (v k) (unat (vmo_block r) * bs) (unat (block_count r) * bs))"
proof -
  let ?r = "stamp_request h (next_request_id (cm_fifo c)) r"
  obtain d' where d': "serve (d, v) ?r = ((d', v), OK)" "reg d' = reg d"
      "content d' = overwrite (content d) (unat (device_block r) * bs)
              (sub_list (v k) (unat (vmo_block r) * bs) (unat (block_count r) * bs))"
    using assms(1,3,4,5) unfolding serves_blocks_def
    by (metis (no_types, lifting) request_fits_stamp stamp_request_sel)
  with common_send_idle [OF assms(2), of h serve r "(d, v)"] show ?thesis
    by (auto simp: status_result_def)
qed

text \<open>
  The connection a transfer needs: idle, with the block size of the server, and with its temporary
  object registered.
\<close>

definition connected_to :: "('d \<Rightarrow> bytes) \<Rightarrow> ('d \<Rightarrow> VmoId \<Rightarrow> koid option) \<Rightarrow> nat \<Rightarrow> common \<times> 'd world \<Rightarrow> bool" where
  "connected_to content reg bs = (\<lambda>(c, d, v).
     idle (cm_fifo c) \<and> cm_block_size c = bs \<and> 0 < bs \<and>
     reg d (cm_temp_vmo_id c) = Some (cm_temp_vmo c) \<and> length (v (cm_temp_vmo c)) = TEMP_VMO_SIZE \<and>
     length (content d) < 2 ^ 64)"

lemma unat_word32: "n < 2 ^ 32 \<Longrightarrow> unat (word_of_nat n :: 32 word) = n"
  by (simp add: unat_of_nat)

lemma unat_word64: "n < 2 ^ 64 \<Longrightarrow> unat (word_of_nat n :: 64 word) = n"
  by (simp add: unat_of_nat)

lemma default_request_sel [simp]: "vmo_block default_request = 0" "device_block default_request = 0"
  by (simp_all add: default_request_def)

lemma blocks_small: "0 < bs \<Longrightarrow> n < m \<Longrightarrow> n div bs < (m::nat)"
  by (meson div_le_dividend le_less_trans)

text \<open>One chunk of a transfer: the request for \<open>n\<close> bytes at block \<open>db\<close> through the temporary object.\<close>

lemma chunk_fits:
  assumes "connected_to content reg bs (c, d, v)" and "bs dvd n" and "n \<le> TEMP_VMO_SIZE"
    and "unat db * bs + n \<le> length (content d)"
  shows "request_fits bs (content d) (v (cm_temp_vmo c))
           (default_request\<lparr> op_code := op, vmoid := i, block_count := word_of_nat (n div bs),
              vmo_block := 0, device_block := db \<rparr>)"
    and "unat (word_of_nat (n div bs) :: 32 word) * bs = n"
proof -
  have bs: "0 < bs" using assms(1) by (simp add: connected_to_def)
  have "n div bs < 2 ^ 32"
    using assms(3) by (intro blocks_small bs) (simp add: TEMP_VMO_SIZE_def)
  then show *: "unat (word_of_nat (n div bs) :: 32 word) * bs = n"
    using assms(2) by (simp add: unat_word32)
  show "request_fits bs (content d) (v (cm_temp_vmo c))
           (default_request\<lparr> op_code := op, vmoid := i, block_count := word_of_nat (n div bs),
              vmo_block := 0, device_block := db \<rparr>)"
    using * assms(1,3,4) by (simp add: request_fits_def connected_to_def algebra_simps)
qed

lemma next_chunk:
  assumes "0 < bs" and "bs dvd n" and "n \<le> TEMP_VMO_SIZE" and "unat db * bs + n < (2 ^ 64 :: nat)"
  shows "unat (db + ucast (word_of_nat (n div bs) :: 32 word) :: 64 word) * bs = unat db * bs + n"
proof -
  have small: "n div bs < 2 ^ 32"
    using assms(3) by (intro blocks_small assms(1)) (simp add: TEMP_VMO_SIZE_def)
  have "(unat db + n div bs) * bs < 2 ^ 64"
    using assms(2,4) by (simp add: algebra_simps)
  then have "unat db + n div bs < 2 ^ 64"
    using assms(1) by (metis mult.commute mult_le_mono1 nat_mult_1 Suc_leI One_nat_def le_less_trans)
  moreover have "unat (ucast (word_of_nat (n div bs) :: 32 word) :: 64 word) = n div bs"
    using small by (simp add: unat_word32 unsigned_ucast_eq take_bit_nat_eq_self)
  ultimately have "unat (db + ucast (word_of_nat (n div bs) :: 32 word) :: 64 word) = unat db + n div bs"
    by (simp add: unat_word_ariths)
  then show ?thesis using assms(2) by (simp add: algebra_simps)
qed

lemma to_blocks_ok: "cm_block_size c = bs \<Longrightarrow> 0 < bs \<Longrightarrow> bs dvd n \<Longrightarrow> to_blocks c n = Inr (n div bs)"
  by (simp add: to_blocks_def)

lemma read_chunk:
  assumes "serves_blocks serve content reg bs" and con: "connected_to content reg bs (c, d, v)"
    and n: "bs dvd n" "n \<le> TEMP_VMO_SIZE" "unat db * bs + n \<le> length (content d)"
  shows "\<exists>c' d' v'. common_send h serve
           (default_request\<lparr> op_code := BLOCKIO_READ, vmoid := cm_temp_vmo_id c,
              block_count := word_of_nat (n div bs), vmo_block := 0, device_block := db \<rparr>) (c, d, v) =
           ((c', d', v'), Inr ()) \<and> vmo_read v' (cm_temp_vmo c') 0 n = Inr (sub_list (content d) (unat db * bs) n) \<and>
           content d' = content d \<and> connected_to content reg bs (c', d', v')"
proof -
  let ?r = "default_request\<lparr> op_code := BLOCKIO_READ, vmoid := cm_temp_vmo_id c,
              block_count := word_of_nat (n div bs), vmo_block := 0, device_block := db \<rparr>"
  let ?b = "sub_list (content d) (unat db * bs) n"
  have len: "length ?b = n" using n(3) by simp
  obtain fs' d' where run: "common_send h serve ?r (c, d, v) =
       ((c\<lparr> cm_fifo := fs' \<rparr>, d', v(cm_temp_vmo c := overwrite (v (cm_temp_vmo c)) 0 ?b)), Inr ())"
    "idle fs'" "content d' = content d" "reg d' = reg d"
    using send_read [OF assms(1), of c d ?r "cm_temp_vmo c" v h]
      chunk_fits(1) [OF con n, where op = BLOCKIO_READ and i = "cm_temp_vmo_id c"] chunk_fits(2) [OF con n] con
    by (auto simp: connected_to_def)
  have "vmo_read (v(cm_temp_vmo c := overwrite (v (cm_temp_vmo c)) 0 ?b)) (cm_temp_vmo c) 0 n = Inr ?b"
    using con n(2) len sub_list_overwrite [of 0 ?b "v (cm_temp_vmo c)"]
    by (simp add: vmo_read_def connected_to_def)
  moreover have "connected_to content reg bs
      (c\<lparr> cm_fifo := fs' \<rparr>, d', v(cm_temp_vmo c := overwrite (v (cm_temp_vmo c)) 0 ?b))"
    using con run n(2) len by (simp add: connected_to_def)
  ultimately show ?thesis using run by fastforce
qed

lemma read_memory_loop_correct:
  assumes "serves_blocks serve content reg bs" and "connected_to content reg bs (c, d, v)"
    and "bs dvd TEMP_VMO_SIZE" and "bs dvd n" and "unat db * bs + n \<le> length (content d)"
  shows "\<exists>c' d' v'. read_memory_loop h serve n db (c, d, v) =
           ((c', d', v'), Inr (sub_list (content d) (unat db * bs) n)) \<and>
           content d' = content d \<and> connected_to content reg bs (c', d', v')"
  using assms(2-5)
proof (induction n arbitrary: c d v db rule: less_induct)
  case (less n)
  let ?m = "min TEMP_VMO_SIZE n"
  have bs: "cm_block_size c = bs" "0 < bs" "length (content d) < 2 ^ 64"
    using less.prems(1) by (auto simp: connected_to_def)
  have m: "bs dvd ?m" "?m \<le> TEMP_VMO_SIZE" "unat db * bs + ?m \<le> length (content d)"
    using less.prems by (auto simp: min_def)
  obtain c1 d1 v1 where one: "common_send h serve
       (default_request\<lparr> op_code := BLOCKIO_READ, vmoid := cm_temp_vmo_id c,
          block_count := word_of_nat (?m div bs), vmo_block := 0, device_block := db \<rparr>) (c, d, v) =
       ((c1, d1, v1), Inr ())"
    "vmo_read v1 (cm_temp_vmo c1) 0 ?m = Inr (sub_list (content d) (unat db * bs) ?m)"
    "content d1 = content d" "connected_to content reg bs (c1, d1, v1)"
    using read_chunk [OF assms(1) less.prems(1) m, of h] by auto
  note unfold = read_memory_loop.simps [of h serve n db "(c, d, v)"] to_blocks_ok [OF bs(1,2) m(1)]
  show ?case
  proof (cases "?m = n")
    case True
    with one show ?thesis
      by (subst unfold(1)) (simp add: Let_def unfold(2) unfold(2) [unfolded True])
  next
    case False
    then have mT: "?m = TEMP_VMO_SIZE" by (simp add: min_def split: if_splits)
    let ?db = "db + ucast (word_of_nat (?m div bs) :: 32 word)"
    have db: "unat ?db * bs = unat db * bs + ?m"
      by (rule next_chunk [OF bs(2) m(1,2)]) (use m(3) bs(3) in linarith)
    have "n - ?m < n" "bs dvd n - ?m" "unat ?db * bs + (n - ?m) \<le> length (content d1)"
      using False less.prems m(1) one(3) db by (auto simp: min_def split: if_splits)
    from less.IH [OF this(1) one(4) assms(3) this(2,3)] obtain c' d' v' where
      "read_memory_loop h serve (n - ?m) ?db (c1, d1, v1) =
         ((c', d', v'), Inr (sub_list (content d1) (unat ?db * bs) (n - ?m)))"
      "content d' = content d1" "connected_to content reg bs (c', d', v')" by auto
    moreover have "sub_list (content d) (unat db * bs) ?m @ sub_list (content d) (unat ?db * bs) (n - ?m) =
        sub_list (content d) (unat db * bs) n"
      using sub_list_add [of "content d" "unat db * bs" ?m "n - ?m"] db by (simp add: min_def split: if_splits)
    ultimately show ?thesis
      using one False [unfolded mT]
      by (subst unfold(1)) (simp add: Let_def mT unfold(2) unfold(2) [unfolded mT])
  qed
qed

lemma write_chunk:
  assumes "serves_blocks serve content reg bs" and con: "connected_to content reg bs (c, d, v)"
    and n: "bs dvd length b" "length b \<le> TEMP_VMO_SIZE" "unat db * bs + length b \<le> length (content d)"
  shows "\<exists>v1 c' d'. vmo_write v (cm_temp_vmo c) 0 b = Inr v1 \<and> common_send h serve
           (default_request\<lparr> op_code := BLOCKIO_WRITE, vmoid := cm_temp_vmo_id c,
              block_count := word_of_nat (length b div bs), vmo_block := 0, device_block := db \<rparr>) (c, d, v1) =
           ((c', d', v1), Inr ()) \<and>
           content d' = overwrite (content d) (unat db * bs) b \<and> connected_to content reg bs (c', d', v1)"
proof -
  let ?v = "v(cm_temp_vmo c := overwrite (v (cm_temp_vmo c)) 0 b)"
  let ?r = "default_request\<lparr> op_code := BLOCKIO_WRITE, vmoid := cm_temp_vmo_id c,
              block_count := word_of_nat (length b div bs), vmo_block := 0, device_block := db \<rparr>"
  have fits: "length b \<le> length (v (cm_temp_vmo c))" using con n(2) by (simp add: connected_to_def)
  then have con1: "connected_to content reg bs (c, d, ?v)" using con by (simp add: connected_to_def)
  obtain fs' d' where run: "common_send h serve ?r (c, d, ?v) = ((c\<lparr> cm_fifo := fs' \<rparr>, d', ?v), Inr ())"
    "idle fs'" "reg d' = reg d"
    "content d' = overwrite (content d) (unat db * bs) (sub_list (?v (cm_temp_vmo c)) 0 (length b))"
    using send_write [OF assms(1), of c d ?r "cm_temp_vmo c" ?v h]
      chunk_fits(1) [OF con1 n, where op = BLOCKIO_WRITE and i = "cm_temp_vmo_id c"]
      chunk_fits(2) [OF con1 n] con1
    by (auto simp: connected_to_def)
  moreover have "connected_to content reg bs (c\<lparr> cm_fifo := fs' \<rparr>, d', ?v)"
    using con1 run n(3) sub_list_overwrite [of 0 b "v (cm_temp_vmo c)"] fits
    by (simp add: connected_to_def)
  ultimately show ?thesis
    using fits sub_list_overwrite [of 0 b "v (cm_temp_vmo c)"] by (auto simp: vmo_write_def)
qed

lemma write_memory_loop_correct:
  assumes "serves_blocks serve content reg bs" and "connected_to content reg bs (c, d, v)"
    and "bs dvd TEMP_VMO_SIZE" and "bs dvd length b" and "unat db * bs + length b \<le> length (content d)"
  shows "\<exists>c' d' v'. write_memory_loop h serve b db (c, d, v) = ((c', d', v'), Inr ()) \<and>
           content d' = overwrite (content d) (unat db * bs) b \<and> connected_to content reg bs (c', d', v')"
  using assms(2-5)
proof (induction "length b" arbitrary: b c d v db rule: less_induct)
  case less
  let ?m = "min TEMP_VMO_SIZE (length b)"
  let ?b = "take ?m b"
  have bs: "cm_block_size c = bs" "0 < bs" "length (content d) < 2 ^ 64"
    using less.prems(1) by (auto simp: connected_to_def)
  have len: "length ?b = ?m" by simp
  have m: "bs dvd ?m" "?m \<le> TEMP_VMO_SIZE" "unat db * bs + ?m \<le> length (content d)"
    using less.prems by (auto simp: min_def)
  obtain v1 c1 d1 where one: "vmo_write v (cm_temp_vmo c) 0 ?b = Inr v1"
    "common_send h serve
       (default_request\<lparr> op_code := BLOCKIO_WRITE, vmoid := cm_temp_vmo_id c,
          block_count := word_of_nat (?m div bs), vmo_block := 0, device_block := db \<rparr>) (c, d, v1) =
       ((c1, d1, v1), Inr ())"
    "content d1 = overwrite (content d) (unat db * bs) ?b" "connected_to content reg bs (c1, d1, v1)"
    using write_chunk [OF assms(1) less.prems(1), of ?b db h, unfolded len, OF m] by auto
  note unfold = write_memory_loop.simps [of h serve b db "(c, d, v)"] to_blocks_ok [OF bs(1,2) m(1)]
  show ?case
  proof (cases "?m = length b")
    case True
    with one show ?thesis
      by (subst unfold(1)) (simp add: Let_def unfold(2) unfold(2) [unfolded True])
  next
    case False
    then have mT: "?m = TEMP_VMO_SIZE" by (simp add: min_def split: if_splits)
    let ?db = "db + ucast (word_of_nat (?m div bs) :: 32 word)"
    have db: "unat ?db * bs = unat db * bs + ?m"
      by (rule next_chunk [OF bs(2) m(1,2)]) (use m(3) bs(3) in linarith)
    have "length (drop ?m b) < length b"
      using False by (auto simp: min_def TEMP_VMO_SIZE_def split: if_splits)
    moreover have "bs dvd length (drop ?m b)" "unat ?db * bs + length (drop ?m b) \<le> length (content d1)"
      using False less.prems m one(3) db by (auto simp: min_def not_le split: if_splits)
    ultimately have rest: "length (drop ?m b) < length b" "bs dvd length (drop ?m b)"
      "unat ?db * bs + length (drop ?m b) \<le> length (content d1)" by auto
    from less.hyps [OF rest(1) one(4) assms(3) rest(2,3)] obtain c' d' v' where
      "write_memory_loop h serve (drop ?m b) ?db (c1, d1, v1) = ((c', d', v'), Inr ())"
      "content d' = overwrite (content d1) (unat ?db * bs) (drop ?m b)"
      "connected_to content reg bs (c', d', v')" by auto
    moreover have "overwrite (overwrite (content d) (unat db * bs) ?b) (unat ?db * bs) (drop ?m b) =
        overwrite (content d) (unat db * bs) b"
      using overwrite_append [of "unat db * bs" ?b "drop ?m b" "content d"] less.prems(4) db len
      by (simp add: append_take_drop_id del: length_take)
    ultimately show ?thesis
      using one False [unfolded mT]
      by (subst unfold(1)) (simp add: Let_def mT unfold(2) unfold(2) [unfolded mT])
  qed
qed

subsection \<open>A concrete server\<close>

text \<open>A server over a byte list and a table of memory objects, used to evaluate the model.\<close>

definition list_server :: "nat \<Rightarrow> (bytes \<times> (VmoId \<Rightarrow> koid option)) server" where
  "list_server bs = (\<lambda>((dev, reg), v) r.
     case reg (vmoid r) of
       None \<Rightarrow> (((dev, reg), v), OTHER_STATUS 1)
     | Some k \<Rightarrow>
         if \<not> request_fits bs dev (v k) r then (((dev, reg), v), OUT_OF_RANGE)
         else
           let vo = unat (vmo_block r) * bs; dof = unat (device_block r) * bs; n = unat (block_count r) * bs in
           if op_code r = BLOCKIO_READ then (((dev, reg), v(k := overwrite (v k) vo (sub_list dev dof n))), OK)
           else if op_code r = BLOCKIO_WRITE then (((overwrite dev dof (sub_list (v k) vo n), reg), v), OK)
           else (((dev, reg), v), OK))"

lemma list_server_serves: "serves_blocks (list_server bs) fst snd bs"
  unfolding serves_blocks_def
  by (auto simp: list_server_def Let_def BLOCKIO_READ_def BLOCKIO_WRITE_def)

definition example_common :: common where
  "example_common = common_new 2 4 5 1"

definition example_world :: "(bytes \<times> (VmoId \<Rightarrow> koid option)) world" where
  "example_world =
     ((replicate 8 0, (\<lambda>_. None)(1 := Some 5, 2 := Some 6)),
      \<lambda>k. if k = 5 then replicate TEMP_VMO_SIZE 0 else replicate 4 9)"

lemma example_connected: "connected_to fst snd 2 (example_common, example_world)"
  by (simp add: connected_to_def example_common_def common_new_def example_world_def idle_def new_fifo_state_def)

section \<open>Memory transfers are exact\<close>

text \<open>Against a server that follows the protocol, a transfer of a memory slice of any block-aligned
  length reaches the device exactly: \<open>write_at\<close> replaces the bytes of its range and no others although
  it goes through the temporary object in chunks, and a following \<open>read_at\<close> of the range returns the
  bytes written.\<close>

theorem memory_transfer_roundtrip:
  assumes "serves_blocks serve content reg bs" and "connected_to content reg bs (c, d, v)"
    and "bs dvd TEMP_VMO_SIZE" and "bs dvd doff" and "bs dvd length b"
    and "doff + length b \<le> length (content d)"
  shows "\<exists>c1 d1 v1 s2.
     common_write_at h serve (MemorySlice b) doff (c, d, v) = ((c1, d1, v1), Inr ()) \<and>
     content d1 = overwrite (content d) doff b \<and>
     common_read_at h serve (MutMemorySlice (length b)) doff (c1, d1, v1) = (s2, Inr b)"
proof -
  have bs: "0 < bs" "cm_block_size c = bs" "length (content d) < 2 ^ 64"
    using assms(2) by (auto simp: connected_to_def)
  have db: "unat (word_of_nat (doff div bs) :: 64 word) * bs = doff"
    using assms(4,6) bs(3) blocks_small [OF bs(1), of doff "2 ^ 64"] by (simp add: unat_word64)
  obtain c1 d1 v1 where one: "write_memory_loop h serve b (word_of_nat (doff div bs)) (c, d, v) = ((c1, d1, v1), Inr ())"
    "content d1 = overwrite (content d) doff b" "connected_to content reg bs (c1, d1, v1)"
    using write_memory_loop_correct [OF assms(1,2,3,5), of "word_of_nat (doff div bs)" h] db assms(6) by auto
  have len: "doff + length b \<le> length (content d1)" using one(2) assms(6) by simp
  obtain s2 where two: "read_memory_loop h serve (length b) (word_of_nat (doff div bs)) (c1, d1, v1) =
      (s2, Inr (sub_list (content d1) doff (length b)))"
    using read_memory_loop_correct [OF assms(1) one(3) assms(3,5), of "word_of_nat (doff div bs)" h] db len by auto
  have "cm_block_size c1 = bs" using one(3) by (simp add: connected_to_def)
  then show ?thesis
    using one two assms(6) to_blocks_ok [OF _ bs(1) assms(4)] bs(2)
    by (cases s2) (auto simp: common_write_at_def common_read_at_def)
qed

theorem memory_transfer_roundtrip_witness:
  "\<exists>c1 d1 v1 s2.
     common_write_at 0 (list_server 2) (MemorySlice [1, 2, 3, 4]) 2 (example_common, example_world) = ((c1, d1, v1), Inr ()) \<and>
     fst d1 = [0, 0, 1, 2, 3, 4, 0, 0] \<and>
     common_read_at 0 (list_server 2) (MutMemorySlice 4) 2 (c1, d1, v1) = (s2, Inr [1, 2, 3, 4])"
proof -
  have "overwrite (fst (fst example_world)) 2 [1, 2, 3, 4] = [0, 0, 1, 2, 3, 4, 0, 0]"
    by (simp add: example_world_def overwrite_def numeral_eq_Suc)
  moreover have "2 dvd TEMP_VMO_SIZE" "2 + 4 \<le> length (fst (fst example_world))"
    by (simp_all add: TEMP_VMO_SIZE_def example_world_def)
  moreover have len: "length [1, 2, 3, 4 :: 8 word] = 4" by simp
  ultimately show ?thesis
    using memory_transfer_roundtrip
      [of "list_server 2" fst snd 2 example_common "fst example_world" "snd example_world" 2 "[1, 2, 3, 4]" 0,
       unfolded len] list_server_serves example_connected by simp
qed

section \<open>The contract of a block client\<close>

text \<open>
  What the cache relies on: a read or write of an attached memory object, aligned to the block size
  and within the device and the object, succeeds and copies exactly the bytes of the range; the
  device keeps its geometry and its attachments.
\<close>

type_synonym 's transfer = "VmoId \<Rightarrow> nat \<Rightarrow> nat \<Rightarrow> nat \<Rightarrow> 's \<times> vmos \<Rightarrow> ('s \<times> vmos) \<times> unit io_result"

record 's device_ops =
  d_read_at :: "'s transfer"
  d_write_at :: "'s transfer"
  d_block_size :: "'s \<Rightarrow> nat"
  d_block_count :: "'s \<Rightarrow> nat"

locale block_client =
  fixes D :: "'s device_ops"
    and content :: "'s \<Rightarrow> bytes" and attached :: "'s \<Rightarrow> VmoId \<Rightarrow> koid option" and live :: "'s \<Rightarrow> bool"
  assumes bsize_pos: "live s \<Longrightarrow> 0 < d_block_size D s"
    and geometry: "live s \<Longrightarrow> d_block_count D s * d_block_size D s = length (content s)"
    and read_law: "\<lbrakk> live s; attached s i = Some k; d_block_size D s dvd off; d_block_size D s dvd n;
           d_block_size D s dvd doff; n < 2 ^ 32; off < 2 ^ 64; doff + n \<le> length (content s);
           off + n \<le> length (v k) \<rbrakk> \<Longrightarrow>
         \<exists>s'. d_read_at D i off n doff (s, v) =
                ((s', v(k := overwrite (v k) off (sub_list (content s) doff n))), Inr ()) \<and>
              live s' \<and> d_block_size D s' = d_block_size D s \<and> attached s' = attached s \<and>
              content s' = content s"
    and write_law: "\<lbrakk> live s; attached s i = Some k; d_block_size D s dvd off; d_block_size D s dvd n;
           d_block_size D s dvd doff; n < 2 ^ 32; off < 2 ^ 64; doff + n \<le> length (content s);
           off + n \<le> length (v k) \<rbrakk> \<Longrightarrow>
         \<exists>s'. d_write_at D i off n doff (s, v) = ((s', v), Inr ()) \<and>
              live s' \<and> d_block_size D s' = d_block_size D s \<and> attached s' = attached s \<and>
              content s' = overwrite (content s) doff (sub_list (v k) off n)"

subsection \<open>The remote client\<close>

text \<open>\<open>RemoteBlockClient::read_at\<close> and \<open>write_at\<close> delegate to \<open>Common\<close>.\<close>

definition remote_read_at :: "32 word \<Rightarrow> 'd server \<Rightarrow> (common \<times> 'd) transfer" where
  "remote_read_at h serve i off n doff = (\<lambda>((c, d), v).
     let ((c', d', v'), r) = common_read_at h serve (MutVmoIdSlice i off n) doff (c, d, v) in
     (((c', d'), v'), map_sum id (\<lambda>_. ()) r))"

definition remote_write_at :: "32 word \<Rightarrow> 'd server \<Rightarrow> (common \<times> 'd) transfer" where
  "remote_write_at h serve i off n doff = (\<lambda>((c, d), v).
     let ((c', d', v'), r) = common_write_at h serve (VmoIdSlice i off n) doff (c, d, v) in
     (((c', d'), v'), r))"

definition remote_ops :: "32 word \<Rightarrow> 'd server \<Rightarrow> (common \<times> 'd) device_ops" where
  "remote_ops h serve =
     \<lparr> d_read_at = remote_read_at h serve, d_write_at = remote_write_at h serve,
       d_block_size = (\<lambda>(c, d). cm_block_size c), d_block_count = (\<lambda>(c, d). cm_block_count c) \<rparr>"

lemma vmo_request_fits:
  assumes "0 < bs" and "bs dvd off" and "bs dvd n" and "bs dvd doff" and "n < 2 ^ 32" and "off < 2 ^ 64"
    and "doff + n \<le> length dev" and "length dev < 2 ^ 64" and "off + n \<le> length mem"
  shows "unat (word_of_nat (off div bs) :: 64 word) * bs = off"
    and "unat (word_of_nat (doff div bs) :: 64 word) * bs = doff"
    and "unat (word_of_nat (n div bs) :: 32 word) * bs = n"
    and "request_fits bs dev mem (default_request\<lparr> op_code := op, vmoid := i, block_count := word_of_nat (n div bs),
           vmo_block := word_of_nat (off div bs), device_block := word_of_nat (doff div bs) \<rparr>)"
proof -
  show *: "unat (word_of_nat (off div bs) :: 64 word) * bs = off"
    using assms(2,6) blocks_small [OF assms(1), of off "2 ^ 64"] by (simp add: unat_word64)
  show **: "unat (word_of_nat (doff div bs) :: 64 word) * bs = doff"
    using assms(4,7,8) blocks_small [OF assms(1), of doff "2 ^ 64"] by (simp add: unat_word64)
  show ***: "unat (word_of_nat (n div bs) :: 32 word) * bs = n"
    using assms(3,5) blocks_small [OF assms(1), of n "2 ^ 32"] by (simp add: unat_word32)
  show "request_fits bs dev mem (default_request\<lparr> op_code := op, vmoid := i, block_count := word_of_nat (n div bs),
           vmo_block := word_of_nat (off div bs), device_block := word_of_nat (doff div bs) \<rparr>)"
    using * ** *** assms(7,9) by (simp add: request_fits_def distrib_right)
qed

text \<open>
  The connection used by \<open>remote_read_at\<close> is good when it is idle and agrees with the server on the
  geometry of the device.
\<close>

definition remote_live :: "('d \<Rightarrow> bytes) \<Rightarrow> nat \<Rightarrow> common \<times> 'd \<Rightarrow> bool" where
  "remote_live content bs = (\<lambda>(c, d).
     idle (cm_fifo c) \<and> cm_block_size c = bs \<and> 0 < bs \<and>
     cm_block_count c * bs = length (content d) \<and> length (content d) < 2 ^ 64)"

lemma vmo_transfer_send:
  assumes "cm_block_size c = bs" and "0 < bs" and "bs dvd off" and "bs dvd n" and "bs dvd doff" and "n < 2 ^ 32"
  shows "common_vmo_transfer h serve op i off n doff (c, w) =
     common_send h serve (default_request\<lparr> op_code := op, vmoid := i, block_count := word_of_nat (n div bs),
       vmo_block := word_of_nat (off div bs), device_block := word_of_nat (doff div bs) \<rparr>) (c, w)"
  using assms blocks_small [OF assms(2,6)]
  by (simp add: common_vmo_transfer_def to_blocks_ok [OF assms(1,2)] try_u32_def)

text \<open>The remote client keeps the contract of a block client over every server that follows the
  protocol: \<open>read_at\<close> and \<open>write_at\<close> on an attached memory object turn offsets and lengths into blocks
  without loss, send one request, wait for its response, and leave the connection idle.\<close>

lemma remote_block_client:
  assumes "serves_blocks serve content reg bs"
  shows "block_client (remote_ops h serve) (\<lambda>(c, d). content d) (\<lambda>(c, d). reg d) (remote_live content bs)"
proof (unfold_locales, unfold remote_ops_def device_ops.simps, goal_cases)
  case (1 s)
  then show ?case by (auto simp: remote_live_def)
next
  case (2 s)
  then show ?case by (auto simp: remote_live_def)
next
  case (3 s i k off n doff v)
  obtain c d where s: "s = (c, d)" by (cases s)
  have c: "cm_block_size c = bs" "0 < bs" "idle (cm_fifo c)" "length (content d) < 2 ^ 64"
    using 3(1) s by (auto simp: remote_live_def)
  let ?r = "default_request\<lparr> op_code := BLOCKIO_READ, vmoid := i, block_count := word_of_nat (n div bs),
       vmo_block := word_of_nat (off div bs), device_block := word_of_nat (doff div bs) \<rparr>"
  note fits = vmo_request_fits [of bs off n doff "content d" "v k"]
  obtain fs' d' where "common_send h serve ?r (c, d, v) =
      ((c\<lparr> cm_fifo := fs' \<rparr>, d', v(k := overwrite (v k) off (sub_list (content d) doff n))), Inr ())"
      "idle fs'" "content d' = content d" "reg d' = reg d"
    using send_read [OF assms c(3), of d ?r k v h] fits(4) [where op = BLOCKIO_READ and i = i] fits(1-3) 3 s c by auto
  then show ?case
    using vmo_transfer_send [of c bs off n doff h serve BLOCKIO_READ i "(d, v)"] 3 s c
    by (simp add: remote_read_at_def common_read_at_def remote_live_def)
next
  case (4 s i k off n doff v)
  obtain c d where s: "s = (c, d)" by (cases s)
  have c: "cm_block_size c = bs" "0 < bs" "idle (cm_fifo c)" "length (content d) < 2 ^ 64"
    using 4(1) s by (auto simp: remote_live_def)
  let ?r = "default_request\<lparr> op_code := BLOCKIO_WRITE, vmoid := i, block_count := word_of_nat (n div bs),
       vmo_block := word_of_nat (off div bs), device_block := word_of_nat (doff div bs) \<rparr>"
  note fits = vmo_request_fits [of bs off n doff "content d" "v k"]
  obtain fs' d' where "common_send h serve ?r (c, d, v) = ((c\<lparr> cm_fifo := fs' \<rparr>, d', v), Inr ())"
      "idle fs'" "content d' = overwrite (content d) doff (sub_list (v k) off n)" "reg d' = reg d"
    using send_write [OF assms c(3), of d ?r k v h] fits(4) [where op = BLOCKIO_WRITE and i = i] fits(1-3) 4 s c by auto
  then show ?case
    using vmo_transfer_send [of c bs off n doff h serve BLOCKIO_WRITE i "(d, v)"] 4 s c
    by (simp add: remote_write_at_def common_write_at_def remote_live_def)
qed

subsection \<open>The fake client\<close>

text \<open>
  \<open>FakeBlockClient\<close>: the data, the registry of memory objects (a \<open>BTreeMap\<close>) and the number of flushes.
  The child object made by \<open>create_child(SLICE)\<close> shares the pages of its parent, so the registry holds
  the identity of the object itself.
\<close>

record FakeBlockClient =
  fk_data :: bytes
  fk_registry :: "(VmoId, koid) sorted_map"
  fk_block_size :: nat
  fk_flush_count :: nat

definition fake_new :: "nat \<Rightarrow> nat \<Rightarrow> FakeBlockClient" where
  "fake_new bs count =
     \<lparr> fk_data = replicate (bs * count) 0, fk_registry = [], fk_block_size = bs, fk_flush_count = 0 \<rparr>"

text \<open>The loop \<open>for id in 1..u16::MAX\<close>: the first id that is not in use.\<close>

definition free_vmo_id :: "(VmoId, koid) sorted_map \<Rightarrow> VmoId option" where
  "free_vmo_id reg = List.find (\<lambda>i. sm_get reg i = None) (map word_of_nat [1..<65535])"

definition fake_attach_vmo :: "koid \<Rightarrow> FakeBlockClient \<Rightarrow> FakeBlockClient \<times> VmoId io_result" where
  "fake_attach_vmo k f =
     (case free_vmo_id (fk_registry f) of
        None \<Rightarrow> (f, Inl Message)
      | Some i \<Rightarrow> (f\<lparr> fk_registry := sm_insert i k (fk_registry f) \<rparr>, Inr i))"

definition fake_detach_vmo :: "VmoId \<Rightarrow> FakeBlockClient \<Rightarrow> FakeBlockClient \<times> unit io_result" where
  "fake_detach_vmo i f =
     (f\<lparr> fk_registry := sm_remove i (fk_registry f) \<rparr>,
      if sm_get (fk_registry f) i = None then Inl Message else Inr ())"

definition fake_vmo_checks :: "FakeBlockClient \<Rightarrow> VmoId \<Rightarrow> nat \<Rightarrow> nat \<Rightarrow> nat \<Rightarrow> koid io_result" where
  "fake_vmo_checks f i off n doff =
     (if fk_block_size f = 0 then Inl IoPanic
      else if doff mod fk_block_size f \<noteq> 0 \<or> off mod fk_block_size f \<noteq> 0 \<or> n mod fk_block_size f \<noteq> 0
      then Inl Message
      else case sm_get (fk_registry f) i of
        None \<Rightarrow> Inl Message
      | Some k \<Rightarrow> if doff + n \<le> length (fk_data f) then Inr k else Inl IoPanic)"

definition fake_read_vmo :: "FakeBlockClient transfer" where
  "fake_read_vmo i off n doff = (\<lambda>(f, v).
     case fake_vmo_checks f i off n doff of
       Inl e \<Rightarrow> ((f, v), Inl e)
     | Inr k \<Rightarrow>
         (case vmo_write v k off (sub_list (fk_data f) doff n) of
            Inl e \<Rightarrow> ((f, v), Inl e)
          | Inr v' \<Rightarrow> ((f, v'), Inr ())))"

definition fake_write_vmo :: "FakeBlockClient transfer" where
  "fake_write_vmo i off n doff = (\<lambda>(f, v).
     case fake_vmo_checks f i off n doff of
       Inl e \<Rightarrow> ((f, v), Inl e)
     | Inr k \<Rightarrow>
         (case vmo_read v k off n of
            Inl e \<Rightarrow> ((f, v), Inl e)
          | Inr b \<Rightarrow> ((f\<lparr> fk_data := overwrite (fk_data f) doff b \<rparr>, v), Inr ())))"

definition fake_read_memory :: "nat \<Rightarrow> nat \<Rightarrow> FakeBlockClient \<Rightarrow> bytes io_result" where
  "fake_read_memory n doff f =
     (if fk_block_size f = 0 then Inl IoPanic
      else if doff mod fk_block_size f \<noteq> 0 then Inl Message
      else if doff + n \<le> length (fk_data f) then Inr (sub_list (fk_data f) doff n)
      else Inl Message)"

definition fake_write_memory :: "bytes \<Rightarrow> nat \<Rightarrow> FakeBlockClient \<Rightarrow> FakeBlockClient \<times> unit io_result" where
  "fake_write_memory b doff f =
     (if fk_block_size f = 0 then (f, Inl IoPanic)
      else if doff mod fk_block_size f \<noteq> 0 then (f, Inl Message)
      else if doff + length b \<le> length (fk_data f)
      then (f\<lparr> fk_data := overwrite (fk_data f) doff b \<rparr>, Inr ())
      else (f, Inl Message))"

definition fake_flush :: "FakeBlockClient \<Rightarrow> FakeBlockClient" where
  "fake_flush f = f\<lparr> fk_flush_count := fk_flush_count f + 1 \<rparr>"

definition fake_block_count :: "FakeBlockClient \<Rightarrow> nat" where
  "fake_block_count f = length (fk_data f) div fk_block_size f"

definition fake_ops :: "FakeBlockClient device_ops" where
  "fake_ops =
     \<lparr> d_read_at = fake_read_vmo, d_write_at = fake_write_vmo, d_block_size = fk_block_size,
       d_block_count = fake_block_count \<rparr>"

definition fake_live :: "FakeBlockClient \<Rightarrow> bool" where
  "fake_live f \<longleftrightarrow> 0 < fk_block_size f \<and> fk_block_size f dvd length (fk_data f)"

interpretation fake: block_client fake_ops fk_data "\<lambda>f. sm_get (fk_registry f)" fake_live
  by unfold_locales
    (auto simp: fake_ops_def fake_live_def fake_block_count_def fake_read_vmo_def fake_write_vmo_def
      fake_vmo_checks_def vmo_write_def vmo_read_def)

end
