(* ===== verification/Devices.thy ===== *)
theory Devices
  imports Buddy Block_Transfer
begin

text \<open>
  The devices of \<open>storage_device\<close>: the trait \<open>Device\<close> (\<open>lib.rs\<close>) and its three implementations, in
  memory (\<open>fake_device.rs\<close>), on a host file (\<open>file_backed_device.rs\<close>) and over a block client
  (\<open>block_device.rs\<close>). A buffer is a range of the transfer memory that the buddy allocator of the device
  hands out, so the memory is a byte list of the device (or a memory object shared with the block
  server) and a transfer names a range of it. Offsets on the device are 64-bit words.
\<close>

section \<open>The trait\<close>

definition to_io :: "'a result \<Rightarrow> 'a io_result" where
  "to_io r = (case r of Inl (Err s) \<Rightarrow> Inl (ZxStatus s) | Inl Panic \<Rightarrow> Inl IoPanic | Inr a \<Rightarrow> Inr a)"

lemma to_io_Inr [simp]: "to_io (Inr a) = Inr a"
  by (simp add: to_io_def)

lemma to_io_Inr_iff [simp]: "to_io r = Inr a \<longleftrightarrow> r = Inr a"
  by (auto simp: to_io_def split: sum.splits fail.splits)

text \<open>The default \<open>Device::size\<close>.\<close>

definition device_bytes :: "bool \<Rightarrow> nat \<Rightarrow> 64 word \<Rightarrow> 64 word io_result" where
  "device_bytes dbg bs blocks =
     (if dbg \<and> 2 ^ 64 \<le> bs * unat blocks then Inl IoPanic else Inr (word_of_nat bs * blocks))"

text \<open>The default \<open>Device::reopen\<close>, which is for testing devices only.\<close>

definition device_reopen :: "'s \<Rightarrow> 's \<times> unit io_result" where
  "device_reopen s = (s, Inl IoPanic)"

text \<open>The reference to the bytes of a range of the transfer memory.\<close>

definition buffer_at :: "bytes \<Rightarrow> range \<Rightarrow> BufferRef" where
  "buffer_at mem r = buffer_new (sub_list mem (fst r) (snd r - fst r)) r"

lemma buffer_len_at [simp]:
  "buffer_len (buffer_at mem r) = (if snd r < fst r then Inl Panic else Inr (snd r - fst r))"
  by (simp add: buffer_len_def buffer_at_def buffer_new_def case_prod_beta)

section \<open>fake\_device.rs\<close>

datatype Op = ReadOp | WriteOp | FlushOp

text \<open>The operation closure may keep state of its own (\<open>fd_env\<close>), such as a counter of operations.\<close>

record 'c FakeDevice =
  fd_allocator :: allocator
  fd_heap :: bytes
  fd_data :: bytes
  fd_closed :: bool
  fd_closure :: "Op \<Rightarrow> 'c \<Rightarrow> 'c \<times> unit io_result"
  fd_env :: 'c

definition FAKE_TRANSFER_HEAP_SIZE :: nat where "FAKE_TRANSFER_HEAP_SIZE = 16 * 1024 * 1024"

definition fake_device_with :: "nat \<Rightarrow> bytes io_result \<Rightarrow> unit FakeDevice io_result" where
  "fake_device_with bs data =
     (case to_io (allocator_new bs FAKE_TRANSFER_HEAP_SIZE) of
        Inl e \<Rightarrow> Inl e
      | Inr a \<Rightarrow>
          (case data of
             Inl e \<Rightarrow> Inl e
           | Inr d \<Rightarrow> Inr \<lparr> fd_allocator = a, fd_heap = replicate FAKE_TRANSFER_HEAP_SIZE 0, fd_data = d,
                           fd_closed = False, fd_closure = (\<lambda>_ c. (c, Inr ())), fd_env = () \<rparr>))"

definition fake_device_new :: "nat \<Rightarrow> nat \<Rightarrow> unit FakeDevice io_result" where
  "fake_device_new blocks bs = fake_device_with bs (Inr (replicate (blocks * bs) 0))"

text \<open>\<open>from_image\<close>, with the result of \<open>read_to_end\<close> on the reader.\<close>

definition fake_device_from_image :: "bytes io_result \<Rightarrow> nat \<Rightarrow> unit FakeDevice io_result" where
  "fake_device_from_image img bs = fake_device_with bs img"

definition set_op_callback :: "(Op \<Rightarrow> 'd \<Rightarrow> 'd \<times> unit io_result) \<Rightarrow> 'd \<Rightarrow> 'c FakeDevice \<Rightarrow> 'd FakeDevice" where
  "set_op_callback cb env d =
     \<lparr> fd_allocator = fd_allocator d, fd_heap = fd_heap d, fd_data = fd_data d, fd_closed = fd_closed d,
       fd_closure = cb, fd_env = env \<rparr>"

definition fake_device_allocate :: "nat \<Rightarrow> 'c FakeDevice \<Rightarrow> 'c FakeDevice \<times> range io_result" where
  "fake_device_allocate n d =
     (if fd_closed d then (d, Inl IoPanic)
      else case to_io (allocate_buffer n (fd_allocator d)) of
             Inl e \<Rightarrow> (d, Inl e)
           | Inr (r, a) \<Rightarrow> (d\<lparr> fd_allocator := a \<rparr>, Inr r))"

definition fake_device_block_size :: "'c FakeDevice \<Rightarrow> nat" where
  "fake_device_block_size d = a_block_size (fd_allocator d)"

definition fake_device_block_count :: "'c FakeDevice \<Rightarrow> nat" where
  "fake_device_block_count d = length (fd_data d) div fake_device_block_size d"

definition fake_device_op :: "Op \<Rightarrow> 'c FakeDevice \<Rightarrow> 'c FakeDevice \<times> unit io_result" where
  "fake_device_op op d = (let (env, r) = fd_closure d op (fd_env d) in (d\<lparr> fd_env := env \<rparr>, r))"

text \<open>
  The part that \<open>read\<close> and \<open>write\<close> share: the device must be open, the closure is called, the offset has
  to be aligned, and the range of the data, whose end is returned, has to lie within it.
\<close>

definition fake_device_checks :: "bool \<Rightarrow> Op \<Rightarrow> 64 word \<Rightarrow> range \<Rightarrow> 'c FakeDevice \<Rightarrow> 'c FakeDevice \<times> nat io_result" where
  "fake_device_checks dbg op off r d =
     (if fd_closed d then (d, Inl Message)
      else
        io_bind (fake_device_op op d) (\<lambda>_ d.
        if fake_device_block_size d = 0 \<or> unat off mod fake_device_block_size d \<noteq> 0 then (d, Inl IoPanic)
        else
          io_bind (io_lift (to_io (buffer_len (buffer_at (fd_heap d) r))) d) (\<lambda>n d.
          io_bind (io_lift (to_io (add_u64 dbg off (word_of_nat n))) d) (\<lambda>e d.
          if \<not> unat e \<le> length (fd_data d) then (d, Inl IoPanic)
          else if unat e < unat off then (d, Inl IoPanic)
          else (d, Inr n)))))"

definition fake_device_read :: "bool \<Rightarrow> 64 word \<Rightarrow> range \<Rightarrow> 'c FakeDevice \<Rightarrow> 'c FakeDevice \<times> unit io_result" where
  "fake_device_read dbg off r d =
     io_bind (fake_device_checks dbg ReadOp off r d) (\<lambda>n d.
       (d\<lparr> fd_heap := overwrite (fd_heap d) (fst r) (sub_list (fd_data d) (unat off) n) \<rparr>, Inr ()))"

definition fake_device_write :: "bool \<Rightarrow> 64 word \<Rightarrow> range \<Rightarrow> 'c FakeDevice \<Rightarrow> 'c FakeDevice \<times> unit io_result" where
  "fake_device_write dbg off r d =
     io_bind (fake_device_checks dbg WriteOp off r d) (\<lambda>n d.
       (d\<lparr> fd_data := overwrite (fd_data d) (unat off) (br_slice (buffer_at (fd_heap d) r)) \<rparr>, Inr ()))"

definition fake_device_close :: "'c FakeDevice \<Rightarrow> 'c FakeDevice \<times> unit io_result" where
  "fake_device_close d = (d\<lparr> fd_closed := True \<rparr>, Inr ())"

definition fake_device_flush :: "'c FakeDevice \<Rightarrow> 'c FakeDevice \<times> unit io_result" where
  "fake_device_flush d = fake_device_op FlushOp d"

definition fake_device_reopen :: "'c FakeDevice \<Rightarrow> 'c FakeDevice" where
  "fake_device_reopen d = d\<lparr> fd_closed := False \<rparr>"

section \<open>file\_backed\_device.rs\<close>

text \<open>
  A host file (\<open>std::fs::File\<close>) is its bytes and whether the operating system fails its operations.
  Positions are signed 64-bit numbers there, so larger offsets are refused. \<open>write_all_at\<close> beyond the
  end fills the gap with zeros.
\<close>

record host_file =
  hf_bytes :: bytes
  hf_failing :: bool

definition read_exact_at :: "host_file \<Rightarrow> nat \<Rightarrow> nat \<Rightarrow> bytes io_result" where
  "read_exact_at f off n =
     (if hf_failing f \<or> 2 ^ 63 \<le> off \<or> length (hf_bytes f) < off + n then Inl Message
      else Inr (sub_list (hf_bytes f) off n))"

definition write_all_at :: "host_file \<Rightarrow> nat \<Rightarrow> bytes \<Rightarrow> host_file io_result" where
  "write_all_at f off b =
     (if hf_failing f \<or> 2 ^ 63 \<le> off then Inl Message
      else Inr (f\<lparr> hf_bytes := overwrite (hf_bytes f @ replicate (off - length (hf_bytes f)) 0) off b \<rparr>))"

definition sync_file :: "host_file \<Rightarrow> unit io_result" where
  "sync_file f = (if hf_failing f then Inl Message else Inr ())"

record FileBackedDevice =
  fb_allocator :: allocator
  fb_heap :: bytes
  fb_file :: host_file
  fb_block_count :: "64 word"

definition FILE_BLOCK_SIZE :: nat where "FILE_BLOCK_SIZE = 512"
definition FILE_TRANSFER_HEAP_SIZE :: nat where "FILE_TRANSFER_HEAP_SIZE = 32 * 1024 * 1024"

definition file_device_new :: "host_file \<Rightarrow> FileBackedDevice io_result" where
  "file_device_new f =
     (case to_io (allocator_new FILE_BLOCK_SIZE FILE_TRANSFER_HEAP_SIZE) of
        Inl e \<Rightarrow> Inl e
      | Inr a \<Rightarrow> Inr \<lparr> fb_allocator = a, fb_heap = replicate FILE_TRANSFER_HEAP_SIZE 0, fb_file = f,
                      fb_block_count = word_of_nat (length (hf_bytes f) div FILE_BLOCK_SIZE) \<rparr>)"

definition file_device_allocate :: "nat \<Rightarrow> FileBackedDevice \<Rightarrow> FileBackedDevice \<times> range io_result" where
  "file_device_allocate n d =
     (case to_io (allocate_buffer n (fb_allocator d)) of
        Inl e \<Rightarrow> (d, Inl e)
      | Inr (r, a) \<Rightarrow> (d\<lparr> fb_allocator := a \<rparr>, Inr r))"

definition file_device_checks :: "bool \<Rightarrow> 64 word \<Rightarrow> range \<Rightarrow> FileBackedDevice \<Rightarrow> FileBackedDevice \<times> nat io_result" where
  "file_device_checks dbg off r d =
     (if unat off mod FILE_BLOCK_SIZE \<noteq> 0 then (d, Inl IoPanic)
      else if fst r mod FILE_BLOCK_SIZE \<noteq> 0 then (d, Inl IoPanic)
      else
        io_bind (io_lift (to_io (buffer_len (buffer_at (fb_heap d) r))) d) (\<lambda>n d.
        if n mod FILE_BLOCK_SIZE \<noteq> 0 then (d, Inl IoPanic)
        else
          io_bind (io_lift (to_io (add_u64 dbg off (word_of_nat n))) d) (\<lambda>e d.
          io_bind (io_lift (device_bytes dbg FILE_BLOCK_SIZE (fb_block_count d)) d) (\<lambda>tot d.
          if e \<le> tot then (d, Inr n) else (d, Inl Message)))))"

definition file_device_read :: "bool \<Rightarrow> 64 word \<Rightarrow> range \<Rightarrow> FileBackedDevice \<Rightarrow> FileBackedDevice \<times> unit io_result" where
  "file_device_read dbg off r d =
     io_bind (file_device_checks dbg off r d) (\<lambda>n d.
     io_bind (io_lift (read_exact_at (fb_file d) (unat off) n) d) (\<lambda>b d.
       (d\<lparr> fb_heap := overwrite (fb_heap d) (fst r) b \<rparr>, Inr ())))"

definition file_device_write :: "bool \<Rightarrow> 64 word \<Rightarrow> range \<Rightarrow> FileBackedDevice \<Rightarrow> FileBackedDevice \<times> unit io_result" where
  "file_device_write dbg off r d =
     io_bind (file_device_checks dbg off r d) (\<lambda>n d.
     io_bind (io_lift (write_all_at (fb_file d) (unat off) (br_slice (buffer_at (fb_heap d) r))) d) (\<lambda>f d.
       (d\<lparr> fb_file := f \<rparr>, Inr ())))"

definition file_device_close :: "FileBackedDevice \<Rightarrow> unit io_result" where
  "file_device_close d = sync_file (fb_file d)"

definition file_device_flush :: "FileBackedDevice \<Rightarrow> unit io_result" where
  "file_device_flush d = sync_file (fb_file d)"

section \<open>block\_device.rs\<close>

text \<open>
  The transfer memory is a memory object (\<open>bd_vmo\<close>) that the block client's server shares, so it lives in
  the store of memory objects; \<open>D\<close> are the transfers of the block client.
\<close>

record 's BlockDevice =
  bd_allocator :: allocator
  bd_vmoid :: VmoId
  bd_vmo :: koid
  bd_remote :: 's
  bd_read_only :: bool

definition TRANSFER_VMO_SIZE :: nat where "TRANSFER_VMO_SIZE = 128 * 1024 * 1024"

text \<open>
  \<open>VmoBufferSource::new\<close>: a fresh memory object \<open>k\<close> of zeros is attached to the block client with \<open>attach\<close>.
\<close>

definition vmo_buffer_source_new ::
    "(koid \<Rightarrow> 's \<Rightarrow> 's \<times> VmoId io_result) \<Rightarrow> koid \<Rightarrow> nat \<Rightarrow> 's \<times> vmos \<Rightarrow> ('s \<times> vmos) \<times> VmoId io_result" where
  "vmo_buffer_source_new attach k n = (\<lambda>(s, v). let (s', r) = attach k s in ((s', v(k := replicate n 0)), r))"

definition vmo_source_sub_slice :: "nat \<Rightarrow> range \<Rightarrow> unit io_result" where
  "vmo_source_sub_slice n r = (if fst r < n \<and> snd r \<le> n then Inr () else Inl IoPanic)"

definition block_device_new ::
    "'s device_ops \<Rightarrow> (koid \<Rightarrow> 's \<Rightarrow> 's \<times> VmoId io_result) \<Rightarrow> koid \<Rightarrow> bool \<Rightarrow> 's \<times> vmos \<Rightarrow>
     ('s \<times> vmos) \<times> 's BlockDevice io_result" where
  "block_device_new D attach k ro w =
     io_bind (vmo_buffer_source_new attach k TRANSFER_VMO_SIZE w) (\<lambda>i w.
     io_bind (io_lift (to_io (allocator_new (d_block_size D (fst w)) TRANSFER_VMO_SIZE)) w) (\<lambda>a w.
       (w, Inr \<lparr> bd_allocator = a, bd_vmoid = i, bd_vmo = k, bd_remote = fst w, bd_read_only = ro \<rparr>)))"

definition block_device_allocate :: "nat \<Rightarrow> 's BlockDevice \<Rightarrow> 's BlockDevice \<times> range io_result" where
  "block_device_allocate n d =
     (case to_io (allocate_buffer n (bd_allocator d)) of
        Inl e \<Rightarrow> (d, Inl e)
      | Inr (r, a) \<Rightarrow> (d\<lparr> bd_allocator := a \<rparr>, Inr r))"

definition block_device_block_size :: "'s device_ops \<Rightarrow> 's BlockDevice \<Rightarrow> nat" where
  "block_device_block_size D d = d_block_size D (bd_remote d)"

definition block_device_block_count :: "'s device_ops \<Rightarrow> 's BlockDevice \<Rightarrow> nat" where
  "block_device_block_count D d = d_block_count D (bd_remote d)"

text \<open>The checks after the test for an empty buffer, and the transfer by the block client.\<close>

definition block_device_transfer ::
    "'s device_ops \<Rightarrow> bool \<Rightarrow> 's transfer \<Rightarrow> 64 word \<Rightarrow> range \<Rightarrow> nat \<Rightarrow> 's BlockDevice \<times> vmos \<Rightarrow>
     ('s BlockDevice \<times> vmos) \<times> unit io_result" where
  "block_device_transfer D dbg remote_transfer off r n = (\<lambda>(d, v).
     if \<not> vmo_id_is_valid (bd_vmoid d) then ((d, v), Inl Message)
     else if block_device_block_size D d = 0 \<or> unat off mod block_device_block_size D d \<noteq> 0 then ((d, v), Inl IoPanic)
     else if fst r mod block_device_block_size D d \<noteq> 0 then ((d, v), Inl IoPanic)
     else
       io_bind (io_lift (to_io (add_u64 dbg off (word_of_nat n))) (d, v)) (\<lambda>e (d, v).
       if unat e mod block_device_block_size D d \<noteq> 0 then ((d, v), Inl IoPanic)
       else
         let ((s', v'), res) = remote_transfer (bd_vmoid d) (fst r) n (unat off) (bd_remote d, v)
         in ((d\<lparr> bd_remote := s' \<rparr>, v'), res)))"

definition block_device_read ::
    "'s device_ops \<Rightarrow> bool \<Rightarrow> 64 word \<Rightarrow> range \<Rightarrow> 's BlockDevice \<times> vmos \<Rightarrow> ('s BlockDevice \<times> vmos) \<times> unit io_result" where
  "block_device_read D dbg off r w =
     io_bind (io_lift (to_io (buffer_len (buffer_at (snd w (bd_vmo (fst w))) r))) w) (\<lambda>n w.
     if n = 0 then (w, Inr ())
     else block_device_transfer D dbg (d_read_at D) off r n w)"

definition block_device_write ::
    "'s device_ops \<Rightarrow> bool \<Rightarrow> 64 word \<Rightarrow> range \<Rightarrow> 's BlockDevice \<times> vmos \<Rightarrow> ('s BlockDevice \<times> vmos) \<times> unit io_result" where
  "block_device_write D dbg off r w =
     (if bd_read_only (fst w) then (w, Inl (ZxStatus ACCESS_DENIED))
      else
        io_bind (io_lift (to_io (buffer_len (buffer_at (snd w (bd_vmo (fst w))) r))) w) (\<lambda>n w.
        if n = 0 then (w, Inr ())
        else block_device_transfer D dbg (d_write_at D) off r n w))"

text \<open>\<open>close\<close>: the id is taken and leaked, then the client is closed; \<open>drop\<close> leaks the id as well.\<close>

definition block_device_leak_vmoid :: "'s BlockDevice \<Rightarrow> 's BlockDevice" where
  "block_device_leak_vmoid d = d\<lparr> bd_vmoid := fst (vmo_id_take (bd_vmoid d)) \<rparr>"

definition block_device_close :: "('s \<Rightarrow> 's \<times> unit io_result) \<Rightarrow> 's BlockDevice \<Rightarrow> 's BlockDevice \<times> unit io_result" where
  "block_device_close rclose d =
     (let d = block_device_leak_vmoid d; (s, r) = rclose (bd_remote d) in (d\<lparr> bd_remote := s \<rparr>, r))"

definition block_device_flush :: "('s \<Rightarrow> 's \<times> unit io_result) \<Rightarrow> 's BlockDevice \<Rightarrow> 's BlockDevice \<times> unit io_result" where
  "block_device_flush rflush d = (let (s, r) = rflush (bd_remote d) in (d\<lparr> bd_remote := s \<rparr>, r))"

definition block_device_drop :: "'s BlockDevice \<Rightarrow> 's BlockDevice" where
  "block_device_drop d = block_device_leak_vmoid d"

text \<open>Both sources of memory check a range alike, so the allocator's model covers both.\<close>

lemma vmo_source_as_memory: "vmo_source_sub_slice n r = to_io (source_sub_slice n r)"
  by (auto simp: vmo_source_sub_slice_def source_sub_slice_def to_io_def)

section \<open>What a device promises\<close>

text \<open>
  A transfer is good when it is aligned to the block size on both sides and lies within the device and
  the transfer memory. A good transfer on a usable device succeeds and copies exactly that range.
\<close>

definition transfer_ok :: "nat \<Rightarrow> nat \<Rightarrow> nat \<Rightarrow> 64 word \<Rightarrow> range \<Rightarrow> bool" where
  "transfer_ok bs tot mem off r \<longleftrightarrow>
     bs dvd unat off \<and> bs dvd fst r \<and> bs dvd snd r \<and> fst r \<le> snd r \<and> snd r \<le> mem \<and>
     unat off + (snd r - fst r) \<le> tot"

datatype dev_op = DevRead "64 word" range | DevWrite "64 word" range

text \<open>A sequence of transfers, which ends at the first error, and what it does to two byte arrays.\<close>

fun dev_run ::
    "(64 word \<Rightarrow> range \<Rightarrow> 's \<Rightarrow> 's \<times> unit io_result) \<Rightarrow> (64 word \<Rightarrow> range \<Rightarrow> 's \<Rightarrow> 's \<times> unit io_result) \<Rightarrow>
     dev_op list \<Rightarrow> 's \<Rightarrow> 's \<times> unit io_result" where
  "dev_run rd wr [] s = (s, Inr ())"
| "dev_run rd wr (DevRead off r # ops) s = io_bind (rd off r s) (\<lambda>_. dev_run rd wr ops)"
| "dev_run rd wr (DevWrite off r # ops) s = io_bind (wr off r s) (\<lambda>_. dev_run rd wr ops)"

fun copy_run :: "dev_op list \<Rightarrow> bytes \<times> bytes \<Rightarrow> bytes \<times> bytes" where
  "copy_run [] (c, m) = (c, m)"
| "copy_run (DevRead off r # ops) (c, m) =
     copy_run ops (c, overwrite m (fst r) (sub_list c (unat off) (snd r - fst r)))"
| "copy_run (DevWrite off r # ops) (c, m) =
     copy_run ops (overwrite c (unat off) (sub_list m (fst r) (snd r - fst r)), m)"

fun op_ok :: "nat \<Rightarrow> nat \<Rightarrow> nat \<Rightarrow> dev_op \<Rightarrow> bool" where
  "op_ok bs tot mem (DevRead off r) = transfer_ok bs tot mem off r"
| "op_ok bs tot mem (DevWrite off r) = transfer_ok bs tot mem off r"

locale device =
  fixes dread dwrite :: "64 word \<Rightarrow> range \<Rightarrow> 's \<Rightarrow> 's \<times> unit io_result"
    and data memory :: "'s \<Rightarrow> bytes" and bsize :: "'s \<Rightarrow> nat" and usable :: "'s \<Rightarrow> bool"
  assumes read_law: "\<lbrakk> usable s; transfer_ok (bsize s) (length (data s)) (length (memory s)) off r \<rbrakk> \<Longrightarrow>
        \<exists>s'. dread off r s = (s', Inr ()) \<and> usable s' \<and> bsize s' = bsize s \<and> data s' = data s \<and>
             memory s' = overwrite (memory s) (fst r) (sub_list (data s) (unat off) (snd r - fst r))"
    and write_law: "\<lbrakk> usable s; transfer_ok (bsize s) (length (data s)) (length (memory s)) off r \<rbrakk> \<Longrightarrow>
        \<exists>s'. dwrite off r s = (s', Inr ()) \<and> usable s' \<and> bsize s' = bsize s \<and> memory s' = memory s \<and>
             data s' = overwrite (data s) (unat off) (sub_list (memory s) (fst r) (snd r - fst r))"
begin

lemma run_is_array:
  "\<lbrakk> usable s; list_all (op_ok (bsize s) (length (data s)) (length (memory s))) ops \<rbrakk> \<Longrightarrow>
   \<exists>s'. dev_run dread dwrite ops s = (s', Inr ()) \<and> usable s' \<and> bsize s' = bsize s \<and>
        (data s', memory s') = copy_run ops (data s, memory s)"
proof (induction ops arbitrary: s)
  case (Cons op ops)
  show ?case
  proof (cases op)
    case (DevRead off r)
    with Cons.prems have ok: "transfer_ok (bsize s) (length (data s)) (length (memory s)) off r" by simp
    from read_law [OF Cons.prems(1) ok] obtain s' where "dread off r s = (s', Inr ())" "usable s'" "bsize s' = bsize s" "data s' = data s"
      "memory s' = overwrite (memory s) (fst r) (sub_list (data s) (unat off) (snd r - fst r))" by blast
    with Cons.IH [of s'] Cons.prems ok DevRead show ?thesis by (auto simp: transfer_ok_def)
  next
    case (DevWrite off r)
    with Cons.prems have ok: "transfer_ok (bsize s) (length (data s)) (length (memory s)) off r" by simp
    from write_law [OF Cons.prems(1) ok] obtain s' where "dwrite off r s = (s', Inr ())" "usable s'" "bsize s' = bsize s" "memory s' = memory s"
      "data s' = overwrite (data s) (unat off) (sub_list (memory s) (fst r) (snd r - fst r))" by blast
    with Cons.IH [of s'] Cons.prems ok DevWrite show ?thesis by (auto simp: transfer_ok_def)
  qed
qed simp

lemma write_then_read:
  assumes "usable s" and "fst r1 + n = snd r1" and "fst r2 + n = snd r2"
    and "transfer_ok (bsize s) (length (data s)) (length (memory s)) off r1"
    and "transfer_ok (bsize s) (length (data s)) (length (memory s)) off r2"
  shows "\<exists>s1 s2. dwrite off r1 s = (s1, Inr ()) \<and> dread off r2 s1 = (s2, Inr ()) \<and> usable s2 \<and>
     data s2 = overwrite (data s) (unat off) (sub_list (memory s) (fst r1) n) \<and>
     memory s2 = overwrite (memory s) (fst r2) (sub_list (memory s) (fst r1) n)"
proof -
  have n: "snd r1 - fst r1 = n" "snd r2 - fst r2 = n" using assms(2,3) by simp_all
  have len: "fst r1 + n \<le> length (memory s)" "unat off + n \<le> length (data s)"
    using assms(2,4) by (auto simp: transfer_ok_def)
  from write_law [OF assms(1,4)] obtain s1 where s1: "dwrite off r1 s = (s1, Inr ())" "usable s1" "bsize s1 = bsize s"
      "memory s1 = memory s" "data s1 = overwrite (data s) (unat off) (sub_list (memory s) (fst r1) n)"
    unfolding n by blast
  have "length (data s1) = length (data s)" using s1(5) len by simp
  with assms(5) s1 have ok: "transfer_ok (bsize s1) (length (data s1)) (length (memory s1)) off r2" by simp
  have sub: "sub_list (data s1) (unat off) n = sub_list (memory s) (fst r1) n"
    using len sub_list_overwrite [of "unat off" "sub_list (memory s) (fst r1) n" "data s"] s1(5) by simp
  from read_law [OF s1(2) ok] s1 show ?thesis unfolding n sub by auto
qed

end

lemma dvd_mod_0: "(n :: nat) dvd m \<Longrightarrow> m mod n = 0"
  by simp

lemma transfer_okD:
  assumes "transfer_ok bs tot mem off r" and "tot < 2 ^ 64"
  shows "unat off mod bs = 0" and "fst r mod bs = 0" and "(snd r - fst r) mod bs = 0" and "\<not> snd r < fst r"
    and "unat (off + word_of_nat (snd r - fst r)) = unat off + (snd r - fst r)"
    and "add_u64 dbg off (word_of_nat (snd r - fst r)) = Inr (off + word_of_nat (snd r - fst r))"
    and "(unat off + (snd r - fst r)) mod bs = 0"
    and "fst r + (snd r - fst r) \<le> mem" and "unat off + (snd r - fst r) \<le> tot"
proof -
  have u: "unat (word_of_nat (snd r - fst r) :: 64 word) = snd r - fst r"
    using assms by (intro unat_word64) (auto simp: transfer_ok_def)
  show "unat (off + word_of_nat (snd r - fst r)) = unat off + (snd r - fst r)"
    using assms u by (subst unat_add_u64) (auto simp: transfer_ok_def)
  show "add_u64 dbg off (word_of_nat (snd r - fst r)) = Inr (off + word_of_nat (snd r - fst r))"
    using assms u by (intro add_u64_ok) (auto simp: transfer_ok_def)
  have "bs dvd snd r - fst r" using assms(1) by (auto simp: transfer_ok_def)
  then show "(snd r - fst r) mod bs = 0" "(unat off + (snd r - fst r)) mod bs = 0"
    using assms(1) by (auto simp: transfer_ok_def)
qed (use assms(1) in \<open>auto simp: transfer_ok_def\<close>)

subsection \<open>The device in memory\<close>

definition fake_device_usable :: "'c FakeDevice \<Rightarrow> bool" where
  "fake_device_usable d \<longleftrightarrow> \<not> fd_closed d \<and> 0 < fake_device_block_size d \<and> length (fd_data d) < 2 ^ 64 \<and>
     (\<forall>op c. snd (fd_closure d op c) = Inr ())"

lemma fake_device_checks_ok:
  assumes "fake_device_usable d"
    and "transfer_ok (fake_device_block_size d) (length (fd_data d)) (length (fd_heap d)) off r"
  shows "\<exists>env. fake_device_checks dbg op off r d = (d\<lparr> fd_env := env \<rparr>, Inr (snd r - fst r))"
proof -
  let ?env = "fst (fd_closure d op (fd_env d))"
  have op: "fake_device_op op d = (d\<lparr> fd_env := ?env \<rparr>, Inr ())"
    using assms(1) by (simp add: fake_device_op_def fake_device_usable_def case_prod_beta)
  have "length (fd_data d) < 2 ^ 64" using assms(1) by (simp add: fake_device_usable_def)
  note t = transfer_okD [OF assms(2) this]
  show ?thesis
    using assms(1) op t
    by (auto simp: fake_device_checks_def fake_device_usable_def fake_device_block_size_def)
qed

interpretation fake_dev: device "fake_device_read dbg" "fake_device_write dbg" fd_data fd_heap
  fake_device_block_size "fake_device_usable :: 'c FakeDevice \<Rightarrow> bool" for dbg
proof (unfold_locales, goal_cases)
  case (1 s off r)
  obtain env where "fake_device_checks dbg ReadOp off r s = (s\<lparr> fd_env := env \<rparr>, Inr (snd r - fst r))"
    using fake_device_checks_ok [OF 1] by blast
  with 1 show ?case by (simp add: fake_device_read_def fake_device_usable_def fake_device_block_size_def)
next
  case (2 s off r)
  obtain env where "fake_device_checks dbg WriteOp off r s = (s\<lparr> fd_env := env \<rparr>, Inr (snd r - fst r))"
    using fake_device_checks_ok [OF 2] by blast
  moreover have "fst r + (snd r - fst r) \<le> length (fd_heap s)" "unat off + (snd r - fst r) \<le> length (fd_data s)"
    using 2(2) by (auto simp: transfer_ok_def)
  ultimately show ?case
    using 2(1) by (simp add: fake_device_write_def fake_device_usable_def fake_device_block_size_def buffer_at_def
      buffer_new_def)
qed

subsection \<open>The device on a host file\<close>

definition file_device_data :: "FileBackedDevice \<Rightarrow> bytes" where
  "file_device_data d = take (FILE_BLOCK_SIZE * unat (fb_block_count d)) (hf_bytes (fb_file d))"

definition file_device_usable :: "FileBackedDevice \<Rightarrow> bool" where
  "file_device_usable d \<longleftrightarrow> \<not> hf_failing (fb_file d) \<and> length (hf_bytes (fb_file d)) < 2 ^ 63 \<and>
     FILE_BLOCK_SIZE * unat (fb_block_count d) \<le> length (hf_bytes (fb_file d))"

lemma file_device_size:
  assumes "file_device_usable d"
  shows "\<exists>tot. device_bytes dbg FILE_BLOCK_SIZE (fb_block_count d) = Inr tot \<and> unat tot = length (file_device_data d)"
  using assms
  by (auto simp: device_bytes_def file_device_usable_def file_device_data_def unat_word_ariths FILE_BLOCK_SIZE_def)

lemma file_device_checks_ok:
  assumes "file_device_usable d"
    and "transfer_ok FILE_BLOCK_SIZE (length (file_device_data d)) (length (fb_heap d)) off r"
  shows "file_device_checks dbg off r d = (d, Inr (snd r - fst r))"
proof -
  obtain tot where tt: "device_bytes dbg FILE_BLOCK_SIZE (fb_block_count d) = Inr tot"
      "unat tot = length (file_device_data d)"
    using file_device_size [OF assms(1)] by blast
  have "length (file_device_data d) < 2 ^ 64" unfolding tt(2) [symmetric] using unsigned_less [of tot] by simp
  note t = transfer_okD [OF assms(2) this]
  have "off + word_of_nat (snd r - fst r) \<le> tot" using t(5,9) tt(2) by (simp add: word_le_nat_alt)
  with t tt(1) show ?thesis by (simp add: file_device_checks_def)
qed

lemma take_overwrite:
  "i + length ys \<le> n \<Longrightarrow> n \<le> length xs \<Longrightarrow> take n (overwrite xs i ys) = overwrite (take n xs) i ys"
  by (rule nth_equalityI) (auto simp: nth_overwrite)

lemma sub_list_take: "i + k \<le> n \<Longrightarrow> sub_list (take n xs) i k = sub_list xs i k"
  by (simp add: sub_list_def drop_take min_def)

interpretation file_dev: device "file_device_read dbg" "file_device_write dbg" file_device_data fb_heap
  "\<lambda>_. FILE_BLOCK_SIZE" file_device_usable for dbg
proof (unfold_locales, goal_cases)
  case (1 s off r)
  have len: "unat off + (snd r - fst r) \<le> FILE_BLOCK_SIZE * unat (fb_block_count s)"
      "FILE_BLOCK_SIZE * unat (fb_block_count s) \<le> length (hf_bytes (fb_file s))"
    using 1 by (auto simp: transfer_ok_def file_device_data_def file_device_usable_def)
  with file_device_checks_ok [OF 1] 1(1) show ?case
    by (auto simp: file_device_read_def read_exact_at_def file_device_usable_def file_device_data_def sub_list_take)
next
  case (2 s off r)
  have len: "unat off + (snd r - fst r) \<le> FILE_BLOCK_SIZE * unat (fb_block_count s)"
      "FILE_BLOCK_SIZE * unat (fb_block_count s) \<le> length (hf_bytes (fb_file s))"
      "fst r + (snd r - fst r) \<le> length (fb_heap s)"
    using 2 by (auto simp: transfer_ok_def file_device_data_def file_device_usable_def)
  with file_device_checks_ok [OF 2] 2(1) show ?case
    by (auto simp: file_device_write_def write_all_at_def file_device_usable_def file_device_data_def take_overwrite
      buffer_at_def buffer_new_def)
qed

subsection \<open>The device over a block client\<close>

text \<open>
  The device is usable while its client is live, the transfer memory is attached under the id the device
  keeps, and the device accepts writes. The bounds are those of the client's requests.
\<close>

definition block_device_usable ::
    "('s \<Rightarrow> bytes) \<Rightarrow> ('s \<Rightarrow> VmoId \<Rightarrow> koid option) \<Rightarrow> ('s \<Rightarrow> bool) \<Rightarrow> 's BlockDevice \<times> vmos \<Rightarrow> bool" where
  "block_device_usable content attached live = (\<lambda>(d, v).
     live (bd_remote d) \<and> attached (bd_remote d) (bd_vmoid d) = Some (bd_vmo d) \<and> vmo_id_is_valid (bd_vmoid d) \<and>
     \<not> bd_read_only d \<and> length (v (bd_vmo d)) < 2 ^ 32 \<and> length (content (bd_remote d)) < 2 ^ 64)"

lemma block_device_transfer_ok:
  assumes "block_device_usable content attached live (d, v)"
    and "0 < d_block_size D (bd_remote d)"
    and "transfer_ok (d_block_size D (bd_remote d)) (length (content (bd_remote d))) (length (v (bd_vmo d))) off r"
  shows "block_device_transfer D dbg f off r (snd r - fst r) (d, v) =
     (let ((s', v'), res) = f (bd_vmoid d) (fst r) (snd r - fst r) (unat off) (bd_remote d, v)
      in ((d\<lparr> bd_remote := s' \<rparr>, v'), res))"
proof -
  have "length (content (bd_remote d)) < 2 ^ 64" using assms(1) by (simp add: block_device_usable_def)
  note t = transfer_okD [OF assms(3) this]
  show ?thesis
    using assms(1,2) t by (simp add: block_device_transfer_def block_device_usable_def block_device_block_size_def)
qed

sublocale block_client \<subseteq> bdev: device "block_device_read D dbg" "block_device_write D dbg"
  "\<lambda>(d, v). content (bd_remote d)" "\<lambda>(d, v). v (bd_vmo d)" "\<lambda>(d, v). d_block_size D (bd_remote d)"
  "block_device_usable content attached live" for dbg
proof (unfold_locales, goal_cases)
  case (1 s off r)
  obtain d v where s: "s = (d, v)" by (cases s)
  have live: "live (bd_remote d)" "attached (bd_remote d) (bd_vmoid d) = Some (bd_vmo d)"
    using 1(1) s by (auto simp: block_device_usable_def)
  have t: "transfer_ok (d_block_size D (bd_remote d)) (length (content (bd_remote d))) (length (v (bd_vmo d))) off r"
    using 1(2) s by simp
  show ?case
  proof (cases "snd r = fst r")
    case True
    with 1 s t show ?thesis by (simp add: block_device_read_def transfer_ok_def)
  next
    case False
    have "\<exists>s'. d_read_at D (bd_vmoid d) (fst r) (snd r - fst r) (unat off) (bd_remote d, v) =
        ((s', v(bd_vmo d := overwrite (v (bd_vmo d)) (fst r) (sub_list (content (bd_remote d)) (unat off) (snd r - fst r)))), Inr ()) \<and>
        live s' \<and> d_block_size D s' = d_block_size D (bd_remote d) \<and> attached s' = attached (bd_remote d) \<and>
        content s' = content (bd_remote d)"
      using live 1(1) s t by (intro read_law) (auto simp: transfer_ok_def block_device_usable_def)
    with False t 1(1) s block_device_transfer_ok [of content attached live d v D off r dbg "d_read_at D"] bsize_pos [OF live(1)]
    show ?thesis by (auto simp: block_device_read_def block_device_usable_def transfer_ok_def)
  qed
next
  case (2 s off r)
  obtain d v where s: "s = (d, v)" by (cases s)
  have live: "live (bd_remote d)" "attached (bd_remote d) (bd_vmoid d) = Some (bd_vmo d)"
    using 2(1) s by (auto simp: block_device_usable_def)
  have t: "transfer_ok (d_block_size D (bd_remote d)) (length (content (bd_remote d))) (length (v (bd_vmo d))) off r"
    using 2(2) s by simp
  show ?case
  proof (cases "snd r = fst r")
    case True
    with 2 s t show ?thesis by (auto simp: block_device_write_def transfer_ok_def block_device_usable_def)
  next
    case False
    have "\<exists>s'. d_write_at D (bd_vmoid d) (fst r) (snd r - fst r) (unat off) (bd_remote d, v) = ((s', v), Inr ()) \<and>
        live s' \<and> d_block_size D s' = d_block_size D (bd_remote d) \<and> attached s' = attached (bd_remote d) \<and>
        content s' = overwrite (content (bd_remote d)) (unat off) (sub_list (v (bd_vmo d)) (fst r) (snd r - fst r))"
      using live 2(1) s t by (intro write_law) (auto simp: transfer_ok_def block_device_usable_def)
    with False t 2(1) s block_device_transfer_ok [of content attached live d v D off r dbg "d_write_at D"] bsize_pos [OF live(1)]
    show ?thesis by (auto simp: block_device_write_def block_device_usable_def transfer_ok_def)
  qed
qed

context block_client
begin

lemmas block_device_runs = bdev.run_is_array
lemmas block_device_write_then_read = bdev.write_then_read

end

section \<open>New devices are usable\<close>

lemma fake_device_new_usable:
  assumes "fake_device_new blocks bs = Inr d" and "blocks * bs < 2 ^ 64"
  shows "fake_device_usable d" and "fake_device_block_size d = bs" and "fake_device_block_count d = blocks"
    and "allocator_reach bs (length (fd_heap d)) (fd_allocator d)"
proof -
  obtain a where a: "allocator_new bs FAKE_TRANSFER_HEAP_SIZE = Inr a" "fd_allocator d = a"
      "length (fd_heap d) = FAKE_TRANSFER_HEAP_SIZE" "length (fd_data d) = blocks * bs" "\<not> fd_closed d"
      "fd_closure d = (\<lambda>_ c. (c, Inr ()))"
    using assms(1) by (auto simp: fake_device_new_def fake_device_with_def split: sum.splits)
  show "allocator_reach bs (length (fd_heap d)) (fd_allocator d)" using a by (auto intro: allocator_reach.reach_new)
  from allocator_reach_inv [OF this] allocator_new_conditions [OF a(1)] a assms(2)
  show "fake_device_usable d" "fake_device_block_size d = bs" "fake_device_block_count d = blocks"
    by (auto simp: fake_device_usable_def fake_device_block_size_def fake_device_block_count_def)
qed

lemma file_device_new_usable:
  assumes "file_device_new f = Inr d" and "\<not> hf_failing f" and "length (hf_bytes f) < 2 ^ 63"
  shows "file_device_usable d" and "allocator_reach FILE_BLOCK_SIZE (length (fb_heap d)) (fb_allocator d)"
proof -
  have d: "fb_file d = f" "fb_block_count d = word_of_nat (length (hf_bytes f) div FILE_BLOCK_SIZE)"
      "length (fb_heap d) = FILE_TRANSFER_HEAP_SIZE"
      "allocator_new FILE_BLOCK_SIZE FILE_TRANSFER_HEAP_SIZE = Inr (fb_allocator d)"
    using assms(1) by (auto simp: file_device_new_def split: sum.splits)
  then show "allocator_reach FILE_BLOCK_SIZE (length (fb_heap d)) (fb_allocator d)" by (auto intro: allocator_reach.reach_new)
  have "length (hf_bytes f) div FILE_BLOCK_SIZE < 2 ^ 64"
    using assms(3) div_le_dividend [of "length (hf_bytes f)" FILE_BLOCK_SIZE] by (simp del: div_le_dividend)
  from unat_word64 [OF this] d assms(2,3) show "file_device_usable d"
    by (simp add: file_device_usable_def)
qed

lemma block_device_new_usable:
  assumes "block_device_new D attach k False (s, v) = ((s', v'), Inr d)" and "attach k s = (s'', Inr i)"
    and "live s''" and "attached s'' i = Some k" and "vmo_id_is_valid i" and "length (content s'') < 2 ^ 64"
  shows "block_device_usable content attached live (d, v')" and "bd_remote d = s''"
    and "allocator_reach (d_block_size D s'') (length (v' k)) (bd_allocator d)"
proof -
  obtain a where a: "allocator_new (d_block_size D s'') TRANSFER_VMO_SIZE = Inr a"
      "d = \<lparr> bd_allocator = a, bd_vmoid = i, bd_vmo = k, bd_remote = s'', bd_read_only = False \<rparr>"
      "v' = v(k := replicate TRANSFER_VMO_SIZE 0)"
    using assms(1,2)
    by (cases "allocator_new (d_block_size D s'') TRANSFER_VMO_SIZE")
      (auto simp: block_device_new_def vmo_buffer_source_new_def io_lift_def io_bind_def to_io_def split: fail.splits)
  then show "allocator_reach (d_block_size D s'') (length (v' k)) (bd_allocator d)" "bd_remote d = s''"
    by (auto intro: allocator_reach.reach_new)
  show "block_device_usable content attached live (d, v')"
    using a assms by (simp add: block_device_usable_def TRANSFER_VMO_SIZE_def)
qed

section \<open>Properties\<close>

text \<open>C23. All three devices are byte arrays: any sequence of aligned reads and writes within the device and
  the transfer memory succeeds, on the device in memory with a closure that never fails, on the device
  over a host file that works, and on the device over any block client that keeps its contract; the
  contents of the device and of the transfer memory are what the same copies between two byte arrays
  give, so nothing outside the ranges changes.\<close>

theorem devices_are_arrays:
  assumes "block_client D content attached live"
  shows "(fake_device_usable f \<and> list_all (op_ok (fake_device_block_size f) (length (fd_data f)) (length (fd_heap f))) ops \<longrightarrow>
           (\<exists>f'. dev_run (fake_device_read dbg) (fake_device_write dbg) ops f = (f', Inr ()) \<and>
                 (fd_data f', fd_heap f') = copy_run ops (fd_data f, fd_heap f))) \<and>
         (file_device_usable g \<and> list_all (op_ok FILE_BLOCK_SIZE (length (file_device_data g)) (length (fb_heap g))) ops \<longrightarrow>
           (\<exists>g'. dev_run (file_device_read dbg) (file_device_write dbg) ops g = (g', Inr ()) \<and>
                 (file_device_data g', fb_heap g') = copy_run ops (file_device_data g, fb_heap g))) \<and>
         (block_device_usable content attached live (d, v) \<and>
         list_all (op_ok (d_block_size D (bd_remote d)) (length (content (bd_remote d))) (length (v (bd_vmo d)))) ops \<longrightarrow>
           (\<exists>d' v'. dev_run (block_device_read D dbg) (block_device_write D dbg) ops (d, v) = ((d', v'), Inr ()) \<and>
                    (content (bd_remote d'), v' (bd_vmo d')) = copy_run ops (content (bd_remote d), v (bd_vmo d))))"
  using fake_dev.run_is_array [of f ops dbg] file_dev.run_is_array [of g ops dbg]
    block_client.block_device_runs [OF assms, of "(d, v)" ops dbg]
  by auto

definition example_allocator :: allocator where
  "example_allocator = \<lparr>a_block_size = 2, a_source_size = 4, a_free_lists = [[], [0]], a_map = []\<rparr>"

definition example_fake_device :: "unit FakeDevice" where
  "example_fake_device =
     \<lparr> fd_allocator = example_allocator, fd_heap = [7, 8, 0, 0], fd_data = [0, 0, 0, 0], fd_closed = False,
       fd_closure = (\<lambda>_ c. (c, Inr ())), fd_env = () \<rparr>"

definition example_file_device :: FileBackedDevice where
  "example_file_device =
     \<lparr> fb_allocator = example_allocator, fb_heap = replicate 512 7,
       fb_file = \<lparr> hf_bytes = replicate 512 0, hf_failing = False \<rparr>, fb_block_count = 1 \<rparr>"

definition example_block_device :: "FakeBlockClient BlockDevice" where
  "example_block_device =
     \<lparr> bd_allocator = example_allocator, bd_vmoid = 1, bd_vmo = 5,
       bd_remote = \<lparr> fk_data = [0, 0, 0, 0], fk_registry = [(1, 5)], fk_block_size = 2, fk_flush_count = 0 \<rparr>,
       bd_read_only = False \<rparr>"

lemma example_devices_usable:
  "fake_device_usable example_fake_device" "file_device_usable example_file_device"
  "block_device_usable fk_data (\<lambda>f. sm_get (fk_registry f)) fake_live (example_block_device, \<lambda>_. [7, 8, 0, 0])"
  by (simp_all add: fake_device_usable_def example_fake_device_def file_device_usable_def example_file_device_def
    block_device_usable_def example_block_device_def fake_device_block_size_def example_allocator_def
    FILE_BLOCK_SIZE_def vmo_id_is_valid_def BLOCK_VMOID_INVALID_def fake_live_def)

lemma example_devices_parts:
  "fake_device_block_size example_fake_device = 2" "fd_data example_fake_device = [0, 0, 0, 0]"
  "fd_heap example_fake_device = [7, 8, 0, 0]" "fk_data (bd_remote example_block_device) = [0, 0, 0, 0]"
  "d_block_size fake_ops (bd_remote example_block_device) = 2" "bd_allocator example_block_device = example_allocator"
  "bd_vmo example_block_device = 5"
  by (simp_all add: example_fake_device_def example_block_device_def fake_device_block_size_def
    example_allocator_def fake_ops_def)

theorem devices_are_arrays_witness:
  "(\<exists>f'. dev_run (fake_device_read True) (fake_device_write True) [DevWrite 2 (0, 2), DevRead 2 (2, 4)] example_fake_device = (f', Inr ()) \<and>
         fd_data f' = [0, 0, 7, 8] \<and> fd_heap f' = [7, 8, 7, 8]) \<and>
   (\<exists>g'. dev_run (file_device_read True) (file_device_write True) [DevWrite 0 (0, 512)] example_file_device = (g', Inr ()) \<and>
         file_device_data g' = replicate 512 7) \<and>
   (\<exists>d' v'. dev_run (block_device_read fake_ops True) (block_device_write fake_ops True) [DevWrite 2 (0, 2), DevRead 2 (2, 4)]
          (example_block_device, \<lambda>_. [7, 8, 0, 0]) = ((d', v'), Inr ()) \<and> fk_data (bd_remote d') = [0, 0, 7, 8])"
proof -
  let ?ops = "[DevWrite 2 (0, 2), DevRead 2 (2, 4)]"
  have run: "copy_run ?ops ([0, 0, 0, 0], [7, 8, 0, 0]) = ([0, 0, 7, 8], [7, 8, 7, 8])" by code_simp
  have ok: "list_all (op_ok 2 (length [0, 0, 0, 0 :: 8 word]) (length [7, 8, 0, 0 :: 8 word])) ?ops" by code_simp
  from devices_are_arrays [OF fake.block_client_axioms, of example_fake_device ?ops True example_file_device
      example_block_device "\<lambda>_. [7, 8, 0, 0]"] example_devices_usable ok
  have fake_block: "(\<exists>f'. dev_run (fake_device_read True) (fake_device_write True) ?ops example_fake_device = (f', Inr ()) \<and>
         fd_data f' = [0, 0, 7, 8] \<and> fd_heap f' = [7, 8, 7, 8]) \<and>
     (\<exists>d' v'. dev_run (block_device_read fake_ops True) (block_device_write fake_ops True) ?ops
          (example_block_device, \<lambda>_. [7, 8, 0, 0]) = ((d', v'), Inr ()) \<and> fk_data (bd_remote d') = [0, 0, 7, 8])"
    unfolding example_devices_parts run prod.inject by blast
  have "list_all (op_ok FILE_BLOCK_SIZE (length (file_device_data example_file_device)) (length (fb_heap example_file_device)))
      [DevWrite 0 (0, 512)]"
    by (simp add: transfer_ok_def file_device_data_def example_file_device_def FILE_BLOCK_SIZE_def)
  with devices_are_arrays [OF fake.block_client_axioms, of example_fake_device "[DevWrite 0 (0, 512)]" True
      example_file_device example_block_device "\<lambda>_. []"] example_devices_usable(2)
  have "\<exists>g'. dev_run (file_device_read True) (file_device_write True) [DevWrite 0 (0, 512)] example_file_device = (g', Inr ()) \<and>
      (file_device_data g', fb_heap g') = copy_run [DevWrite 0 (0, 512)] (file_device_data example_file_device, fb_heap example_file_device)"
    by blast
  then have "\<exists>g'. dev_run (file_device_read True) (file_device_write True) [DevWrite 0 (0, 512)] example_file_device = (g', Inr ()) \<and>
      file_device_data g' = replicate 512 7"
    by (simp add: example_file_device_def file_device_data_def FILE_BLOCK_SIZE_def sub_list_def overwrite_def) blast
  with fake_block show ?thesis by blast
qed

lemma sub_list_overwrite_disjoint:
  "\<lbrakk> j + length ys \<le> length xs; i + n \<le> length xs; i + n \<le> j \<or> j + length ys \<le> i \<rbrakk> \<Longrightarrow>
   sub_list (overwrite xs j ys) i n = sub_list xs i n"
  by (rule nth_equalityI) (auto simp: nth_overwrite)

lemma allocate_ranges:
  assumes "allocator_reach b src a" and "block_device_allocate n d = (d1, Inr r1)" and "bd_allocator d = a"
    and "block_device_allocate n d1 = (d2, Inr r2)" and "b dvd n"
  shows "snd r1 = fst r1 + n" and "snd r2 = fst r2 + n" and "snd r1 \<le> src" and "snd r2 \<le> src"
    and "b dvd fst r1" and "b dvd fst r2" and "b dvd snd r1" and "b dvd snd r2"
    and "snd r1 \<le> fst r2 \<or> snd r2 \<le> fst r1" and "\<exists>a'. d2 = d\<lparr> bd_allocator := a' \<rparr>"
proof -
  obtain a1 where a1: "allocate_buffer n a = Inr (r1, a1)" "d1 = d\<lparr> bd_allocator := a1 \<rparr>"
    using assms(2,3) by (auto simp: block_device_allocate_def to_io_def split: sum.splits fail.splits)
  obtain a2 where a2: "allocate_buffer n a1 = Inr (r2, a2)" "d2 = d\<lparr> bd_allocator := a2 \<rparr>"
    using assms(4) a1(2) by (auto simp: block_device_allocate_def to_io_def split: sum.splits fail.splits)
  note r1 = allocate_buffer_Inr [OF assms(1) a1(1)]
  note r2 = allocate_buffer_Inr [OF r1(1) a2(1)]
  obtain s where "(fst r1, s) \<in> set (a_map a1)" "n \<le> s" using r1(5) by blast
  with r2(6) [of "fst r1" s] r1(2) show "snd r1 \<le> fst r2 \<or> snd r2 \<le> fst r1" by auto
  show "b dvd snd r1" "b dvd snd r2" using r1(2,4) r2(2,4) assms(5) by simp_all
  show "snd r1 = fst r1 + n" "snd r2 = fst r2 + n" "snd r1 \<le> src" "snd r2 \<le> src" "b dvd fst r1" "b dvd fst r2"
    using r1(2-4) r2(2-4) by simp_all
  show "\<exists>a'. d2 = d\<lparr> bd_allocator := a' \<rparr>" using a2(2) by blast
qed



end
