(* ===== verification/Block_Cache.thy ===== *)
theory Block_Cache
  imports Block_Transfer "HOL-Library.Multiset"
begin

text \<open>
  The write-back cache of \<open>block_client/rust/src/cache.rs\<close>: a memory object divided into slots, a linked
  hash map from device offsets to slots in order of use, and the byte-granular \<open>read_at\<close>, \<open>write_at\<close>,
  \<open>flush\<close>, \<open>read\<close>, \<open>write\<close> and \<open>seek\<close>. The device is any block client (a record of its operations). The
  view of a cache is the device overlaid with the cached blocks; the lemmas show that the operations
  act on the view as on a plain byte array.
\<close>

section \<open>State\<close>

definition VMO_SIZE :: nat where "VMO_SIZE = 262144"
definition BLOCK_SIZE :: nat where "BLOCK_SIZE = 8192"
definition BLOCK_COUNT :: nat where "BLOCK_COUNT = VMO_SIZE div BLOCK_SIZE"

record CacheEntry =
  vmo_offset :: nat
  dirty :: bool

record Stats =
  read_count :: nat
  write_count :: nat
  cache_hits :: nat

text \<open>The linked hash map is an association list, least recently used entry first.\<close>

record 's Cache =
  device :: 's
  vmo :: koid
  vmo_id :: VmoId
  cmap :: "(nat \<times> CacheEntry) list"
  coffset :: nat
  stats :: Stats

type_synonym 's cstate = "'s Cache \<times> vmos"

definition new_stats :: Stats where
  "new_stats = \<lparr> read_count = 0, write_count = 0, cache_hits = 0 \<rparr>"

text \<open>
  \<open>Cache::new\<close>: the memory object \<open>k\<close> is created with \<open>VMO_SIZE\<close> zero bytes and attached to the device.
\<close>

definition cache_new ::
  "'s device_ops \<Rightarrow> (koid \<Rightarrow> 's \<Rightarrow> 's \<times> VmoId io_result) \<Rightarrow> koid \<Rightarrow> 's \<Rightarrow> vmos \<Rightarrow> 's cstate io_result" where
  "cache_new D attach k d v =
     (if d_block_size D d = 0 then Inl IoPanic
      else if BLOCK_SIZE mod d_block_size D d \<noteq> 0 then Inl Message
      else
        case attach k d of
          (d', Inl e) \<Rightarrow> Inl e
        | (d', Inr i) \<Rightarrow>
            Inr (\<lparr> device = d', vmo = k, vmo_id = i, cmap = [], coffset = 0, stats = new_stats \<rparr>,
                 v(k := replicate VMO_SIZE 0)))"

definition device_size :: "'s device_ops \<Rightarrow> 's Cache \<Rightarrow> nat" where
  "device_size D c = d_block_count D (device c) * d_block_size D (device c)"

section \<open>Blocks\<close>

definition cache_device_write :: "'s device_ops \<Rightarrow> nat \<Rightarrow> nat \<Rightarrow> nat \<Rightarrow> 's cstate \<Rightarrow> 's cstate \<times> unit io_result" where
  "cache_device_write D off n doff = (\<lambda>(c, v).
     let ((d', v'), r) = d_write_at D (vmo_id c) off n doff (device c, v) in ((c\<lparr> device := d' \<rparr>, v'), r))"

definition cache_device_read :: "'s device_ops \<Rightarrow> nat \<Rightarrow> nat \<Rightarrow> nat \<Rightarrow> 's cstate \<Rightarrow> 's cstate \<times> unit io_result" where
  "cache_device_read D off n doff = (\<lambda>(c, v).
     let ((d', v'), r) = d_read_at D (vmo_id c) off n doff (device c, v) in ((c\<lparr> device := d' \<rparr>, v'), r))"

text \<open>
  \<open>get_block\<close>: on a hit the entry moves to the back of the map; on a miss the next unused slot, or the
  slot of the least recently used block after writing it back.
\<close>

definition get_block :: "'s device_ops \<Rightarrow> nat \<Rightarrow> bool \<Rightarrow> 's cstate \<Rightarrow> 's cstate \<times> (nat \<times> bool) io_result" where
  "get_block D off mark_dirty = (\<lambda>(c, v).
     case map_of (cmap c) off of
       Some e \<Rightarrow>
         let e' = (if mark_dirty then e\<lparr> dirty := True \<rparr> else e) in
         ((c\<lparr> stats := (stats c)\<lparr> cache_hits := cache_hits (stats c) + 1 \<rparr>,
              cmap := AList.delete off (cmap c) @ [(off, e')] \<rparr>, v), Inr (vmo_offset e, True))
     | None \<Rightarrow>
         if length (cmap c) < BLOCK_COUNT then ((c, v), Inr (length (cmap c) * BLOCK_SIZE, False))
         else case cmap c of
           [] \<Rightarrow> ((c, v), Inl IoPanic)
         | (k, e) # rest \<Rightarrow>
             let c1 = c\<lparr> cmap := rest \<rparr> in
             if dirty e
             then io_bind (cache_device_write D (vmo_offset e) (min BLOCK_SIZE (device_size D c1 - k)) k
                    (c1\<lparr> stats := (stats c1)\<lparr> write_count := write_count (stats c1) + 1 \<rparr> \<rparr>, v))
                  (\<lambda>_ s. (s, Inr (vmo_offset e, False)))
             else ((c1, v), Inr (vmo_offset e, False)))"

text \<open>\<open>LinkedHashMap::insert\<close> puts the key at the back.\<close>

definition lhm_insert :: "nat \<Rightarrow> CacheEntry \<Rightarrow> 's Cache \<Rightarrow> 's Cache" where
  "lhm_insert k e c = c\<lparr> cmap := AList.delete k (cmap c) @ [(k, e)] \<rparr>"

definition read_block :: "'s device_ops \<Rightarrow> nat \<Rightarrow> bool \<Rightarrow> 's cstate \<Rightarrow> 's cstate \<times> nat io_result" where
  "read_block D off mark_dirty s =
     io_bind (get_block D off mark_dirty s) (\<lambda>(slot, hit) (c, v).
       if hit then ((c, v), Inr slot)
       else
         io_bind (cache_device_read D slot (min BLOCK_SIZE (device_size D c - off)) off
                    (c\<lparr> stats := (stats c)\<lparr> read_count := read_count (stats c) + 1 \<rparr> \<rparr>, v)) (\<lambda>_ (c, v).
         ((lhm_insert off \<lparr> vmo_offset = slot, dirty = mark_dirty \<rparr> c, v), Inr slot)))"

definition cache_vmo_read :: "nat \<Rightarrow> nat \<Rightarrow> 's cstate \<Rightarrow> 's cstate \<times> bytes io_result" where
  "cache_vmo_read off n = (\<lambda>(c, v). ((c, v), vmo_read v (vmo c) off n))"

definition cache_vmo_write :: "nat \<Rightarrow> bytes \<Rightarrow> 's cstate \<Rightarrow> 's cstate \<times> unit io_result" where
  "cache_vmo_write off b = (\<lambda>(c, v).
     case vmo_write v (vmo c) off b of Inl e \<Rightarrow> ((c, v), Inl e) | Inr v' \<Rightarrow> ((c, v'), Inr ()))"

section \<open>Reading and writing byte ranges\<close>

lemma BLOCK_SIZE_pos [simp]: "0 < BLOCK_SIZE"
  by (simp add: BLOCK_SIZE_def)

lemma BLOCK_SIZE_not_0 [simp]: "BLOCK_SIZE \<noteq> 0"
  by (simp add: BLOCK_SIZE_def)

text \<open>The loop over whole blocks of \<open>read_at\<close>; it returns the bytes read and the offset reached.\<close>

function read_blocks :: "'s device_ops \<Rightarrow> nat \<Rightarrow> nat \<Rightarrow> 's cstate \<Rightarrow> 's cstate \<times> (bytes \<times> nat) io_result" where
  "read_blocks D aligned stop s =
     (if aligned + BLOCK_SIZE \<le> stop then
        io_bind (read_block D aligned False s) (\<lambda>slot s.
        io_bind (cache_vmo_read slot BLOCK_SIZE s) (\<lambda>b s.
        io_bind (read_blocks D (aligned + BLOCK_SIZE) stop s) (\<lambda>(b', a) s. (s, Inr (b @ b', a)))))
      else (s, Inr ([], aligned)))"
  by pat_completeness auto
termination
  by (relation "measure (\<lambda>(D, a, e, s). e - a)") (auto simp: BLOCK_SIZE_def)

definition cache_read_at :: "'s device_ops \<Rightarrow> nat \<Rightarrow> nat \<Rightarrow> 's cstate \<Rightarrow> 's cstate \<times> bytes io_result" where
  "cache_read_at D n off s =
     (if \<not> (off \<le> device_size D (fst s) \<and> n \<le> device_size D (fst s) - off) then (s, Inl Message)
      else
        let aligned = off - off mod BLOCK_SIZE; stop = off + n in
        io_bind
          (if aligned < off then
             let to_copy = min (aligned + BLOCK_SIZE) stop - off in
             io_bind (read_block D aligned False s) (\<lambda>slot s.
             io_bind (cache_vmo_read (slot + off - aligned) to_copy s) (\<lambda>b s.
             (s, Inr (b, aligned + BLOCK_SIZE))))
           else (s, Inr ([], aligned))) (\<lambda>(head, aligned) s.
        io_bind (read_blocks D aligned stop s) (\<lambda>(body, aligned) s.
        io_bind
          (if stop > aligned then
             io_bind (read_block D aligned False s) (\<lambda>slot s.
             cache_vmo_read slot (n - (length head + length body)) s)
           else (s, Inr [])) (\<lambda>tail s.
        (s, Inr (head @ body @ tail))))))"

function write_blocks :: "'s device_ops \<Rightarrow> bytes \<Rightarrow> nat \<Rightarrow> nat \<Rightarrow> 's cstate \<Rightarrow> 's cstate \<times> (bytes \<times> nat) io_result" where
  "write_blocks D buf aligned stop s =
     (if aligned + BLOCK_SIZE \<le> stop then
        io_bind (get_block D aligned True s) (\<lambda>(slot, hit) s.
        io_bind (cache_vmo_write slot (take BLOCK_SIZE buf) s) (\<lambda>_ (c, v).
        write_blocks D (drop BLOCK_SIZE buf) (aligned + BLOCK_SIZE) stop
          (if hit then c else lhm_insert aligned \<lparr> vmo_offset = slot, dirty = True \<rparr> c, v)))
      else (s, Inr (buf, aligned)))"
  by pat_completeness auto
termination
  by (relation "measure (\<lambda>(D, b, a, e, s). e - a)") (auto simp: BLOCK_SIZE_def)

declare read_blocks.simps [simp del] write_blocks.simps [simp del]

definition cache_write_at :: "'s device_ops \<Rightarrow> bytes \<Rightarrow> nat \<Rightarrow> 's cstate \<Rightarrow> 's cstate \<times> unit io_result" where
  "cache_write_at D buf off s =
     (if \<not> (off \<le> device_size D (fst s) \<and> length buf \<le> device_size D (fst s) - off) then (s, Inl Message)
      else
        let aligned = off - off mod BLOCK_SIZE; stop = off + length buf in
        io_bind
          (if aligned < off then
             let to_copy = min (aligned + BLOCK_SIZE) stop - off in
             io_bind (read_block D aligned True s) (\<lambda>slot s.
             io_bind (cache_vmo_write (slot + off - aligned) (take to_copy buf) s) (\<lambda>_ s.
             (s, Inr (drop to_copy buf, aligned + BLOCK_SIZE))))
           else (s, Inr (buf, aligned))) (\<lambda>(buf, aligned) s.
        io_bind (write_blocks D buf aligned stop s) (\<lambda>(buf, aligned) s.
          if stop > aligned then
             io_bind (read_block D aligned True s) (\<lambda>slot s. cache_vmo_write slot buf s)
           else (s, Inr ()))))"

section \<open>Flushing\<close>

text \<open>The entries are visited in the order of the map; \<open>seen\<close> are those already visited.\<close>

fun flush_entries ::
  "'s device_ops \<Rightarrow> nat \<Rightarrow> (nat \<times> CacheEntry) list \<Rightarrow> (nat \<times> CacheEntry) list \<Rightarrow> 's cstate \<Rightarrow> 's cstate \<times> unit io_result" where
  "flush_entries D max_size seen [] s = (s, Inr ())"
| "flush_entries D max_size seen ((k, e) # rest) s =
     (if dirty e then
        io_bind (cache_device_write D (vmo_offset e) (min BLOCK_SIZE (max_size - k)) k
           ((fst s)\<lparr> stats := (stats (fst s))\<lparr> write_count := write_count (stats (fst s)) + 1 \<rparr> \<rparr>, snd s))
          (\<lambda>_ (c, v).
             flush_entries D max_size (seen @ [(k, e\<lparr> dirty := False \<rparr>)]) rest
               (c\<lparr> cmap := seen @ (k, e\<lparr> dirty := False \<rparr>) # rest \<rparr>, v))
      else flush_entries D max_size (seen @ [(k, e)]) rest s)"

definition cache_flush :: "'s device_ops \<Rightarrow> 's cstate \<Rightarrow> 's cstate \<times> unit io_result" where
  "cache_flush D s = flush_entries D (device_size D (fst s)) [] (cmap (fst s)) s"

text \<open>\<open>Drop for Cache\<close>: a failed flush is only logged; the id of the memory object is leaked.\<close>

definition cache_drop :: "'s device_ops \<Rightarrow> 's cstate \<Rightarrow> 's cstate" where
  "cache_drop D s =
     (let (c, v) = fst (cache_flush D s) in (c\<lparr> vmo_id := fst (vmo_id_take (vmo_id c)) \<rparr>, v))"

section \<open>The io traits\<close>

definition cache_io_read :: "'s device_ops \<Rightarrow> nat \<Rightarrow> 's cstate \<Rightarrow> 's cstate \<times> bytes io_result" where
  "cache_io_read D n s =
     (if coffset (fst s) > device_size D (fst s) then (s, Inr [])
      else
        let n' = min n (device_size D (fst s) - coffset (fst s)) in
        io_bind (cache_read_at D n' (coffset (fst s)) s) (\<lambda>b (c, v).
          ((c\<lparr> coffset := coffset c + n' \<rparr>, v), Inr b)))"

definition cache_io_write :: "'s device_ops \<Rightarrow> bytes \<Rightarrow> 's cstate \<Rightarrow> 's cstate \<times> nat io_result" where
  "cache_io_write D buf s =
     (if coffset (fst s) > device_size D (fst s) then (s, Inr 0)
      else
        let buf' = take (device_size D (fst s) - coffset (fst s)) buf in
        io_bind (cache_write_at D buf' (coffset (fst s)) s) (\<lambda>_ (c, v).
          ((c\<lparr> coffset := coffset c + length buf' \<rparr>, v), Inr (length buf'))))"

text \<open>
  \<open>seek\<close>: a delta is an \<open>i64\<close>. \<open>-delta\<close> overflows for the least one: a panic with overflow checks and
  the wrapped value, whose cast to \<open>u64\<close> is the right magnitude, without.
\<close>

datatype seek_from = SeekStart nat | SeekEnd int | SeekCurrent int

definition checked_delta :: "bool \<Rightarrow> nat \<Rightarrow> int \<Rightarrow> nat io_result" where
  "checked_delta dbg base delta =
     (if 0 \<le> delta then
        (if base + nat delta < 2 ^ 64 then Inr (base + nat delta) else Inl Message)
      else if dbg \<and> delta = - (2 ^ 63) then Inl IoPanic
      else if nat (- delta) \<le> base then Inr (base - nat (- delta)) else Inl Message)"

definition cache_seek :: "bool \<Rightarrow> 's device_ops \<Rightarrow> seek_from \<Rightarrow> 's cstate \<Rightarrow> 's cstate \<times> nat io_result" where
  "cache_seek dbg D pos s =
     (let r = (case pos of
                 SeekStart off \<Rightarrow> Inr off
               | SeekEnd delta \<Rightarrow> checked_delta dbg (device_size D (fst s)) delta
               | SeekCurrent delta \<Rightarrow> checked_delta dbg (coffset (fst s)) delta) in
      case r of
        Inl e \<Rightarrow> (s, Inl e)
      | Inr off \<Rightarrow> (((fst s)\<lparr> coffset := off \<rparr>, snd s), Inr off))"

section \<open>The view of a cache\<close>

definition block_of :: "nat \<Rightarrow> nat" where
  "block_of i = i - i mod BLOCK_SIZE"

definition view :: "bytes \<Rightarrow> (nat \<times> CacheEntry) list \<Rightarrow> bytes \<Rightarrow> bytes" where
  "view dev m mem =
     map (\<lambda>i. case map_of m (block_of i) of
                None \<Rightarrow> dev ! i
              | Some e \<Rightarrow> mem ! (vmo_offset e + (i - block_of i))) [0 ..< length dev]"

definition cache_view :: "('s \<Rightarrow> bytes) \<Rightarrow> 's cstate \<Rightarrow> bytes" where
  "cache_view content = (\<lambda>(c, v). view (content (device c)) (cmap c) (v (vmo c)))"

text \<open>The slots a map uses, and the first \<open>n\<close> slots of the memory object.\<close>

definition slots_of :: "(nat \<times> CacheEntry) list \<Rightarrow> nat multiset" where
  "slots_of m = mset (map (\<lambda>(k, e). vmo_offset e) m)"

definition all_slots :: "nat \<Rightarrow> nat multiset" where
  "all_slots n = mset (map (\<lambda>i. i * BLOCK_SIZE) [0 ..< n])"

definition valid_len :: "bytes \<Rightarrow> nat \<Rightarrow> nat" where
  "valid_len dev k = min BLOCK_SIZE (length dev - k)"

definition blocks_ok :: "bytes \<Rightarrow> (nat \<times> CacheEntry) list \<Rightarrow> bytes \<Rightarrow> bool" where
  "blocks_ok dev m mem \<longleftrightarrow>
     distinct (map fst m) \<and> (\<forall>(k, e) \<in> set m. BLOCK_SIZE dvd k \<and> k < length dev) \<and>
     length mem = VMO_SIZE \<and> slots_of m \<subseteq># all_slots BLOCK_COUNT \<and>
     (\<forall>(k, e) \<in> set m. \<not> dirty e \<longrightarrow>
        sub_list mem (vmo_offset e) (valid_len dev k) = sub_list dev k (valid_len dev k))"

definition cache_inv ::
  "'s device_ops \<Rightarrow> ('s \<Rightarrow> bytes) \<Rightarrow> ('s \<Rightarrow> VmoId \<Rightarrow> koid option) \<Rightarrow> ('s \<Rightarrow> bool) \<Rightarrow> 's cstate \<Rightarrow> bool" where
  "cache_inv D content attached live = (\<lambda>(c, v).
     live (device c) \<and> attached (device c) (vmo_id c) = Some (vmo c) \<and>
     d_block_size D (device c) dvd BLOCK_SIZE \<and>
     blocks_ok (content (device c)) (cmap c) (v (vmo c)) \<and>
     slots_of (cmap c) = all_slots (length (cmap c)))"

subsection \<open>Blocks and slots\<close>

lemma block_of_props: "BLOCK_SIZE dvd block_of i" "block_of i \<le> i" "i < block_of i + BLOCK_SIZE"
proof -
  show "BLOCK_SIZE dvd block_of i" by (simp add: block_of_def dvd_minus_mod)
  show "block_of i \<le> i" by (simp add: block_of_def)
  have "i mod BLOCK_SIZE < BLOCK_SIZE" by simp
  then show "i < block_of i + BLOCK_SIZE"
    unfolding block_of_def using mod_less_eq_dividend [of i BLOCK_SIZE] by linarith
qed

lemma block_of_eq: "BLOCK_SIZE dvd k \<Longrightarrow> k \<le> i \<Longrightarrow> i < k + BLOCK_SIZE \<Longrightarrow> block_of i = k"
  by (auto simp: block_of_def dvd_def) (metis add_diff_inverse_nat add_less_cancel_left
      diff_add_inverse2 mod_less mod_mult_self4 not_less)

lemma block_of_iff: "BLOCK_SIZE dvd k \<Longrightarrow> block_of i = k \<longleftrightarrow> k \<le> i \<and> i < k + BLOCK_SIZE"
  using block_of_eq block_of_props by blast

lemma length_view [simp]: "length (view dev m mem) = length dev"
  by (simp add: view_def)

lemma nth_view:
  "i < length dev \<Longrightarrow> view dev m mem ! i =
     (case map_of m (block_of i) of None \<Rightarrow> dev ! i | Some e \<Rightarrow> mem ! (vmo_offset e + (i - block_of i)))"
  by (simp add: view_def split: option.split)

lemma mem_all_slots: "x \<in># all_slots n \<longleftrightarrow> (\<exists>i < n. x = i * BLOCK_SIZE)"
  by (auto simp: all_slots_def)

lemma distinct_all_slots: "slots_of m \<subseteq># all_slots n \<Longrightarrow> distinct (map (\<lambda>(k, e). vmo_offset e) m)"
proof -
  assume sub: "slots_of m \<subseteq># all_slots n"
  obtain xs where "mset xs = all_slots n - slots_of m" using ex_mset by blast
  then have "mset (map (\<lambda>(k, e). vmo_offset e) m @ xs) = mset (map (\<lambda>i. i * BLOCK_SIZE) [0 ..< n])"
    using sub by (simp add: slots_of_def all_slots_def)
  moreover have "distinct (map (\<lambda>i. i * BLOCK_SIZE) [0 ..< n])"
    by (simp add: distinct_map inj_on_def BLOCK_SIZE_def)
  ultimately have "distinct (map (\<lambda>(k, e). vmo_offset e) m @ xs)"
    using mset_eq_imp_distinct_iff by blast
  then show ?thesis by simp
qed

lemma slot_in_range:
  assumes "blocks_ok dev m mem" and "(k, e) \<in> set m"
  shows "vmo_offset e + BLOCK_SIZE \<le> VMO_SIZE" and "BLOCK_SIZE dvd vmo_offset e"
proof -
  have "vmo_offset e \<in># slots_of m" using assms(2) by (force simp: slots_of_def)
  then obtain i where i: "i < BLOCK_COUNT" "vmo_offset e = i * BLOCK_SIZE"
    using assms(1) mset_subset_eqD [of "slots_of m" "all_slots BLOCK_COUNT"]
    unfolding blocks_ok_def mem_all_slots by blast
  then have "(i + 1) * BLOCK_SIZE \<le> BLOCK_COUNT * BLOCK_SIZE" by (intro mult_le_mono1) simp
  with i show "vmo_offset e + BLOCK_SIZE \<le> VMO_SIZE"
    by (simp add: BLOCK_COUNT_def VMO_SIZE_def BLOCK_SIZE_def)
  show "BLOCK_SIZE dvd vmo_offset e" using i by simp
qed

lemma multiples_apart:
  "d dvd a \<Longrightarrow> d dvd b \<Longrightarrow> a \<noteq> b \<Longrightarrow> a + d \<le> b \<or> b + d \<le> (a::nat)"
  by (auto simp: dvd_def) (metis Suc_leI linorder_neqE_nat mult_Suc_right mult_le_mono2 add.commute)

lemma slots_apart:
  assumes "blocks_ok dev m mem" and "(k, e) \<in> set m" and "(k', e') \<in> set m" and "k \<noteq> k'"
  shows "vmo_offset e + BLOCK_SIZE \<le> vmo_offset e' \<or> vmo_offset e' + BLOCK_SIZE \<le> vmo_offset e"
proof (rule multiples_apart)
  show "BLOCK_SIZE dvd vmo_offset e" "BLOCK_SIZE dvd vmo_offset e'"
    using slot_in_range assms(1-3) by blast+
  have "distinct (map (\<lambda>(k, e). vmo_offset e) m)"
    using assms(1) distinct_all_slots unfolding blocks_ok_def by blast
  then show "vmo_offset e \<noteq> vmo_offset e'"
    using assms(2-4) by (force simp: distinct_map inj_on_def)
qed

lemma blocks_ok_key: "blocks_ok dev m mem \<Longrightarrow> map_of m k = Some e \<Longrightarrow> BLOCK_SIZE dvd k \<and> k < length dev \<and> (k, e) \<in> set m"
  unfolding blocks_ok_def by (auto dest: map_of_SomeD)

subsection \<open>Reading and writing through the view\<close>

lemma view_read:
  assumes "blocks_ok dev m mem" and "map_of m k = Some e" and "j + n \<le> valid_len dev k"
  shows "sub_list mem (vmo_offset e + j) n = sub_list (view dev m mem) (k + j) n"
proof (rule nth_equalityI)
  have key: "BLOCK_SIZE dvd k" "k < length dev" "(k, e) \<in> set m"
    using blocks_ok_key [OF assms(1,2)] by auto
  have mem: "vmo_offset e + j + n \<le> length mem"
    using slot_in_range(1) [OF assms(1) key(3)] assms(1,3) by (simp add: valid_len_def blocks_ok_def)
  have dev: "k + j + n \<le> length dev" using assms(3) key(2) by (auto simp: valid_len_def)
  show "length (sub_list mem (vmo_offset e + j) n) = length (sub_list (view dev m mem) (k + j) n)"
    using mem dev by simp
  fix x assume "x < length (sub_list mem (vmo_offset e + j) n)"
  then have x: "x < n" using mem by simp
  have "block_of (k + j + x) = k"
    by (rule block_of_eq [OF key(1)]) (use assms(3) x in \<open>auto simp: valid_len_def\<close>)
  then show "sub_list mem (vmo_offset e + j) n ! x = sub_list (view dev m mem) (k + j) n ! x"
    using x mem dev assms(2) by (simp add: nth_view add.assoc)
qed

lemma sub_list_overwrite_other:
  "i + length b \<le> length xs \<Longrightarrow> j + n \<le> length xs \<Longrightarrow> i + length b \<le> j \<or> j + n \<le> i \<Longrightarrow>
   sub_list (overwrite xs i b) j n = sub_list xs j n"
  by (rule nth_equalityI) (auto simp: nth_overwrite)

text \<open>
  Writing \<open>b\<close> into the slot of a block, at \<open>j\<close>, when the entry is dirty (or is made dirty, or the slot
  was free before): the other blocks keep their contents.
\<close>

lemma blocks_ok_write:
  assumes ok: "blocks_ok dev m mem" and e: "map_of m k = Some e" and "dirty e"
    and "j + length b \<le> BLOCK_SIZE"
  shows "blocks_ok dev m (overwrite mem (vmo_offset e + j) b)"
proof -
  have len: "length mem = VMO_SIZE" using ok by (simp add: blocks_ok_def)
  have ke: "(k, e) \<in> set m" using map_of_SomeD [OF e] .
  have in_mem: "vmo_offset e + j + length b \<le> length mem"
    using slot_in_range(1) [OF ok ke] assms(4) len by simp
  have "sub_list (overwrite mem (vmo_offset e + j) b) (vmo_offset e') (valid_len dev k') =
        sub_list dev k' (valid_len dev k')" if "(k', e') \<in> set m" "\<not> dirty e'" for k' e'
  proof -
    have "distinct (map fst m)" using ok by (simp add: blocks_ok_def)
    then have "k' \<noteq> k" using that ke assms(3) by (metis Some_eq_map_of_iff option.inject)
    then have "vmo_offset e + BLOCK_SIZE \<le> vmo_offset e' \<or> vmo_offset e' + BLOCK_SIZE \<le> vmo_offset e"
      using slots_apart [OF ok ke that(1)] by simp
    moreover have "vmo_offset e' + valid_len dev k' \<le> length mem" "valid_len dev k' \<le> BLOCK_SIZE"
      using slot_in_range(1) [OF ok that(1)] len by (auto simp: valid_len_def)
    ultimately have "sub_list (overwrite mem (vmo_offset e + j) b) (vmo_offset e') (valid_len dev k') =
        sub_list mem (vmo_offset e') (valid_len dev k')"
      using in_mem assms(4) by (intro sub_list_overwrite_other) auto
    with that ok show ?thesis by (auto simp: blocks_ok_def)
  qed
  with ok in_mem len show ?thesis by (auto simp: blocks_ok_def)
qed

lemma view_write:
  assumes ok: "blocks_ok dev m mem" and e: "map_of m k = Some e"
    and j: "j + length b \<le> valid_len dev k"
  shows "view dev m (overwrite mem (vmo_offset e + j) b) = overwrite (view dev m mem) (k + j) b"
proof (rule nth_equalityI)
  have key: "BLOCK_SIZE dvd k" "k < length dev" "(k, e) \<in> set m"
    using blocks_ok_key [OF ok e] by auto
  have len: "length mem = VMO_SIZE" using ok by (simp add: blocks_ok_def)
  have in_mem: "vmo_offset e + j + length b \<le> length mem"
    using slot_in_range(1) [OF ok key(3)] j len by (simp add: valid_len_def)
  have dev: "k + j + length b \<le> length dev" using j key(2) by (auto simp: valid_len_def)
  show "length (view dev m (overwrite mem (vmo_offset e + j) b)) = length (overwrite (view dev m mem) (k + j) b)"
    using dev by simp
  fix i assume "i < length (view dev m (overwrite mem (vmo_offset e + j) b))"
  then have i: "i < length dev" by simp
  show "view dev m (overwrite mem (vmo_offset e + j) b) ! i = overwrite (view dev m mem) (k + j) b ! i"
  proof (cases "block_of i = k")
    case True
    then have "k \<le> i" "i < k + BLOCK_SIZE" using block_of_props [of i] by auto
    moreover have "vmo_offset e + (i - k) < length mem"
      using slot_in_range(1) [OF ok key(3)] len \<open>k \<le> i\<close> \<open>i < k + BLOCK_SIZE\<close> by linarith
    ultimately show ?thesis
      using True i e dev in_mem by (auto simp: nth_view nth_overwrite)
  next
    case False
    then have out: "\<not> (k + j \<le> i \<and> i < k + j + length b)"
      using block_of_eq [OF key(1), of i] j unfolding valid_len_def by linarith
    show ?thesis
    proof (cases "map_of m (block_of i)")
      case None
      then show ?thesis using i out dev by (auto simp: nth_view nth_overwrite)
    next
      case (Some e')
      have e': "(block_of i, e') \<in> set m" using map_of_SomeD [OF Some] .
      have apart: "vmo_offset e + BLOCK_SIZE \<le> vmo_offset e' \<or> vmo_offset e' + BLOCK_SIZE \<le> vmo_offset e"
        using slots_apart [OF ok key(3) e'] False by simp
      have "vmo_offset e' + (i - block_of i) < vmo_offset e' + BLOCK_SIZE"
        using block_of_props [of i] by linarith
      then have "overwrite mem (vmo_offset e + j) b ! (vmo_offset e' + (i - block_of i)) =
                 mem ! (vmo_offset e' + (i - block_of i))"
        using apart in_mem j slot_in_range(1) [OF ok e'] len
        by (subst nth_overwrite) (auto simp: valid_len_def)
      then show ?thesis using i out dev Some by (auto simp: nth_view nth_overwrite)
    qed
  qed
qed

subsection \<open>Changing the map\<close>

text \<open>The order of the map and the dirty bits do not matter for the view.\<close>

lemma view_cong:
  "(\<And>k. map_option vmo_offset (map_of m k) = map_option vmo_offset (map_of m' k)) \<Longrightarrow>
   view dev m mem = view dev m' mem"
proof -
  assume eq: "\<And>k. map_option vmo_offset (map_of m k) = map_option vmo_offset (map_of m' k)"
  have "view dev m mem ! i = view dev m' mem ! i" if "i < length dev" for i
    using that eq [of "block_of i"] by (auto simp: nth_view split: option.splits)
  then show ?thesis by (intro nth_equalityI) simp_all
qed

lemma map_of_delete_snoc: "map_of (AList.delete k m @ [(k, e)]) = (map_of m)(k \<mapsto> e)"
  by (rule ext) (simp add: map_add_def delete_conv' split: option.split)

lemma mset_delete: "distinct (map fst m) \<Longrightarrow> map_of m k = Some e \<Longrightarrow> mset m = add_mset (k, e) (mset (AList.delete k m))"
proof (induction m)
  case Nil
  then show ?case by simp
next
  case (Cons x m)
  show ?case
  proof (cases "fst x = k")
    case True
    then have "AList.delete k m = m" using Cons.prems(1) by (simp add: image_iff)
    with True Cons.prems show ?thesis by (cases x) auto
  next
    case False
    with Cons show ?thesis by (cases x) auto
  qed
qed

lemma slots_of_simps [simp]: "slots_of [] = {#}" "slots_of ((k, e) # m) = add_mset (vmo_offset e) (slots_of m)"
  "slots_of (m @ m') = slots_of m + slots_of m'"
  by (simp_all add: slots_of_def)

lemma slots_of_mset: "mset m = mset m' \<Longrightarrow> slots_of m = slots_of m'"
  unfolding slots_of_def by (metis mset_map)

lemma slots_of_refresh:
  assumes "distinct (map fst m)" and "map_of m k = Some e" and "vmo_offset e' = vmo_offset e"
  shows "slots_of (AList.delete k m @ [(k, e')]) = slots_of m"
  using slots_of_mset [of m "(k, e) # AList.delete k m"] mset_delete [OF assms(1,2)] assms(3) by simp

lemma length_refresh:
  "distinct (map fst m) \<Longrightarrow> map_of m k = Some e \<Longrightarrow> length (AList.delete k m @ [(k, e')]) = length m"
  using mset_delete [of m k e] by (metis length_append_singleton size_add_mset size_mset)

lemma blocks_ok_refresh:
  assumes ok: "blocks_ok dev m mem" and e: "map_of m k = Some e"
    and e': "vmo_offset e' = vmo_offset e" "dirty e \<longrightarrow> dirty e'"
  shows "blocks_ok dev (AList.delete k m @ [(k, e')]) mem"
proof -
  have dist: "distinct (map fst m)" using ok by (simp add: blocks_ok_def)
  have ke: "(k, e) \<in> set m" using map_of_SomeD [OF e] .
  have sub: "set (AList.delete k m) \<subseteq> set m" by (auto simp: AList.delete_eq)
  have "distinct (map fst (AList.delete k m @ [(k, e')]))"
    using distinct_delete [OF dist, of k] delete_notin_dom [of k m] by simp
  with ok sub ke e' slots_of_refresh [OF dist e e'(1)] show ?thesis
    unfolding blocks_ok_def by auto
qed

lemma view_refresh:
  assumes "map_of m k = Some e" and "vmo_offset e' = vmo_offset e"
  shows "view dev (AList.delete k m @ [(k, e')]) mem = view dev m mem"
  by (rule view_cong) (use assms in \<open>simp add: map_of_delete_snoc del: map_of_append\<close>)

text \<open>Forgetting the first entry: it is clean, or it has been written back.\<close>

lemma blocks_ok_tl_clean: "blocks_ok dev ((k, e) # m) mem \<Longrightarrow> blocks_ok dev m mem"
  unfolding blocks_ok_def by (auto intro: subset_mset.order_trans [rotated])

lemma view_tl_clean:
  assumes ok: "blocks_ok dev ((k, e) # m) mem" and clean: "sub_list mem (vmo_offset e) (valid_len dev k) = sub_list dev k (valid_len dev k)"
  shows "view dev m mem = view dev ((k, e) # m) mem"
proof (rule nth_equalityI)
  show "length (view dev m mem) = length (view dev ((k, e) # m) mem)" by simp
  fix i assume "i < length (view dev m mem)"
  then have i: "i < length dev" by simp
  have key: "BLOCK_SIZE dvd k" "k < length dev" "map_of m k = None"
    using ok by (auto simp: blocks_ok_def map_of_eq_None_iff)
  show "view dev m mem ! i = view dev ((k, e) # m) mem ! i"
  proof (cases "block_of i = k")
    case True
    then have ik: "k \<le> i" "i - k < valid_len dev k"
      using block_of_props [of i] i by (auto simp: valid_len_def)
    have "vmo_offset e + valid_len dev k \<le> length mem" "k + valid_len dev k \<le> length dev"
      using slot_in_range(1) [OF ok, of k e] ok key(2) by (auto simp: blocks_ok_def valid_len_def)
    then have "mem ! (vmo_offset e + (i - k)) = dev ! i"
      using arg_cong [where f = "\<lambda>xs. xs ! (i - k)", OF clean] ik by simp
    with True i key(3) show ?thesis by (simp add: nth_view)
  qed (use i in \<open>simp add: nth_view\<close>)
qed

text \<open>Writing a block back to the device.\<close>

lemma write_back:
  assumes ok: "blocks_ok dev m mem" and e: "map_of m k = Some e"
    and dev': "dev' = overwrite dev k (sub_list mem (vmo_offset e) (valid_len dev k))"
  shows "blocks_ok dev' m mem" and "view dev' m mem = view dev m mem" and "length dev' = length dev"
    and "sub_list mem (vmo_offset e) (valid_len dev' k) = sub_list dev' k (valid_len dev' k)"
proof -
  let ?n = "valid_len dev k"
  have key: "BLOCK_SIZE dvd k" "k < length dev" "(k, e) \<in> set m" using blocks_ok_key [OF ok e] by auto
  have mem: "vmo_offset e + ?n \<le> length mem" and dev: "k + ?n \<le> length dev"
    using slot_in_range(1) [OF ok key(3)] ok key(2) by (auto simp: blocks_ok_def valid_len_def)
  show len: "length dev' = length dev" using dev mem dev' by simp
  have vl: "valid_len dev' x = valid_len dev x" for x by (simp add: valid_len_def len)
  have same: "dev' ! i = dev ! i" if "i < length dev" "block_of i \<noteq> k" for i
  proof -
    have "\<not> (k \<le> i \<and> i < k + ?n)"
      using block_of_eq [OF key(1), of i] that(2) unfolding valid_len_def by linarith
    then show ?thesis using that(1) dev mem dev' by (auto simp: nth_overwrite)
  qed
  show wb: "sub_list mem (vmo_offset e) (valid_len dev' k) = sub_list dev' k (valid_len dev' k)"
    unfolding vl unfolding dev' using dev mem sub_list_overwrite [of k "sub_list mem (vmo_offset e) ?n" dev] by simp
  have other: "sub_list dev' k' (valid_len dev k') = sub_list dev k' (valid_len dev k')"
    if "(k', e') \<in> set m" "k' \<noteq> k" for k' e'
  proof (rule nth_equalityI)
    have k': "BLOCK_SIZE dvd k'" "k' + valid_len dev k' \<le> length dev"
      using ok that by (auto simp: blocks_ok_def valid_len_def)
    then show "length (sub_list dev' k' (valid_len dev k')) = length (sub_list dev k' (valid_len dev k'))"
      using len by simp
    fix x assume "x < length (sub_list dev' k' (valid_len dev k'))"
    then have x: "x < valid_len dev k'" using k' len by simp
    then have "block_of (k' + x) = k'" by (intro block_of_eq k') (auto simp: valid_len_def)
    then show "sub_list dev' k' (valid_len dev k') ! x = sub_list dev k' (valid_len dev k') ! x"
      using same [of "k' + x"] that(2) x k' len by simp
  qed
  have "sub_list mem (vmo_offset e') (valid_len dev' k') = sub_list dev' k' (valid_len dev' k')"
    if "(k', e') \<in> set m" "\<not> dirty e'" for k' e'
  proof (cases "k' = k")
    case True
    then have "e' = e" using that(1) e ok by (auto simp: blocks_ok_def)
    with True wb show ?thesis by simp
  next
    case False
    with other [OF that(1)] that ok vl show ?thesis by (auto simp: blocks_ok_def)
  qed
  with ok len show "blocks_ok dev' m mem" by (auto simp: blocks_ok_def)
  have "view dev' m mem ! i = view dev m mem ! i" if "i < length dev" for i
    using that same [of i] len e by (cases "block_of i = k") (simp_all add: nth_view split: option.split)
  then show "view dev' m mem = view dev m mem" by (intro nth_equalityI) (simp_all add: len)
qed

lemma blocks_ok_mark_clean:
  assumes "blocks_ok dev (a @ (k, e) # b) mem"
    and "sub_list mem (vmo_offset e) (valid_len dev k) = sub_list dev k (valid_len dev k)"
  shows "blocks_ok dev (a @ (k, e\<lparr> dirty := False \<rparr>) # b) mem"
  using assms unfolding blocks_ok_def by auto

lemma view_mark_clean: "view dev (a @ (k, e\<lparr> dirty := False \<rparr>) # b) mem = view dev (a @ (k, e) # b) mem"
  by (rule view_cong) (auto simp: map_add_def split: option.split)

text \<open>A new block in a free slot.\<close>

lemma insert_block:
  assumes ok: "blocks_ok dev m mem" and k: "map_of m k = None" "BLOCK_SIZE dvd k" "k < length dev"
    and slot: "add_mset slot (slots_of m) \<subseteq># all_slots BLOCK_COUNT" and b: "length b = valid_len dev k"
    and d: "d \<or> b = sub_list dev k (valid_len dev k)"
  shows "blocks_ok dev (m @ [(k, \<lparr> vmo_offset = slot, dirty = d \<rparr>)]) (overwrite mem slot b)"
    and "view dev (m @ [(k, \<lparr> vmo_offset = slot, dirty = d \<rparr>)]) (overwrite mem slot b) =
         overwrite (view dev m mem) k b"
proof -
  let ?e = "\<lparr> vmo_offset = slot, dirty = True \<rparr>"
  let ?m = "m @ [(k, ?e)]"
  have "k \<notin> fst ` set m" using k(1) by (simp add: map_of_eq_None_iff)
  then have ok1: "blocks_ok dev ?m mem"
    using ok k slot unfolding blocks_ok_def by (auto simp: add_mset_commute)
  have look: "map_of ?m k = Some ?e" using k(1) by (simp add: map_add_def)
  have in_mem: "slot + length b \<le> length mem" and in_dev: "k + length b \<le> length dev"
    using slot_in_range(1) [OF ok1, of k ?e] ok b k(3) by (auto simp: blocks_ok_def valid_len_def)
  have ok2: "blocks_ok dev ?m (overwrite mem slot b)"
    using blocks_ok_write [OF ok1 look, of 0 b] b by (simp add: valid_len_def)
  have "overwrite (view dev ?m mem) k b ! i = overwrite (view dev m mem) k b ! i" if "i < length dev" for i
  proof (cases "block_of i = k")
    case True
    then have "k \<le> i" "i < k + length b" using block_of_props [of i] that b by (auto simp: valid_len_def)
    with that in_dev show ?thesis by (simp add: nth_overwrite)
  next
    case False
    then show ?thesis
      using that in_dev k(1) by (simp add: nth_overwrite nth_view map_add_def split: option.split)
  qed
  then have "overwrite (view dev ?m mem) k b = overwrite (view dev m mem) k b"
    by (intro nth_equalityI) (simp_all add: in_dev)
  then have v2: "view dev ?m (overwrite mem slot b) = overwrite (view dev m mem) k b"
    using view_write [OF ok1 look, of 0 b] b by simp
  show "blocks_ok dev (m @ [(k, \<lparr> vmo_offset = slot, dirty = d \<rparr>)]) (overwrite mem slot b)"
    using blocks_ok_mark_clean [of dev m k ?e "[]" "overwrite mem slot b"] ok2 d b in_mem
      sub_list_overwrite [of slot b mem] by (cases d) auto
  show "view dev (m @ [(k, \<lparr> vmo_offset = slot, dirty = d \<rparr>)]) (overwrite mem slot b) =
        overwrite (view dev m mem) k b"
    using v2 view_mark_clean [of dev m k ?e "[]" "overwrite mem slot b"] by (cases d) auto
qed

lemma overwrite_same: "i + length b \<le> length xs \<Longrightarrow> b = sub_list xs i (length b) \<Longrightarrow> overwrite xs i b = xs"
  by (metis append_take_drop_id drop_drop overwrite_def sub_list_def add.commute)

lemma view_absent_block:
  assumes "map_of m k = None" and "BLOCK_SIZE dvd k" and "k < length dev"
  shows "sub_list (view dev m mem) k (valid_len dev k) = sub_list dev k (valid_len dev k)"
proof (rule nth_equalityI)
  have len: "k + valid_len dev k \<le> length dev" using assms(3) by (auto simp: valid_len_def)
  then show "length (sub_list (view dev m mem) k (valid_len dev k)) = length (sub_list dev k (valid_len dev k))"
    by simp
  fix x assume "x < length (sub_list (view dev m mem) k (valid_len dev k))"
  then have x: "x < valid_len dev k" using len by simp
  then have "block_of (k + x) = k" by (intro block_of_eq assms) (auto simp: valid_len_def)
  then show "sub_list (view dev m mem) k (valid_len dev k) ! x = sub_list dev k (valid_len dev k) ! x"
    using x len assms(1) by (simp add: nth_view)
qed

section \<open>The operations over a block client\<close>

text \<open>The invariant without the claim that the slots in use are the first ones.\<close>

definition cache_core ::
  "'s device_ops \<Rightarrow> ('s \<Rightarrow> bytes) \<Rightarrow> ('s \<Rightarrow> VmoId \<Rightarrow> koid option) \<Rightarrow> ('s \<Rightarrow> bool) \<Rightarrow> 's cstate \<Rightarrow> bool" where
  "cache_core D content attached live = (\<lambda>(c, v).
     live (device c) \<and> attached (device c) (vmo_id c) = Some (vmo c) \<and>
     d_block_size D (device c) dvd BLOCK_SIZE \<and>
     blocks_ok (content (device c)) (cmap c) (v (vmo c)))"

lemma cache_inv_core:
  "cache_inv D content attached live (c, v) \<longleftrightarrow>
     cache_core D content attached live (c, v) \<and> slots_of (cmap c) = all_slots (length (cmap c))"
  by (auto simp: cache_inv_def cache_core_def)

lemma cache_core_stats [simp]:
  "cache_core D content attached live (c\<lparr> stats := x \<rparr>, v) = cache_core D content attached live (c, v)"
  "cache_core D content attached live (c\<lparr> coffset := y \<rparr>, v) = cache_core D content attached live (c, v)"
  by (simp_all add: cache_core_def)

lemma cache_view_stats [simp]:
  "cache_view content (c\<lparr> stats := x \<rparr>, v) = cache_view content (c, v)"
  "cache_view content (c\<lparr> coffset := y \<rparr>, v) = cache_view content (c, v)"
  by (simp_all add: cache_view_def)

lemma all_slots_Suc: "all_slots (Suc n) = add_mset (n * BLOCK_SIZE) (all_slots n)"
  by (simp add: all_slots_def)

lemma all_slots_mono: "m \<le> n \<Longrightarrow> all_slots m \<subseteq># all_slots n"
proof (induction n)
  case 0
  then show ?case by simp
next
  case (Suc n)
  show ?case
  proof (cases "m = Suc n")
    case False
    with Suc have "all_slots m \<subseteq># all_slots n" by simp
    also have "all_slots n \<subseteq># all_slots (Suc n)"
      unfolding all_slots_Suc by (metis add_mset_add_single mset_subset_eq_add_left)
    finally show ?thesis .
  qed simp
qed

lemma size_all_slots [simp]: "size (all_slots n) = n" "size (slots_of m) = length m"
  by (simp_all add: all_slots_def slots_of_def)

lemma core_slots_bound: "blocks_ok dev m mem \<Longrightarrow> length m \<le> BLOCK_COUNT"
  using size_mset_mono [of "slots_of m" "all_slots BLOCK_COUNT"] by (simp add: blocks_ok_def)

lemma clean_view:
  assumes ok: "blocks_ok dev m mem" and clean: "\<forall>(k, e) \<in> set m. \<not> dirty e"
  shows "view dev m mem = dev"
proof (rule nth_equalityI)
  show "length (view dev m mem) = length dev" by simp
  fix i assume "i < length (view dev m mem)"
  then have i: "i < length dev" by simp
  show "view dev m mem ! i = dev ! i"
  proof (cases "map_of m (block_of i)")
    case (Some e)
    let ?k = "block_of i"
    have ke: "(?k, e) \<in> set m" using map_of_SomeD [OF Some] .
    then have eq: "sub_list mem (vmo_offset e) (valid_len dev ?k) = sub_list dev ?k (valid_len dev ?k)"
      using ok clean by (auto simp: blocks_ok_def)
    have n: "i - ?k < valid_len dev ?k" using block_of_props [of i] i by (auto simp: valid_len_def)
    have "vmo_offset e + valid_len dev ?k \<le> length mem" "?k + valid_len dev ?k \<le> length dev"
      using slot_in_range(1) [OF ok ke] ok i block_of_props(2) [of i] by (auto simp: blocks_ok_def valid_len_def)
    with arg_cong [where f = "\<lambda>xs. xs ! (i - ?k)", OF eq] n i Some block_of_props(2) [of i]
    show ?thesis by (simp add: nth_view)
  qed (use i in \<open>simp add: nth_view\<close>)
qed

context block_client
begin

abbreviation core :: "'s cstate \<Rightarrow> bool" where "core \<equiv> cache_core D content attached live"
abbreviation inv :: "'s cstate \<Rightarrow> bool" where "inv \<equiv> cache_inv D content attached live"
abbreviation cview :: "'s cstate \<Rightarrow> bytes" where "cview \<equiv> cache_view content"
abbreviation dev :: "'s cstate \<Rightarrow> bytes" where "dev s \<equiv> content (device (fst s))"

lemma device_size_core: "core (c, v) \<Longrightarrow> device_size D c = length (content (device c))"
  using geometry by (simp add: device_size_def cache_core_def)

lemma device_size_inv: "inv s \<Longrightarrow> device_size D (fst s) = length (dev s)"
  using device_size_core [of "fst s" "snd s"] cache_inv_core [of D content attached live "fst s" "snd s"] by simp

lemma length_cview [simp]: "length (cview s) = length (dev s)"
  by (cases s) (simp add: cache_view_def)

lemma aligned_to_block:
  assumes "core (c, v)" and "BLOCK_SIZE dvd k"
  shows "d_block_size D (device c) dvd k" and "d_block_size D (device c) dvd valid_len (content (device c)) k"
proof -
  have bs: "d_block_size D (device c) dvd BLOCK_SIZE" "live (device c)"
    using assms(1) by (simp_all add: cache_core_def)
  show k: "d_block_size D (device c) dvd k" using bs(1) assms(2) by (rule dvd_trans)
  have "d_block_size D (device c) dvd length (content (device c))"
    using geometry [OF bs(2)] by (metis dvd_triv_right)
  then show "d_block_size D (device c) dvd valid_len (content (device c)) k"
    using k bs(1) by (simp add: valid_len_def min_def dvd_diff_nat)
qed

lemma valid_len_bound: "valid_len d k < 2 ^ 32"
  by (simp add: valid_len_def BLOCK_SIZE_def min_less_iff_disj)

lemma device_write_entry:
  assumes core: "core (c, v)" and e: "map_of (cmap c) k = Some e"
  shows "\<exists>d'. cache_device_write D (vmo_offset e) (valid_len (content (device c)) k) k (c, v) =
           ((c\<lparr> device := d' \<rparr>, v), Inr ()) \<and> core (c\<lparr> device := d' \<rparr>, v) \<and>
           content d' = overwrite (content (device c)) k
             (sub_list (v (vmo c)) (vmo_offset e) (valid_len (content (device c)) k))"
proof -
  have ok: "blocks_ok (content (device c)) (cmap c) (v (vmo c))" using core by (simp add: cache_core_def)
  note key = blocks_ok_key [OF ok e]
  have slot: "vmo_offset e + BLOCK_SIZE \<le> VMO_SIZE" "BLOCK_SIZE dvd vmo_offset e"
    using slot_in_range [OF ok] key by blast+
  have bounds: "k + valid_len (content (device c)) k \<le> length (content (device c))"
    "vmo_offset e + valid_len (content (device c)) k \<le> length (v (vmo c))" "vmo_offset e < 2 ^ 64"
    using key slot(1) ok by (auto simp: valid_len_def blocks_ok_def VMO_SIZE_def)
  obtain d' where "d_write_at D (vmo_id c) (vmo_offset e) (valid_len (content (device c)) k) k (device c, v) =
      ((d', v), Inr ())" "live d'" "d_block_size D d' = d_block_size D (device c)" "attached d' = attached (device c)"
      "content d' = overwrite (content (device c)) k
         (sub_list (v (vmo c)) (vmo_offset e) (valid_len (content (device c)) k))"
    using write_law [of "device c" "vmo_id c" "vmo c" "vmo_offset e" "valid_len (content (device c)) k" k v]
      aligned_to_block [OF core] core key slot(2) bounds valid_len_bound
    by (auto simp: cache_core_def)
  then show ?thesis
    using core write_back(1) [OF ok e refl] by (auto simp: cache_device_write_def cache_core_def)
qed

lemma device_read_slot:
  assumes core: "core (c, v)" and k: "BLOCK_SIZE dvd k" "k < length (content (device c))"
    and slot: "slot \<in># all_slots BLOCK_COUNT"
  shows "\<exists>d'. cache_device_read D slot (valid_len (content (device c)) k) k (c, v) =
           ((c\<lparr> device := d' \<rparr>, v(vmo c := overwrite (v (vmo c)) slot
              (sub_list (content (device c)) k (valid_len (content (device c)) k)))), Inr ()) \<and>
           core (c\<lparr> device := d' \<rparr>, v) \<and> content d' = content (device c)"
proof -
  obtain i where i: "i < BLOCK_COUNT" "slot = i * BLOCK_SIZE" using slot mem_all_slots by blast
  then have "(i + 1) * BLOCK_SIZE \<le> BLOCK_COUNT * BLOCK_SIZE" by (intro mult_le_mono1) simp
  with i have s: "slot + BLOCK_SIZE \<le> VMO_SIZE" "BLOCK_SIZE dvd slot"
    by (simp_all add: BLOCK_COUNT_def VMO_SIZE_def BLOCK_SIZE_def)
  have bounds: "k + valid_len (content (device c)) k \<le> length (content (device c))"
    "slot + valid_len (content (device c)) k \<le> length (v (vmo c))" "slot < 2 ^ 64"
    using k s(1) core by (auto simp: valid_len_def cache_core_def blocks_ok_def VMO_SIZE_def)
  obtain d' where "d_read_at D (vmo_id c) slot (valid_len (content (device c)) k) k (device c, v) =
      ((d', v(vmo c := overwrite (v (vmo c)) slot (sub_list (content (device c)) k (valid_len (content (device c)) k)))), Inr ())"
      "live d'" "d_block_size D d' = d_block_size D (device c)" "attached d' = attached (device c)"
      "content d' = content (device c)"
    using read_law [of "device c" "vmo_id c" "vmo c" slot "valid_len (content (device c)) k" k v]
      aligned_to_block [OF core] core k s(2) bounds valid_len_bound
    by (auto simp: cache_core_def)
  then show ?thesis using core by (auto simp: cache_device_read_def cache_core_def)
qed

lemma get_block_hit:
  assumes inv: "inv (c, v)" and e: "map_of (cmap c) k = Some e"
  shows "\<exists>c' e'. get_block D k md (c, v) = ((c', v), Inr (vmo_offset e, True)) \<and> inv (c', v) \<and>
           cview (c', v) = cview (c, v) \<and> device c' = device c \<and> vmo c' = vmo c \<and>
           map_of (cmap c') k = Some e' \<and> vmo_offset e' = vmo_offset e \<and> (md \<longrightarrow> dirty e')"
proof -
  let ?e = "if md then e\<lparr> dirty := True \<rparr> else e"
  have ok: "blocks_ok (content (device c)) (cmap c) (v (vmo c))" and dist: "distinct (map fst (cmap c))"
    using inv by (auto simp: cache_inv_def blocks_ok_def)
  have e': "vmo_offset ?e = vmo_offset e" "dirty e \<longrightarrow> dirty ?e" by auto
  note facts = blocks_ok_refresh [OF ok e e'] slots_of_refresh [OF dist e e'(1)]
    length_refresh [OF dist e, of ?e] view_refresh [OF e e'(1)]
  show ?thesis
    using inv e e' facts map_of_delete_snoc [of k "cmap c" ?e]
    by (auto simp: get_block_def Let_def cache_inv_def cache_view_def simp del: map_of_append)
qed

lemma get_block_miss:
  assumes inv: "inv (c, v)" and k: "map_of (cmap c) k = None"
  shows "\<exists>c' slot. get_block D k md (c, v) = ((c', v), Inr (slot, False)) \<and> core (c', v) \<and>
           cview (c', v) = cview (c, v) \<and> length (content (device c')) = length (content (device c)) \<and>
           vmo c' = vmo c \<and> map_of (cmap c') k = None \<and> length (cmap c') < BLOCK_COUNT \<and>
           add_mset slot (slots_of (cmap c')) = all_slots (Suc (length (cmap c')))"
proof (cases "length (cmap c) < BLOCK_COUNT")
  case True
  then show ?thesis
    using inv k by (auto simp: get_block_def cache_inv_core all_slots_Suc)
next
  case False
  have core: "core (c, v)" and ok: "blocks_ok (content (device c)) (cmap c) (v (vmo c))"
    and slots: "slots_of (cmap c) = all_slots (length (cmap c))"
    using inv by (auto simp: cache_inv_core cache_core_def)
  have full: "length (cmap c) = BLOCK_COUNT" using core_slots_bound [OF ok] False by simp
  then obtain q e rest where m: "cmap c = (q, e) # rest"
    by (cases "cmap c") (auto simp: BLOCK_COUNT_def VMO_SIZE_def BLOCK_SIZE_def)
  let ?c1 = "c\<lparr> cmap := rest \<rparr>"
  have look: "map_of (cmap c) q = Some e" "map_of rest k = None" using m k by (auto split: if_splits)
  have rest: "length rest < BLOCK_COUNT" "add_mset (vmo_offset e) (slots_of rest) = all_slots (Suc (length rest))"
    using slots full m by simp_all
  show ?thesis
  proof (cases "dirty e")
    case False
    then have "sub_list (v (vmo c)) (vmo_offset e) (valid_len (content (device c)) q) =
        sub_list (content (device c)) q (valid_len (content (device c)) q)"
      using ok m by (simp add: blocks_ok_def)
    then have "cview (?c1, v) = cview (c, v)" "core (?c1, v)"
      using view_tl_clean [of "content (device c)" q e rest] blocks_ok_tl_clean [of "content (device c)" q e rest]
        ok core m by (auto simp: cache_view_def cache_core_def)
    with False look rest m full k show ?thesis
      by (auto simp: get_block_def Let_def)
  next
    case True
    let ?st = "(stats c)\<lparr> write_count := write_count (stats c) + 1 \<rparr>"
    obtain d' where d': "cache_device_write D (vmo_offset e) (valid_len (content (device c)) q) q (c, v) =
        ((c\<lparr> device := d' \<rparr>, v), Inr ())" "core (c\<lparr> device := d' \<rparr>, v)"
        "content d' = overwrite (content (device c)) q
           (sub_list (v (vmo c)) (vmo_offset e) (valid_len (content (device c)) q))"
      using device_write_entry [OF core look(1)] by auto
    note wb = write_back [OF ok look(1) d'(3)]
    have step: "cache_device_write D (vmo_offset e) (valid_len (content (device c)) q) q (?c1\<lparr> stats := ?st \<rparr>, v) =
        ((?c1\<lparr> stats := ?st, device := d' \<rparr>, v), Inr ())"
      using d'(1) by (cases c) (auto simp: cache_device_write_def split: prod.splits)
    have size: "min BLOCK_SIZE (device_size D ?c1 - q) = valid_len (content (device c)) q"
      using device_size_core [OF core] by (simp add: valid_len_def device_size_def)
    have "core (?c1\<lparr> stats := ?st, device := d' \<rparr>, v)"
      using d'(2) blocks_ok_tl_clean [OF wb(1) [unfolded m]] by (simp add: cache_core_def)
    moreover have "cview (?c1\<lparr> stats := ?st, device := d' \<rparr>, v) = cview (c, v)"
      using view_tl_clean [OF wb(1) [unfolded m] wb(4)] wb(2) m by (simp add: cache_view_def)
    ultimately show ?thesis
      using True look rest m full k step size wb(3)
      by (auto simp: get_block_def Let_def)
  qed
qed

text \<open>\<open>lhm_insert\<close> of a block that \<open>get_block\<close> missed.\<close>

lemma insert_missed:
  assumes core: "core (c, v)" and k: "map_of (cmap c) k = None" "BLOCK_SIZE dvd k" "k < length (content (device c))"
    and slot: "add_mset slot (slots_of (cmap c)) = all_slots (Suc (length (cmap c)))" "length (cmap c) < BLOCK_COUNT"
    and b: "length b = valid_len (content (device c)) k"
    and d: "d \<or> b = sub_list (content (device c)) k (valid_len (content (device c)) k)"
    and v': "v' = v(vmo c := overwrite (v (vmo c)) slot b)"
  shows "inv (lhm_insert k \<lparr> vmo_offset = slot, dirty = d \<rparr> c, v')"
    and "cview (lhm_insert k \<lparr> vmo_offset = slot, dirty = d \<rparr> c, v') = overwrite (cview (c, v)) k b"
proof -
  have "add_mset slot (slots_of (cmap c)) \<subseteq># all_slots BLOCK_COUNT"
    unfolding slot(1) using slot(2) by (intro all_slots_mono) simp
  moreover have "AList.delete k (cmap c) = cmap c" using k(1) by (simp add: map_of_eq_None_iff)
  moreover have "blocks_ok (content (device c)) (cmap c) (v (vmo c))" using core by (simp add: cache_core_def)
  ultimately show
    "inv (lhm_insert k \<lparr> vmo_offset = slot, dirty = d \<rparr> c, v')"
    "cview (lhm_insert k \<lparr> vmo_offset = slot, dirty = d \<rparr> c, v') = overwrite (cview (c, v)) k b"
    using insert_block [of "content (device c)" "cmap c" "v (vmo c)" k slot b d] core k slot b d
    by (auto simp: cache_inv_def cache_core_def cache_view_def lhm_insert_def v')
qed

lemma read_block_spec:
  assumes inv: "inv (c, v)" and k: "BLOCK_SIZE dvd k" "k < length (content (device c))"
  shows "\<exists>c' v' e. read_block D k md (c, v) = ((c', v'), Inr (vmo_offset e)) \<and> inv (c', v') \<and>
           cview (c', v') = cview (c, v) \<and> map_of (cmap c') k = Some e \<and> (md \<longrightarrow> dirty e) \<and>
           length (content (device c')) = length (content (device c))"
proof (cases "map_of (cmap c) k")
  case (Some e)
  then show ?thesis using get_block_hit [OF inv Some, of md] by (auto simp: read_block_def)
next
  case None
  obtain c1 slot where one: "get_block D k md (c, v) = ((c1, v), Inr (slot, False))" "core (c1, v)"
    "cview (c1, v) = cview (c, v)" "length (content (device c1)) = length (content (device c))"
    "vmo c1 = vmo c" "map_of (cmap c1) k = None" "length (cmap c1) < BLOCK_COUNT"
    "add_mset slot (slots_of (cmap c1)) = all_slots (Suc (length (cmap c1)))"
    using get_block_miss [OF inv None, of md] by auto
  let ?c2 = "c1\<lparr> stats := (stats c1)\<lparr> read_count := read_count (stats c1) + 1 \<rparr> \<rparr>"
  let ?n = "valid_len (content (device c1)) k"
  let ?b = "sub_list (content (device c1)) k ?n"
  have kk: "k < length (content (device c1))" using k(2) one(4) by simp
  have slot: "slot \<in># all_slots BLOCK_COUNT"
    using all_slots_mono [of "Suc (length (cmap c1))" BLOCK_COUNT] one(7) mset_subset_eqD
    unfolding one(8) [symmetric] by (metis Suc_leI union_single_eq_member)
  obtain d' where two: "cache_device_read D slot ?n k (?c2, v) =
      ((?c2\<lparr> device := d' \<rparr>, v(vmo c1 := overwrite (v (vmo c1)) slot ?b)), Inr ())"
      "core (?c2\<lparr> device := d' \<rparr>, v)" "content d' = content (device c1)"
    using device_read_slot [of ?c2 v k slot] one(2) k(1) kk slot by auto
  have len: "k + ?n \<le> length (content (device c1))" using kk by (auto simp: valid_len_def)
  have size: "min BLOCK_SIZE (device_size D c1 - k) = ?n"
    using device_size_core [OF one(2)] by (simp add: valid_len_def)
  let ?c3 = "?c2\<lparr> device := d' \<rparr>"
  let ?v3 = "v(vmo c1 := overwrite (v (vmo c1)) slot ?b)"
  note ins = insert_missed [of ?c3 v k slot ?b md ?v3]
  have "cview (?c3, v) = cview (c, v)" using one(3) two(3) by (simp add: cache_view_def)
  moreover have "overwrite (cview (?c3, v)) k ?b = cview (?c3, v)"
    using view_absent_block [of "cmap c1" k "content (device c1)" "v (vmo c1)"] one(6) k(1) kk len two(3)
    by (intro overwrite_same) (simp_all add: cache_view_def)
  ultimately have "inv (lhm_insert k \<lparr> vmo_offset = slot, dirty = md \<rparr> ?c3, ?v3)"
    "cview (lhm_insert k \<lparr> vmo_offset = slot, dirty = md \<rparr> ?c3, ?v3) = cview (c, v)"
    using ins one(6,7,8) k(1) kk len two(2,3) by simp_all
  moreover have "map_of (cmap (lhm_insert k \<lparr> vmo_offset = slot, dirty = md \<rparr> ?c3)) k =
      Some \<lparr> vmo_offset = slot, dirty = md \<rparr>"
    using map_of_delete_snoc [of k "cmap c1"] by (simp add: lhm_insert_def del: map_of_append)
  moreover have "read_block D k md (c, v) = ((lhm_insert k \<lparr> vmo_offset = slot, dirty = md \<rparr> ?c3, ?v3), Inr slot)"
    using one(1) two(1) size by (simp add: read_block_def)
  ultimately show ?thesis
    using one(4) two(3) by (intro exI [of _ "lhm_insert k \<lparr> vmo_offset = slot, dirty = md \<rparr> ?c3"]
        exI [of _ ?v3] exI [of _ "\<lparr> vmo_offset = slot, dirty = md \<rparr>"]) (simp add: lhm_insert_def)
qed

lemma vmo_read_spec:
  assumes "inv (c, v)" and "map_of (cmap c) k = Some e" and "j + n \<le> valid_len (content (device c)) k"
  shows "cache_vmo_read (vmo_offset e + j) n (c, v) = ((c, v), Inr (sub_list (cview (c, v)) (k + j) n))"
proof -
  have ok: "blocks_ok (content (device c)) (cmap c) (v (vmo c))" using assms(1) by (simp add: cache_inv_def)
  have "vmo_offset e + j + n \<le> length (v (vmo c))"
    using slot_in_range(1) [OF ok map_of_SomeD [OF assms(2)]] ok assms(3)
    by (simp add: valid_len_def blocks_ok_def)
  then show ?thesis
    using view_read [OF ok assms(2,3)] by (simp add: cache_vmo_read_def vmo_read_def cache_view_def)
qed

lemma vmo_write_spec:
  assumes "inv (c, v)" and "map_of (cmap c) k = Some e" and "dirty e"
    and "j + length b \<le> valid_len (content (device c)) k"
  shows "\<exists>v'. cache_vmo_write (vmo_offset e + j) b (c, v) = ((c, v'), Inr ()) \<and> inv (c, v') \<and>
           cview (c, v') = overwrite (cview (c, v)) (k + j) b"
proof -
  have ok: "blocks_ok (content (device c)) (cmap c) (v (vmo c))" using assms(1) by (simp add: cache_inv_def)
  have "vmo_offset e + j + length b \<le> length (v (vmo c))"
    using slot_in_range(1) [OF ok map_of_SomeD [OF assms(2)]] ok assms(4)
    by (simp add: valid_len_def blocks_ok_def)
  then show ?thesis
    using view_write [OF ok assms(2,4)] blocks_ok_write [OF ok assms(2,3), of j b] assms(1,4)
    by (simp add: cache_vmo_write_def vmo_write_def cache_view_def cache_inv_def valid_len_def)
qed

text \<open>Reading and writing part of one block.\<close>

lemma read_part:
  assumes "inv s" and "BLOCK_SIZE dvd k" and "k < length (dev s)" and "j + n \<le> valid_len (dev s) k"
  shows "\<exists>s1 s' slot. read_block D k False s = (s1, Inr slot) \<and>
           cache_vmo_read (slot + j) n s1 = (s', Inr (sub_list (cview s) (k + j) n)) \<and>
           inv s' \<and> cview s' = cview s \<and> length (dev s') = length (dev s)"
proof -
  obtain c v where s: "s = (c, v)" by (cases s)
  obtain c' v' e where one: "read_block D k False (c, v) = ((c', v'), Inr (vmo_offset e))" "inv (c', v')"
    "cview (c', v') = cview (c, v)" "map_of (cmap c') k = Some e"
    "length (content (device c')) = length (content (device c))"
    using read_block_spec [of c v k False] assms(1-3) s by auto
  have "j + n \<le> valid_len (content (device c')) k" using assms(4) one(5) s by (simp add: valid_len_def)
  from vmo_read_spec [OF one(2,4) this] one s show ?thesis by simp
qed

lemma write_part:
  assumes "inv s" and "BLOCK_SIZE dvd k" and "k < length (dev s)" and "j + length b \<le> valid_len (dev s) k"
  shows "\<exists>s1 s' slot. read_block D k True s = (s1, Inr slot) \<and>
           cache_vmo_write (slot + j) b s1 = (s', Inr ()) \<and>
           inv s' \<and> cview s' = overwrite (cview s) (k + j) b \<and> length (dev s') = length (dev s)"
proof -
  obtain c v where s: "s = (c, v)" by (cases s)
  obtain c' v' e where one: "read_block D k True (c, v) = ((c', v'), Inr (vmo_offset e))" "inv (c', v')"
    "cview (c', v') = cview (c, v)" "map_of (cmap c') k = Some e" "dirty e"
    "length (content (device c')) = length (content (device c))"
    using read_block_spec [of c v k True] assms(1-3) s by auto
  have "j + length b \<le> valid_len (content (device c')) k" using assms(4) one(6) s by (simp add: valid_len_def)
  from vmo_write_spec [OF one(2,4,5) this] one s show ?thesis by fastforce
qed

lemma write_whole_block:
  assumes inv: "inv s" and k: "BLOCK_SIZE dvd k" "k + BLOCK_SIZE \<le> length (dev s)" and b: "length b = BLOCK_SIZE"
  shows "\<exists>s1 slot hit c2 v2. get_block D k True s = (s1, Inr (slot, hit)) \<and>
           cache_vmo_write slot b s1 = ((c2, v2), Inr ()) \<and>
           (let s' = (if hit then c2 else lhm_insert k \<lparr> vmo_offset = slot, dirty = True \<rparr> c2, v2) in
            inv s' \<and> cview s' = overwrite (cview s) k b \<and> length (dev s') = length (dev s))"
proof -
  obtain c v where s: "s = (c, v)" by (cases s)
  have n: "valid_len (content (device c)) k = BLOCK_SIZE" using k(2) s by (simp add: valid_len_def)
  show ?thesis
  proof (cases "map_of (cmap c) k")
    case (Some e)
    obtain c' e' where hit: "get_block D k True (c, v) = ((c', v), Inr (vmo_offset e, True))" "inv (c', v)"
        "cview (c', v) = cview (c, v)" "device c' = device c" "map_of (cmap c') k = Some e'"
        "vmo_offset e' = vmo_offset e" "dirty e'"
      using get_block_hit [of c v k e True] inv Some s by auto
    from vmo_write_spec [OF hit(2,5,7), of 0 b] hit(3,4,6) b n
    obtain v' where "cache_vmo_write (vmo_offset e) b (c', v) = ((c', v'), Inr ())" "inv (c', v')"
        "cview (c', v') = overwrite (cview (c, v)) k b" by auto
    with hit s show ?thesis by auto
  next
    case None
    obtain c1 slot where miss: "get_block D k True (c, v) = ((c1, v), Inr (slot, False))" "core (c1, v)"
        "cview (c1, v) = cview (c, v)" "length (content (device c1)) = length (content (device c))"
        "map_of (cmap c1) k = None" "length (cmap c1) < BLOCK_COUNT"
        "add_mset slot (slots_of (cmap c1)) = all_slots (Suc (length (cmap c1)))"
      using get_block_miss [of c v k True] inv None s by auto
    let ?v = "v(vmo c1 := overwrite (v (vmo c1)) slot b)"
    have n1: "valid_len (content (device c1)) k = BLOCK_SIZE" "k < length (content (device c1))"
      using n miss(4) k(2) s BLOCK_SIZE_pos by (simp_all add: valid_len_def del: BLOCK_SIZE_pos)
    note ins = insert_missed [OF miss(2,5) k(1) n1(2) miss(7,6), of b True ?v]
    have "slot \<in># all_slots BLOCK_COUNT"
      using all_slots_mono [of "Suc (length (cmap c1))" BLOCK_COUNT] miss(6) mset_subset_eqD
      unfolding miss(7) [symmetric] by (metis Suc_leI union_single_eq_member)
    then have "slot + length b \<le> length (v (vmo c1))"
      using miss(2) b by (auto simp: cache_core_def blocks_ok_def mem_all_slots BLOCK_COUNT_def VMO_SIZE_def BLOCK_SIZE_def)
    then have "cache_vmo_write slot b (c1, v) = ((c1, ?v), Inr ())"
      by (simp add: cache_vmo_write_def vmo_write_def)
    with miss ins b n1 s show ?thesis by (auto simp: lhm_insert_def)
  qed
qed

text \<open>The loops over whole blocks.\<close>

lemma read_blocks_spec:
  assumes "inv s" and "BLOCK_SIZE dvd a" and "a \<le> stop" and "stop \<le> length (dev s)"
  shows "\<exists>s' a'. read_blocks D a stop s = (s', Inr (sub_list (cview s) a (a' - a), a')) \<and>
           BLOCK_SIZE dvd a' \<and> a \<le> a' \<and> a' \<le> stop \<and> stop < a' + BLOCK_SIZE \<and>
           inv s' \<and> cview s' = cview s \<and> length (dev s') = length (dev s)"
  using assms
proof (induction "stop - a" arbitrary: a s rule: less_induct)
  case less
  show ?case
  proof (cases "a + BLOCK_SIZE \<le> stop")
    case False
    with less.prems show ?thesis by (subst read_blocks.simps) auto
  next
    case True
    have a: "a < length (dev s)" "0 + BLOCK_SIZE \<le> valid_len (dev s) a"
      using True less.prems(4) BLOCK_SIZE_pos by (simp_all add: valid_len_def del: BLOCK_SIZE_pos)
    obtain s1 s2 slot where one: "read_block D a False s = (s1, Inr slot)"
      "cache_vmo_read slot BLOCK_SIZE s1 = (s2, Inr (sub_list (cview s) a BLOCK_SIZE))"
      "inv s2" "cview s2 = cview s" "length (dev s2) = length (dev s)"
      using read_part [OF less.prems(1,2) a] by auto
    have "stop - (a + BLOCK_SIZE) < stop - a" using True BLOCK_SIZE_pos by linarith
    from less.hyps [OF this one(3)] less.prems True one(5) obtain s' a' where
      two: "read_blocks D (a + BLOCK_SIZE) stop s2 = (s', Inr (sub_list (cview s2) (a + BLOCK_SIZE) (a' - (a + BLOCK_SIZE)), a'))"
      "BLOCK_SIZE dvd a'" "a + BLOCK_SIZE \<le> a'" "a' \<le> stop" "stop < a' + BLOCK_SIZE" "inv s'" "cview s' = cview s2"
      "length (dev s') = length (dev s2)"
      by auto
    have "sub_list (cview s) a BLOCK_SIZE @ sub_list (cview s) (a + BLOCK_SIZE) (a' - (a + BLOCK_SIZE)) =
        sub_list (cview s) a (a' - a)"
      using sub_list_add [of "cview s" a BLOCK_SIZE "a' - (a + BLOCK_SIZE)"] two(3) by simp
    with one two True show ?thesis by (subst read_blocks.simps) auto
  qed
qed

lemma write_blocks_spec:
  assumes "inv s" and "BLOCK_SIZE dvd a" and "a + length buf = stop" and "stop \<le> length (dev s)"
  shows "\<exists>s' a'. write_blocks D buf a stop s = (s', Inr (drop (a' - a) buf, a')) \<and>
           BLOCK_SIZE dvd a' \<and> a \<le> a' \<and> a' \<le> stop \<and> stop < a' + BLOCK_SIZE \<and>
           inv s' \<and> cview s' = overwrite (cview s) a (take (a' - a) buf) \<and> length (dev s') = length (dev s)"
  using assms
proof (induction "stop - a" arbitrary: a s buf rule: less_induct)
  case less
  show ?case
  proof (cases "a + BLOCK_SIZE \<le> stop")
    case False
    with less.prems show ?thesis by (subst write_blocks.simps) auto
  next
    case True
    let ?b = "take BLOCK_SIZE buf"
    have b: "length ?b = BLOCK_SIZE" using True less.prems(3) by simp
    obtain s1 slot hit c2 v2 where one: "get_block D a True s = (s1, Inr (slot, hit))"
      "cache_vmo_write slot ?b s1 = ((c2, v2), Inr ())"
      "let s' = (if hit then c2 else lhm_insert a \<lparr> vmo_offset = slot, dirty = True \<rparr> c2, v2) in
            inv s' \<and> cview s' = overwrite (cview s) a ?b \<and> length (dev s') = length (dev s)"
      using write_whole_block [OF less.prems(1,2) _ b] True less.prems(4) by auto
    let ?s2 = "(if hit then c2 else lhm_insert a \<lparr> vmo_offset = slot, dirty = True \<rparr> c2, v2)"
    have s2: "inv ?s2" "cview ?s2 = overwrite (cview s) a ?b" "length (dev ?s2) = length (dev s)"
      using one(3) by (simp_all add: Let_def)
    have "stop - (a + BLOCK_SIZE) < stop - a" using True BLOCK_SIZE_pos by linarith
    from less.hyps [OF this s2(1), of "drop BLOCK_SIZE buf"] less.prems True s2(3) obtain s' a' where
      two: "write_blocks D (drop BLOCK_SIZE buf) (a + BLOCK_SIZE) stop ?s2 =
         (s', Inr (drop (a' - (a + BLOCK_SIZE)) (drop BLOCK_SIZE buf), a'))"
      "BLOCK_SIZE dvd a'" "a + BLOCK_SIZE \<le> a'" "a' \<le> stop" "stop < a' + BLOCK_SIZE" "inv s'"
      "cview s' = overwrite (cview ?s2) (a + BLOCK_SIZE) (take (a' - (a + BLOCK_SIZE)) (drop BLOCK_SIZE buf))"
      "length (dev s') = length (dev ?s2)"
      by auto
    have parts: "?b @ take (a' - (a + BLOCK_SIZE)) (drop BLOCK_SIZE buf) = take (a' - a) buf"
      using take_add [of BLOCK_SIZE "a' - (a + BLOCK_SIZE)" buf] two(3) by simp
    have "cview s' = overwrite (cview s) a (take (a' - a) buf)"
      using overwrite_append [of a ?b "take (a' - (a + BLOCK_SIZE)) (drop BLOCK_SIZE buf)" "cview s"]
        two(3,4,7) s2(2) b less.prems(3,4) parts by simp
    moreover have "drop (a' - (a + BLOCK_SIZE)) (drop BLOCK_SIZE buf) = drop (a' - a) buf"
      using two(3) by (simp add: add.commute)
    ultimately show ?thesis
      using one(1,2) two s2 True by (subst write_blocks.simps) auto
  qed
qed

lemma aligned_bounds: "off - off mod BLOCK_SIZE = block_of off"
  by (simp add: block_of_def)

lemma read_at_spec:
  assumes inv: "inv s" and range: "off + n \<le> length (dev s)"
  shows "\<exists>s'. cache_read_at D n off s = (s', Inr (sub_list (cview s) off n)) \<and> inv s' \<and> cview s' = cview s"
proof -
  let ?a = "block_of off"
  let ?stop = "off + n"
  note a = block_of_props [of off]
  have ok: "off \<le> device_size D (fst s) \<and> n \<le> device_size D (fst s) - off"
    using range device_size_inv [OF inv] by auto
  define hd_len where "hd_len = (if ?a < off then min (?a + BLOCK_SIZE) ?stop - off else 0)"
  define a1 where "a1 = (if ?a < off then ?a + BLOCK_SIZE else ?a)"
  have a1: "BLOCK_SIZE dvd a1" "hd_len \<le> n" "off + hd_len = min a1 ?stop"
    using a by (auto simp: a1_def hd_len_def)
  obtain s1 where head: "(if ?a < off then
             let to_copy = min (?a + BLOCK_SIZE) ?stop - off in
             io_bind (read_block D ?a False s) (\<lambda>slot s.
             io_bind (cache_vmo_read (slot + off - ?a) to_copy s) (\<lambda>b s. (s, Inr (b, ?a + BLOCK_SIZE))))
           else (s, Inr ([], ?a))) = (s1, Inr (sub_list (cview s) off hd_len, a1))"
    "inv s1" "cview s1 = cview s" "length (dev s1) = length (dev s)"
  proof (cases "?a < off")
    case True
    have "?a < length (dev s)" "(off - ?a) + hd_len \<le> valid_len (dev s) ?a"
      using True a range by (auto simp: valid_len_def hd_len_def)
    from read_part [OF inv a(1) this] obtain t s' slot where
      "read_block D ?a False s = (t, Inr slot)"
      "cache_vmo_read (slot + (off - ?a)) hd_len t = (s', Inr (sub_list (cview s) off hd_len))"
      "inv s'" "cview s' = cview s" "length (dev s') = length (dev s)"
      using a(2) by auto
    with that [of s'] True a(2) show thesis by (simp add: hd_len_def a1_def Let_def)
  qed (use that [of s] inv in \<open>simp add: hd_len_def a1_def\<close>)
  have len1: "length (sub_list (cview s) off hd_len) = hd_len" using a1(2) range by simp
  show ?thesis
  proof (cases "a1 \<le> ?stop")
    case False
    then have "hd_len = n" using a1(3) by simp
    with False head show ?thesis
      using ok by (simp add: cache_read_at_def Let_def aligned_bounds read_blocks.simps [of D a1 ?stop s1])
  next
    case True
    then have h1: "off + hd_len = a1" using a1(3) by simp
    obtain s2 a2 where body: "read_blocks D a1 ?stop s1 = (s2, Inr (sub_list (cview s) a1 (a2 - a1), a2))"
      "BLOCK_SIZE dvd a2" "a1 \<le> a2" "a2 \<le> ?stop" "?stop < a2 + BLOCK_SIZE" "inv s2" "cview s2 = cview s"
      "length (dev s2) = length (dev s)"
      using read_blocks_spec [OF head(2) a1(1) True] head(3,4) range by auto
    have len2: "length (sub_list (cview s) a1 (a2 - a1)) = a2 - a1" using body(3,4) range by simp
    have rest: "n - (hd_len + (a2 - a1)) = ?stop - a2" using h1 body(3,4) by simp
    obtain s3 where tail: "(if ?stop > a2 then
             io_bind (read_block D a2 False s2) (\<lambda>slot s. cache_vmo_read slot (?stop - a2) s)
           else (s2, Inr [])) = (s3, Inr (sub_list (cview s) a2 (?stop - a2)))" "inv s3" "cview s3 = cview s"
    proof (cases "?stop > a2")
      case True
      have "a2 < length (dev s2)" "0 + (?stop - a2) \<le> valid_len (dev s2) a2"
        using True body range by (auto simp: valid_len_def)
      from read_part [OF body(6,2) this] that True body(7) show thesis by auto
    qed (use that [of s2] body in simp)
    have mid: "n - hd_len = ?stop - a1" using h1 by simp
    have first: "sub_list (cview s) off n = sub_list (cview s) off hd_len @ sub_list (cview s) a1 (n - hd_len)"
      using sub_list_add [of "cview s" off hd_len "n - hd_len"] h1 a1(2) by simp
    have second: "sub_list (cview s) a1 (?stop - a1) = sub_list (cview s) a1 (a2 - a1) @ sub_list (cview s) a2 (?stop - a2)"
      using sub_list_add [of "cview s" a1 "a2 - a1" "?stop - a2"] body(3,4) by simp
    have "sub_list (cview s) off hd_len @ sub_list (cview s) a1 (a2 - a1) @ sub_list (cview s) a2 (?stop - a2) =
        sub_list (cview s) off n"
      unfolding first mid second ..
    moreover have "(if ?stop > a2 then
             io_bind (read_block D a2 False s2) (\<lambda>slot t. cache_vmo_read slot
               (n - (length (sub_list (cview s) off hd_len) + length (sub_list (cview s) a1 (a2 - a1)))) t)
           else (s2, Inr [])) = (s3, Inr (sub_list (cview s) a2 (?stop - a2)))"
      unfolding len1 len2 rest by (rule tail(1))
    ultimately show ?thesis
      using ok head body(1) tail(2,3)
      by (cases s3) (simp add: cache_read_at_def Let_def aligned_bounds split del: if_split)
  qed
qed

lemma write_at_spec:
  assumes inv: "inv s" and range: "off + length buf \<le> length (dev s)"
  shows "\<exists>s'. cache_write_at D buf off s = (s', Inr ()) \<and> inv s' \<and> cview s' = overwrite (cview s) off buf"
proof -
  let ?a = "block_of off"
  let ?stop = "off + length buf"
  note a = block_of_props [of off]
  have ok: "off \<le> device_size D (fst s) \<and> length buf \<le> device_size D (fst s) - off"
    using range device_size_inv [OF inv] by auto
  define hd_len where "hd_len = (if ?a < off then min (?a + BLOCK_SIZE) ?stop - off else 0)"
  define a1 where "a1 = (if ?a < off then ?a + BLOCK_SIZE else ?a)"
  have a1: "BLOCK_SIZE dvd a1" "hd_len \<le> length buf" "off + hd_len = min a1 ?stop"
    using a by (auto simp: a1_def hd_len_def)
  obtain s1 where head: "(if ?a < off then
             let to_copy = min (?a + BLOCK_SIZE) ?stop - off in
             io_bind (read_block D ?a True s) (\<lambda>slot s.
             io_bind (cache_vmo_write (slot + off - ?a) (take to_copy buf) s) (\<lambda>_ s.
             (s, Inr (drop to_copy buf, ?a + BLOCK_SIZE))))
           else (s, Inr (buf, ?a))) = (s1, Inr (drop hd_len buf, a1))"
    "inv s1" "cview s1 = overwrite (cview s) off (take hd_len buf)" "length (dev s1) = length (dev s)"
  proof (cases "?a < off")
    case True
    have len: "length (take hd_len buf) = hd_len" using a1(2) by simp
    have "?a < length (dev s)" "(off - ?a) + length (take hd_len buf) \<le> valid_len (dev s) ?a"
      unfolding len using True a range by (auto simp: valid_len_def hd_len_def)
    from write_part [OF inv a(1) this] obtain t s' slot where
      "read_block D ?a True s = (t, Inr slot)"
      "cache_vmo_write (slot + (off - ?a)) (take hd_len buf) t = (s', Inr ())"
      "inv s'" "cview s' = overwrite (cview s) off (take hd_len buf)" "length (dev s') = length (dev s)"
      using a(2) by auto
    with that [of s'] True a(2) show thesis by (simp add: hd_len_def a1_def Let_def)
  next
    case False
    then show thesis
      using inv range by (intro that [of s]) (simp_all add: hd_len_def a1_def)
  qed
  show ?thesis
  proof (cases "a1 \<le> ?stop")
    case False
    then have "hd_len = length buf" using a1(3) by simp
    with False head show ?thesis
      using ok by (simp add: cache_write_at_def Let_def aligned_bounds write_blocks.simps [of D _ a1 ?stop s1])
  next
    case True
    then have h1: "off + hd_len = a1" using a1(3) by simp
    then have l1: "a1 + length (drop hd_len buf) = ?stop" using a1(2) by simp
    obtain s2 a2 where body: "write_blocks D (drop hd_len buf) a1 ?stop s1 = (s2, Inr (drop (a2 - a1) (drop hd_len buf), a2))"
      "BLOCK_SIZE dvd a2" "a1 \<le> a2" "a2 \<le> ?stop" "?stop < a2 + BLOCK_SIZE" "inv s2"
      "cview s2 = overwrite (cview s1) a1 (take (a2 - a1) (drop hd_len buf))" "length (dev s2) = length (dev s)"
      using write_blocks_spec [OF head(2) a1(1) l1] head(4) range by auto
    let ?tl = "drop (a2 - a1) (drop hd_len buf)"
    have lt: "length ?tl = ?stop - a2" "a1 + (a2 - a1) = a2" using l1 body(3,4) by simp_all
    obtain s3 where tail: "(if ?stop > a2 then
             io_bind (read_block D a2 True s2) (\<lambda>slot s. cache_vmo_write slot ?tl s)
           else (s2, Inr ())) = (s3, Inr ())" "inv s3" "cview s3 = overwrite (cview s2) a2 ?tl"
    proof (cases "?stop > a2")
      case True
      have "a2 < length (dev s2)" "0 + length ?tl \<le> valid_len (dev s2) a2"
        unfolding lt(1) using True body range by (auto simp: valid_len_def)
      from write_part [OF body(6,2) this] that True show thesis by auto
    next
      case False
      then have "?tl = []" "a2 \<le> length (cview s2)" using lt(1) body(4,8) range by auto
      with that [of s2] body(6) False show thesis by (simp del: drop_drop drop_eq_Nil)
    qed
    have "overwrite (overwrite (cview s) off (take hd_len buf)) a1 (take (a2 - a1) (drop hd_len buf)) =
        overwrite (cview s) off (take hd_len buf @ take (a2 - a1) (drop hd_len buf))"
      using overwrite_append [of off "take hd_len buf" "take (a2 - a1) (drop hd_len buf)" "cview s"]
        h1 a1(2) range body(4) lt(2) by simp
    moreover have whole: "(take hd_len buf @ take (a2 - a1) (drop hd_len buf)) @ ?tl = buf"
      "off + length (take hd_len buf @ take (a2 - a1) (drop hd_len buf)) = a2"
      using h1 a1(2) l1 body(3,4) by (simp_all del: drop_drop)
    moreover have "overwrite (overwrite (cview s) off (take hd_len buf @ take (a2 - a1) (drop hd_len buf))) a2 ?tl =
        overwrite (cview s) off buf"
      using overwrite_append [of off "take hd_len buf @ take (a2 - a1) (drop hd_len buf)" ?tl "cview s",
          unfolded whole lt(1)] range body(4) by simp
    ultimately have "cview s3 = overwrite (cview s) off buf"
      using tail(3) body(7) head(3) by simp
    with ok head body(1) tail show ?thesis
      by (cases s3) (simp add: cache_write_at_def Let_def aligned_bounds del: drop_drop split del: if_split)
  qed
qed

lemma flush_one:
  assumes inv: "inv (c, v)" and m: "cmap c = seen @ (k, e) # rest"
  shows "\<exists>d'. cache_device_write D (vmo_offset e) (min BLOCK_SIZE (length (content (device c)) - k)) k
             (c\<lparr> stats := st \<rparr>, v) = ((c\<lparr> stats := st, device := d' \<rparr>, v), Inr ()) \<and>
           inv (c\<lparr> stats := st, device := d', cmap := seen @ (k, e\<lparr> dirty := False \<rparr>) # rest \<rparr>, v) \<and>
           cview (c\<lparr> stats := st, device := d', cmap := seen @ (k, e\<lparr> dirty := False \<rparr>) # rest \<rparr>, v) = cview (c, v) \<and>
           length (content d') = length (content (device c))"
proof -
  have core: "core (c, v)" and ok: "blocks_ok (content (device c)) (cmap c) (v (vmo c))"
    and slots: "slots_of (cmap c) = all_slots (length (cmap c))"
    using inv by (auto simp: cache_inv_core cache_core_def)
  have look: "map_of (cmap c) k = Some e" using ok m by (intro map_of_is_SomeI) (simp_all add: blocks_ok_def)
  obtain d' where d': "cache_device_write D (vmo_offset e) (valid_len (content (device c)) k) k (c\<lparr> stats := st \<rparr>, v) =
      ((c\<lparr> stats := st, device := d' \<rparr>, v), Inr ())" "core (c\<lparr> stats := st, device := d' \<rparr>, v)"
      "content d' = overwrite (content (device c)) k
         (sub_list (v (vmo c)) (vmo_offset e) (valid_len (content (device c)) k))"
    using device_write_entry [of "c\<lparr> stats := st \<rparr>" v k e] core look by auto
  note wb = write_back [OF ok look d'(3)]
  note marked = blocks_ok_mark_clean [OF wb(1) [unfolded m] wb(4)] view_mark_clean [of "content d'" seen k e rest "v (vmo c)"]
  have "inv (c\<lparr> stats := st, device := d', cmap := seen @ (k, e\<lparr> dirty := False \<rparr>) # rest \<rparr>, v)"
    using d'(2) marked(1) slots m by (simp add: cache_core_def cache_inv_def)
  moreover have "cview (c\<lparr> stats := st, device := d', cmap := seen @ (k, e\<lparr> dirty := False \<rparr>) # rest \<rparr>, v) = cview (c, v)"
    using marked(2) wb(2) m by (simp add: cache_view_def)
  ultimately show ?thesis using d'(1) wb(3) by (auto simp: valid_len_def)
qed

lemma flush_entries_spec:
  assumes "inv s" and "cmap (fst s) = seen @ rest" and "\<forall>(k, e) \<in> set seen. \<not> dirty e"
    and "N = length (dev s)"
  shows "\<exists>s'. flush_entries D N seen rest s = (s', Inr ()) \<and> inv s' \<and> cview s' = cview s \<and>
           (\<forall>(k, e) \<in> set (cmap (fst s')). \<not> dirty e)"
  using assms
proof (induction rest arbitrary: seen s)
  case Nil
  then show ?case by auto
next
  case (Cons x rest)
  obtain k e where x: "x = (k, e)" by (cases x)
  obtain c v where s: "s = (c, v)" by (cases s)
  show ?case
  proof (cases "dirty e")
    case False
    with Cons.IH [of s "seen @ [x]"] Cons.prems x show ?thesis by simp
  next
    case True
    let ?st = "(stats c)\<lparr> write_count := write_count (stats c) + 1 \<rparr>"
    obtain d' where d': "cache_device_write D (vmo_offset e) (min BLOCK_SIZE (N - k)) k (c\<lparr> stats := ?st \<rparr>, v) =
        ((c\<lparr> stats := ?st, device := d' \<rparr>, v), Inr ())"
        "inv (c\<lparr> stats := ?st, device := d', cmap := seen @ (k, e\<lparr> dirty := False \<rparr>) # rest \<rparr>, v)"
        "cview (c\<lparr> stats := ?st, device := d', cmap := seen @ (k, e\<lparr> dirty := False \<rparr>) # rest \<rparr>, v) = cview (c, v)"
        "length (content d') = length (content (device c))"
      using flush_one [of c v seen k e rest ?st] Cons.prems x s by auto
    let ?s = "(c\<lparr> stats := ?st, device := d', cmap := seen @ (k, e\<lparr> dirty := False \<rparr>) # rest \<rparr>, v)"
    from Cons.IH [of ?s "seen @ [(k, e\<lparr> dirty := False \<rparr>)]"] d' Cons.prems s
    obtain s' where "flush_entries D N (seen @ [(k, e\<lparr> dirty := False \<rparr>)]) rest ?s = (s', Inr ())" "inv s'"
      "cview s' = cview s" "\<forall>(k, e) \<in> set (cmap (fst s')). \<not> dirty e" by auto
    with d'(1) True x s show ?thesis by auto
  qed
qed

lemma flush_spec:
  assumes "inv s"
  shows "\<exists>s'. cache_flush D s = (s', Inr ()) \<and> inv s' \<and> cview s' = cview s \<and> dev s' = cview s"
proof -
  obtain s' where s': "cache_flush D s = (s', Inr ())" "inv s'" "cview s' = cview s"
      "\<forall>(k, e) \<in> set (cmap (fst s')). \<not> dirty e"
    using flush_entries_spec [OF assms, of "[]" "cmap (fst s)" "length (dev s)"] device_size_inv [OF assms]
    by (auto simp: cache_flush_def)
  obtain c v where c: "s' = (c, v)" by (cases s')
  have "blocks_ok (content (device c)) (cmap c) (v (vmo c))" using s'(2) c by (simp add: cache_inv_def)
  from clean_view [OF this] s' c have "cview s' = dev s'" by (simp add: cache_view_def)
  with s' show ?thesis by auto
qed

end

section \<open>The cache refines a byte array\<close>

datatype cache_op = OpRead nat nat | OpWrite bytes nat | OpFlush

datatype op_outcome = Data bytes | Done | Refused

definition op_outcome_of :: "('a \<Rightarrow> op_outcome) \<Rightarrow> 's \<times> 'a io_result \<Rightarrow> 's \<times> op_outcome" where
  "op_outcome_of f = (\<lambda>(s, r). (s, case r of Inl _ \<Rightarrow> Refused | Inr a \<Rightarrow> f a))"

fun cache_op_step :: "'s device_ops \<Rightarrow> cache_op \<Rightarrow> 's cstate \<Rightarrow> 's cstate \<times> op_outcome" where
  "cache_op_step D (OpRead n off) s = op_outcome_of Data (cache_read_at D n off s)"
| "cache_op_step D (OpWrite b off) s = op_outcome_of (\<lambda>_. Done) (cache_write_at D b off s)"
| "cache_op_step D OpFlush s = op_outcome_of (\<lambda>_. Done) (cache_flush D s)"

fun cache_run :: "'s device_ops \<Rightarrow> cache_op list \<Rightarrow> 's cstate \<Rightarrow> 's cstate \<times> op_outcome list" where
  "cache_run D [] s = (s, [])"
| "cache_run D (p # ps) s =
     (let (s1, r) = cache_op_step D p s; (s2, rs) = cache_run D ps s1 in (s2, r # rs))"

text \<open>The specification: a byte array of fixed size.\<close>

fun array_op_step :: "cache_op \<Rightarrow> bytes \<Rightarrow> bytes \<times> op_outcome" where
  "array_op_step (OpRead n off) a =
     (a, if off + n \<le> length a then Data (sub_list a off n) else Refused)"
| "array_op_step (OpWrite b off) a =
     (if off + length b \<le> length a then (overwrite a off b, Done) else (a, Refused))"
| "array_op_step OpFlush a = (a, Done)"

fun array_run :: "cache_op list \<Rightarrow> bytes \<Rightarrow> bytes \<times> op_outcome list" where
  "array_run [] a = (a, [])"
| "array_run (p # ps) a = (let (a1, r) = array_op_step p a; (a2, rs) = array_run ps a1 in (a2, r # rs))"

context block_client
begin

lemma op_step_refines:
  assumes "inv s"
  shows "\<exists>s'. cache_op_step D p s = (s', snd (array_op_step p (cview s))) \<and> inv s' \<and>
           cview s' = fst (array_op_step p (cview s))"
proof (cases p)
  case (OpRead n off)
  then show ?thesis
    using read_at_spec [OF assms, of off n] assms device_size_inv [OF assms]
    by (cases s, cases "off + n \<le> length (dev s)") (auto simp: op_outcome_of_def cache_read_at_def)
next
  case (OpWrite b off)
  then show ?thesis
    using write_at_spec [OF assms, of off b] assms device_size_inv [OF assms]
    by (cases s, cases "off + length b \<le> length (dev s)") (auto simp: op_outcome_of_def cache_write_at_def)
next
  case OpFlush
  then show ?thesis using flush_spec [OF assms] by (auto simp: op_outcome_of_def)
qed

lemma run_refines:
  assumes "inv s"
  shows "\<exists>s'. cache_run D ps s = (s', snd (array_run ps (cview s))) \<and> inv s' \<and>
           cview s' = fst (array_run ps (cview s))"
  using assms
proof (induction ps arbitrary: s)
  case Nil
  then show ?case by simp
next
  case (Cons p ps)
  obtain s1 where one: "cache_op_step D p s = (s1, snd (array_op_step p (cview s)))" "inv s1"
      "cview s1 = fst (array_op_step p (cview s))"
    using op_step_refines [OF Cons.prems] by blast
  with Cons.IH [OF one(2)] show ?case by (auto simp: Let_def split: prod.splits)
qed

end


text \<open>A flush of a cache in any state that satisfies the invariant succeeds and makes the device hold
  exactly the view: every byte written through the cache before reaches the device, the view does
  not change, and the invariant is kept.\<close>

theorem flush_persists_view:
  assumes "block_client D content attached live" and "cache_inv D content attached live s"
  shows "\<exists>s'. cache_flush D s = (s', Inr ()) \<and> content (device (fst s')) = cache_view content s \<and>
           cache_view content s' = cache_view content s \<and> cache_inv D content attached live s'"
  using block_client.flush_spec [OF assms] by auto

subsection \<open>Concrete caches\<close>

lemma new_cache_inv:
  assumes "cache_new D attach k d v = Inr s" and "attach k d = (d', Inr i)"
    and "live d'" and "attached d' i = Some k" and "d_block_size D d' = d_block_size D d"
  shows "cache_inv D content attached live s" and "cache_view content s = content d'" and "device (fst s) = d'"
proof -
  have s: "s = (\<lparr> device = d', vmo = k, vmo_id = i, cmap = [], coffset = 0, stats = new_stats \<rparr>,
               v(k := replicate VMO_SIZE 0))" "BLOCK_SIZE mod d_block_size D d = 0"
    using assms(1,2) by (auto simp: cache_new_def split: if_splits)
  show "cache_inv D content attached live s"
    using s assms(3-5) by (auto simp: cache_inv_def blocks_ok_def all_slots_def mod_eq_0_iff_dvd)
  have "map (\<lambda>i. content d' ! i) [0 ..< length (content d')] = content d'" by (rule map_nth)
  then show "cache_view content s = content d'" using s by (simp add: cache_view_def view_def)
  show "device (fst s) = d'" using s by simp
qed

definition example_cache :: "FakeBlockClient cstate" where
  "example_cache =
     (\<lparr> device = \<lparr> fk_data = replicate 8 0, fk_registry = [(1, 3)], fk_block_size = 2, fk_flush_count = 0 \<rparr>,
        vmo = 3, vmo_id = 1, cmap = [], coffset = 0, stats = new_stats \<rparr>, \<lambda>_. replicate VMO_SIZE 0)"

lemma example_cache_inv: "cache_inv fake_ops fk_data (\<lambda>f. sm_get (fk_registry f)) fake_live example_cache"
  by (simp add: example_cache_def cache_inv_def fake_live_def fake_ops_def blocks_ok_def all_slots_def BLOCK_SIZE_def)

lemma example_cache_view: "cache_view fk_data example_cache = replicate 8 0"
  by (simp add: example_cache_def cache_view_def view_def numeral_eq_Suc)


theorem flush_persists_view_witness:
  "\<exists>s'. cache_flush fake_ops example_cache = (s', Inr ()) \<and> fk_data (device (fst s')) = replicate 8 0"
  using flush_persists_view [OF fake.block_client_axioms example_cache_inv] unfolding example_cache_view by auto

subsection \<open>The stream position is independent of the block operations\<close>

named_theorems keeps_offset

lemma io_bind_offset [keeps_offset]:
  "(\<And>a s'. coffset (fst (fst (f a s'))) = coffset (fst s')) \<Longrightarrow>
   coffset (fst (fst (io_bind m f))) = coffset (fst (fst m))"
  by (auto simp: io_bind_def split: prod.splits sum.splits)

lemma device_io_offset [simp, keeps_offset]:
  "coffset (fst (fst (cache_device_write D off n k s))) = coffset (fst s)"
  "coffset (fst (fst (cache_device_read D off n k s))) = coffset (fst s)"
  "coffset (fst (fst (cache_vmo_read off n s))) = coffset (fst s)"
  "coffset (fst (fst (cache_vmo_write off b s))) = coffset (fst s)"
  "coffset (lhm_insert k e c) = coffset c"
  by (auto simp: cache_device_write_def cache_device_read_def cache_vmo_read_def cache_vmo_write_def
      lhm_insert_def split: prod.splits sum.splits)

lemma get_block_offset [simp, keeps_offset]: "coffset (fst (fst (get_block D k md s))) = coffset (fst s)"
  by (cases s) (auto simp: get_block_def Let_def io_bind_offset split: option.splits list.splits)

lemma read_block_offset [simp, keeps_offset]: "coffset (fst (fst (read_block D k md s))) = coffset (fst s)"
  unfolding read_block_def by (subst io_bind_offset) (auto simp: io_bind_offset split: prod.splits)

lemma read_blocks_offset [simp, keeps_offset]: "coffset (fst (fst (read_blocks D a stop s))) = coffset (fst s)"
proof (induction D a stop s rule: read_blocks.induct)
  case (1 D a stop s)
  show ?case
    by (subst read_blocks.simps) (auto simp: io_bind_offset 1 split: prod.splits)
qed

lemma write_blocks_offset [simp, keeps_offset]: "coffset (fst (fst (write_blocks D b a stop s))) = coffset (fst s)"
proof (induction D b a stop s rule: write_blocks.induct)
  case (1 D b a stop s)
  show ?case
    by (subst write_blocks.simps) (auto simp: io_bind_offset 1 split: prod.splits)
qed

lemma read_at_offset [simp]: "coffset (fst (fst (cache_read_at D n off s))) = coffset (fst s)"
  unfolding cache_read_at_def Let_def
  by (auto simp: io_bind_offset split: prod.splits)

lemma write_at_offset [simp]: "coffset (fst (fst (cache_write_at D b off s))) = coffset (fst s)"
  unfolding cache_write_at_def Let_def
  by (auto simp: io_bind_offset split: prod.splits)

section \<open>Seeking and the io traits\<close>

text \<open>The io traits over any block client behave like a file of the device's size: \<open>write\<close> stores the
  bytes that fit before the end of the device and reports their number; seeking back to the old
  position and reading with the same buffer returns exactly these bytes and advances the position by
  their number.\<close>

theorem io_write_then_read:
  assumes "block_client D content attached live" and "cache_inv D content attached live s"
    and "coffset (fst s) \<le> length (cache_view content s)"
  shows "\<exists>s1 s2 s3 n. n = min (length b) (length (cache_view content s) - coffset (fst s)) \<and>
           cache_io_write D b s = (s1, Inr n) \<and>
           cache_view content s1 = overwrite (cache_view content s) (coffset (fst s)) (take n b) \<and>
           cache_seek dbg D (SeekStart (coffset (fst s))) s1 = (s2, Inr (coffset (fst s))) \<and>
           cache_io_read D (length b) s2 = (s3, Inr (take n b)) \<and> coffset (fst s3) = coffset (fst s) + n"
proof -
  let ?o = "coffset (fst s)"
  let ?b = "take (length (cache_view content s) - ?o) b"
  let ?inv = "cache_inv D content attached live"
  note len = block_client.length_cview [OF assms(1)]
  note size = block_client.device_size_inv [OF assms(1)]
  obtain c1 v1 where one: "cache_write_at D ?b ?o s = ((c1, v1), Inr ())" "?inv (c1, v1)"
      "cache_view content (c1, v1) = overwrite (cache_view content s) ?o ?b"
    using block_client.write_at_spec [OF assms(1,2), of ?o ?b] assms(3) len [of s] by fastforce
  have dev1: "length (cache_view content (c1, v1)) = length (cache_view content s)"
    using one(3) assms(3) by simp
  let ?s1 = "(c1\<lparr> coffset := coffset c1 + length ?b \<rparr>, v1)"
  let ?s2 = "(c1\<lparr> coffset := ?o \<rparr>, v1)"
  have inv2: "?inv ?s2" "cache_view content ?s2 = cache_view content (c1, v1)"
    using one(2) by (simp_all add: cache_inv_def cache_view_def)
  obtain c3 v3 where two: "cache_read_at D (length ?b) ?o ?s2 = ((c3, v3), Inr (sub_list (cache_view content ?s2) ?o (length ?b)))"
    using block_client.read_at_spec [OF assms(1) inv2(1), of ?o "length ?b"] inv2(2) dev1 len [of ?s2] assms(3)
    by fastforce
  have again: "sub_list (cache_view content ?s2) ?o (length ?b) = ?b"
    unfolding inv2(2) one(3) by (rule sub_list_overwrite) (use assms(3) in simp)
  have off: "coffset c1 = ?o" "coffset c3 = ?o"
    using write_at_offset [of D ?b ?o s, unfolded one(1)] read_at_offset [of D "length ?b" ?o ?s2, unfolded two]
    by (simp_all del: length_take)
  have n: "length ?b = min (length b) (length (cache_view content s) - ?o)" "take (length ?b) b = ?b"
    by (simp_all add: min_def)
  have sz: "device_size D (fst s) = length (cache_view content s)" "device_size D (fst ?s2) = length (cache_view content s)"
    using size [OF assms(2)] size [OF inv2(1)] len [of s] len [of ?s2] inv2(2) dev1 by simp_all
  have "cache_io_write D b s = (?s1, Inr (length ?b))"
    using assms(3) sz(1) one(1) by (simp add: cache_io_write_def Let_def)
  moreover have "cache_seek dbg D (SeekStart ?o) ?s1 = (?s2, Inr ?o)"
    by (simp add: cache_seek_def)
  moreover have "cache_io_read D (length b) ?s2 = ((c3\<lparr> coffset := ?o + length ?b \<rparr>, v3), Inr ?b)"
    using assms(3) sz(2) two again n(1) off by (simp add: cache_io_read_def Let_def)
  moreover have "cache_view content ?s1 = overwrite (cache_view content s) ?o ?b" using one(3) by simp
  moreover have "coffset (fst (c3\<lparr> coffset := ?o + length ?b \<rparr>, v3)) = ?o + length ?b" by simp
  moreover have "take (length ?b) b = ?b" by (rule n(2))
  ultimately show ?thesis using n(1) by metis
qed

theorem io_write_then_read_witness:
  "\<exists>s1 s2 s3. cache_io_write fake_ops (replicate 9 7) example_cache = (s1, Inr 8) \<and>
     cache_seek False fake_ops (SeekStart 0) s1 = (s2, Inr 0) \<and>
     cache_io_read fake_ops 9 s2 = (s3, Inr (replicate 8 7))"
proof -
  have "coffset (fst example_cache) = 0" by (simp add: example_cache_def)
  then show ?thesis
    using io_write_then_read [OF fake.block_client_axioms example_cache_inv, of "replicate 9 7" False]
    unfolding example_cache_view by auto
qed

section \<open>A failed read of the device\<close>

text \<open>
  \<open>get_block\<close> removes the evicted entry from the map before the device is read; when the read fails, the
  entry stays removed, and the slot given to the next miss is computed from the length of the map.
\<close>

text \<open>After a read of the device that failed on a full cache, the next miss is given a slot that
  a cached block still uses, unless the evicted block happened to hold the last slot: the following
  block overwrites the contents of another one.\<close>

theorem failed_read_aliases_slot:
  assumes "cache_inv D content attached live (c, v)" and "cmap c = (q, e) # rest"
    and "length (cmap c) = BLOCK_COUNT" and "\<not> dirty e" and "vmo_offset e \<noteq> (BLOCK_COUNT - 1) * BLOCK_SIZE"
    and "map_of (cmap c) k = None" and "read_block D k md (c, v) = ((c', v'), Inl err)"
    and "map_of (cmap c') k' = None"
  shows "\<exists>k2 e2. (k2, e2) \<in> set (cmap c') \<and>
           get_block D k' md' (c', v') = ((c', v'), Inr (vmo_offset e2, False))"
proof -
  have rest: "length rest = BLOCK_COUNT - 1" "length rest < BLOCK_COUNT" using assms(2,3) by auto
  have "get_block D k md (c, v) = ((c\<lparr> cmap := rest \<rparr>, v), Inr (vmo_offset e, False))"
    using assms(2,3,4,6) by (simp add: get_block_def)
  then have c': "cmap c' = rest"
    using assms(7)
    by (auto simp: read_block_def io_bind_def cache_device_read_def split: prod.splits sum.splits)
  have eq: "all_slots BLOCK_COUNT = add_mset (vmo_offset e) (slots_of rest)"
    using assms(1,2,3) by (simp add: cache_inv_def)
  have "(BLOCK_COUNT - 1) * BLOCK_SIZE \<in># all_slots BLOCK_COUNT"
    using rest by (auto simp: mem_all_slots)
  then have "(BLOCK_COUNT - 1) * BLOCK_SIZE \<in># slots_of rest"
    using assms(5) unfolding eq by simp
  then obtain k2 e2 where "(k2, e2) \<in> set rest" "vmo_offset e2 = (BLOCK_COUNT - 1) * BLOCK_SIZE"
    by (auto simp: slots_of_def)
  with c' rest assms(8) show ?thesis
    by (intro exI [of _ k2] exI [of _ e2]) (simp add: get_block_def)
qed

text \<open>A full cache of clean zero blocks over a device whose reads fail.\<close>

definition failing_ops :: "bytes device_ops" where
  "failing_ops =
     \<lparr> d_read_at = (\<lambda>i off n doff s. (s, Inl (ZxStatus UNAVAILABLE))),
       d_write_at = (\<lambda>i off n doff s. (s, Inl (ZxStatus UNAVAILABLE))),
       d_block_size = (\<lambda>d. BLOCK_SIZE), d_block_count = (\<lambda>d. BLOCK_COUNT + 2) \<rparr>"

definition full_cache :: "bytes Cache" where
  "full_cache =
     \<lparr> device = replicate ((BLOCK_COUNT + 2) * BLOCK_SIZE) 0, vmo = 0, vmo_id = 1,
       cmap = map (\<lambda>i. (i * BLOCK_SIZE, \<lparr> vmo_offset = i * BLOCK_SIZE, dirty = False \<rparr>)) [0 ..< BLOCK_COUNT],
       coffset = 0, stats = new_stats \<rparr>"

lemma full_cache_inv:
  "cache_inv failing_ops id (\<lambda>d i. Some 0) (\<lambda>d. True) (full_cache, \<lambda>k. replicate VMO_SIZE 0)"
proof -
  have slots: "slots_of (cmap full_cache) = all_slots BLOCK_COUNT"
    by (simp add: slots_of_def all_slots_def full_cache_def comp_def)
  have dist: "distinct (map fst (cmap full_cache))"
    by (simp add: full_cache_def distinct_map comp_def inj_on_def BLOCK_SIZE_def)
  have vmo: "VMO_SIZE = BLOCK_COUNT * BLOCK_SIZE" by (simp add: VMO_SIZE_def BLOCK_COUNT_def BLOCK_SIZE_def)
  have slot: "i * BLOCK_SIZE + valid_len d k \<le> VMO_SIZE" if "i < BLOCK_COUNT" for i k and d :: bytes
  proof -
    have "i * BLOCK_SIZE + valid_len d k \<le> (i + 1) * BLOCK_SIZE" by (simp add: valid_len_def)
    also have "\<dots> \<le> VMO_SIZE" unfolding vmo using that by (intro mult_le_mono1) simp
    finally show ?thesis .
  qed
  have zero: "sub_list (replicate m (0 :: 8 word)) i n = replicate n 0" if "i + n \<le> m" for m i n
    using that by (simp add: sub_list_def)
  have clean: "sub_list (replicate VMO_SIZE 0) (i * BLOCK_SIZE) (valid_len (device full_cache) (i * BLOCK_SIZE)) =
        sub_list (device full_cache) (i * BLOCK_SIZE) (valid_len (device full_cache) (i * BLOCK_SIZE))"
    if "i < BLOCK_COUNT" for i
  proof -
    have "i * BLOCK_SIZE + valid_len (device full_cache) (i * BLOCK_SIZE) \<le> (BLOCK_COUNT + 2) * BLOCK_SIZE"
      using slot [OF that, of "device full_cache" "i * BLOCK_SIZE"] unfolding vmo by simp
    then show ?thesis using zero slot [OF that] by (simp add: full_cache_def)
  qed
  have keys: "i * BLOCK_SIZE < (BLOCK_COUNT + 2) * BLOCK_SIZE" if "i < BLOCK_COUNT" for i
    using that by (intro mult_less_mono1) simp_all
  have "blocks_ok (device full_cache) (cmap full_cache) (replicate VMO_SIZE 0)"
    unfolding blocks_ok_def slots
    using dist keys clean by (auto simp: full_cache_def)
  with slots show ?thesis by (simp add: cache_inv_def failing_ops_def full_cache_def)
qed

theorem failed_read_aliases_slot_witness:
  "\<exists>c' k2 e2. read_block failing_ops (BLOCK_COUNT * BLOCK_SIZE) False (full_cache, \<lambda>k. replicate VMO_SIZE 0) =
       ((c', \<lambda>k. replicate VMO_SIZE 0), Inl (ZxStatus UNAVAILABLE)) \<and> (k2, e2) \<in> set (cmap c') \<and>
     get_block failing_ops ((BLOCK_COUNT + 1) * BLOCK_SIZE) True (c', \<lambda>k. replicate VMO_SIZE 0) =
       ((c', \<lambda>k. replicate VMO_SIZE 0), Inr (vmo_offset e2, False))"
proof -
  let ?v = "\<lambda>k :: nat. replicate VMO_SIZE (0 :: 8 word)"
  let ?f = "\<lambda>i. (i * BLOCK_SIZE, \<lparr> vmo_offset = i * BLOCK_SIZE, dirty = False \<rparr>)"
  have pos: "0 < BLOCK_COUNT" "BLOCK_COUNT - 1 \<noteq> 0"
    by (simp_all add: BLOCK_COUNT_def VMO_SIZE_def BLOCK_SIZE_def)
  have m: "cmap full_cache = (0, \<lparr> vmo_offset = 0, dirty = False \<rparr>) # map ?f [1 ..< BLOCK_COUNT]"
    using pos(1) by (simp add: full_cache_def upt_conv_Cons)
  have none: "map_of (cmap full_cache) (n * BLOCK_SIZE) = None" if "BLOCK_COUNT \<le> n" for n
    using that by (auto simp: full_cache_def map_of_eq_None_iff)
  let ?c' = "full_cache\<lparr> cmap := map ?f [1 ..< BLOCK_COUNT],
      stats := (stats full_cache)\<lparr> read_count := read_count (stats full_cache) + 1 \<rparr> \<rparr>"
  have len: "length (cmap full_cache) = BLOCK_COUNT" by (simp add: full_cache_def)
  have run: "read_block failing_ops (BLOCK_COUNT * BLOCK_SIZE) False (full_cache, ?v) =
      ((?c', ?v), Inl (ZxStatus UNAVAILABLE))"
    using none [of BLOCK_COUNT] len m
    by (simp add: read_block_def get_block_def cache_device_read_def failing_ops_def device_size_def full_cache_def)
  have "map_of (map ?f [1 ..< BLOCK_COUNT]) (n * BLOCK_SIZE) = None" if "BLOCK_COUNT \<le> n" for n
    using that by (auto simp: map_of_eq_None_iff)
  from this [of "BLOCK_COUNT + 1"] have "map_of (cmap ?c') ((BLOCK_COUNT + 1) * BLOCK_SIZE) = None"
    by simp
  from failed_read_aliases_slot [OF full_cache_inv m len _ _ none [OF le_refl] run this] pos run
  show ?thesis by auto
qed

end
