(* ===== verification/Block_Session.thy ===== *)
theory Block_Session
  imports Block_Transfer
begin

text \<open>
  Sessions of the block client: how \<open>RemoteBlockClient\<close> and \<open>RemoteBlockClientSync\<close> are set up over the
  FIDL interface of a block device, attach memory objects, and are closed and dropped. The device's FIDL methods and
  the kernel are arguments of the model.
\<close>

section \<open>The device and the kernel\<close>

text \<open>
  The methods of \<open>fuchsia.hardware.block.Block\<close>: each may fail as a FIDL call (\<open>Inl\<close>), and answers a status and
  perhaps a value. \<open>get_info\<close> answers the block size and the number of blocks.
\<close>

record 'd block_service =
  sv_get_info :: "'d \<Rightarrow> 'd \<times> (status \<times> (nat \<times> nat) option) io_result"
  sv_get_fifo :: "'d \<Rightarrow> 'd \<times> (status \<times> unit option) io_result"
  sv_attach_vmo :: "koid \<Rightarrow> 'd \<Rightarrow> 'd \<times> (status \<times> VmoId option) io_result"
  sv_close_fifo :: "'d \<Rightarrow> 'd \<times> status io_result"

record session_kernel =
  sk_from_channel :: "unit io_result"
  sk_from_fifo :: "unit io_result"
  sk_executor :: bool
  sk_vmo_create :: "nat \<Rightarrow> vmos \<Rightarrow> (koid \<times> vmos) io_result"
  sk_duplicate :: "koid \<Rightarrow> koid io_result"

definition ok_or :: "status \<Rightarrow> 'a option \<Rightarrow> 'a io_result" where
  "ok_or st m = (case m of None \<Rightarrow> Inl (ZxStatus st) | Some a \<Rightarrow> Inr a)"

text \<open>A method of the device on the state with the memory objects.\<close>

definition on_service :: "('d \<Rightarrow> 'd \<times> 'a io_result) \<Rightarrow> 'd world \<Rightarrow> 'd world \<times> 'a io_result" where
  "on_service f = (\<lambda>(d, v). case f d of (d', r) \<Rightarrow> ((d', v), r))"

definition create_vmo :: "session_kernel \<Rightarrow> 'd world \<Rightarrow> 'd world \<times> koid io_result" where
  "create_vmo ker = (\<lambda>(d, v).
     case sk_vmo_create ker TEMP_VMO_SIZE v of Inl e \<Rightarrow> ((d, v), Inl e) | Inr (k, v') \<Rightarrow> ((d, v'), Inr k))"

section \<open>RemoteBlockClient\<close>

definition remote_attach_vmo :: "session_kernel \<Rightarrow> 'd block_service \<Rightarrow> koid \<Rightarrow> 'd world \<Rightarrow> 'd world \<times> VmoId io_result" where
  "remote_attach_vmo ker svc k s =
     io_bind (io_lift (sk_duplicate ker k) s) (\<lambda>k' s.
     io_bind (on_service (sv_attach_vmo svc k') s) (\<lambda>(st, i) s. io_lift (ok_or st i) s))"

definition remote_new :: "session_kernel \<Rightarrow> 'd block_service \<Rightarrow> 'd world \<Rightarrow> 'd world \<times> common io_result" where
  "remote_new ker svc s =
     io_bind (io_lift (sk_from_channel ker) s) (\<lambda>_ s.
     io_bind (on_service (sv_get_info svc) s) (\<lambda>(st, i) s.
     io_bind (io_lift (ok_or st i) s) (\<lambda>info s.
     io_bind (on_service (sv_get_fifo svc) s) (\<lambda>(st, f) s.
     io_bind (io_lift (ok_or st f) s) (\<lambda>_ s.
     io_bind (io_lift (sk_from_fifo ker) s) (\<lambda>_ s.
     io_bind (create_vmo ker s) (\<lambda>temp s.
     io_bind (remote_attach_vmo ker svc temp s) (\<lambda>i s.
       (s, Inr (common_new (fst info) (snd info) temp i))))))))))"

section \<open>RemoteBlockClientSync\<close>

text \<open>
  The last part of \<open>new\<close> runs in a thread of its own. If the fifo cannot be registered, the error is sent to the
  caller and the thread ends, which drops the id of the temporary object: the second component says that the
  thread panicked there. Without an executor the thread panics while it holds the id, and the second
  panic ends the process.
\<close>

definition sync_thread :: "session_kernel \<Rightarrow> nat \<times> nat \<Rightarrow> koid \<Rightarrow> VmoId \<Rightarrow> common io_result \<times> bool" where
  "sync_thread ker info temp i =
     (if \<not> sk_executor ker then (if vmo_id_is_valid i then Inl IoPanic else Inl Message, True)
      else case sk_from_fifo ker of
             Inr _ \<Rightarrow> (Inr (common_new (fst info) (snd info) temp i), False)
           | Inl e \<Rightarrow> (Inl e, vmo_id_drop i \<noteq> Inr ()))"

definition sync_new :: "session_kernel \<Rightarrow> 'd block_service \<Rightarrow> 'd world \<Rightarrow> 'd world \<times> common io_result \<times> bool" where
  "sync_new ker svc s =
     (case
        io_bind (on_service (sv_get_info svc) s) (\<lambda>(st, i) s.
        io_bind (io_lift (ok_or st i) s) (\<lambda>info s.
        io_bind (on_service (sv_get_fifo svc) s) (\<lambda>(st, f) s.
        io_bind (io_lift (ok_or st f) s) (\<lambda>_ s.
        io_bind (create_vmo ker s) (\<lambda>temp s.
        io_bind (remote_attach_vmo ker svc temp s) (\<lambda>i s. (s, Inr (info, temp, i))))))))
      of
        (s, Inl e) \<Rightarrow> (s, Inl e, False)
      | (s, Inr (info, temp, i)) \<Rightarrow> (s, sync_thread ker info temp i))"

definition session_close :: "'d block_service \<Rightarrow> common \<times> 'd world \<Rightarrow> (common \<times> 'd world) \<times> unit io_result" where
  "session_close svc = (\<lambda>(c, s).
     let c' = c\<lparr> cm_temp_vmo_id := fst (vmo_id_take (cm_temp_vmo_id c)) \<rparr>
     in case on_service (sv_close_fifo svc) s of
          (s', Inl e) \<Rightarrow> ((c', s'), Inl e)
        | (s', Inr st) \<Rightarrow> ((c', s'), status_result st))"

definition sync_drop :: "'d block_service \<Rightarrow> common \<times> 'd world \<Rightarrow> (common \<times> 'd world) \<times> waker list" where
  "sync_drop svc cs =
     (let ((c, s), _) = session_close svc cs; (c', wk) = common_drop c in ((c', s), wk))"

section \<open>A session from its start\<close>

text \<open>
  What the client relies on: the kernel creates and duplicates memory objects and registers the fifo, the device
  reports its geometry, hands out its fifo, and registers each memory object under a valid id
  without changing its contents. Closing the fifo forgets the registered objects.
\<close>

definition serves_session ::
  "session_kernel \<Rightarrow> 'd block_service \<Rightarrow> ('d \<Rightarrow> bytes) \<Rightarrow> ('d \<Rightarrow> VmoId \<Rightarrow> koid option) \<Rightarrow> nat \<Rightarrow> bool" where
  "serves_session ker svc content reg bs \<longleftrightarrow>
     sk_from_channel ker = Inr () \<and> sk_from_fifo ker = Inr () \<and> sk_executor ker \<and>
     (\<forall>n v. \<exists>k. sk_vmo_create ker n v = Inr (k, v(k := replicate n 0))) \<and>
     (\<forall>k. sk_duplicate ker k = Inr k) \<and>
     (\<forall>d. sv_get_info svc d = (d, Inr (OK, Some (bs, length (content d) div bs)))) \<and>
     (\<forall>d. sv_get_fifo svc d = (d, Inr (OK, Some ()))) \<and>
     (\<forall>k d. \<exists>d' i. sv_attach_vmo svc k d = (d', Inr (OK, Some i)) \<and> i \<noteq> BLOCK_VMOID_INVALID \<and>
        content d' = content d \<and> reg d' = (reg d)(i \<mapsto> k)) \<and>
     (\<forall>d. \<exists>d'. sv_close_fifo svc d = (d', Inr OK) \<and> content d' = content d \<and> reg d' = Map.empty)"

lemma attach_registers:
  assumes "serves_session ker svc content reg bs"
  obtains d' i where "remote_attach_vmo ker svc k (d, v) = ((d', v), Inr i)" and "i \<noteq> BLOCK_VMOID_INVALID"
    and "content d' = content d" and "reg d' = (reg d)(i \<mapsto> k)"
proof -
  obtain d' i where a: "sv_attach_vmo svc k d = (d', Inr (OK, Some i))" "i \<noteq> BLOCK_VMOID_INVALID"
    "content d' = content d" "reg d' = (reg d)(i \<mapsto> k)"
    using assms unfolding serves_session_def by blast
  show thesis
    using a assms by (intro that [of d' i]) (simp_all add: remote_attach_vmo_def on_service_def ok_or_def serves_session_def io_lift_def io_bind_def)
qed

lemma session_starts:
  assumes "serves_session ker svc content reg bs"
  obtains d' k i where
    "remote_new ker svc (d, v) = ((d', v(k := replicate TEMP_VMO_SIZE 0)), Inr (common_new bs (length (content d) div bs) k i))"
    and "sync_new ker svc (d, v) = ((d', v(k := replicate TEMP_VMO_SIZE 0)), Inr (common_new bs (length (content d) div bs) k i), False)"
    and "content d' = content d" and "reg d' = (reg d)(i \<mapsto> k)"
proof -
  obtain k where k: "sk_vmo_create ker TEMP_VMO_SIZE v = Inr (k, v(k := replicate TEMP_VMO_SIZE 0))"
    using assms unfolding serves_session_def by blast
  obtain d' i where a: "remote_attach_vmo ker svc k (d, v(k := replicate TEMP_VMO_SIZE 0)) =
      ((d', v(k := replicate TEMP_VMO_SIZE 0)), Inr i)" "content d' = content d" "reg d' = (reg d)(i \<mapsto> k)"
    using attach_registers [OF assms] .
  note simps = serves_session_def on_service_def ok_or_def create_vmo_def k a sync_thread_def
  show thesis
    using assms a(2,3)
    by (intro that [of d' k i]) (simp_all add: remote_new_def sync_new_def simps)
qed

lemma session_connected:
  assumes "serves_session ker svc content reg bs" and "0 < bs" and "bs dvd length (content d)" and "length (content d) < 2 ^ 64"
  obtains c d' v' where "remote_new ker svc (d, v) = ((d', v'), Inr c)" and "sync_new ker svc (d, v) = ((d', v'), Inr c, False)"
    and "content d' = content d" and "connected_to content reg bs (c, d', v')" and "remote_live content bs (c, d')"
    and "cm_block_count c * bs = length (content d)"
proof -
  obtain d' k i where n:
    "remote_new ker svc (d, v) = ((d', v(k := replicate TEMP_VMO_SIZE 0)), Inr (common_new bs (length (content d) div bs) k i))"
    "sync_new ker svc (d, v) = ((d', v(k := replicate TEMP_VMO_SIZE 0)), Inr (common_new bs (length (content d) div bs) k i), False)"
    "content d' = content d" "reg d' = (reg d)(i \<mapsto> k)"
    using session_starts [OF assms(1), of d v] .
  show thesis
    by (rule that [OF n(1,2,3)])
      (use n(3,4) assms(2-) in \<open>auto simp: connected_to_def remote_live_def common_new_def idle_def new_fifo_state_def\<close>)
qed

text \<open>C30. A session with a block device works from its start. If the kernel and the device do what the client relies
  on, both \<open>RemoteBlockClient::new\<close> and \<open>RemoteBlockClientSync::new\<close> succeed with the device's geometry and leave its
  contents alone; a memory slice written at any aligned place within the device replaces exactly that range
  and is read back; an object attached to the session gets a valid id under which the device knows it,
  and the session is then a live block client; and closing the session keeps what was written.\<close>

theorem block_session_roundtrip:
  assumes "serves_blocks serve content reg bs" and "serves_session ker svc content reg bs"
    and "0 < bs" and "bs dvd length (content d)" and "length (content d) < 2 ^ 64" and "bs dvd TEMP_VMO_SIZE"
    and "bs dvd doff" and "bs dvd length b" and "doff + length b \<le> length (content d)"
  shows "\<exists>c d1 v1 c2 d2 v2 s3 c4 d4 v4 d5 i.
     remote_new ker svc (d, v) = ((d1, v1), Inr c) \<and> sync_new ker svc (d, v) = ((d1, v1), Inr c, False) \<and>
     cm_block_count c * bs = length (content d) \<and> content d1 = content d \<and>
     common_write_at h serve (MemorySlice b) doff (c, d1, v1) = ((c2, d2, v2), Inr ()) \<and>
     content d2 = overwrite (content d) doff b \<and>
     common_read_at h serve (MutMemorySlice (length b)) doff (c2, d2, v2) = (s3, Inr b) \<and>
     session_close svc (c2, d2, v2) = ((c4, d4, v4), Inr ()) \<and> content d4 = content d2 \<and>
     remote_attach_vmo ker svc k (d1, v1) = ((d5, v1), Inr i) \<and> vmo_id_is_valid i \<and>
     reg d5 i = Some k \<and> remote_live content bs (c, d5)"
proof -
  obtain c d1 v1 where new: "remote_new ker svc (d, v) = ((d1, v1), Inr c)"
    "sync_new ker svc (d, v) = ((d1, v1), Inr c, False)" "content d1 = content d"
    "connected_to content reg bs (c, d1, v1)" "remote_live content bs (c, d1)"
    "cm_block_count c * bs = length (content d)"
    using session_connected [OF assms(2-5)] .
  obtain c2 d2 v2 s3 where io:
    "common_write_at h serve (MemorySlice b) doff (c, d1, v1) = ((c2, d2, v2), Inr ())"
    "content d2 = overwrite (content d1) doff b"
    "common_read_at h serve (MutMemorySlice (length b)) doff (c2, d2, v2) = (s3, Inr b)"
    using memory_transfer_roundtrip [OF assms(1) new(4) assms(6-8)] assms(9) new(3) by metis
  obtain d4 where "sv_close_fifo svc d2 = (d4, Inr OK)" "content d4 = content d2"
    using assms(2) unfolding serves_session_def by blast
  then have close: "\<exists>c4 v4. session_close svc (c2, d2, v2) = ((c4, d4, v4), Inr ()) \<and> content d4 = content d2"
    by (simp add: session_close_def on_service_def status_result_def Let_def)
  obtain d5 i where att: "remote_attach_vmo ker svc k (d1, v1) = ((d5, v1), Inr i)" "i \<noteq> BLOCK_VMOID_INVALID"
    "content d5 = content d1" "reg d5 = (reg d1)(i \<mapsto> k)"
    using attach_registers [OF assms(2)] .
  have "vmo_id_is_valid i" "reg d5 i = Some k" "remote_live content bs (c, d5)"
    using att new(5) by (simp_all add: vmo_id_is_valid_def remote_live_def)
  then show ?thesis using new io close att(1) by metis
qed

definition example_kernel :: session_kernel where
  "example_kernel =
     \<lparr> sk_from_channel = Inr (), sk_from_fifo = Inr (), sk_executor = True,
       sk_vmo_create = (\<lambda>n v. Inr (5, v(5 := replicate n 0))), sk_duplicate = Inr \<rparr>"

definition example_service :: "(bytes \<times> (VmoId \<Rightarrow> koid option)) block_service" where
  "example_service =
     \<lparr> sv_get_info = (\<lambda>d. (d, Inr (OK, Some (2, length (fst d) div 2)))),
       sv_get_fifo = (\<lambda>d. (d, Inr (OK, Some ()))),
       sv_attach_vmo = (\<lambda>k d. ((fst d, (snd d)(word_of_nat (k mod 2) + 1 \<mapsto> k)), Inr (OK, Some (word_of_nat (k mod 2) + 1)))),
       sv_close_fifo = (\<lambda>d. ((fst d, Map.empty), Inr OK)) \<rparr>"

lemma example_session: "serves_session example_kernel example_service fst snd 2"
proof -
  have "(word_of_nat (k mod 2) + 1 :: 16 word) \<noteq> 0" for k
    by (cases "even k") (simp_all add: odd_iff_mod_2_eq_one)
  then show ?thesis
    by (auto simp: serves_session_def example_kernel_def example_service_def BLOCK_VMOID_INVALID_def)
qed

theorem block_session_roundtrip_witness:
  "\<exists>c d1 v1 c2 d2 v2 s3.
     remote_new example_kernel example_service ((replicate 8 0, Map.empty), \<lambda>_. []) = ((d1, v1), Inr c) \<and>
     common_write_at 0 (list_server 2) (MemorySlice [1, 2, 3, 4]) 2 (c, d1, v1) = ((c2, d2, v2), Inr ()) \<and>
     fst d2 = [0, 0, 1, 2, 3, 4, 0, 0] \<and>
     common_read_at 0 (list_server 2) (MutMemorySlice 4) 2 (c2, d2, v2) = (s3, Inr [1, 2, 3, 4])"
proof -
  have "overwrite (replicate 8 0) 2 [1, 2, 3, 4] = [0, 0, 1, 2, 3, 4, 0, 0 :: 8 word]"
    by (simp add: overwrite_def numeral_eq_Suc)
  moreover have "2 dvd TEMP_VMO_SIZE" by (simp add: TEMP_VMO_SIZE_def)
  moreover have len: "length [1, 2, 3, 4 :: 8 word] = 4" by simp
  ultimately show ?thesis
    using block_session_roundtrip [OF list_server_serves example_session, of "(replicate 8 0, Map.empty)" 2 "[1, 2, 3, 4]" "\<lambda>_. []" 0,
        unfolded len] by fastforce
qed

text \<open>
  If the fifo cannot be registered, \<open>RemoteBlockClientSync::new\<close> reports the error, but the id that the device has just
  handed out is dropped in the thread, whose assertion then fails; \<open>RemoteBlockClient::new\<close> registers the fifo before
  it attaches the object.
\<close>

lemma failed_fifo_drops_id:
  assumes "serves_session ker svc content reg bs" and "ker' = ker\<lparr> sk_from_fifo := Inl e \<rparr>"
  shows "\<exists>s. sync_new ker' svc (d, v) = (s, Inl e, True)" and "remote_new ker' svc (d, v) = ((d, v), Inl e)"
proof -
  obtain k where k: "sk_vmo_create ker TEMP_VMO_SIZE v = Inr (k, v(k := replicate TEMP_VMO_SIZE 0))"
    using assms(1) unfolding serves_session_def by blast
  obtain d' i where a: "remote_attach_vmo ker svc k (d, v(k := replicate TEMP_VMO_SIZE 0)) =
      ((d', v(k := replicate TEMP_VMO_SIZE 0)), Inr i)" "i \<noteq> BLOCK_VMOID_INVALID"
    using attach_registers [OF assms(1)] .
  have att: "remote_attach_vmo ker' svc = remote_attach_vmo ker svc"
    by (simp add: fun_eq_iff remote_attach_vmo_def assms(2))
  note simps = serves_session_def on_service_def ok_or_def create_vmo_def k a att sync_thread_def vmo_id_drop_def
  show "\<exists>s. sync_new ker' svc (d, v) = (s, Inl e, True)"
    using assms(1) a(2) unfolding sync_new_def by (simp add: simps, simp add: assms(2) simps)
  show "remote_new ker' svc (d, v) = ((d, v), Inl e)"
    using assms(1) by (simp add: remote_new_def assms(2) simps)
qed

end
