(* ===== verification/Recursive_Watch.thy ===== *)
theory Recursive_Watch
  imports Watchers "HOL-Library.Multiset"
begin

text \<open>
  The stream adapters of \<open>fuchsia-watch\<close>: watching a path, and watching all directories under a path. The
  filesystem of the process is the environment: which nodes can be opened and what they describe
  themselves as, and the messages that the watcher of each directory delivers. A watched directory is a pair of
  tasks with a bounded channel between them; the steps of all tasks interleave freely.
\<close>

section \<open>Node types and events\<close>

datatype NodeType = NtUnknown | NtFile | NtDirectory

datatype NodeInfo = InfoDirectory | InfoFile | InfoVmofile | InfoOther

datatype PathEvent =
    PathAdded string NodeType
  | PathExisting string NodeType
  | PathRemoved string

fun path_event_path :: "PathEvent \<Rightarrow> string" where
  "path_event_path (PathAdded p _) = p"
| "path_event_path (PathExisting p _) = p"
| "path_event_path (PathRemoved p) = p"

datatype watch_error = NotUtf8 | WatchFailed status

text \<open>
  The environment: opening a node and describing it, and opening a directory and watching it. The watcher
  delivers a list of messages, and then ends (its channel is closed) or stays silent.
\<close>

record watch_env =
  we_open :: "string \<Rightarrow> status + (status + NodeInfo)"
  we_watch :: "string \<Rightarrow> status + (WatchMessage list \<times> bool)"

text \<open>\<open>to_str\<close> accepts well-formed UTF-8.\<close>

definition utf8_cont :: "nat \<Rightarrow> bool" where
  "utf8_cont b \<longleftrightarrow> 0x80 \<le> b \<and> b \<le> 0xBF"

fun utf8_valid :: "nat list \<Rightarrow> bool" where
  "utf8_valid [] \<longleftrightarrow> True"
| "utf8_valid (b # bs) \<longleftrightarrow>
     (if b < 0x80 then utf8_valid bs
      else case bs of
        [] \<Rightarrow> False
      | c1 # bs1 \<Rightarrow>
          if 0xC2 \<le> b \<and> b \<le> 0xDF then utf8_cont c1 \<and> utf8_valid bs1
          else case bs1 of
            [] \<Rightarrow> False
          | c2 # bs2 \<Rightarrow>
              if 0xE0 \<le> b \<and> b \<le> 0xEF
              then utf8_cont c1 \<and> (b = 0xE0 \<longrightarrow> 0xA0 \<le> c1) \<and> (b = 0xED \<longrightarrow> c1 \<le> 0x9F) \<and> utf8_cont c2 \<and> utf8_valid bs2
              else case bs2 of
                [] \<Rightarrow> False
              | c3 # bs3 \<Rightarrow>
                  0xF0 \<le> b \<and> b \<le> 0xF4 \<and> utf8_cont c1 \<and> (b = 0xF0 \<longrightarrow> 0x90 \<le> c1) \<and> (b = 0xF4 \<longrightarrow> c1 \<le> 0x8F) \<and>
                  utf8_cont c2 \<and> utf8_cont c3 \<and> utf8_valid bs3)"

definition path_to_str :: "string \<Rightarrow> watch_error + string" where
  "path_to_str p = (if utf8_valid (map of_char p) then Inr p else Inl NotUtf8)"

definition node_type_from_path :: "watch_env \<Rightarrow> string \<Rightarrow> watch_error + NodeType" where
  "node_type_from_path E path =
     (case path_to_str path of
        Inl e \<Rightarrow> Inl e
      | Inr p \<Rightarrow>
          (case we_open E p of
             Inl st \<Rightarrow> Inl (WatchFailed st)
           | Inr (Inr InfoDirectory) \<Rightarrow> Inr NtDirectory
           | Inr (Inr InfoFile) \<Rightarrow> Inr NtFile
           | Inr (Inr InfoVmofile) \<Rightarrow> Inr NtFile
           | Inr _ \<Rightarrow> Inr NtUnknown))"

section \<open>Watching one directory\<close>

text \<open>\<open>PathBuf::join\<close>.\<close>

definition path_join :: "string \<Rightarrow> string \<Rightarrow> string" where
  "path_join p n =
     (if n \<noteq> [] \<and> hd n = CHR ''/'' then n
      else if p = [] \<or> last p = CHR ''/'' then p @ n else p @ ''/'' @ n)"

text \<open>One round of the loop of \<open>inner_watch\<close>: what is sent for a message, if anything.\<close>

definition watch_message :: "fio \<Rightarrow> watch_env \<Rightarrow> string \<Rightarrow> WatchMessage \<Rightarrow> PathEvent option" where
  "watch_message K E path m =
     (if wm_filename m = ''.'' then None
      else
        let file_path = path_join path (wm_filename m)
        in if wm_event m = watch_event_primitive K EvExisting then
             (case node_type_from_path E file_path of Inl _ \<Rightarrow> None | Inr t \<Rightarrow> Some (PathExisting file_path t))
           else if wm_event m = watch_event_primitive K EvAdded then
             (case node_type_from_path E file_path of Inl _ \<Rightarrow> None | Inr t \<Rightarrow> Some (PathAdded file_path t))
           else if wm_event m = watch_event_primitive K EvRemoved then Some (PathRemoved file_path)
           else None)"

definition inner_watch :: "watch_env \<Rightarrow> string \<Rightarrow> watch_error + (WatchMessage list \<times> bool)" where
  "inner_watch E path =
     (case path_to_str path of
        Inl e \<Rightarrow> Inl e
      | Inr p \<Rightarrow> (case we_watch E p of Inl st \<Rightarrow> Inl (WatchFailed st) | Inr w \<Rightarrow> Inr w))"

section \<open>Watching recursively\<close>

text \<open>One event of the stream of a directory: the path to watch next, its flag, and the event to send.\<close>

fun recursive_event :: "bool \<Rightarrow> PathEvent \<Rightarrow> string option \<times> bool \<times> PathEvent" where
  "recursive_event existing (PathAdded p t) =
     (if t = NtDirectory then Some p else None, False, PathAdded p t)"
| "recursive_event existing (PathExisting p t) =
     (if t = NtDirectory then Some p else None, existing, if existing then PathExisting p t else PathAdded p t)"
| "recursive_event existing (PathRemoved p) = (None, existing, PathRemoved p)"

text \<open>
  A task of \<open>inner_watch_recursive\<close>, before and after it has called \<open>watch\<close>. The running task has the messages
  that its watcher still delivers, the channel from the task of \<open>inner_watch\<close> (which holds two events: one slot of the
  channel and one of the sender), and whether the watcher ends after the messages.
\<close>

datatype watch_task =
    Starting string bool
  | Running string bool "WatchMessage list" "PathEvent list" bool

definition channel_slots :: nat where
  "channel_slots = 2"

record rw_state =
  rw_tasks :: "watch_task list"
  rw_sent :: "(watch_error + PathEvent) list"
  rw_open :: bool

datatype rw_action = ActStart nat | ActProduce nat | ActConsume nat | ActFinish nat | ActClose

definition remove_nth :: "nat \<Rightarrow> 'a list \<Rightarrow> 'a list" where
  "remove_nth i xs = take i xs @ drop (Suc i) xs"

definition task_start :: "watch_env \<Rightarrow> nat \<Rightarrow> rw_state \<Rightarrow> rw_state option" where
  "task_start E i s =
     (case rw_tasks s ! i of
        Starting p existing \<Rightarrow>
          (case inner_watch E p of
             Inl e \<Rightarrow>
               Some (s\<lparr> rw_tasks := remove_nth i (rw_tasks s),
                        rw_sent := rw_sent s @ (if rw_open s then [Inl e] else []) \<rparr>)
           | Inr (ms, ends) \<Rightarrow> Some (s\<lparr> rw_tasks := (rw_tasks s)[i := Running p existing ms [] ends] \<rparr>))
      | _ \<Rightarrow> None)"

definition task_produce :: "fio \<Rightarrow> watch_env \<Rightarrow> nat \<Rightarrow> rw_state \<Rightarrow> rw_state option" where
  "task_produce K E i s =
     (case rw_tasks s ! i of
        Running p existing (m # ms) q ends \<Rightarrow>
          if length q < channel_slots then
            Some (s\<lparr> rw_tasks := (rw_tasks s)
              [i := Running p existing ms (case watch_message K E p m of None \<Rightarrow> q | Some ev \<Rightarrow> q @ [ev]) ends] \<rparr>)
          else None
      | _ \<Rightarrow> None)"

definition task_consume :: "nat \<Rightarrow> rw_state \<Rightarrow> rw_state option" where
  "task_consume i s =
     (case rw_tasks s ! i of
        Running p existing ms (ev # q) ends \<Rightarrow>
          (case recursive_event existing ev of
             (next_path, next_existing, send_event) \<Rightarrow>
               if rw_open s then
                 Some (s\<lparr> rw_tasks := (rw_tasks s)[i := Running p existing ms q ends] @
                            (case next_path of None \<Rightarrow> [] | Some p' \<Rightarrow> [Starting p' next_existing]),
                          rw_sent := rw_sent s @ [Inr send_event] \<rparr>)
               else Some (s\<lparr> rw_tasks := remove_nth i (rw_tasks s) \<rparr>))
      | _ \<Rightarrow> None)"

definition task_finish :: "nat \<Rightarrow> rw_state \<Rightarrow> rw_state option" where
  "task_finish i s =
     (case rw_tasks s ! i of
        Running p existing [] [] True \<Rightarrow> Some (s\<lparr> rw_tasks := remove_nth i (rw_tasks s) \<rparr>)
      | _ \<Rightarrow> None)"

fun rw_act :: "fio \<Rightarrow> watch_env \<Rightarrow> rw_action \<Rightarrow> rw_state \<Rightarrow> rw_state option" where
  "rw_act K E (ActStart i) s = (if i < length (rw_tasks s) then task_start E i s else None)"
| "rw_act K E (ActProduce i) s = (if i < length (rw_tasks s) then task_produce K E i s else None)"
| "rw_act K E (ActConsume i) s = (if i < length (rw_tasks s) then task_consume i s else None)"
| "rw_act K E (ActFinish i) s = (if i < length (rw_tasks s) then task_finish i s else None)"
| "rw_act K E ActClose s = Some (s\<lparr> rw_open := False \<rparr>)"

fun rw_run :: "fio \<Rightarrow> watch_env \<Rightarrow> rw_action list \<Rightarrow> rw_state \<Rightarrow> rw_state option" where
  "rw_run K E [] s = Some s"
| "rw_run K E (a # as) s = (case rw_act K E a s of None \<Rightarrow> None | Some s' \<Rightarrow> rw_run K E as s')"

definition watch_recursive :: "string \<Rightarrow> rw_state" where
  "watch_recursive path = \<lparr> rw_tasks = [Starting path True], rw_sent = [], rw_open = True \<rparr>"

section \<open>A tree that does not change\<close>

text \<open>
  The specification: the nodes under a directory, each with its type. An environment serves the tree if the watcher
  of each directory delivers an existing-event for each of its entries, and besides only the directory itself
  and the mark that the existing entries are listed, and if the entries describe themselves truly.
\<close>

datatype fs_tree = FileTree | OtherTree | DirTree "(string \<times> fs_tree) list"

fun tree_type :: "fs_tree \<Rightarrow> NodeType" where
  "tree_type FileTree = NtFile"
| "tree_type OtherTree = NtUnknown"
| "tree_type (DirTree _) = NtDirectory"

definition reported :: "bool \<Rightarrow> string \<Rightarrow> NodeType \<Rightarrow> PathEvent" where
  "reported existing p t = (if existing then PathExisting p t else PathAdded p t)"

fun tree_events :: "bool \<Rightarrow> string \<Rightarrow> fs_tree \<Rightarrow> PathEvent list" where
  "tree_events existing p (DirTree cs) =
     concat (map (\<lambda>(n, t). reported existing (path_join p n) (tree_type t) # tree_events existing (path_join p n) t) cs)"
| "tree_events existing p _ = []"

text \<open>The number of steps that reporting a tree takes: one to start each directory, one for each message and each event.\<close>

definition env_messages :: "watch_env \<Rightarrow> string \<Rightarrow> WatchMessage list" where
  "env_messages E p = (case we_watch E p of Inl _ \<Rightarrow> [] | Inr (ms, _) \<Rightarrow> ms)"

fun tree_steps :: "watch_env \<Rightarrow> string \<Rightarrow> fs_tree \<Rightarrow> nat" where
  "tree_steps E p (DirTree cs) =
     1 + length (env_messages E p) + sum_list (map (\<lambda>(n, t). 1 + tree_steps E (path_join p n) t) cs)"
| "tree_steps E p _ = 0"

definition serves_tree :: "fio \<Rightarrow> watch_env \<Rightarrow> (string \<Rightarrow> fs_tree) \<Rightarrow> bool" where
  "serves_tree K E tree_of \<longleftrightarrow>
     inj (watch_event_primitive K) \<and>
     (\<forall>p cs. tree_of p = DirTree cs \<longrightarrow>
        (\<exists>ms. inner_watch E p = Inr (ms, False) \<and>
           filter (\<lambda>m. wm_filename m \<noteq> ''.'' \<and> wm_event m \<noteq> watch_event_primitive K EvIdle) ms =
           map (\<lambda>(n, _). record_msg K EvExisting n) cs) \<and>
        (\<forall>(n, t) \<in> set cs. n \<noteq> ''.'' \<and> node_type_from_path E (path_join p n) = Inr (tree_type t) \<and> tree_of (path_join p n) = t))"

text \<open>What an event, and a task, still has to report, and how many steps that takes.\<close>

definition event_owes :: "(string \<Rightarrow> fs_tree) \<Rightarrow> bool \<Rightarrow> PathEvent \<Rightarrow> PathEvent list" where
  "event_owes tree_of existing ev =
     (case recursive_event existing ev of (np, nex, sev) \<Rightarrow>
        sev # (case np of None \<Rightarrow> [] | Some p \<Rightarrow> tree_events nex p (tree_of p)))"

definition event_steps :: "watch_env \<Rightarrow> (string \<Rightarrow> fs_tree) \<Rightarrow> bool \<Rightarrow> PathEvent \<Rightarrow> nat" where
  "event_steps E tree_of existing ev =
     (case recursive_event existing ev of (np, nex, sev) \<Rightarrow>
        1 + (case np of None \<Rightarrow> 0 | Some p \<Rightarrow> tree_steps E p (tree_of p)))"

definition pending_events :: "fio \<Rightarrow> watch_env \<Rightarrow> string \<Rightarrow> WatchMessage list \<Rightarrow> PathEvent list \<Rightarrow> PathEvent list" where
  "pending_events K E p ms q = q @ List.map_filter (watch_message K E p) ms"

fun task_owes :: "fio \<Rightarrow> watch_env \<Rightarrow> (string \<Rightarrow> fs_tree) \<Rightarrow> watch_task \<Rightarrow> PathEvent multiset" where
  "task_owes K E tree_of (Starting p existing) = mset (tree_events existing p (tree_of p))"
| "task_owes K E tree_of (Running p existing ms q ends) =
     mset (concat (map (event_owes tree_of existing) (pending_events K E p ms q)))"

fun task_steps :: "fio \<Rightarrow> watch_env \<Rightarrow> (string \<Rightarrow> fs_tree) \<Rightarrow> watch_task \<Rightarrow> nat" where
  "task_steps K E tree_of (Starting p existing) = tree_steps E p (tree_of p)"
| "task_steps K E tree_of (Running p existing ms q ends) =
     length ms + sum_list (map (event_steps E tree_of existing) (pending_events K E p ms q))"

text \<open>Tasks are about directories of the tree, and their watchers do not end.\<close>

definition is_dir :: "fs_tree \<Rightarrow> bool" where
  "is_dir t \<longleftrightarrow> tree_type t = NtDirectory"

definition event_known :: "(string \<Rightarrow> fs_tree) \<Rightarrow> bool \<Rightarrow> PathEvent \<Rightarrow> bool" where
  "event_known tree_of existing ev =
     (case fst (recursive_event existing ev) of None \<Rightarrow> True | Some p \<Rightarrow> is_dir (tree_of p))"

fun task_known :: "fio \<Rightarrow> watch_env \<Rightarrow> (string \<Rightarrow> fs_tree) \<Rightarrow> watch_task \<Rightarrow> bool" where
  "task_known K E tree_of (Starting p existing) \<longleftrightarrow> is_dir (tree_of p)"
| "task_known K E tree_of (Running p existing ms q ends) \<longleftrightarrow>
     \<not> ends \<and> list_all (event_known tree_of existing) (pending_events K E p ms q)"

section \<open>Lists of tasks\<close>

lemma split_nth: "i < length xs \<Longrightarrow> \<exists>ys zs. xs = ys @ xs ! i # zs \<and> length ys = i"
  by (intro exI [of _ "take i xs"] exI [of _ "drop (Suc i) xs"]) (simp add: id_take_nth_drop [symmetric])

lemma map_filter_map_Some:
  "(\<And>x. x \<in> set xs \<Longrightarrow> f (g x) = Some (h x)) \<Longrightarrow> List.map_filter f (map g xs) = map h xs"
  by (induction xs) (auto simp: List.map_filter_simps)

lemma map_filter_filter:
  "(\<And>x. \<not> P x \<Longrightarrow> f x = None) \<Longrightarrow> List.map_filter f (filter P xs) = List.map_filter f xs"
  by (induction xs) (auto simp: List.map_filter_simps split: option.splits)

lemma pending_Nil [simp]: "pending_events K E p [] q = q"
  by (simp add: pending_events_def List.map_filter_simps)

lemma pending_produce [simp]:
  "pending_events K E p ms (case watch_message K E p m of None \<Rightarrow> q | Some ev \<Rightarrow> q @ [ev]) = pending_events K E p (m # ms) q"
  by (simp add: pending_events_def List.map_filter_simps split: option.splits)

lemma pending_consume [simp]: "pending_events K E p ms (ev # q) = ev # pending_events K E p ms q"
  by (simp add: pending_events_def)

lemma is_dir_iff: "is_dir t \<longleftrightarrow> (\<exists>cs. t = DirTree cs)"
  by (cases t) (simp_all add: is_dir_def)

section \<open>Every step reports what is owed\<close>

lemma watch_message_ignored:
  assumes "inj (watch_event_primitive K)"
    and "\<not> (wm_filename m \<noteq> ''.'' \<and> wm_event m \<noteq> watch_event_primitive K EvIdle)"
  shows "watch_message K E p m = None"
  using assms by (auto simp: watch_message_def Let_def inj_eq)

lemma watch_message_existing:
  "n \<noteq> ''.'' \<Longrightarrow> node_type_from_path E (path_join p n) = Inr t \<Longrightarrow>
   watch_message K E p (record_msg K EvExisting n) = Some (PathExisting (path_join p n) t)"
  by (simp add: watch_message_def record_msg_def Let_def)

lemma serves_entry:
  assumes "serves_tree K E tree_of" and "tree_of p = DirTree cs" and "(n, t) \<in> set cs"
  shows "n \<noteq> ''.'' \<and> node_type_from_path E (path_join p n) = Inr (tree_type t) \<and> tree_of (path_join p n) = t"
  using assms(1) [unfolded serves_tree_def, THEN conjunct2, THEN spec, THEN spec, THEN mp, OF assms(2), THEN conjunct2,
      THEN bspec, OF assms(3)] by simp

lemma watch_directory:
  assumes "serves_tree K E tree_of" and "tree_of p = DirTree cs"
  shows "inner_watch E p = Inr (env_messages E p, False) \<and>
     pending_events K E p (env_messages E p) [] = map (\<lambda>(n, t). PathExisting (path_join p n) (tree_type t)) cs"
proof -
  let ?rel = "\<lambda>m. wm_filename m \<noteq> ''.'' \<and> wm_event m \<noteq> watch_event_primitive K EvIdle"
  obtain ms where w: "inner_watch E p = Inr (ms, False)"
    and f: "filter ?rel ms = map (\<lambda>(n, _). record_msg K EvExisting n) cs"
    using assms unfolding serves_tree_def by blast
  have m: "env_messages E p = ms"
    using w by (auto simp: env_messages_def inner_watch_def path_to_str_def split: sum.splits if_splits)
  have "List.map_filter (watch_message K E p) ms = List.map_filter (watch_message K E p) (filter ?rel ms)"
    using assms(1) by (intro map_filter_filter [symmetric] watch_message_ignored) (auto simp: serves_tree_def)
  also have "\<dots> = map (\<lambda>(n, t). PathExisting (path_join p n) (tree_type t)) cs"
    unfolding f using serves_entry [OF assms]
    by (intro map_filter_map_Some) (auto intro!: watch_message_existing split: prod.splits)
  finally show ?thesis using w m by (simp add: pending_events_def)
qed

lemma existing_event:
  assumes "serves_tree K E tree_of" and "tree_of p = DirTree cs" and "(n, t) \<in> set cs"
  shows "event_owes tree_of ex (PathExisting (path_join p n) (tree_type t)) =
       reported ex (path_join p n) (tree_type t) # tree_events ex (path_join p n) t"
    and "event_steps E tree_of ex (PathExisting (path_join p n) (tree_type t)) = 1 + tree_steps E (path_join p n) t"
    and "event_known tree_of ex (PathExisting (path_join p n) (tree_type t))"
proof -
  have "tree_of (path_join p n) = t" using serves_entry [OF assms] by simp
  note simps = this event_owes_def event_steps_def event_known_def reported_def is_dir_def
  show "event_owes tree_of ex (PathExisting (path_join p n) (tree_type t)) =
       reported ex (path_join p n) (tree_type t) # tree_events ex (path_join p n) t"
    by (cases t) (simp_all add: simps)
  show "event_steps E tree_of ex (PathExisting (path_join p n) (tree_type t)) = 1 + tree_steps E (path_join p n) t"
    by (cases t) (simp_all add: simps)
  show "event_known tree_of ex (PathExisting (path_join p n) (tree_type t))"
    by (cases t) (simp_all add: simps)
qed

lemma start_owes:
  assumes "serves_tree K E tree_of" and "is_dir (tree_of p)"
  obtains ms where "inner_watch E p = Inr (ms, False)"
    and "task_owes K E tree_of (Running p ex ms [] False) = task_owes K E tree_of (Starting p ex)"
    and "task_steps K E tree_of (Starting p ex) = Suc (task_steps K E tree_of (Running p ex ms [] False))"
    and "task_known K E tree_of (Running p ex ms [] False)"
proof -
  obtain cs where cs: "tree_of p = DirTree cs" using assms(2) by (auto simp: is_dir_iff)
  note w = watch_directory [OF assms(1) cs] and e = existing_event [OF assms(1) cs]
  have "map (\<lambda>x. event_owes tree_of ex (case x of (n, t) \<Rightarrow> PathExisting (path_join p n) (tree_type t))) cs =
      map (\<lambda>(n, t). reported ex (path_join p n) (tree_type t) # tree_events ex (path_join p n) t) cs"
    using e(1) by (intro map_cong) auto
  moreover have "map (\<lambda>x. event_steps E tree_of ex (case x of (n, t) \<Rightarrow> PathExisting (path_join p n) (tree_type t))) cs =
      map (\<lambda>(n, t). 1 + tree_steps E (path_join p n) t) cs"
    using e(2) by (intro map_cong) auto
  ultimately show thesis
    using w e(3) cs by (intro that [of "env_messages E p"]) (auto simp: comp_def list_all_iff simp del: map_eq_conv)
qed

text \<open>The invariant: tasks are known, and what was sent together with what is owed does not change.\<close>

definition rw_inv ::
  "fio \<Rightarrow> watch_env \<Rightarrow> (string \<Rightarrow> fs_tree) \<Rightarrow> PathEvent multiset \<Rightarrow> nat \<Rightarrow> rw_state \<Rightarrow> bool" where
  "rw_inv K E tree_of evs n s \<longleftrightarrow>
     rw_open s \<and> list_all (task_known K E tree_of) (rw_tasks s) \<and>
     mset (rw_sent s) + image_mset Inr (sum_list (map (task_owes K E tree_of) (rw_tasks s))) = image_mset Inr evs \<and>
     sum_list (map (task_steps K E tree_of) (rw_tasks s)) = n"

lemma sum_list_mset_cong:
  fixes f :: "'a \<Rightarrow> 'b::comm_monoid_add"
  shows "mset xs = mset ys \<Longrightarrow> sum_list (map f xs) = sum_list (map f ys)"
  by (metis mset_map sum_mset_sum_list)

lemma rw_inv_replace:
  assumes "rw_inv K E tree_of evs n s" and "rw_tasks s = ys @ t # zs" and "list_all (task_known K E tree_of) ts"
    and "task_owes K E tree_of t = mset new + sum_list (map (task_owes K E tree_of) ts)"
    and "task_steps K E tree_of t = Suc (sum_list (map (task_steps K E tree_of) ts))"
    and "mset (rw_tasks s') = mset (ys @ zs @ ts)" and "rw_sent s' = rw_sent s @ map Inr new" and "rw_open s'"
  shows "n > 0 \<and> rw_inv K E tree_of evs (n - 1) s'"
proof -
  note sum_list_cong = sum_list_mset_cong [OF assms(6), of "task_owes K E tree_of"]
    sum_list_mset_cong [OF assms(6), of "task_steps K E tree_of"]
  moreover have "set (rw_tasks s') = set (ys @ zs @ ts)" using assms(6) by (metis set_mset_mset)
  ultimately show ?thesis
    using assms by (auto simp: rw_inv_def list_all_iff ac_simps)
qed

lemma rw_act_index:
  assumes "rw_act K E a s = Some s'" and "a \<noteq> ActClose"
  obtains i t ys zs where "a \<in> {ActStart i, ActProduce i, ActConsume i, ActFinish i}" and "i < length (rw_tasks s)"
    and "rw_tasks s = ys @ t # zs" and "length ys = i" and "rw_tasks s ! i = t"
proof -
  obtain i where i: "a \<in> {ActStart i, ActProduce i, ActConsume i, ActFinish i}" "i < length (rw_tasks s)"
    using assms by (cases a) (auto split: if_splits)
  with split_nth [OF i(2)] that show thesis by metis
qed

lemma rw_inv_act:
  assumes tree: "serves_tree K E tree_of" and inv: "rw_inv K E tree_of evs n s"
    and act: "rw_act K E a s = Some s'" "a \<noteq> ActClose"
  shows "n > 0 \<and> rw_inv K E tree_of evs (n - 1) s'"
proof -
  obtain i t ys zs where i: "a \<in> {ActStart i, ActProduce i, ActConsume i, ActFinish i}" "i < length (rw_tasks s)"
    and t: "rw_tasks s = ys @ t # zs" "length ys = i" "rw_tasks s ! i = t"
    using rw_act_index [OF act] .
  have known: "task_known K E tree_of t" and op: "rw_open s" using inv t by (auto simp: rw_inv_def)
  note upd = list_update_append1 nth_append_length
  show ?thesis
  proof (cases t)
    case (Starting p ex)
    obtain ms where ms: "inner_watch E p = Inr (ms, False)"
      "task_owes K E tree_of (Running p ex ms [] False) = task_owes K E tree_of (Starting p ex)"
      "task_steps K E tree_of (Starting p ex) = Suc (task_steps K E tree_of (Running p ex ms [] False))"
      "task_known K E tree_of (Running p ex ms [] False)"
      using start_owes [OF tree, of p ex] known Starting by auto
    then have "s' = s\<lparr> rw_tasks := ys @ Running p ex ms [] False # zs \<rparr>"
      using act i t Starting by (auto simp: task_start_def task_produce_def task_consume_def task_finish_def)
    then show ?thesis
      using ms op Starting by (intro rw_inv_replace [OF inv t(1), of "[Running p ex ms [] False]" "[]"]) simp_all
  next
    case (Running p ex ms q ends)
    consider m ms' where "ms = m # ms'" "length q < channel_slots" "a = ActProduce i"
      | ev q' where "q = ev # q'" "a = ActConsume i"
      using act i t Running known
      by (auto simp: task_start_def task_produce_def task_consume_def task_finish_def split: list.splits if_splits)
    then show ?thesis
    proof cases
      case 1
      let ?t = "Running p ex ms' (case watch_message K E p m of None \<Rightarrow> q | Some ev \<Rightarrow> q @ [ev]) ends"
      have "s' = s\<lparr> rw_tasks := ys @ ?t # zs \<rparr>" using act t Running 1 i by (auto simp: task_produce_def)
      then show ?thesis
        using op Running 1 known by (intro rw_inv_replace [OF inv t(1), of "[?t]" "[]"]) simp_all
    next
      case 2
      obtain np nex sev where e: "recursive_event ex ev = (np, nex, sev)" by (metis prod_cases3)
      let ?ts = "Running p ex ms q' ends # (case np of None \<Rightarrow> [] | Some p' \<Rightarrow> [Starting p' nex])"
      have s': "rw_tasks s' = ys @ Running p ex ms q' ends # zs @ (case np of None \<Rightarrow> [] | Some p' \<Rightarrow> [Starting p' nex])"
        "rw_sent s' = rw_sent s @ [Inr sev]" "rw_open s'"
        using act t Running 2 i e op by (auto simp: task_consume_def split: option.splits)
      show ?thesis
        using s' op Running 2 known e
        by (intro rw_inv_replace [OF inv t(1), of ?ts "[sev]"])
          (auto simp: event_owes_def event_steps_def event_known_def split: option.splits)
    qed
  qed
qed

lemma rw_inv_run:
  "\<lbrakk> serves_tree K E tree_of; rw_inv K E tree_of evs n s; rw_run K E as s = Some s'; ActClose \<notin> set as \<rbrakk>
   \<Longrightarrow> length as \<le> n \<and> rw_inv K E tree_of evs (n - length as) s'"
proof (induction as arbitrary: s n)
  case Nil
  then show ?case by simp
next
  case (Cons a as)
  then obtain s1 where s1: "rw_act K E a s = Some s1" "rw_run K E as s1 = Some s'" by (auto split: option.splits)
  from rw_inv_act [OF Cons.prems(1,2) s1(1)] Cons.prems(4) have "n > 0" "rw_inv K E tree_of evs (n - 1) s1" by auto
  with Cons.IH [OF Cons.prems(1) _ s1(2), of "n - 1"] Cons.prems(4) show ?case by auto
qed

lemma rw_progress:
  assumes "serves_tree K E tree_of" and "rw_inv K E tree_of evs n s" and "n > 0"
  shows "\<exists>a. a \<noteq> ActClose \<and> rw_act K E a s \<noteq> None"
proof -
  have "sum_list (map (task_steps K E tree_of) (rw_tasks s)) \<noteq> 0" using assms(2,3) by (simp add: rw_inv_def)
  then obtain t where t: "t \<in> set (rw_tasks s)" "task_steps K E tree_of t > 0"
    unfolding sum_list_eq_0_iff by auto
  then obtain i where i: "i < length (rw_tasks s)" "rw_tasks s ! i = t" by (auto simp: in_set_conv_nth)
  show ?thesis
  proof (cases t)
    case (Starting p ex)
    then have "rw_act K E (ActStart i) s \<noteq> None" using i by (simp add: task_start_def split: sum.splits)
    then show ?thesis by blast
  next
    case (Running p ex ms q ends)
    then have "rw_act K E (ActProduce i) s \<noteq> None \<or> rw_act K E (ActConsume i) s \<noteq> None"
      using i t(2) by (cases q; cases ms) (auto simp: task_produce_def task_consume_def channel_slots_def split: prod.splits)
    then show ?thesis by blast
  qed
qed

lemma event_steps_pos: "event_steps E tree_of ex ev = 0 \<longleftrightarrow> False"
  by (simp add: event_steps_def split: prod.splits)

lemma rw_inv_done:
  assumes "rw_inv K E tree_of evs 0 s"
  shows "mset (rw_sent s) = image_mset Inr evs"
proof -
  have z: "\<forall>t \<in> set (rw_tasks s). task_steps K E tree_of t = 0"
    using assms by (simp add: rw_inv_def sum_list_eq_0_iff)
  have "task_owes K E tree_of t = {#}" if "t \<in> set (rw_tasks s)" for t
  proof -
    have "task_steps K E tree_of t = 0" using z that by blast
    then show ?thesis
      by (cases t; cases "tree_of (case t of Starting p _ \<Rightarrow> p | Running p _ _ _ _ \<Rightarrow> p)")
        (auto simp: sum_list_eq_0_iff event_steps_pos)
  qed
  then have "sum_list (map (task_owes K E tree_of) (rw_tasks s)) = {#}"
    by (metis (no_types, lifting) map_eq_conv sum_list_0)
  then show ?thesis using assms by (simp add: rw_inv_def)
qed

text \<open>Watching recursively reports the whole tree. On a tree that does not change, under every interleaving of the
  tasks, with their bounded channels: no run gets stuck before it has made \<open>tree_steps\<close> steps, none makes more, and
  after them the stream has delivered exactly one existing-event, with its true type, for each node
  under the path, and nothing else.\<close>

theorem recursive_watch_reports_tree:
  assumes "serves_tree K E tree_of" and "tree_of root = DirTree cs"
    and "rw_run K E as (watch_recursive root) = Some s" and "ActClose \<notin> set as"
  shows "length as \<le> tree_steps E root (DirTree cs) \<and>
     (length as < tree_steps E root (DirTree cs) \<longrightarrow> (\<exists>a. a \<noteq> ActClose \<and> rw_act K E a s \<noteq> None)) \<and>
     (length as = tree_steps E root (DirTree cs) \<longrightarrow>
      mset (rw_sent s) = image_mset Inr (mset (tree_events True root (DirTree cs))))"
proof -
  have "rw_inv K E tree_of (mset (tree_events True root (DirTree cs))) (tree_steps E root (DirTree cs))
      (watch_recursive root)"
    using assms(2) by (simp add: rw_inv_def watch_recursive_def is_dir_def)
  from rw_inv_run [OF assms(1) this assms(3,4)] show ?thesis
    using rw_progress [OF assms(1)] rw_inv_done by fastforce
qed

text \<open>A directory with a file and an empty directory.\<close>

definition example_env :: watch_env where
  "example_env =
     \<lparr> we_open = (\<lambda>p. if p = ''/a/d'' then Inr (Inr InfoDirectory) else Inr (Inr InfoFile)),
       we_watch = (\<lambda>p.
         if p = ''/a'' then
           Inr ([record_msg fio_values EvExisting ''.'', record_msg fio_values EvExisting ''f'',
                 record_msg fio_values EvExisting ''d'', record_msg fio_values EvIdle []], False)
         else Inr ([record_msg fio_values EvIdle []], False)) \<rparr>"

definition example_tree :: "string \<Rightarrow> fs_tree" where
  "example_tree p =
     (if p = ''/a'' then DirTree [(''f'', FileTree), (''d'', DirTree [])]
      else if p = ''/a/d'' then DirTree [] else FileTree)"

lemma example_serves: "serves_tree fio_values example_env example_tree"
  by (auto simp: serves_tree_def inj_def fio_values_def example_tree_def example_env_def inner_watch_def
      path_to_str_def record_msg_def node_type_from_path_def path_join_def split: watch_event.splits if_splits)

lemma example_watch_run:
  "rw_run fio_values example_env
     [ActStart 0, ActProduce 0, ActProduce 0, ActProduce 0, ActConsume 0, ActConsume 0, ActStart 1, ActProduce 1, ActProduce 0]
     (watch_recursive ''/a'') =
   Some \<lparr> rw_tasks = [Running ''/a'' True [] [] False, Running ''/a/d'' True [] [] False],
          rw_sent = [Inr (PathExisting ''/a/f'' NtFile), Inr (PathExisting ''/a/d'' NtDirectory)], rw_open = True \<rparr>"
  by (simp add: watch_recursive_def task_start_def task_produce_def task_consume_def example_env_def inner_watch_def
      path_to_str_def record_msg_def node_type_from_path_def path_join_def watch_message_def channel_slots_def fio_values_def)

lemma example_steps:
  "tree_steps example_env ''/a'' (DirTree [(''f'', FileTree), (''d'', DirTree [])]) = 9"
  "tree_events True ''/a'' (DirTree [(''f'', FileTree), (''d'', DirTree [])]) =
     [PathExisting ''/a/f'' NtFile, PathExisting ''/a/d'' NtDirectory]"
  by (simp_all add: env_messages_def example_env_def path_join_def reported_def)

theorem recursive_watch_reports_tree_witness:
  "example_tree ''/a'' = DirTree [(''f'', FileTree), (''d'', DirTree [])] \<and>
   (\<exists>s. rw_run fio_values example_env
      [ActStart 0, ActProduce 0, ActProduce 0, ActProduce 0, ActConsume 0, ActConsume 0, ActStart 1, ActProduce 1, ActProduce 0]
      (watch_recursive ''/a'') = Some s \<and>
    mset (rw_sent s) =
      {# Inr (PathExisting ''/a/f'' NtFile), Inr (PathExisting ''/a/d'' NtDirectory) #})"
proof -
  have t: "example_tree ''/a'' = DirTree [(''f'', FileTree), (''d'', DirTree [])]" by (simp add: example_tree_def)
  show ?thesis
    using recursive_watch_reports_tree [OF example_serves t example_watch_run] t example_watch_run
    by (simp only: example_steps) simp
qed

section \<open>Events of nested directories\<close>

text \<open>A task watches the given path, or a directory that was reported with the flag of the task.\<close>

definition announced :: "string \<Rightarrow> (watch_error + PathEvent) list \<Rightarrow> string \<Rightarrow> bool \<Rightarrow> bool" where
  "announced root sent p ex \<longleftrightarrow> p = root \<and> ex \<or> Inr (reported ex p NtDirectory) \<in> set sent"

definition follows :: "string \<Rightarrow> (watch_error + PathEvent) list \<Rightarrow> PathEvent \<Rightarrow> bool" where
  "follows root before ev \<longleftrightarrow>
     (\<exists>p n ex. path_event_path ev = path_join p n \<and> announced root before p ex \<and>
        ((\<exists>t. ev = PathExisting (path_join p n) t) \<longrightarrow> ex))"

fun task_announced :: "string \<Rightarrow> (watch_error + PathEvent) list \<Rightarrow> watch_task \<Rightarrow> bool" where
  "task_announced root sent (Starting p ex) \<longleftrightarrow> announced root sent p ex"
| "task_announced root sent (Running p ex ms q ends) \<longleftrightarrow>
     announced root sent p ex \<and> (\<forall>ev \<in> set q. \<exists>n. path_event_path ev = path_join p n)"

definition nested_inv :: "string \<Rightarrow> rw_state \<Rightarrow> bool" where
  "nested_inv root s \<longleftrightarrow>
     list_all (task_announced root (rw_sent s)) (rw_tasks s) \<and>
     (\<forall>i < length (rw_sent s). \<forall>ev. rw_sent s ! i = Inr ev \<longrightarrow> follows root (take i (rw_sent s)) ev)"

lemma announced_append: "announced root sent p ex \<Longrightarrow> announced root (sent @ later) p ex"
  by (auto simp: announced_def)

lemma task_announced_append: "task_announced root sent t \<Longrightarrow> task_announced root (sent @ later) t"
  by (cases t) (auto intro: announced_append)

lemma nested_inv_append:
  assumes "nested_inv root s" and "rw_sent s' = rw_sent s @ new" and "length new \<le> 1"
    and "\<And>ev. Inr ev \<in> set new \<Longrightarrow> follows root (rw_sent s) ev"
    and "\<And>t. t \<in> set (rw_tasks s') \<Longrightarrow> t \<in> set (rw_tasks s) \<or> task_announced root (rw_sent s') t"
  shows "nested_inv root s'"
proof -
  have "follows root (take i (rw_sent s')) ev" if "i < length (rw_sent s')" "rw_sent s' ! i = Inr ev" for i ev
  proof (cases "i < length (rw_sent s)")
    case True
    then show ?thesis using assms(1,2) that by (auto simp: nested_inv_def nth_append)
  next
    case False
    then have "i = length (rw_sent s)" "new = [Inr ev]"
      using assms(2,3) that by (auto simp: nth_append le_Suc_eq length_Suc_conv)
    then show ?thesis using assms(2,4) by simp
  qed
  moreover have "task_announced root (rw_sent s') t" if "t \<in> set (rw_tasks s')" for t
    using assms(1,2) assms(5) [OF that] by (auto simp: nested_inv_def list_all_iff intro: task_announced_append)
  ultimately show ?thesis by (simp add: nested_inv_def list_all_iff)
qed

lemma watch_message_path: "watch_message K E p m = Some ev \<Longrightarrow> \<exists>n. path_event_path ev = path_join p n"
  by (auto simp: watch_message_def Let_def split: if_splits sum.splits)

lemma recursive_event_follows:
  assumes "announced root sent p ex" and "path_event_path ev = path_join p n" and "recursive_event ex ev = (np, nex, sev)"
  shows "follows root sent sev \<and> (\<forall>p'. np = Some p' \<longrightarrow> announced root (sent @ [Inr sev]) p' nex)"
proof -
  have "path_event_path sev = path_join p n \<and> ((\<exists>t. sev = PathExisting (path_join p n) t) \<longrightarrow> ex)"
    using assms(2,3) by (cases ev) (auto split: if_splits)
  then have "follows root sent sev" using assms(1) unfolding follows_def by blast
  moreover have "announced root (sent @ [Inr sev]) p' nex" if "np = Some p'" for p'
    using assms(2,3) that by (cases ev) (auto simp: announced_def reported_def split: if_splits)
  ultimately show ?thesis by blast
qed

lemma nested_inv_act:
  assumes inv: "nested_inv root s" and act: "rw_act K E a s = Some s'"
  shows "nested_inv root s'"
proof (cases "a = ActClose")
  case True
  then show ?thesis using inv act by (auto simp: nested_inv_def)
next
  case False
  obtain i t ys zs where i: "a \<in> {ActStart i, ActProduce i, ActConsume i, ActFinish i}" "i < length (rw_tasks s)"
    and t: "rw_tasks s = ys @ t # zs" "length ys = i" "rw_tasks s ! i = t"
    using rw_act_index [OF act False] .
  have ann: "task_announced root (rw_sent s) t" using inv t by (simp add: nested_inv_def)
  have tasks: "(rw_tasks s)[i := x] = ys @ x # zs" "remove_nth i (rw_tasks s) = ys @ zs"
    "set (rw_tasks s) = insert t (set ys \<union> set zs)" for x
    using t by (auto simp: remove_nth_def)
  consider "a = ActStart i" | "a = ActProduce i" | "a = ActConsume i" | "a = ActFinish i" using i by blast
  then show ?thesis
  proof cases
    case 1
    then show ?thesis
      using act i(2) t(3) ann
      by (intro nested_inv_append [OF inv, where new = "drop (length (rw_sent s)) (rw_sent s')"])
        (auto simp: task_start_def tasks split: watch_task.splits sum.splits if_splits)
  next
    case 2
    then show ?thesis
      using act i(2) t(3) ann
      by (intro nested_inv_append [OF inv, where new = "[]"])
        (auto simp: task_produce_def tasks split: watch_task.splits list.splits option.splits if_splits,
          (blast dest: watch_message_path)+)
  next
    case 3
    then show ?thesis
      using act i(2) t(3) ann
      by (intro nested_inv_append [OF inv, where new = "drop (length (rw_sent s)) (rw_sent s')"])
        (auto simp: task_consume_def tasks announced_append
          split: watch_task.splits list.splits option.splits if_splits prod.splits dest: recursive_event_follows,
          (metis recursive_event_follows)+)
  next
    case 4
    then show ?thesis
      using act i(2) t(3)
      by (intro nested_inv_append [OF inv, where new = "[]"])
        (auto simp: task_finish_def tasks split: watch_task.splits list.splits if_splits bool.splits)
  qed
qed

lemma nested_inv_run:
  "nested_inv root s \<Longrightarrow> rw_run K E as s = Some s' \<Longrightarrow> nested_inv root s'"
  by (induction as arbitrary: s) (auto split: option.splits intro: nested_inv_act)

text \<open>The stream of a recursive watch can be replayed from the front, whatever the directories do meanwhile: each
  event is about an entry of the watched path or of a directory that an earlier event reported, and an
  entry is reported as existing only if its directory is the watched path or was itself reported as
  existing; everything under a directory that was added is reported as added.\<close>

theorem nested_events_follow_parent:
  assumes "rw_run K E as (watch_recursive root) = Some s" and "i < length (rw_sent s)" and "rw_sent s ! i = Inr ev"
  shows "\<exists>p n.
     path_event_path ev = path_join p n \<and>
     (p = root \<or> Inr (PathExisting p NtDirectory) \<in> set (take i (rw_sent s)) \<or>
      Inr (PathAdded p NtDirectory) \<in> set (take i (rw_sent s))) \<and>
     ((\<exists>t. ev = PathExisting (path_join p n) t) \<longrightarrow>
      p = root \<or> Inr (PathExisting p NtDirectory) \<in> set (take i (rw_sent s)))"
proof -
  have "nested_inv root (watch_recursive root)"
    by (simp add: nested_inv_def watch_recursive_def announced_def)
  from nested_inv_run [OF this assms(1)] assms(2,3) have "follows root (take i (rw_sent s)) ev"
    by (auto simp: nested_inv_def)
  then show ?thesis
    unfolding follows_def announced_def reported_def by (auto split: if_splits)
qed

theorem nested_events_follow_parent_witness:
  "\<exists>s p n. rw_run fio_values example_env
      [ActStart 0, ActProduce 0, ActProduce 0, ActProduce 0, ActConsume 0, ActConsume 0, ActStart 1, ActProduce 1, ActProduce 0]
      (watch_recursive ''/a'') = Some s \<and>
    rw_sent s ! 1 = Inr (PathExisting ''/a/d'' NtDirectory) \<and> ''/a/d'' = path_join p n \<and>
    (p = ''/a'' \<or> Inr (PathExisting p NtDirectory) \<in> {Inr (PathExisting ''/a/f'' NtFile) :: watch_error + PathEvent})"
  using nested_events_follow_parent [OF example_watch_run, of 1 "PathExisting ''/a/d'' NtDirectory"] example_watch_run
  by auto

text \<open>
  A node that cannot be opened has no type: \<open>from_path\<close> fails, and an entry that vanished before it was
  opened is not reported at all.
\<close>

lemma unopened_node_not_reported:
  assumes "we_open E (path_join p n) = Inl st" and "path_to_str (path_join p n) = Inr (path_join p n)"
    and "inj (watch_event_primitive K)"
  shows "node_type_from_path E (path_join p n) = Inl (WatchFailed st)"
    and "watch_message K E p (record_msg K EvExisting n) = None"
    and "watch_message K E p (record_msg K EvAdded n) = None"
  using assms by (simp_all add: node_type_from_path_def watch_message_def record_msg_def Let_def inj_eq)

end
