(* ===== verification/Served_Watch.thy ===== *)
theory Served_Watch
  imports Recursive_Watch Simple_Dir
begin

text \<open>
  The directories of the server and the recursive watcher of the client together: registration of a watcher with a
  simple directory, the buffers that it queues, the client that decodes them, and the tasks of the recursive watch.
\<close>

section \<open>A recursive watch of served directories\<close>

text \<open>
  The environment of a recursive watcher whose directories are simple directories: watching one registers a watcher for
  all events with the directory and decodes the buffers that it queued, as the watcher client does.
\<close>

definition watch_all :: WatchMask where
  "watch_all = {WATCH_DELETED, WATCH_ADDED, WATCH_REMOVED, WATCH_EXISTING, WATCH_IDLE}"

definition watch_served ::
  "fio \<Rightarrow> bool \<Rightarrow> (nat set \<Rightarrow> nat) \<Rightarrow> 'e simple_dir \<Rightarrow> status + (WatchMessage list \<times> bool)" where
  "watch_served K dbg vacant d =
     (case simple_register_watcher K dbg vacant watch_all d of
        Inl _ \<Rightarrow> Inl INTERNAL
      | Inr d' \<Rightarrow>
          (case filter (\<lambda>(k, c). k \<notin> fst ` set (sd_watchers d)) (sd_watchers d') of
             (k, c) # _ \<Rightarrow>
               (case watcher_drain (length (sd_entries d) + 3) \<lparr> w_buf = [], w_idx = 0 \<rparr>
                       (List.map_filter (\<lambda>x. case x of Send b \<Rightarrow> Some b | Disconnect \<Rightarrow> None) (c_commands c)) of
                  Inl _ \<Rightarrow> Inl INTERNAL | Inr ms \<Rightarrow> Inr (ms, False))
           | [] \<Rightarrow> Inl INTERNAL))"

definition served_env ::
  "fio \<Rightarrow> bool \<Rightarrow> (nat set \<Rightarrow> nat) \<Rightarrow> (string \<Rightarrow> 'e simple_dir option) \<Rightarrow> (string \<Rightarrow> NodeInfo option) \<Rightarrow> watch_env" where
  "served_env K dbg vacant dir_at info_at =
     \<lparr> we_open = (\<lambda>p. case info_at p of None \<Rightarrow> Inl NOT_FOUND | Some i \<Rightarrow> Inr (Inr i)),
       we_watch = (\<lambda>p. case dir_at p of None \<Rightarrow> Inl NOT_DIR | Some d \<Rightarrow> watch_served K dbg vacant d) \<rparr>"

fun info_of_tree :: "fs_tree \<Rightarrow> NodeInfo" where
  "info_of_tree FileTree = InfoFile"
| "info_of_tree OtherTree = InfoOther"
| "info_of_tree (DirTree _) = InfoDirectory"

text \<open>The directories and nodes make up a tree: the entries of each directory are the children of its node.\<close>

definition served_tree ::
  "(string \<Rightarrow> 'e simple_dir option) \<Rightarrow> (string \<Rightarrow> NodeInfo option) \<Rightarrow> (string \<Rightarrow> fs_tree) \<Rightarrow> bool" where
  "served_tree dir_at info_at tree_of \<longleftrightarrow>
     (\<forall>p cs. tree_of p = DirTree cs \<longrightarrow>
        path_to_str p = Inr p \<and>
        (\<exists>d. dir_at p = Some d \<and> dir_inv d \<and> map fst (sd_entries d) = map fst cs) \<and>
        (\<forall>(n, t) \<in> set cs. n \<noteq> ''.'' \<and> path_to_str (path_join p n) = Inr (path_join p n) \<and>
           info_at (path_join p n) = Some (info_of_tree t) \<and> tree_of (path_join p n) = t))"

lemma filter_inserted:
  "\<forall>x \<in> set m. \<not> P x \<Longrightarrow> P (k, v) \<Longrightarrow> k \<notin> fst ` set m \<Longrightarrow> filter P (sm_insert k v m) = [(k, v)]"
  by (induction m) auto

lemma watch_served_lists:
  assumes "fio_names K" and "vacant_ok vacant" and "dir_inv d"
  shows "watch_served K dbg vacant d =
     Inr (map (record_msg K EvExisting) (''.'' # map fst (sd_entries d)) @ [record_msg K EvIdle []], False)"
proof -
  obtain key c bufs where r:
    "simple_register_watcher K dbg vacant watch_all d = Inr (d\<lparr>sd_watchers := sm_insert key c (sd_watchers d)\<rparr>)"
    "sm_get (sd_watchers d) key = None" "c = \<lparr>c_mask = watch_all, c_commands = map Send bufs, c_alive = True\<rparr>"
    "watcher_drain (length (sd_entries d) + 3) \<lparr>w_buf = [], w_idx = 0\<rparr> bufs =
        Inr (map (record_msg K EvExisting) (''.'' # map fst (sd_entries d)) @ [record_msg K EvIdle []])"
    using register_watcher_reports_listing [OF assms, of dbg watch_all] by (auto simp: watch_all_def)
  have new: "filter (\<lambda>(k, c). k \<notin> fst ` set (sd_watchers d)) (sm_insert key c (sd_watchers d)) = [(key, c)]"
    using r(2) by (intro filter_inserted) (auto simp: sm_get_None_iff image_iff)
  have "List.map_filter (\<lambda>x. case x of Send b \<Rightarrow> Some b | Disconnect \<Rightarrow> None) (map Send bufs) = bufs"
    by (induction bufs) (simp_all add: List.map_filter_simps)
  then show ?thesis by (simp add: watch_served_def r(1) new [unfolded r(3)] r(3,4))
qed

lemma served_tree_serves:
  assumes "fio_names K" and "inj (watch_event_primitive K)" and "vacant_ok vacant" and "served_tree dir_at info_at tree_of"
  shows "serves_tree K (served_env K dbg vacant dir_at info_at) tree_of"
  unfolding serves_tree_def
proof (intro conjI allI impI)
  fix p cs
  assume t: "tree_of p = DirTree cs"
  note s = assms(4) [unfolded served_tree_def, THEN spec, THEN spec, THEN mp, OF t]
  obtain d where d: "dir_at p = Some d" "dir_inv d" "map fst (sd_entries d) = map fst cs" using s by blast
  let ?ms = "map (record_msg K EvExisting) (''.'' # map fst cs) @ [record_msg K EvIdle []]"
  have w: "inner_watch (served_env K dbg vacant dir_at info_at) p = Inr (?ms, False)"
    using s d watch_served_lists [OF assms(1,3) d(2), of dbg] by (simp add: inner_watch_def served_env_def)
  have "\<forall>n \<in> fst ` set cs. n \<noteq> ''.''" using s by auto
  then have "filter (\<lambda>m. wm_filename m \<noteq> ''.'' \<and> wm_event m \<noteq> watch_event_primitive K EvIdle) ?ms =
      map (\<lambda>(n, _). record_msg K EvExisting n) cs"
    using assms(2) by (auto simp: record_msg_def inj_eq filter_map comp_def case_prod_beta filter_id_conv)
  with w show "\<exists>ms. inner_watch (served_env K dbg vacant dir_at info_at) p = Inr (ms, False) \<and>
      filter (\<lambda>m. wm_filename m \<noteq> ''.'' \<and> wm_event m \<noteq> watch_event_primitive K EvIdle) ms =
      map (\<lambda>(n, _). record_msg K EvExisting n) cs" by blast
  have "n \<noteq> ''.'' \<and> node_type_from_path (served_env K dbg vacant dir_at info_at) (path_join p n) = Inr (tree_type t) \<and>
      tree_of (path_join p n) = t" if "(n, t) \<in> set cs" for n t
  proof -
    have "n \<noteq> ''.'' \<and> path_to_str (path_join p n) = Inr (path_join p n) \<and>
        info_at (path_join p n) = Some (info_of_tree t) \<and> tree_of (path_join p n) = t"
      using s [THEN conjunct2, THEN conjunct2, THEN bspec, OF that] by simp
    then show ?thesis by (cases t) (simp_all add: node_type_from_path_def served_env_def)
  qed
  then show "\<forall>(n, t) \<in> set cs. n \<noteq> ''.'' \<and>
      node_type_from_path (served_env K dbg vacant dir_at info_at) (path_join p n) = Inr (tree_type t) \<and>
      tree_of (path_join p n) = t" by blast
qed (use assms(2) in simp)

text \<open>C21. Watching a served tree recursively, end to end. If the directories under a path are simple directories whose
  entries make up a tree, then the messages that registering a watcher queues, decoded by the watcher client, drive the
  recursive watch to completion: under every interleaving of its tasks no run gets stuck early or goes on for
  more than \<open>tree_steps\<close> steps, and then the stream has delivered exactly one existing-event, with its
  true type, for each node under the path.\<close>

theorem served_tree_is_reported:
  assumes "fio_names K" and "inj (watch_event_primitive K)" and "vacant_ok vacant"
    and "served_tree dir_at info_at tree_of" and "tree_of root = DirTree cs"
    and "E = served_env K dbg vacant dir_at info_at"
    and "rw_run K E as (watch_recursive root) = Some s" and "ActClose \<notin> set as"
  shows "length as \<le> tree_steps E root (DirTree cs) \<and>
     (length as < tree_steps E root (DirTree cs) \<longrightarrow> (\<exists>a. a \<noteq> ActClose \<and> rw_act K E a s \<noteq> None)) \<and>
     (length as = tree_steps E root (DirTree cs) \<longrightarrow>
      mset (rw_sent s) = image_mset Inr (mset (tree_events True root (DirTree cs))))"
  using recursive_watch_reports_tree [OF served_tree_serves [OF assms(1-4), of dbg] assms(5), folded assms(6), OF assms(7,8)] .

definition example_dirs :: "string \<Rightarrow> nat simple_dir option" where
  "example_dirs p =
     (if p = ''/a'' then Some ((mutable_simple fio_values)\<lparr>sd_entries := [(''d'', 1), (''f'', 2)]\<rparr>)
      else if p = ''/a/d'' then Some (mutable_simple fio_values) else None)"

definition example_infos :: "string \<Rightarrow> NodeInfo option" where
  "example_infos p = (if p = ''/a/d'' then Some InfoDirectory else if p = ''/a/f'' then Some InfoFile else None)"

definition example_served :: "string \<Rightarrow> fs_tree" where
  "example_served p =
     (if p = ''/a'' then DirTree [(''d'', DirTree []), (''f'', FileTree)]
      else if p = ''/a/d'' then DirTree [] else FileTree)"

lemma example_served_tree: "served_tree example_dirs example_infos example_served"
  by (auto simp: served_tree_def example_dirs_def example_infos_def example_served_def path_to_str_def path_join_def
      dir_inv_def mutable_simple_def simple_new_def watchers_new_def entry_name_def MAX_NAME_LENGTH_def less_list_code
      less_char_def split: if_splits)

lemma example_vacant: "vacant_ok (\<lambda>keys. Suc (Max (insert 0 keys)))"
  unfolding vacant_ok_def by (metis Max_ge Suc_n_not_le_n finite.insertI insertCI)

lemma example_inj: "inj (watch_event_primitive fio_values)"
  by (auto simp: inj_def fio_values_def split: watch_event.splits)

abbreviation example_serves_env :: watch_env where
  "example_serves_env \<equiv>
     served_env fio_values True (\<lambda>keys. Suc (Max (insert 0 keys))) example_dirs example_infos"

lemma example_watches:
  "we_watch example_serves_env ''/a'' =
     Inr ([record_msg fio_values EvExisting ''.'', record_msg fio_values EvExisting ''d'',
           record_msg fio_values EvExisting ''f'', record_msg fio_values EvIdle []], False)"
  "we_watch example_serves_env ''/a/d'' =
     Inr ([record_msg fio_values EvExisting ''.'', record_msg fio_values EvIdle []], False)"
proof -
  have inv: "dir_inv d" if "example_dirs p = Some d" for p d
    using that by (auto simp: example_dirs_def dir_inv_def mutable_simple_def simple_new_def watchers_new_def entry_name_def
        MAX_NAME_LENGTH_def less_list_code less_char_def split: if_splits)
  show "we_watch example_serves_env ''/a'' =
     Inr ([record_msg fio_values EvExisting ''.'', record_msg fio_values EvExisting ''d'',
           record_msg fio_values EvExisting ''f'', record_msg fio_values EvIdle []], False)"
    using watch_served_lists [OF fio_values_names example_vacant inv, of "''/a''"]
    by (simp add: served_env_def example_dirs_def)
  show "we_watch example_serves_env ''/a/d'' =
     Inr ([record_msg fio_values EvExisting ''.'', record_msg fio_values EvIdle []], False)"
    using watch_served_lists [OF fio_values_names example_vacant inv, of "''/a/d''"]
    by (simp add: served_env_def example_dirs_def mutable_simple_def simple_new_def)
qed

lemma example_opens:
  "we_open example_serves_env ''/a/d'' = Inr (Inr InfoDirectory)" "we_open example_serves_env ''/a/f'' = Inr (Inr InfoFile)"
  by (simp_all add: served_env_def example_infos_def)

definition example_acts :: "rw_action list" where
  "example_acts =
     [ActStart 0, ActProduce 0, ActProduce 0, ActProduce 0, ActConsume 0, ActStart 1, ActConsume 0, ActProduce 1, ActProduce 1,
      ActProduce 0]"

lemma example_served_run:
  "\<exists>s. rw_run fio_values example_serves_env example_acts (watch_recursive ''/a'') = Some s"
  by (simp add: example_acts_def watch_recursive_def task_start_def task_produce_def task_consume_def inner_watch_def
      path_to_str_def record_msg_def node_type_from_path_def path_join_def watch_message_def channel_slots_def
      example_watches example_opens)

lemma example_served_steps:
  "tree_steps example_serves_env ''/a'' (DirTree [(''d'', DirTree []), (''f'', FileTree)]) = length example_acts"
  "ActClose \<notin> set example_acts"
  "tree_events True ''/a'' (DirTree [(''d'', DirTree []), (''f'', FileTree)]) =
     [PathExisting ''/a/d'' NtDirectory, PathExisting ''/a/f'' NtFile]"
  by (simp_all add: env_messages_def example_watches path_join_def reported_def example_acts_def)

theorem served_tree_is_reported_witness:
  "\<exists>s. rw_run fio_values example_serves_env example_acts (watch_recursive ''/a'') = Some s \<and>
     mset (rw_sent s) = {# Inr (PathExisting ''/a/d'' NtDirectory), Inr (PathExisting ''/a/f'' NtFile) #}"
proof -
  obtain s where s: "rw_run fio_values example_serves_env example_acts (watch_recursive ''/a'') = Some s"
    using example_served_run by blast
  have t: "example_served ''/a'' = DirTree [(''d'', DirTree []), (''f'', FileTree)]" by (simp add: example_served_def)
  from served_tree_is_reported [OF fio_values_names example_inj example_vacant example_served_tree t refl s example_served_steps(2)]
  have "mset (rw_sent s) = image_mset Inr (mset [PathExisting ''/a/d'' NtDirectory, PathExisting ''/a/f'' NtFile])"
    unfolding example_served_steps(1,3) by simp
  with s show ?thesis by auto
qed

end
