(* ===== verification/Fs_Management.thy ===== *)
theory Fs_Management
  imports Sorted_Map
begin

text \<open>
  Filesystem management (\<open>fs_management\<close>): \<open>lib.rs\<close> (mounting, formatting and checking with a binary,
  and the configurations of the filesystems) and \<open>asynchronous.rs\<close> (a filesystem that is being
  served). The library calls the kernel, the namespace of the process and the filesystem itself.
  These are outside the repository: each call takes the next answer of the environment, and the state
  records what the answered calls did: the processes that use the device, the paths that are bound, and
  the commands that were launched. A process uses the device from its launch until its termination was
  waited for or its kill was granted, or until its filesystem acknowledged the shutdown; dropping the handle of a
  process does not end it.
\<close>

section \<open>The environment\<close>

text \<open>
  The answer to \<open>process.info()\<close> holds the exit flag (\<open>None\<close>: flag bits that the library does not know) and the
  return code.
\<close>

datatype answer = AnsOk | AnsErr status | AnsExit "bool option" int

datatype fs_error =
    FsMounted | FsNotMounted | FsNotSupported | FsExternal status | FsLaunch "string list" status
  | FsNonZeroExit int | FsEmptyResult | FsPanic

text \<open>The handles that are passed to a process, and a launch with the processes that used the device before it.\<close>

datatype startup_handle = DirectoryRequest nat | User0 nat

record launch =
  la_pid :: nat
  la_args :: "string list"
  la_handles :: "startup_handle list"
  la_others :: "nat set"

text \<open>\<open>fw_kill\<close>: whether the kernel grants a kill; \<open>fw_running\<close> are the processes that use the device.\<close>

record fs_world =
  fw_answers :: "answer list"
  fw_kill :: bool
  fw_next :: nat
  fw_running :: "nat set"
  fw_bound :: "(string, nat option) sorted_map"
  fw_commands :: "launch list"

type_synonym 'a fsm = "fs_world \<Rightarrow> (fs_error + 'a) \<times> fs_world"

definition fs_return :: "'a \<Rightarrow> 'a fsm" where
  "fs_return a w = (Inr a, w)"

definition fs_bind :: "'a fsm \<Rightarrow> ('a \<Rightarrow> 'b fsm) \<Rightarrow> 'b fsm" where
  "fs_bind m f w = (case m w of (Inl e, w') \<Rightarrow> (Inl e, w') | (Inr a, w') \<Rightarrow> f a w')"

definition next_answer :: "fs_world \<Rightarrow> answer \<times> fs_world" where
  "next_answer w = (case fw_answers w of [] \<Rightarrow> (AnsOk, w) | a # as \<Rightarrow> (a, w\<lparr> fw_answers := as \<rparr>))"

text \<open>A call that has an effect only when it succeeds.\<close>

definition call :: "(fs_world \<Rightarrow> fs_world) \<Rightarrow> unit fsm" where
  "call effect w =
     (case next_answer w of (AnsErr st, w') \<Rightarrow> (Inl (FsExternal st), w') | (_, w') \<Rightarrow> (Inr (), effect w'))"

definition end_process :: "nat \<Rightarrow> fs_world \<Rightarrow> fs_world" where
  "end_process pid w = w\<lparr> fw_running := fw_running w - {pid} \<rparr>"

definition kill_process :: "nat \<Rightarrow> unit fsm" where
  "kill_process pid w = (if fw_kill w then (Inr (), end_process pid w) else (Inl (FsExternal ACCESS_DENIED), w))"

text \<open>The namespace: a path is bound once.\<close>

definition namespace_bind :: "string \<Rightarrow> nat option \<Rightarrow> unit fsm" where
  "namespace_bind path pid w =
     (if sm_get (fw_bound w) path \<noteq> None then (Inl (FsExternal ALREADY_EXISTS), w)
      else call (\<lambda>w. w\<lparr> fw_bound := sm_insert path pid (fw_bound w) \<rparr>) w)"

definition namespace_unbind :: "string \<Rightarrow> unit fsm" where
  "namespace_unbind path = call (\<lambda>w. w\<lparr> fw_bound := sm_remove path (fw_bound w) \<rparr>)"

section \<open>lib.rs: processes\<close>

definition launch_process :: "string list \<Rightarrow> startup_handle list \<Rightarrow> nat fsm" where
  "launch_process args actions w =
     (case next_answer w of
        (AnsErr st, w') \<Rightarrow> (Inl (FsLaunch args st), w')
      | (_, w') \<Rightarrow>
          (Inr (fw_next w'),
           w'\<lparr> fw_next := fw_next w' + 1, fw_running := insert (fw_next w') (fw_running w'),
               fw_commands := fw_commands w' @
                 [\<lparr> la_pid = fw_next w', la_args = args, la_handles = actions, la_others = fw_running w' \<rparr>] \<rparr>))"

definition process_info :: "(bool option \<times> int) fsm" where
  "process_info w =
     (case next_answer w of
        (AnsErr st, w') \<Rightarrow> (Inl (FsExternal st), w') | (AnsOk, w') \<Rightarrow> (Inr (Some True, 0), w')
      | (AnsExit exited code, w') \<Rightarrow> (Inr (exited, code), w'))"

definition crypt_action :: "bool \<Rightarrow> startup_handle list" where
  "crypt_action crypt_client = (if crypt_client then [User0 2] else [])"

definition clean_exit :: "bool option \<times> int \<Rightarrow> unit fsm" where
  "clean_exit i w =
     (case i of
        (None, _) \<Rightarrow> (Inl FsPanic, w)
      | (Some exited, code) \<Rightarrow> if \<not> exited \<or> code \<noteq> 0 then (Inl (FsNonZeroExit code), w) else (Inr (), w))"

definition run_command_and_wait_for_clean_exit :: "string list \<Rightarrow> bool \<Rightarrow> unit fsm" where
  "run_command_and_wait_for_clean_exit args crypt_client =
     fs_bind (launch_process args ([User0 1] @ crypt_action crypt_client)) (\<lambda>pid.
     fs_bind (call (end_process pid)) (\<lambda>_.
     fs_bind process_info clean_exit))"

section \<open>lib.rs: a mounted instance\<close>

record FSInstance =
  fi_process :: nat
  fi_mount_point :: string

definition instance_mount :: "string list \<Rightarrow> string \<Rightarrow> bool \<Rightarrow> FSInstance fsm" where
  "instance_mount args mount_point crypt_client =
     fs_bind (call id) (\<lambda>_.
     fs_bind (launch_process args ([DirectoryRequest 0, User0 1] @ crypt_action crypt_client)) (\<lambda>pid.
     fs_bind (call id) (\<lambda>_.
     fs_bind (call id) (\<lambda>_.
     fs_bind (call id) (\<lambda>_.
     fs_bind (call id) (\<lambda>_.
     fs_bind (namespace_bind mount_point (Some pid)) (\<lambda>_.
       fs_return \<lparr> fi_process = pid, fi_mount_point = mount_point \<rparr>)))))))"

definition instance_unmount :: "FSInstance \<Rightarrow> unit fsm" where
  "instance_unmount i =
     fs_bind (call id) (\<lambda>_.
     fs_bind (call id) (\<lambda>_.
     fs_bind (call (end_process (fi_process i))) (\<lambda>_.
     fs_bind (call id) (\<lambda>_.
       namespace_unbind (fi_mount_point i)))))"

definition empty_result :: "unit fsm" where
  "empty_result w = (case next_answer w of (AnsErr _, w') \<Rightarrow> (Inl FsEmptyResult, w') | (_, w') \<Rightarrow> (Inr (), w'))"

definition instance_query_filesystem :: "FSInstance \<Rightarrow> unit fsm" where
  "instance_query_filesystem i =
     fs_bind (call id) (\<lambda>_.
     fs_bind (call id) (\<lambda>_.
     fs_bind (call id) (\<lambda>_.
     fs_bind (call id) (\<lambda>_.
     fs_bind (call id) (\<lambda>_. empty_result)))))"

definition instance_kill :: "FSInstance \<Rightarrow> unit fsm" where
  "instance_kill i =
     fs_bind (call id) (\<lambda>_.
     fs_bind (namespace_unbind (fi_mount_point i)) (\<lambda>_.
       kill_process (fi_process i)))"

section \<open>lib.rs: Filesystem\<close>

record FSConfig =
  cf_component_name :: "string option"
  cf_binary_path :: string
  cf_generic_args :: "string list"
  cf_format_args :: "string list"
  cf_mount_args :: "string list"
  cf_crypt_client :: bool

record Filesystem =
  fs_config :: FSConfig
  fs_instance :: "FSInstance option"

type_synonym fs_result = "(fs_error + unit) \<times> Filesystem \<times> fs_world"

definition fs_from_channel :: "FSConfig \<Rightarrow> Filesystem" where
  "fs_from_channel c = \<lparr> fs_config = c, fs_instance = None \<rparr>"

definition fs_from_path :: "FSConfig \<Rightarrow> Filesystem fsm" where
  "fs_from_path c = fs_bind (call id) (\<lambda>_. fs_bind (call id) (\<lambda>_. fs_return (fs_from_channel c)))"

definition get_channel :: "unit fsm" where
  "get_channel = fs_bind (call id) (\<lambda>_. call id)"

definition fs_mount :: "string \<Rightarrow> Filesystem \<Rightarrow> fs_world \<Rightarrow> fs_result" where
  "fs_mount mount_point fs w =
     (if fs_instance fs \<noteq> None then (Inl FsMounted, fs, w)
      else if cf_component_name (fs_config fs) \<noteq> None then (Inl FsNotSupported, fs, w)
      else
        let c = fs_config fs;
            args = [cf_binary_path c] @ cf_generic_args c @ [''mount''] @ cf_mount_args c
        in case fs_bind get_channel (\<lambda>_. instance_mount args mount_point (cf_crypt_client c)) w of
             (Inl e, w') \<Rightarrow> (Inl e, fs, w')
           | (Inr i, w') \<Rightarrow> (Inr (), fs\<lparr> fs_instance := Some i \<rparr>, w'))"

definition fs_format :: "Filesystem \<Rightarrow> fs_world \<Rightarrow> fs_result" where
  "fs_format fs w =
     (if fs_instance fs \<noteq> None then (Inl FsMounted, fs, w)
      else if cf_component_name (fs_config fs) \<noteq> None then (Inl FsNotSupported, fs, w)
      else
        let c = fs_config fs;
            args = [cf_binary_path c] @ cf_generic_args c @ [''mkfs''] @ cf_format_args c;
            (r, w') = fs_bind get_channel (\<lambda>_. run_command_and_wait_for_clean_exit args (cf_crypt_client c)) w
        in (r, fs, w'))"

definition fs_fsck :: "Filesystem \<Rightarrow> fs_world \<Rightarrow> fs_result" where
  "fs_fsck fs w =
     (if fs_instance fs \<noteq> None then (Inl FsMounted, fs, w)
      else if cf_component_name (fs_config fs) \<noteq> None then (Inl FsNotSupported, fs, w)
      else
        let c = fs_config fs;
            args = [cf_binary_path c] @ cf_generic_args c @ [''fsck''];
            (r, w') = fs_bind get_channel (\<lambda>_. run_command_and_wait_for_clean_exit args (cf_crypt_client c)) w
        in (r, fs, w'))"

definition fs_unmount :: "Filesystem \<Rightarrow> fs_world \<Rightarrow> fs_result" where
  "fs_unmount fs w =
     (case fs_instance fs of
        None \<Rightarrow> (Inl FsNotMounted, fs, w)
      | Some i \<Rightarrow> (let (r, w') = instance_unmount i w in (r, fs\<lparr> fs_instance := None \<rparr>, w')))"

definition fs_query_filesystem :: "Filesystem \<Rightarrow> fs_world \<Rightarrow> fs_result" where
  "fs_query_filesystem fs w =
     (case fs_instance fs of
        None \<Rightarrow> (Inl FsNotMounted, fs, w)
      | Some i \<Rightarrow> (let (r, w') = instance_query_filesystem i w in (r, fs, w')))"

definition fs_kill :: "Filesystem \<Rightarrow> fs_world \<Rightarrow> fs_result" where
  "fs_kill fs w =
     (case fs_instance fs of
        None \<Rightarrow> (Inl FsNotMounted, fs, w)
      | Some i \<Rightarrow> (let (r, w') = instance_kill i w in (r, fs\<lparr> fs_instance := None \<rparr>, w')))"

definition fs_drop :: "Filesystem \<Rightarrow> fs_world \<Rightarrow> fs_world" where
  "fs_drop fs w = (if fs_instance fs \<noteq> None then snd (snd (fs_unmount fs w)) else w)"

section \<open>lib.rs: configurations\<close>

datatype BlobCompression = ZSTD | ZSTDSeekable | ZSTDChunked | Uncompressed
datatype BlobEvictionPolicy = NeverEvict | EvictImmediately

record Blobfs =
  b_verbose :: bool
  b_readonly :: bool
  b_deprecated_padded_format :: bool
  b_compression :: "BlobCompression option"
  b_eviction_policy :: "BlobEvictionPolicy option"

fun compression_arg :: "BlobCompression \<Rightarrow> string" where
  "compression_arg ZSTD = ''ZSTD''"
| "compression_arg ZSTDSeekable = ''ZSTD_SEEKABLE''"
| "compression_arg ZSTDChunked = ''ZSTD_CHUNKED''"
| "compression_arg Uncompressed = ''UNCOMPRESSED''"

fun eviction_arg :: "BlobEvictionPolicy \<Rightarrow> string" where
  "eviction_arg NeverEvict = ''NEVER_EVICT''"
| "eviction_arg EvictImmediately = ''EVICT_IMMEDIATELY''"

definition no_config :: "string \<Rightarrow> FSConfig" where
  "no_config path =
     \<lparr> cf_component_name = None, cf_binary_path = path, cf_generic_args = [], cf_format_args = [], cf_mount_args = [],
       cf_crypt_client = False \<rparr>"

definition blobfs_config :: "Blobfs \<Rightarrow> FSConfig" where
  "blobfs_config b = (no_config ''/pkg/bin/blobfs'')
     \<lparr> cf_generic_args := (if b_verbose b then [''--verbose''] else []),
       cf_format_args := (if b_deprecated_padded_format b then [''--deprecated_padded_format''] else []),
       cf_mount_args :=
         (if b_readonly b then [''--readonly''] else []) @
         (case b_compression b of None \<Rightarrow> [] | Some c \<Rightarrow> [''--compression'', compression_arg c]) @
         (case b_eviction_policy b of None \<Rightarrow> [] | Some p \<Rightarrow> [''--eviction_policy'', eviction_arg p]) \<rparr>"

record Minfs =
  m_verbose :: bool
  m_readonly :: bool
  m_fsck_after_every_transaction :: bool

definition minfs_config :: "Minfs \<Rightarrow> FSConfig" where
  "minfs_config m = (no_config ''/pkg/bin/minfs'')
     \<lparr> cf_generic_args := (if m_verbose m then [''--verbose''] else []),
       cf_mount_args :=
         (if m_readonly m then [''--readonly''] else []) @
         (if m_fsck_after_every_transaction m then [''--fsck_after_every_transaction''] else []) \<rparr>"

definition fxfs_config :: FSConfig where
  "fxfs_config = (no_config [])\<lparr> cf_component_name := Some ''fxfs'', cf_crypt_client := True \<rparr>"

definition factoryfs_config :: "bool \<Rightarrow> FSConfig" where
  "factoryfs_config verbose =
     (no_config ''/pkg/bin/factoryfs'')\<lparr> cf_generic_args := (if verbose then [''--verbose''] else []) \<rparr>"

definition blobfs_default :: Blobfs where
  "blobfs_default =
     \<lparr> b_verbose = False, b_readonly = False, b_deprecated_padded_format = False, b_compression = None,
       b_eviction_policy = None \<rparr>"

definition minfs_default :: Minfs where
  "minfs_default = \<lparr> m_verbose = False, m_readonly = False, m_fsck_after_every_transaction = False \<rparr>"

definition blobfs_new :: "Filesystem fsm" where
  "blobfs_new = fs_from_path (blobfs_config blobfs_default)"

definition minfs_new :: "Filesystem fsm" where
  "minfs_new = fs_from_path (minfs_config minfs_default)"

definition fxfs_new :: "Filesystem fsm" where
  "fxfs_new = fs_from_path fxfs_config"

definition factoryfs_new :: "Filesystem fsm" where
  "factoryfs_new = fs_from_path (factoryfs_config False)"

section \<open>asynchronous.rs: Filesystem\<close>

text \<open>The asynchronous filesystem is its configuration and a proxy of the device, which has no state here.\<close>

definition async_from_channel :: "FSConfig \<Rightarrow> FSConfig fsm" where
  "async_from_channel c = fs_bind (call id) (\<lambda>_. fs_return c)"

definition get_block_handle :: "unit fsm" where
  "get_block_handle = fs_bind (call id) (\<lambda>_. call id)"

definition zero_exit :: "bool option \<times> int \<Rightarrow> unit fsm" where
  "zero_exit i w = (if snd i = 0 then (Inr (), w) else (Inl (FsNonZeroExit (snd i)), w))"

definition wait_for_successful_exit :: "nat \<Rightarrow> unit fsm" where
  "wait_for_successful_exit pid =
     fs_bind (call (end_process pid)) (\<lambda>_.
     fs_bind process_info zero_exit)"

text \<open>A request to the startup protocol of a component: connect, clone the device, send, and its status.\<close>

definition startup_request :: "unit fsm" where
  "startup_request =
     fs_bind (call id) (\<lambda>_.
     fs_bind get_block_handle (\<lambda>_.
     fs_bind (call id) (\<lambda>_. call id)))"

definition async_command :: "string list \<Rightarrow> unit fsm" where
  "async_command args =
     fs_bind get_block_handle (\<lambda>_.
     fs_bind (launch_process args [User0 1]) wait_for_successful_exit)"

definition async_format :: "FSConfig \<Rightarrow> unit fsm" where
  "async_format c =
     (if cf_component_name c \<noteq> None then startup_request
      else async_command ([cf_binary_path c, ''mkfs''] @ cf_generic_args c @ cf_format_args c))"

definition async_fsck :: "FSConfig \<Rightarrow> unit fsm" where
  "async_fsck c =
     (if cf_component_name c \<noteq> None then startup_request
      else async_command ([cf_binary_path c, ''fsck''] @ cf_generic_args c))"

definition do_serve :: "FSConfig \<Rightarrow> nat fsm" where
  "do_serve c =
     fs_bind (call id) (\<lambda>_.
     fs_bind get_block_handle (\<lambda>_.
     fs_bind (launch_process ([cf_binary_path c, ''mount''] @ cf_generic_args c @ cf_mount_args c)
                [DirectoryRequest 0, User0 1]) (\<lambda>pid.
     fs_bind (call id) (\<lambda>_.
     fs_bind (call id) (\<lambda>_.
     fs_bind (call id) (\<lambda>_. fs_return pid))))))"

record ServingFilesystem =
  sv_process :: "nat option"
  sv_binding :: "string option"

text \<open>
  For a component: start it, connect to the realm, open its exposed directory (create the proxy, send, the
  result), and open its root (create the endpoints, send, make the proxy).
\<close>

definition async_serve :: "FSConfig \<Rightarrow> ServingFilesystem fsm" where
  "async_serve c =
     (if cf_component_name c \<noteq> None then
        fs_bind startup_request (\<lambda>_.
        fs_bind (call id) (\<lambda>_.
        fs_bind (call id) (\<lambda>_.
        fs_bind (call id) (\<lambda>_.
        fs_bind (call id) (\<lambda>_.
        fs_bind (call id) (\<lambda>_.
        fs_bind (call id) (\<lambda>_.
        fs_bind (call id) (\<lambda>_. fs_return \<lparr> sv_process = None, sv_binding = None \<rparr>))))))))
      else fs_bind (do_serve c) (\<lambda>pid. fs_return \<lparr> sv_process = Some pid, sv_binding = None \<rparr>))"

section \<open>asynchronous.rs: ServingFilesystem\<close>

definition bind_to_path :: "string \<Rightarrow> ServingFilesystem \<Rightarrow> ServingFilesystem fsm" where
  "bind_to_path path s =
     fs_bind (call id) (\<lambda>_.
     fs_bind (call id) (\<lambda>_.
     fs_bind (call id) (\<lambda>_.
     fs_bind (namespace_bind path (sv_process s)) (\<lambda>_. fs_return (s\<lparr> sv_binding := Some path \<rparr>)))))"

definition unbind_installed :: "string \<Rightarrow> unit fsm" where
  "unbind_installed path = fs_bind (call id) (\<lambda>_. namespace_unbind path)"

definition serving_drop :: "ServingFilesystem \<Rightarrow> fs_world \<Rightarrow> fs_world" where
  "serving_drop s w =
     (let w1 = (case sv_process s of None \<Rightarrow> w | Some pid \<Rightarrow> snd (kill_process pid w))
      in case sv_binding s of
           None \<Rightarrow> w1
         | Some path \<Rightarrow> snd (unbind_installed path w1))"

definition kill_and_wait :: "nat \<Rightarrow> unit fsm" where
  "kill_and_wait pid = fs_bind (kill_process pid) (\<lambda>_. call (end_process pid))"

definition do_shutdown :: "ServingFilesystem \<Rightarrow> unit fsm" where
  "do_shutdown s =
     fs_bind (call id) (\<lambda>_.
       call (case sv_process s of None \<Rightarrow> id | Some pid \<Rightarrow> end_process pid))"

text \<open>The methods that consume the filesystem end with its \<open>drop\<close>; \<open>process.take()\<close> has emptied the field.\<close>

definition then_drop :: "ServingFilesystem \<Rightarrow> 'a fsm \<Rightarrow> 'a fsm" where
  "then_drop s m w = (case m w of (r, w') \<Rightarrow> (r, serving_drop (s\<lparr> sv_process := None \<rparr>) w'))"

definition shutdown_process :: "ServingFilesystem \<Rightarrow> unit fsm" where
  "shutdown_process s w =
     (case do_shutdown s w of
        (Inl e, w1) \<Rightarrow>
          (Inl e, case sv_process s of None \<Rightarrow> w1 | Some pid \<Rightarrow> snd (kill_and_wait pid w1))
      | (Inr _, w1) \<Rightarrow>
          (case sv_process s of
             None \<Rightarrow> (Inr (), w1)
           | Some pid \<Rightarrow>
               fs_bind (call (end_process pid)) (\<lambda>_. fs_bind process_info (\<lambda>_. fs_return ())) w1))"

definition serving_shutdown :: "ServingFilesystem \<Rightarrow> unit fsm" where
  "serving_shutdown s = then_drop s (shutdown_process s)"

definition serving_query :: "unit fsm" where
  "serving_query = fs_bind (call id) (\<lambda>_. fs_bind (call id) (\<lambda>_. empty_result))"

definition serving_kill :: "ServingFilesystem \<Rightarrow> unit fsm" where
  "serving_kill s =
     (case sv_process s of
        None \<Rightarrow> serving_shutdown s
      | Some pid \<Rightarrow> then_drop s (kill_and_wait pid))"

section \<open>Weakest preconditions of calls\<close>

text \<open>
  A condition on the result and the final state, as a condition on the initial state. The rules cover every answer
  of the environment, so a condition that is shown with them holds whichever calls fail.
\<close>

definition fs_wp :: "'a fsm \<Rightarrow> (fs_error + 'a \<Rightarrow> fs_world \<Rightarrow> bool) \<Rightarrow> fs_world \<Rightarrow> bool" where
  "fs_wp m Q w = (case m w of (r, w') \<Rightarrow> Q r w')"

named_theorems fs_wp_intros

lemma fs_wpD: "fs_wp m Q w \<Longrightarrow> m w = (r, w') \<Longrightarrow> Q r w'"
  by (simp add: fs_wp_def)

lemma fs_wp_pair: "fs_wp m Q w \<longleftrightarrow> Q (fst (m w)) (snd (m w))"
  by (simp add: fs_wp_def split: prod.splits)

lemma fs_wp_bind [simp]:
  "fs_wp (fs_bind m f) Q w =
     fs_wp m (\<lambda>r w'. case r of Inl e \<Rightarrow> Q (Inl e) w' | Inr a \<Rightarrow> fs_wp (f a) Q w') w"
  by (simp add: fs_wp_def fs_bind_def split: prod.splits sum.splits)

lemma fs_wp_return [simp]: "fs_wp (fs_return a) Q w = Q (Inr a) w"
  by (simp add: fs_wp_def fs_return_def)

lemma next_answer_cases: "\<exists>a as. next_answer w = (a, w\<lparr> fw_answers := as \<rparr>)"
proof (cases "fw_answers w")
  case Nil
  then have "w\<lparr> fw_answers := [] \<rparr> = w" by simp
  with Nil show ?thesis unfolding next_answer_def by (metis list.simps(4))
next
  case (Cons a as)
  then show ?thesis unfolding next_answer_def by auto
qed

lemma fs_wp_call [fs_wp_intros]:
  assumes "\<And>as st. Q (Inl (FsExternal st)) (w\<lparr> fw_answers := as \<rparr>)"
    and "\<And>as. Q (Inr ()) (effect (w\<lparr> fw_answers := as \<rparr>))"
  shows "fs_wp (call effect) Q w"
  using assms next_answer_cases [of w] by (auto simp: fs_wp_def call_def split: answer.splits)

lemma fs_wp_launch [fs_wp_intros]:
  assumes "\<And>as st. Q (Inl (FsLaunch args st)) (w\<lparr> fw_answers := as \<rparr>)"
    and "\<And>as. Q (Inr (fw_next w))
           (w\<lparr> fw_answers := as, fw_next := fw_next w + 1, fw_running := insert (fw_next w) (fw_running w),
               fw_commands := fw_commands w @
                 [\<lparr> la_pid = fw_next w, la_args = args, la_handles = hs, la_others = fw_running w \<rparr>] \<rparr>)"
  shows "fs_wp (launch_process args hs) Q w"
  using assms next_answer_cases [of w] by (auto simp: fs_wp_def launch_process_def split: answer.splits)

lemma fs_wp_info [fs_wp_intros]:
  assumes "\<And>as st. Q (Inl (FsExternal st)) (w\<lparr> fw_answers := as \<rparr>)"
    and "\<And>as i. Q (Inr i) (w\<lparr> fw_answers := as \<rparr>)"
  shows "fs_wp process_info Q w"
  using assms next_answer_cases [of w] by (auto simp: fs_wp_def process_info_def split: answer.splits)

lemma fs_wp_empty_result [fs_wp_intros]:
  assumes "\<And>as. Q (Inl FsEmptyResult) (w\<lparr> fw_answers := as \<rparr>)"
    and "\<And>as. Q (Inr ()) (w\<lparr> fw_answers := as \<rparr>)"
  shows "fs_wp empty_result Q w"
  using assms next_answer_cases [of w] by (auto simp: fs_wp_def empty_result_def split: answer.splits)

lemma fs_wp_kill [fs_wp_intros]:
  assumes "\<not> fw_kill w \<Longrightarrow> Q (Inl (FsExternal ACCESS_DENIED)) w"
    and "fw_kill w \<Longrightarrow> Q (Inr ()) (end_process pid w)"
  shows "fs_wp (kill_process pid) Q w"
  using assms by (auto simp: fs_wp_def kill_process_def)

lemma fs_wp_namespace_bind [fs_wp_intros]:
  assumes "\<And>as st. Q (Inl (FsExternal st)) (w\<lparr> fw_answers := as \<rparr>)"
    and "\<And>as. sm_get (fw_bound w) path = None \<Longrightarrow>
           Q (Inr ()) (w\<lparr> fw_answers := as, fw_bound := sm_insert path pid (fw_bound w) \<rparr>)"
  shows "fs_wp (namespace_bind path pid) Q w"
proof (cases "sm_get (fw_bound w) path = None")
  case True
  have "fs_wp (call (\<lambda>w. w\<lparr> fw_bound := sm_insert path pid (fw_bound w) \<rparr>)) Q w"
    by (rule fs_wp_call) (simp_all add: assms True)
  with True show ?thesis by (simp add: fs_wp_def namespace_bind_def)
next
  case False
  then show ?thesis using assms(1) [of ALREADY_EXISTS "fw_answers w"] by (auto simp: fs_wp_def namespace_bind_def)
qed

lemma fs_wp_namespace_unbind [fs_wp_intros]:
  assumes "\<And>as st. Q (Inl (FsExternal st)) (w\<lparr> fw_answers := as \<rparr>)"
    and "\<And>as. Q (Inr ()) (w\<lparr> fw_answers := as, fw_bound := sm_remove path (fw_bound w) \<rparr>)"
  shows "fs_wp (namespace_unbind path) Q w"
  unfolding namespace_unbind_def by (rule fs_wp_call) (simp_all add: assms)

lemma fs_wp_exit [fs_wp_intros]:
  assumes "Q (Inl FsPanic) w" and "\<And>code. Q (Inl (FsNonZeroExit code)) w" and "Q (Inr ()) w"
  shows "fs_wp (clean_exit i) Q w" "fs_wp (zero_exit i) Q w"
  using assms by (auto simp: fs_wp_def clean_exit_def zero_exit_def split: prod.splits option.splits)

lemma end_process_simps [simp]:
  "fw_running (end_process pid w) = fw_running w - {pid}" "fw_bound (end_process pid w) = fw_bound w"
  "fw_commands (end_process pid w) = fw_commands w" "fw_next (end_process pid w) = fw_next w"
  "fw_kill (end_process pid w) = fw_kill w" "fw_answers (end_process pid w) = fw_answers w"
  by (simp_all add: end_process_def)

section \<open>Exclusive use of the device\<close>

datatype fs_op = OpMount string | OpFormat | OpFsck | OpUnmount | OpQuery | OpKill

fun fs_step :: "fs_op \<Rightarrow> Filesystem \<Rightarrow> fs_world \<Rightarrow> fs_result" where
  "fs_step (OpMount mount_point) fs w = fs_mount mount_point fs w"
| "fs_step OpFormat fs w = fs_format fs w"
| "fs_step OpFsck fs w = fs_fsck fs w"
| "fs_step OpUnmount fs w = fs_unmount fs w"
| "fs_step OpQuery fs w = fs_query_filesystem fs w"
| "fs_step OpKill fs w = fs_kill fs w"

fun fs_run :: "fs_op list \<Rightarrow> Filesystem \<Rightarrow> fs_world \<Rightarrow> (fs_error + unit) list \<times> Filesystem \<times> fs_world" where
  "fs_run [] fs w = ([], fs, w)"
| "fs_run (op # ops) fs w =
     (let (r, fs1, w1) = fs_step op fs w; (rs, fs2, w2) = fs_run ops fs1 w1 in (r # rs, fs2, w2))"

text \<open>No call to the environment failed; refused, unsuccessful and unlaunched commands are allowed.\<close>

definition environment_ok :: "fs_error + unit \<Rightarrow> bool" where
  "environment_ok r = (case r of Inl (FsExternal _) \<Rightarrow> False | Inl FsPanic \<Rightarrow> False | _ \<Rightarrow> True)"

definition fs_commands :: "FSConfig \<Rightarrow> string list set" where
  "fs_commands c =
     {[cf_binary_path c] @ cf_generic_args c @ [''mount''] @ cf_mount_args c,
      [cf_binary_path c] @ cf_generic_args c @ [''mkfs''] @ cf_format_args c,
      [cf_binary_path c] @ cf_generic_args c @ [''fsck'']}"

definition exclusive :: "FSConfig \<Rightarrow> (string, nat option) sorted_map \<Rightarrow> Filesystem \<Rightarrow> fs_world \<Rightarrow> bool" where
  "exclusive c m fs w \<longleftrightarrow>
     fs_config fs = c \<and>
     (\<forall>l \<in> set (fw_commands w). la_others l = {} \<and> la_args l \<in> fs_commands c) \<and>
     (case fs_instance fs of
        None \<Rightarrow> fw_running w = {} \<and> fw_bound w = m
      | Some i \<Rightarrow>
          fw_running w = {fi_process i} \<and> fi_mount_point i \<notin> fst ` set m \<and>
          fw_bound w = sm_insert (fi_mount_point i) (Some (fi_process i)) m)"

lemmas fs_calls = get_channel_def instance_mount_def instance_unmount_def instance_query_filesystem_def
  instance_kill_def run_command_and_wait_for_clean_exit_def

text \<open>What a mount, a command, an unmount, a query and a kill do, whatever the environment answers.\<close>

lemma mount_effect:
  "fs_wp (fs_bind get_channel (\<lambda>_. instance_mount args mp crypt))
     (\<lambda>r w'. case r of
        Inl e \<Rightarrow> (\<exists>st. e = FsExternal st) \<or>
          ((\<exists>st. e = FsLaunch args st) \<and> fw_running w' = fw_running w \<and> fw_bound w' = fw_bound w \<and>
           fw_commands w' = fw_commands w)
      | Inr i \<Rightarrow>
          i = \<lparr> fi_process = fw_next w, fi_mount_point = mp \<rparr> \<and> sm_get (fw_bound w) mp = None \<and>
          fw_running w' = insert (fw_next w) (fw_running w) \<and>
          fw_bound w' = sm_insert mp (Some (fw_next w)) (fw_bound w) \<and>
          (\<exists>hs. fw_commands w' = fw_commands w @
             [\<lparr> la_pid = fw_next w, la_args = args, la_handles = hs, la_others = fw_running w \<rparr>])) w"
  by (auto simp: fs_calls intro!: fs_wp_intros)

lemma command_effect:
  assumes "fw_next w \<notin> fw_running w"
  shows "fs_wp (fs_bind get_channel (\<lambda>_. run_command_and_wait_for_clean_exit args crypt))
     (\<lambda>r w'. environment_ok r \<longrightarrow>
        fw_running w' = fw_running w \<and> fw_bound w' = fw_bound w \<and>
        (\<exists>ls. fw_commands w' = fw_commands w @ ls \<and> (\<forall>l \<in> set ls. la_args l = args \<and> la_others l = fw_running w))) w"
  using assms by (auto simp: fs_calls environment_ok_def intro!: fs_wp_intros split: option.splits)

lemma unmount_effect:
  "fs_wp (instance_unmount i)
     (\<lambda>r w'. environment_ok r \<longrightarrow>
        fw_running w' = fw_running w - {fi_process i} \<and> fw_bound w' = sm_remove (fi_mount_point i) (fw_bound w) \<and>
        fw_commands w' = fw_commands w) w"
  by (auto simp: fs_calls environment_ok_def intro!: fs_wp_intros)

lemma kill_effect:
  "fs_wp (instance_kill i)
     (\<lambda>r w'. environment_ok r \<longrightarrow>
        fw_running w' = fw_running w - {fi_process i} \<and> fw_bound w' = sm_remove (fi_mount_point i) (fw_bound w) \<and>
        fw_commands w' = fw_commands w) w"
  by (auto simp: fs_calls environment_ok_def intro!: fs_wp_intros)

lemma query_effect:
  "fs_wp (instance_query_filesystem i)
     (\<lambda>r w'. fw_running w' = fw_running w \<and> fw_bound w' = fw_bound w \<and> fw_commands w' = fw_commands w) w"
  by (auto simp: fs_calls intro!: fs_wp_intros)

lemma exclusive_config: "exclusive c m fs w \<Longrightarrow> fs_config fs = c"
  by (simp add: exclusive_def)

lemma exclusive_idle:
  "fs_instance fs = None \<Longrightarrow>
     exclusive c m fs w \<longleftrightarrow> fs_config fs = c \<and> fw_running w = {} \<and> fw_bound w = m \<and>
       (\<forall>l \<in> set (fw_commands w). la_others l = {} \<and> la_args l \<in> fs_commands c)"
  by (auto simp: exclusive_def)

lemma exclusive_mount:
  assumes "exclusive c m fs w" and "sm_inv m" and "fs_mount mp fs w = (r, fs', w')" and "environment_ok r"
  shows "exclusive c m fs' w'"
proof (cases "fs_instance fs \<noteq> None \<or> cf_component_name (fs_config fs) \<noteq> None")
  case True
  then show ?thesis using assms by (auto simp: fs_mount_def Let_def split: if_splits)
next
  case False
  define args where "args = [cf_binary_path c] @ cf_generic_args c @ [''mount''] @ cf_mount_args c"
  note c = exclusive_config [OF assms(1)]
  obtain q w1 where q: "fs_bind get_channel (\<lambda>_. instance_mount args mp (cf_crypt_client c)) w = (q, w1)"
    by (cases "fs_bind get_channel (\<lambda>_. instance_mount args mp (cf_crypt_client c)) w")
  have m: "fs_mount mp fs w = (case q of Inl e \<Rightarrow> (Inl e, fs, w1) | Inr i \<Rightarrow> (Inr (), fs\<lparr> fs_instance := Some i \<rparr>, w1))"
    using False unfolding fs_mount_def Let_def c args_def [symmetric] q by (simp split: sum.splits)
  have "args \<in> fs_commands c" by (simp add: args_def fs_commands_def)
  then show ?thesis
    using fs_wpD [OF mount_effect q] False assms
    by (auto simp: m exclusive_idle environment_ok_def exclusive_def sm_get_None_iff split: sum.splits)
qed

lemma exclusive_command:
  assumes "exclusive c m fs w" and "fs_instance fs = None" and "args \<in> fs_commands c"
    and "fs_bind get_channel (\<lambda>_. run_command_and_wait_for_clean_exit args crypt) w = (r, w')" and "environment_ok r"
  shows "exclusive c m fs w'"
proof -
  have "fw_next w \<notin> fw_running w" using assms(1,2) by (simp add: exclusive_idle)
  from fs_wpD [OF command_effect [OF this] assms(4)] show ?thesis
    using assms by (auto simp: exclusive_idle)
qed

lemma exclusive_step:
  assumes "exclusive c m fs w" and "sm_inv m" and "fs_step op fs w = (r, fs', w')" and "environment_ok r"
  shows "exclusive c m fs' w'"
proof (cases op)
  case (OpMount mp)
  then show ?thesis using assms exclusive_mount by simp
next
  case OpFormat
  then show ?thesis using assms by (auto simp: fs_format_def Let_def exclusive_config [OF assms(1)] fs_commands_def
      intro: exclusive_command split: prod.splits if_splits)
next
  case OpFsck
  then show ?thesis using assms by (auto simp: fs_fsck_def Let_def exclusive_config [OF assms(1)] fs_commands_def
      intro: exclusive_command split: prod.splits if_splits)
next
  case OpUnmount
  then show ?thesis
    using assms fs_wpD [OF unmount_effect]
    by (auto simp: fs_unmount_def exclusive_def split: prod.splits option.splits)
next
  case OpQuery
  then show ?thesis
    using assms fs_wpD [OF query_effect]
    by (auto simp: fs_query_filesystem_def exclusive_def split: prod.splits option.splits)
next
  case OpKill
  then show ?thesis
    using assms fs_wpD [OF kill_effect]
    by (auto simp: fs_kill_def exclusive_def split: prod.splits option.splits)
qed

lemma exclusive_run:
  "\<lbrakk> exclusive c m fs w; sm_inv m; fs_run ops fs w = (rs, fs', w'); list_all environment_ok rs \<rbrakk>
   \<Longrightarrow> exclusive c m fs' w'"
  by (induction ops arbitrary: fs w rs) (auto split: prod.splits dest: exclusive_step)

definition new_fs_world :: "answer list \<Rightarrow> bool \<Rightarrow> (string, nat option) sorted_map \<Rightarrow> fs_world" where
  "new_fs_world as kill m =
     \<lparr> fw_answers = as, fw_kill = kill, fw_next = 0, fw_running = {}, fw_bound = m, fw_commands = [] \<rparr>"

lemma exclusive_new: "exclusive c m (fs_from_channel c) (new_fs_world as kill m)"
  by (simp add: exclusive_def fs_from_channel_def new_fs_world_def)

lemma exclusive_drop:
  assumes "exclusive c m fs w" and "sm_inv m"
    and "fs_instance fs \<noteq> None \<longrightarrow> environment_ok (fst (fs_unmount fs w))"
  shows "fw_running (fs_drop fs w) = {} \<and> fw_bound (fs_drop fs w) = m"
proof (cases "fs_instance fs = None")
  case True
  then show ?thesis using assms(1) by (simp add: fs_drop_def exclusive_idle)
next
  case False
  obtain r fs' w' where u: "fs_unmount fs w = (r, fs', w')" by (cases "fs_unmount fs w") auto
  have "fs_instance fs' = None" using u False by (auto simp: fs_unmount_def split: prod.splits)
  then show ?thesis
    using exclusive_step [of c m fs w OpUnmount r fs' w'] assms u False by (simp add: fs_drop_def exclusive_idle)
qed


definition example_minfs :: FSConfig where
  "example_minfs = minfs_config (minfs_default\<lparr> m_verbose := True \<rparr>)"

lemmas fs_eval = fs_mount_def fs_format_def fs_fsck_def fs_unmount_def fs_query_filesystem_def fs_kill_def fs_calls
  fs_bind_def fs_return_def call_def next_answer_def launch_process_def process_info_def clean_exit_def
  namespace_bind_def namespace_unbind_def empty_result_def kill_process_def end_process_def fs_from_channel_def
  new_fs_world_def example_minfs_def minfs_config_def minfs_default_def no_config_def crypt_action_def
  environment_ok_def fs_drop_def Let_def sm_remove_def

lemma example_run:
  "fs_run [OpFormat, OpMount ''/mnt'', OpFsck, OpQuery] (fs_from_channel example_minfs) (new_fs_world [] True [])
   = ([Inr (), Inr (), Inl FsMounted, Inr ()],
      \<lparr> fs_config = example_minfs, fs_instance = Some \<lparr> fi_process = 1, fi_mount_point = ''/mnt'' \<rparr> \<rparr>,
      \<lparr> fw_answers = [], fw_kill = True, fw_next = 2, fw_running = {1}, fw_bound = [(''/mnt'', Some 1)],
        fw_commands =
          [\<lparr> la_pid = 0, la_args = [''/pkg/bin/minfs'', ''--verbose'', ''mkfs''], la_handles = [User0 1],
             la_others = {} \<rparr>,
           \<lparr> la_pid = 1, la_args = [''/pkg/bin/minfs'', ''--verbose'', ''mount''],
             la_handles = [DirectoryRequest 0, User0 1], la_others = {} \<rparr>] \<rparr>)"
  by (simp add: fs_eval)


text \<open>
  The exclusion rests on the environment: an unmount whose shutdown fails forgets the instance while its
  process still uses the device, and the next format is not refused: mkfs runs on a device in use.
\<close>

lemma failed_unmount_then_format:
  "let (rs, fs, w) = fs_run [OpMount ''/mnt'', OpUnmount, OpFormat] (fs_from_channel example_minfs)
                       (new_fs_world (replicate 11 AnsOk @ [AnsErr UNAVAILABLE]) True [])
   in rs = [Inr (), Inl (FsExternal UNAVAILABLE), Inr ()] \<and> fs_instance fs = None \<and> fw_running w = {0} \<and>
      map la_others (fw_commands w) = [{}, {0}]"
  by (simp add: fs_eval numeral_eq_Suc)

text \<open>A mount that fails after the launch leaves the process running, and no handle of it.\<close>

lemma failed_mount_leaves_process:
  "let (rs, fs, w) = fs_run [OpMount ''/mnt''] (fs_from_channel example_minfs)
                       (new_fs_world (replicate 6 AnsOk @ [AnsErr UNAVAILABLE]) True [])
   in rs = [Inl (FsExternal UNAVAILABLE)] \<and> fs_instance fs = None \<and> fw_running (fs_drop fs w) = {0}"
  by (simp add: fs_eval numeral_eq_Suc)

section \<open>A served filesystem\<close>

datatype serving_op = SvBind string | SvQuery

fun serving_step :: "serving_op \<Rightarrow> ServingFilesystem \<Rightarrow> fs_world \<Rightarrow> ServingFilesystem \<times> fs_world" where
  "serving_step (SvBind path) s w = (case bind_to_path path s w of (Inl _, w') \<Rightarrow> (s, w') | (Inr s', w') \<Rightarrow> (s', w'))"
| "serving_step SvQuery s w = (s, snd (serving_query w))"

fun serving_run :: "serving_op list \<Rightarrow> ServingFilesystem \<Rightarrow> fs_world \<Rightarrow> ServingFilesystem \<times> fs_world" where
  "serving_run [] s w = (s, w)"
| "serving_run (op # ops) s w = (let (s', w') = serving_step op s w in serving_run ops s' w')"

datatype serving_end = SvShutdown | SvKill | SvDrop

fun serving_finish :: "serving_end \<Rightarrow> ServingFilesystem \<Rightarrow> fs_world \<Rightarrow> fs_world" where
  "serving_finish SvShutdown s w = snd (serving_shutdown s w)"
| "serving_finish SvKill s w = snd (serving_kill s w)"
| "serving_finish SvDrop s w = serving_drop s w"

fun is_bind :: "serving_op \<Rightarrow> bool" where
  "is_bind (SvBind _) \<longleftrightarrow> True"
| "is_bind SvQuery \<longleftrightarrow> False"

text \<open>
  What the calls leave alone, for every answer: the path is unbound or nothing changes, and killing a process ends
  it when the kernel grants it.
\<close>

lemma unbind_installed_effect:
  "fs_wp (unbind_installed p)
     (\<lambda>r w'. fw_running w' = fw_running w \<and> fw_kill w' = fw_kill w \<and> fw_commands w' = fw_commands w \<and>
        (fw_bound w' = fw_bound w \<or> fw_bound w' = sm_remove p (fw_bound w))) w"
  by (auto simp: unbind_installed_def intro!: fs_wp_intros)

lemma drop_effect:
  "fw_running (serving_drop s w) = fw_running w - (if fw_kill w then set_option (sv_process s) else {})"
  "fw_kill (serving_drop s w) = fw_kill w"
  using unbind_installed_effect
  by (auto simp: serving_drop_def Let_def fs_wp_pair kill_process_def split: option.splits)

lemma snd_then_drop [simp]: "snd (then_drop s m w) = serving_drop (s\<lparr> sv_process := None \<rparr>) (snd (m w))"
  by (simp add: then_drop_def split: prod.splits)

lemma kill_and_wait_effect:
  "fs_wp (kill_and_wait pid)
     (\<lambda>r w'. fw_running w' = fw_running w - (if fw_kill w then {pid} else {}) \<and> fw_kill w' = fw_kill w \<and>
        fw_bound w' = fw_bound w) w"
  by (auto simp: kill_and_wait_def intro!: fs_wp_intros)

lemma fs_wp_shutdown_process:
  "fs_wp (shutdown_process s) Q w =
     fs_wp (do_shutdown s)
       (\<lambda>r w1. case r of
          Inl e \<Rightarrow> Q (Inl e) (case sv_process s of None \<Rightarrow> w1 | Some pid \<Rightarrow> snd (kill_and_wait pid w1))
        | Inr _ \<Rightarrow> fs_wp (case sv_process s of
              None \<Rightarrow> fs_return ()
            | Some pid \<Rightarrow> fs_bind (call (end_process pid)) (\<lambda>_. fs_bind process_info (\<lambda>_. fs_return ()))) Q w1) w"
  by (auto simp: fs_wp_def shutdown_process_def fs_return_def split: prod.splits sum.splits option.splits)

lemma shutdown_process_effect:
  assumes "fw_kill w"
  shows "fs_wp (shutdown_process s)
     (\<lambda>r w'. fw_running w' = fw_running w - set_option (sv_process s) \<and> fw_kill w' \<and> fw_bound w' = fw_bound w) w"
  using assms kill_and_wait_effect
  by (auto simp: fs_wp_shutdown_process do_shutdown_def fs_wp_pair [of "kill_and_wait _"]
      intro!: fs_wp_intros split: option.splits)

lemma finish_running:
  assumes "fw_kill w"
  shows "fw_running (serving_finish e s w) = fw_running w - set_option (sv_process s)"
  using shutdown_process_effect [OF assms] kill_and_wait_effect assms
  by (cases e)
    (auto simp: serving_kill_def serving_shutdown_def drop_effect fs_wp_pair split: option.splits)

text \<open>When no call fails, the path that is noted is unbound.\<close>

lemma finish_bound:
  assumes "fw_answers w = []"
  shows "fw_bound (serving_finish e s w) =
     (case sv_binding s of None \<Rightarrow> fw_bound w | Some p \<Rightarrow> sm_remove p (fw_bound w))"
  using assms
  by (cases e)
    (auto simp: serving_kill_def serving_shutdown_def shutdown_process_def do_shutdown_def serving_drop_def
      kill_and_wait_def unbind_installed_def fs_eval split: option.splits)

text \<open>While it is served, a filesystem keeps its process; the paths that it bound are noted, up to the last.\<close>

definition binding_state ::
  "(string, nat option) sorted_map \<Rightarrow> ServingFilesystem \<Rightarrow> fs_world \<Rightarrow> bool" where
  "binding_state m s w \<longleftrightarrow>
     (case sv_binding s of
        None \<Rightarrow> fw_bound w = m
      | Some p \<Rightarrow> sm_get m p = None \<and> fw_bound w = sm_insert p (sv_process s) m)"

lemma bind_to_path_effect:
  "fs_wp (bind_to_path p s)
     (\<lambda>r w'. fw_running w' = fw_running w \<and> fw_kill w' = fw_kill w \<and> fw_commands w' = fw_commands w \<and>
       (case r of
          Inl _ \<Rightarrow> fw_bound w' = fw_bound w
        | Inr s' \<Rightarrow>
            s' = s\<lparr> sv_binding := Some p \<rparr> \<and> sm_get (fw_bound w) p = None \<and>
            fw_bound w' = sm_insert p (sv_process s) (fw_bound w))) w"
  by (auto simp: bind_to_path_def intro!: fs_wp_intros)

lemma serving_query_effect:
  "fs_wp serving_query
     (\<lambda>r w'. fw_running w' = fw_running w \<and> fw_kill w' = fw_kill w \<and> fw_commands w' = fw_commands w \<and>
       fw_bound w' = fw_bound w) w"
  by (auto simp: serving_query_def intro!: fs_wp_intros)

lemma serving_step_effect:
  assumes "serving_step op s w = (s', w')"
  shows "sv_process s' = sv_process s \<and> fw_running w' = fw_running w \<and> fw_kill w' = fw_kill w \<and>
     fw_commands w' = fw_commands w \<and>
     (binding_state m s w \<longrightarrow> is_bind op \<longrightarrow> sv_binding s = None \<longrightarrow> binding_state m s' w') \<and>
     (binding_state m s w \<longrightarrow> \<not> is_bind op \<longrightarrow> sv_binding s' = sv_binding s \<and> binding_state m s' w')"
proof (cases op)
  case (SvBind p)
  then show ?thesis
    using assms bind_to_path_effect [of p s w]
    by (auto simp: fs_wp_def binding_state_def split: prod.splits sum.splits option.splits)
next
  case SvQuery
  then show ?thesis
    using assms serving_query_effect [of w] by (auto simp: fs_wp_pair binding_state_def split: option.splits)
qed

lemma serving_run_effect:
  "serving_run ops s w = (s', w') \<Longrightarrow>
     sv_process s' = sv_process s \<and> fw_running w' = fw_running w \<and> fw_kill w' = fw_kill w \<and>
     fw_commands w' = fw_commands w"
proof (induction ops arbitrary: s w)
  case Nil
  then show ?case by simp
next
  case (Cons op ops)
  obtain s1 w1 where st: "serving_step op s w = (s1, w1)" by (cases "serving_step op s w")
  show ?case using Cons.IH [of s1 w1] Cons.prems serving_step_effect [OF st] st by simp
qed

lemma serving_run_binding:
  "\<lbrakk> serving_run ops s w = (s', w'); binding_state m s w;
     length (filter is_bind ops) \<le> (if sv_binding s = None then 1 else 0) \<rbrakk> \<Longrightarrow> binding_state m s' w'"
proof (induction ops arbitrary: s w)
  case Nil
  then show ?case by simp
next
  case (Cons op ops)
  obtain s1 w1 where st: "serving_step op s w = (s1, w1)" by (cases "serving_step op s w")
  have "binding_state m s1 w1 \<and>
      length (filter is_bind ops) \<le> (if sv_binding s1 = None then 1 else 0)"
    using serving_step_effect [OF st, of m] Cons.prems(2,3) by (cases "is_bind op") (auto split: if_splits)
  with Cons.IH [of s1 w1] Cons.prems(1) st show ?case by simp
qed

lemma serve_effect:
  assumes "async_serve c w = (Inr s, w')" and "fw_next w \<notin> fw_running w"
  shows "fw_running w' - set_option (sv_process s) = fw_running w \<and> fw_kill w' = fw_kill w \<and>
     sv_binding s = None \<and> fw_bound w' = fw_bound w"
proof -
  have "fs_wp (async_serve c)
     (\<lambda>r w'. \<forall>s. r = Inr s \<longrightarrow> fw_running w' - set_option (sv_process s) = fw_running w \<and> fw_kill w' = fw_kill w \<and>
        sv_binding s = None \<and> fw_bound w' = fw_bound w) w"
    using assms(2)
    by (cases "cf_component_name c")
      (auto simp: async_serve_def do_serve_def startup_request_def get_block_handle_def intro!: fs_wp_intros)
  from fs_wpD [OF this assms(1)] show ?thesis by simp
qed


lemmas serving_eval = async_serve_def do_serve_def get_block_handle_def bind_to_path_def serving_query_def serving_drop_def
  serving_shutdown_def shutdown_process_def do_shutdown_def then_drop_def kill_and_wait_def unbind_installed_def
  async_format_def async_fsck_def async_command_def wait_for_successful_exit_def zero_exit_def fs_eval

lemma example_serve:
  "async_serve example_minfs (new_fs_world [] True []) =
     (Inr \<lparr> sv_process = Some 0, sv_binding = None \<rparr>,
      \<lparr> fw_answers = [], fw_kill = True, fw_next = 1, fw_running = {0}, fw_bound = [],
        fw_commands =
          [\<lparr> la_pid = 0, la_args = [''/pkg/bin/minfs'', ''mount'', ''--verbose''],
             la_handles = [DirectoryRequest 0, User0 1], la_others = {} \<rparr>] \<rparr>)"
  by (simp add: serving_eval)


text \<open>
  The object notes one path only. A second bind succeeds and replaces the note, and the first path stays bound when the
  filesystem has ended.
\<close>

lemma second_binding_leaks:
  "let (s, w) = serving_run [SvBind ''/a'', SvBind ''/b''] \<lparr> sv_process = Some 0, sv_binding = None \<rparr>
                  (snd (async_serve example_minfs (new_fs_world [] True [])))
   in fw_bound (serving_finish SvShutdown s w) = [(''/a'', Some 0)]"
  by (simp add: example_serve serving_eval less_list_code less_char_def)

text \<open>A serve that fails after the launch leaves the process running.\<close>

lemma failed_serve_leaves_process:
  "let (r, w) = async_serve example_minfs (new_fs_world (replicate 5 AnsOk @ [AnsErr UNAVAILABLE]) True [])
   in r = Inl (FsExternal UNAVAILABLE) \<and> fw_running w = {0}"
  by (simp add: serving_eval numeral_eq_Suc)

text \<open>The generic arguments stand before the subcommand in \<open>lib.rs\<close> and after it in \<open>asynchronous.rs\<close>.\<close>

lemma argument_order_differs:
  "map la_args (fw_commands (snd (snd (fs_fsck (fs_from_channel example_minfs) (new_fs_world [] True []))))) =
     [[''/pkg/bin/minfs'', ''--verbose'', ''fsck'']]"
  "map la_args (fw_commands (snd (async_fsck example_minfs (new_fs_world [] True [])))) =
     [[''/pkg/bin/minfs'', ''fsck'', ''--verbose'']]"
  by (simp_all add: serving_eval)

end
