(* ===== verification/Ramdisk.thy ===== *)
theory Ramdisk
  imports Vfs_Prelude
begin

text \<open>
  The client of ramdisks (\<open>ramdevice_client\<close>): the builders, which choose one of the functions of the C library, and the
  client, which owns what that function allocated. The library and the kernel are outside the repository:
  each call takes the next status of the environment (none left: success), and the state records the objects that
  exist, the memory objects whose handles the process still owns, and the calls that were made.
\<close>

section \<open>The library\<close>

datatype ramdisk_create =
    RdCreate "64 word" "64 word"
  | RdCreateWithGuid "64 word" "64 word" "8 word list"
  | RdCreateAt nat "64 word" "64 word"
  | RdCreateAtWithGuid nat "64 word" "64 word" "8 word list"
  | RdCreateFromVmo nat
  | RdCreateFromVmoWithBlockSize nat "64 word"
  | RdCreateAtFromVmo nat nat
  | RdCreateAtFromVmoWithBlockSize nat nat "64 word"

record ramdisk_world =
  ra_answers :: "status list"
  ra_next :: nat
  ra_allocated :: "nat set"
  ra_freed :: "nat list"
  ra_vmos :: "nat set"
  ra_calls :: "ramdisk_create list"

type_synonym 'a rdm = "ramdisk_world \<Rightarrow> (status + 'a) \<times> ramdisk_world"

definition rd_status :: "ramdisk_world \<Rightarrow> status \<times> ramdisk_world" where
  "rd_status w = (case ra_answers w of [] \<Rightarrow> (OK, w) | st # sts \<Rightarrow> (st, w\<lparr> ra_answers := sts \<rparr>))"

definition rd_bind :: "'a rdm \<Rightarrow> ('a \<Rightarrow> 'b rdm) \<Rightarrow> 'b rdm" where
  "rd_bind m f w = (case m w of (Inl e, w') \<Rightarrow> (Inl e, w') | (Inr a, w') \<Rightarrow> f a w')"

definition rd_call :: "unit rdm" where
  "rd_call w = (case rd_status w of (st, w') \<Rightarrow> (if st = OK then Inr () else Inl st, w'))"

text \<open>A create function consumes the memory object that it is given, and allocates a client if it succeeds.\<close>

fun rd_consumed :: "ramdisk_create \<Rightarrow> nat set" where
  "rd_consumed (RdCreateFromVmo v) = {v}"
| "rd_consumed (RdCreateFromVmoWithBlockSize v _) = {v}"
| "rd_consumed (RdCreateAtFromVmo _ v) = {v}"
| "rd_consumed (RdCreateAtFromVmoWithBlockSize _ v _) = {v}"
| "rd_consumed _ = {}"

definition rd_create :: "ramdisk_create \<Rightarrow> nat rdm" where
  "rd_create c w =
     (case rd_status w of (st, w') \<Rightarrow>
        let w1 = w'\<lparr> ra_vmos := ra_vmos w' - rd_consumed c, ra_calls := ra_calls w' @ [c] \<rparr>
        in if st = OK then
             (Inr (ra_next w1), w1\<lparr> ra_next := ra_next w1 + 1, ra_allocated := insert (ra_next w1) (ra_allocated w1) \<rparr>)
           else (Inl st, w1))"

section \<open>Builders\<close>

datatype DevRoot = DevProvided nat | DevIsolated

definition open_isolated_devmgr :: "nat \<Rightarrow> nat rdm" where
  "open_isolated_devmgr fd = rd_bind rd_call (\<lambda>_. rd_bind rd_call (\<lambda>_. rd_bind rd_call (\<lambda>_ w. (Inr fd, w))))"

text \<open>The descriptor of the device root: that of the given file, or a new one for the isolated manager.\<close>

fun dev_root_fd :: "nat \<Rightarrow> DevRoot \<Rightarrow> nat rdm" where
  "dev_root_fd fd (DevProvided f) w = (Inr f, w)"
| "dev_root_fd fd DevIsolated w = open_isolated_devmgr fd w"

record VmoRamdiskClientBuilder =
  vb_vmo :: nat
  vb_block_size :: "64 word option"
  vb_dev_root :: "DevRoot option"

definition vmo_builder_new :: "nat \<Rightarrow> VmoRamdiskClientBuilder" where
  "vmo_builder_new v = \<lparr> vb_vmo = v, vb_block_size = None, vb_dev_root = None \<rparr>"

definition vmo_builder_block_size :: "64 word \<Rightarrow> VmoRamdiskClientBuilder \<Rightarrow> VmoRamdiskClientBuilder" where
  "vmo_builder_block_size bs b = b\<lparr> vb_block_size := Some bs \<rparr>"

definition vmo_builder_dev_root :: "nat \<Rightarrow> VmoRamdiskClientBuilder \<Rightarrow> VmoRamdiskClientBuilder" where
  "vmo_builder_dev_root f b = b\<lparr> vb_dev_root := Some (DevProvided f) \<rparr>"

definition vmo_builder_isolated_dev_root :: "VmoRamdiskClientBuilder \<Rightarrow> VmoRamdiskClientBuilder" where
  "vmo_builder_isolated_dev_root b = b\<lparr> vb_dev_root := Some DevIsolated \<rparr>"

definition vmo_builder_build :: "nat \<Rightarrow> VmoRamdiskClientBuilder \<Rightarrow> nat rdm" where
  "vmo_builder_build fd b =
     (case (vb_dev_root b, vb_block_size b) of
        (Some r, Some bs) \<Rightarrow>
          rd_bind (dev_root_fd fd r) (\<lambda>f. rd_create (RdCreateAtFromVmoWithBlockSize f (vb_vmo b) bs))
      | (Some r, None) \<Rightarrow> rd_bind (dev_root_fd fd r) (\<lambda>f. rd_create (RdCreateAtFromVmo f (vb_vmo b)))
      | (None, Some bs) \<Rightarrow> rd_create (RdCreateFromVmoWithBlockSize (vb_vmo b) bs)
      | (None, None) \<Rightarrow> rd_create (RdCreateFromVmo (vb_vmo b)))"

record RamdiskClientBuilder =
  rb_block_size :: "64 word"
  rb_block_count :: "64 word"
  rb_dev_root :: "DevRoot option"
  rb_guid :: "8 word list option"

definition builder_new :: "64 word \<Rightarrow> 64 word \<Rightarrow> RamdiskClientBuilder" where
  "builder_new bs bc = \<lparr> rb_block_size = bs, rb_block_count = bc, rb_dev_root = None, rb_guid = None \<rparr>"

definition builder_dev_root :: "nat \<Rightarrow> RamdiskClientBuilder \<Rightarrow> RamdiskClientBuilder" where
  "builder_dev_root f b = b\<lparr> rb_dev_root := Some (DevProvided f) \<rparr>"

definition builder_isolated_dev_root :: "RamdiskClientBuilder \<Rightarrow> RamdiskClientBuilder" where
  "builder_isolated_dev_root b = b\<lparr> rb_dev_root := Some DevIsolated \<rparr>"

definition builder_guid :: "8 word list \<Rightarrow> RamdiskClientBuilder \<Rightarrow> RamdiskClientBuilder" where
  "builder_guid g b = b\<lparr> rb_guid := Some g \<rparr>"

definition builder_build :: "nat \<Rightarrow> RamdiskClientBuilder \<Rightarrow> nat rdm" where
  "builder_build fd b =
     (let bs = rb_block_size b; bc = rb_block_count b
      in case (rb_dev_root b, rb_guid b) of
           (Some r, Some g) \<Rightarrow> rd_bind (dev_root_fd fd r) (\<lambda>f. rd_create (RdCreateAtWithGuid f bs bc g))
         | (Some r, None) \<Rightarrow> rd_bind (dev_root_fd fd r) (\<lambda>f. rd_create (RdCreateAt f bs bc))
         | (None, Some g) \<Rightarrow> rd_create (RdCreateWithGuid bs bc g)
         | (None, None) \<Rightarrow> rd_create (RdCreate bs bc))"

section \<open>The client\<close>

definition ramdisk_client_create :: "64 word \<Rightarrow> 64 word \<Rightarrow> nat rdm" where
  "ramdisk_client_create bs bc = builder_build 0 (builder_new bs bc)"

text \<open>\<open>get_path\<close> and \<open>open\<close> need the client to be allocated; using one that was freed would be undefined: \<open>None\<close>.\<close>

definition ramdisk_open :: "nat \<Rightarrow> ramdisk_world \<Rightarrow> ((status + unit) \<times> ramdisk_world) option" where
  "ramdisk_open p w = (if p \<in> ra_allocated w then Some (rd_call w) else None)"

definition ramdisk_free :: "nat \<Rightarrow> ramdisk_world \<Rightarrow> ((status + unit) \<times> ramdisk_world) option" where
  "ramdisk_free p w =
     (if p \<in> ra_allocated w
      then Some (rd_call (w\<lparr> ra_allocated := ra_allocated w - {p}, ra_freed := ra_freed w @ [p] \<rparr>)) else None)"

text \<open>\<open>destroy\<close> consumes the client and forgets it, so that its \<open>drop\<close> does not free it again.\<close>

datatype ramdisk_event =
    RdBuild nat RamdiskClientBuilder
  | RdVmoBuild nat VmoRamdiskClientBuilder
  | RdOpen nat
  | RdDestroy nat
  | RdDrop nat

fun ramdisk_step :: "ramdisk_event \<Rightarrow> nat set \<times> ramdisk_world \<Rightarrow> (nat set \<times> ramdisk_world) option" where
  "ramdisk_step (RdBuild fd b) (cs, w) =
     Some (case builder_build fd b w of (Inl _, w') \<Rightarrow> (cs, w') | (Inr p, w') \<Rightarrow> (insert p cs, w'))"
| "ramdisk_step (RdVmoBuild fd b) (cs, w) =
     Some (case vmo_builder_build fd b w of (Inl _, w') \<Rightarrow> (cs, w') | (Inr p, w') \<Rightarrow> (insert p cs, w'))"
| "ramdisk_step (RdOpen p) (cs, w) =
     (if p \<in> cs then map_option (\<lambda>(_, w'). (cs, w')) (ramdisk_open p w) else Some (cs, w))"
| "ramdisk_step (RdDestroy p) (cs, w) =
     (if p \<in> cs then map_option (\<lambda>(_, w'). (cs - {p}, w')) (ramdisk_free p w) else Some (cs, w))"
| "ramdisk_step (RdDrop p) (cs, w) =
     (if p \<in> cs then map_option (\<lambda>(_, w'). (cs - {p}, w')) (ramdisk_free p w) else Some (cs, w))"

fun ramdisk_run :: "ramdisk_event list \<Rightarrow> nat set \<times> ramdisk_world \<Rightarrow> (nat set \<times> ramdisk_world) option" where
  "ramdisk_run [] s = Some s"
| "ramdisk_run (ev # evs) s = (case ramdisk_step ev s of None \<Rightarrow> None | Some s' \<Rightarrow> ramdisk_run evs s')"

text \<open>
  \<open>wait_for_device\<close>: a path with a zero byte is no C string; the arguments of the library function are the
  path and the nanoseconds, cut to 64 bits.
\<close>

definition wait_arguments :: "string \<Rightarrow> nat \<Rightarrow> (string \<times> 64 word) option" where
  "wait_arguments path nanos = (if char_of (0 :: nat) \<in> set path then None else Some (path, word_of_nat nanos))"

definition wait_for_device :: "string \<Rightarrow> nat \<Rightarrow> ramdisk_world \<Rightarrow> (status + unit) option \<times> ramdisk_world" where
  "wait_for_device path nanos w =
     (case wait_arguments path nanos of None \<Rightarrow> (None, w) | Some _ \<Rightarrow> (case rd_call w of (r, w') \<Rightarrow> (Some r, w')))"

section \<open>Ownership\<close>

definition rd_inv :: "nat set \<times> ramdisk_world \<Rightarrow> bool" where
  "rd_inv = (\<lambda>(cs, w). ra_allocated w = cs \<and> distinct (ra_freed w) \<and> (\<forall>p \<in> cs. p \<notin> set (ra_freed w)) \<and>
     (\<forall>p \<in> cs. p < ra_next w) \<and> (\<forall>p \<in> set (ra_freed w). p < ra_next w))"

lemma rd_status_frame: "\<exists>st sts. rd_status w = (st, w\<lparr> ra_answers := sts \<rparr>)"
proof (cases "ra_answers w")
  case Nil
  then have "w\<lparr> ra_answers := [] \<rparr> = w" by simp
  with Nil show ?thesis unfolding rd_status_def by (metis list.simps(4))
next
  case (Cons st sts)
  then show ?thesis unfolding rd_status_def by auto
qed

lemma rd_call_frame: "rd_call w = (r, w') \<Longrightarrow> \<exists>sts. w' = w\<lparr> ra_answers := sts \<rparr>"
  using rd_status_frame [of w] by (auto simp: rd_call_def)

lemma open_isolated_frame: "open_isolated_devmgr fd w = (r, w') \<Longrightarrow> \<exists>sts. w' = w\<lparr> ra_answers := sts \<rparr>"
  by (auto simp: open_isolated_devmgr_def rd_bind_def dest!: rd_call_frame split: prod.splits sum.splits)

lemma dev_root_frame: "dev_root_fd fd r w = (x, w') \<Longrightarrow> \<exists>sts. w' = w\<lparr> ra_answers := sts \<rparr>"
proof (cases r)
  case (DevProvided f)
  moreover assume "dev_root_fd fd r w = (x, w')"
  ultimately have "w' = w\<lparr> ra_answers := ra_answers w \<rparr>" by simp
  then show ?thesis ..
qed (simp add: open_isolated_frame)

lemma rd_create_inv:
  assumes "rd_inv (cs, w)" and "rd_create c w = (r, w')"
  shows "rd_inv (case r of Inl _ \<Rightarrow> cs | Inr p \<Rightarrow> insert p cs, w')"
proof -
  have "ra_next w \<notin> set (ra_freed w)" using assms(1) by (auto simp: rd_inv_def)
  then show ?thesis
    using assms rd_status_frame [of w] by (auto simp: rd_create_def rd_inv_def Let_def less_Suc_eq split: if_splits)
qed

lemma rd_inv_answers [simp]: "rd_inv (cs, w\<lparr> ra_answers := sts \<rparr>) = rd_inv (cs, w)"
  by (simp add: rd_inv_def)

lemma rd_create_at_inv:
  assumes "rd_inv (cs, w)" and "rd_bind (dev_root_fd fd r) (\<lambda>f. rd_create (c f)) w = (x, w')"
  shows "rd_inv (case x of Inl _ \<Rightarrow> cs | Inr p \<Rightarrow> insert p cs, w')"
proof -
  obtain y w1 where y: "dev_root_fd fd r w = (y, w1)" by fastforce
  then obtain sts where "w1 = w\<lparr> ra_answers := sts \<rparr>" using dev_root_frame by blast
  then show ?thesis
    using assms y rd_create_inv [of cs w1 _ x w'] by (cases y) (auto simp: rd_bind_def)
qed

lemma build_inv:
  assumes "rd_inv (cs, w)"
  shows "builder_build fd b w = (r, w') \<Longrightarrow> rd_inv (case r of Inl _ \<Rightarrow> cs | Inr p \<Rightarrow> insert p cs, w')"
    and "vmo_builder_build fd vb w = (r, w') \<Longrightarrow> rd_inv (case r of Inl _ \<Rightarrow> cs | Inr p \<Rightarrow> insert p cs, w')"
  using rd_create_inv [OF assms] rd_create_at_inv [OF assms]
  by (auto simp: builder_build_def vmo_builder_build_def Let_def split: option.splits)

lemma free_inv:
  assumes "rd_inv (cs, w)" and "p \<in> cs"
  shows "\<exists>r w'. ramdisk_free p w = Some (r, w') \<and> rd_inv (cs - {p}, w')"
proof -
  obtain r w' where c: "rd_call (w\<lparr> ra_allocated := ra_allocated w - {p}, ra_freed := ra_freed w @ [p] \<rparr>) = (r, w')"
    by fastforce
  from rd_call_frame [OF c] assms c show ?thesis by (auto simp: ramdisk_free_def rd_inv_def)
qed

lemma ramdisk_step_inv:
  assumes "rd_inv s"
  shows "\<exists>s'. ramdisk_step ev s = Some s' \<and> rd_inv s'"
proof -
  obtain cs w where s: "s = (cs, w)" by fastforce
  note inv = assms [unfolded s]
  show ?thesis
  proof (cases ev)
    case (RdBuild fd b)
    obtain r w' where "builder_build fd b w = (r, w')" by fastforce
    with build_inv(1) [OF inv this] RdBuild s show ?thesis by (cases r) auto
  next
    case (RdVmoBuild fd b)
    obtain r w' where "vmo_builder_build fd b w = (r, w')" by fastforce
    with build_inv(2) [OF inv this] RdVmoBuild s show ?thesis by (cases r) auto
  next
    case (RdOpen p)
    obtain r w' where c: "rd_call w = (r, w')" by fastforce
    with rd_call_frame [OF c] RdOpen s inv show ?thesis by (auto simp: ramdisk_open_def rd_inv_def)
  next
    case (RdDestroy p)
    with free_inv [OF inv, of p] s inv show ?thesis by auto
  next
    case (RdDrop p)
    with free_inv [OF inv, of p] s inv show ?thesis by auto
  qed
qed

lemma ramdisk_run_inv: "rd_inv s \<Longrightarrow> \<exists>s'. ramdisk_run evs s = Some s' \<and> rd_inv s'"
proof (induction evs arbitrary: s)
  case Nil
  then show ?case by simp
next
  case (Cons ev evs)
  from ramdisk_step_inv [OF Cons.prems, of ev] obtain s' where "ramdisk_step ev s = Some s'" "rd_inv s'" by blast
  with Cons.IH [of s'] show ?case by simp
qed

text \<open>
  Whatever is built, opened, destroyed and dropped, and whichever calls fail: no client is used after it was freed (the run
  returns), the allocated clients are exactly those that are owned, and none is freed twice.
\<close>

lemma ramdisks_owned_once:
  "\<exists>cs w'. ramdisk_run evs ({}, w\<lparr> ra_allocated := {}, ra_freed := [] \<rparr>) = Some (cs, w') \<and>
     ra_allocated w' = cs \<and> distinct (ra_freed w') \<and> set (ra_freed w') \<inter> cs = {}"
proof -
  have "rd_inv ({}, w\<lparr> ra_allocated := {}, ra_freed := [] \<rparr>)" by (simp add: rd_inv_def)
  from ramdisk_run_inv [OF this, of evs] show ?thesis unfolding rd_inv_def by fastforce
qed

text \<open>
  The function that a builder calls carries every option that was set; and a builder over a memory object calls at most
  one function, after it gave up the handle of the object.
\<close>

lemma build_calls:
  assumes "builder_build fd b w = (r, w')"
  shows "ra_calls w' = ra_calls w \<or>
     (\<exists>c. ra_calls w' = ra_calls w @ [c] \<and>
        c = (let bs = rb_block_size b; bc = rb_block_count b;
                 f = (case rb_dev_root b of Some (DevProvided f) \<Rightarrow> f | _ \<Rightarrow> fd)
             in case (rb_dev_root b, rb_guid b) of
                  (None, None) \<Rightarrow> RdCreate bs bc | (None, Some g) \<Rightarrow> RdCreateWithGuid bs bc g
                | (Some _, None) \<Rightarrow> RdCreateAt f bs bc | (Some _, Some g) \<Rightarrow> RdCreateAtWithGuid f bs bc g))"
proof -
  have c: "ra_calls w' = ra_calls w @ [c]" if "rd_create c w = (r, w')" for c w r and w' :: ramdisk_world
    using that rd_status_frame [of w] by (auto simp: rd_create_def Let_def split: if_splits)
  have o: "(r = Inr f \<longrightarrow> f = fd) \<and> ra_calls w' = ra_calls w" if "open_isolated_devmgr fd w = (r, w')" for r f w and w' :: ramdisk_world
    using that open_isolated_frame [OF that] by (auto simp: open_isolated_devmgr_def rd_bind_def split: prod.splits sum.splits)
  show ?thesis
    using assms
    by (auto simp: builder_build_def Let_def rd_bind_def dest: c o split: option.splits DevRoot.splits prod.splits sum.splits,
        (metis c o)+)
qed

text \<open>
  A builder over a memory object takes the raw handle first; if the isolated device manager cannot be reached, the error
  is returned and nothing closes the handle.
\<close>

lemma failed_devmgr_leaks_vmo:
  assumes "ra_answers w = [st]" and "st \<noteq> OK" and "v \<in> ra_vmos w"
  shows "\<exists>w'. vmo_builder_build fd (vmo_builder_isolated_dev_root (vmo_builder_new v)) w = (Inl st, w') \<and> v \<in> ra_vmos w'"
  using assms
  by (simp add: vmo_builder_build_def vmo_builder_isolated_dev_root_def vmo_builder_new_def rd_bind_def
      open_isolated_devmgr_def rd_call_def rd_status_def)

end
