(* ===== verification/Open_Walk.thy ===== *)
theory Open_Walk
  imports Tree_Builder Lazy_Dir Service_Node Vmo_File Dir_Connection
begin

text \<open>
  An open request on its way through a tree of entries: the \<open>open\<close> of each kind of \<open>DirectoryEntry\<close> (simple and lazy
  directories, VMO files, services, remote nodes) serves the request or passes it on to the entry of the next
  path component. The composition of these calls is compared with a lookup in the tree, for requests that open and
  for requests that create.
\<close>

section \<open>Entries and the state they share\<close>

text \<open>
  The nodes of a tree as the tree builder makes them: simple directories at addresses, and leaves.
  A lazy directory is a leaf for the builder.
\<close>

datatype leaf_entry = LazyDirEntry nat | FileEntry nat | ServiceEntry nat | RemoteEntry nat

type_synonym entry = "leaf_entry node"

text \<open>
  The environment: what the outside decides of a refused channel, the file constructor of the scope's tree
  constructor, if the scope has one, the \<open>get_entry\<close> callbacks of the lazy directories, whether their tasks
  are accepted by the scope, and the routing functions of the remote nodes.
\<close>

record open_env =
  oe_fio :: fio
  oe_dbg :: bool
  oe_stream_ok :: bool
  oe_send_ok :: bool
  oe_constructor :: "(string \<Rightarrow> entry result) option"
  oe_lazy :: "nat \<Rightarrow> string \<Rightarrow> entry result"
  oe_spawned :: bool
  oe_remote :: "nat \<Rightarrow> unit remote_node"

record open_state =
  os_dirs :: "entry dir_store"
  os_next :: nat

datatype open_end =
    DirConnected nat OpenFlags
  | LazyConnected nat OpenFlags
  | FileConnected nat OpenFlags
  | ServiceOpened nat service_open_end
  | RemoteRouted nat "unit routed result"
  | EndRefused "server_msg list"
  | EndDropped
  | EndPanicked

section \<open>One call of open\<close>

text \<open>
  \<open>Connection::entry_not_found\<close> of the two kinds of simple directories. The tree constructor makes a directory at the
  next free address.
\<close>

definition dir_not_found ::
    "open_env \<Rightarrow> nat \<Rightarrow> entry simple_dir \<Rightarrow> OpenFlags \<Rightarrow> 32 word \<Rightarrow> string \<Rightarrow> path \<Rightarrow> entry result" where
  "dir_not_found E fresh d flags mode name p =
     (if sd_mutable d
      then mutable_entry_not_found (oe_fio E) (map_option (tree_create_entry (DirNode fresh)) (oe_constructor E)) flags mode name p
      else immutable_entry_not_found flags)"

definition put_open_dir :: "nat \<Rightarrow> entry simple_dir \<Rightarrow> open_state \<Rightarrow> open_state" where
  "put_open_dir a d st = st\<lparr>os_dirs := (os_dirs st)(a \<mapsto> d)\<rparr>"

text \<open>A directory that the constructor made, which is new among the entries, comes to be at its address.\<close>

definition allocate_created ::
    "open_env \<Rightarrow> entry simple_dir \<Rightarrow> entry simple_dir \<Rightarrow> entry \<Rightarrow> open_state \<Rightarrow> open_state" where
  "allocate_created E d d' e st =
     (if sd_entries d' \<noteq> sd_entries d \<and> e = DirNode (os_next st)
      then \<lparr>os_dirs = (os_dirs st)(os_next st \<mapsto> mutable_simple (oe_fio E)), os_next = Suc (os_next st)\<rparr>
      else st)"

definition end_of_messages :: "server_msg list result \<Rightarrow> open_end" where
  "end_of_messages r = (case r of Inl _ \<Rightarrow> EndPanicked | Inr msgs \<Rightarrow> EndRefused msgs)"

type_synonym open_step = "open_end + entry \<times> OpenFlags \<times> 32 word \<times> path"

definition open_simple :: "open_env \<Rightarrow> nat \<Rightarrow> OpenFlags \<Rightarrow> 32 word \<Rightarrow> path \<Rightarrow> open_state \<Rightarrow> open_step \<times> open_state" where
  "open_simple E a flags mode p st =
     (case os_dirs st a of
        None \<Rightarrow> (Inl EndPanicked, st)
      | Some d \<Rightarrow>
          (case simple_open (dir_not_found E (os_next st) d) (oe_stream_ok E) flags mode p d of
             (Inl _, d') \<Rightarrow> (Inl EndPanicked, put_open_dir a d' st)
           | (Inr (OpenConnection f), d') \<Rightarrow> (Inl (DirConnected a f), put_open_dir a d' st)
           | (Inr (OpenError msgs), d') \<Rightarrow> (Inl (EndRefused msgs), put_open_dir a d' st)
           | (Inr (OpenForward e f m p'), d') \<Rightarrow>
               (Inr (e, f, m, p'), allocate_created E d d' e (put_open_dir a d' st))))"

fun open_leaf :: "open_env \<Rightarrow> leaf_entry \<Rightarrow> OpenFlags \<Rightarrow> 32 word \<Rightarrow> path \<Rightarrow> open_step" where
  "open_leaf E (LazyDirEntry a) flags mode p =
     (case lazy_open (oe_lazy E a) (oe_spawned E) (oe_stream_ok E) flags mode p of
        Inl _ \<Rightarrow> Inl EndPanicked
      | Inr (LazyConnection f) \<Rightarrow> Inl (LazyConnected a f)
      | Inr (LazyEntry e f m p') \<Rightarrow> Inr (e, f, m, p')
      | Inr (LazyRefused msgs) \<Rightarrow> Inl (EndRefused msgs)
      | Inr LazyNotSpawned \<Rightarrow> Inl EndDropped)"
| "open_leaf E (FileEntry a) flags mode p =
     (case vmo_entry_open (oe_stream_ok E) flags (path_is_empty p) of
        VmoOpenRefused r \<Rightarrow> Inl (end_of_messages r)
      | VmoOpenConnection f \<Rightarrow> Inl (FileConnected a f))"
| "open_leaf E (ServiceEntry a) flags mode p =
     Inl (ServiceOpened a (service_open (oe_fio E) (oe_dbg E) (oe_stream_ok E) (oe_send_ok E) flags mode p))"
| "open_leaf E (RemoteEntry a) flags mode p = Inl (RemoteRouted a (remote_open (oe_remote E a) flags mode p))"

definition entry_open :: "open_env \<Rightarrow> entry \<Rightarrow> OpenFlags \<Rightarrow> 32 word \<Rightarrow> path \<Rightarrow> open_state \<Rightarrow> open_step \<times> open_state" where
  "entry_open E n flags mode p st =
     (case n of
        DirNode a \<Rightarrow> open_simple E a flags mode p st
      | LeafNode l \<Rightarrow> (open_leaf E l flags mode p, st))"

section \<open>The whole walk\<close>

text \<open>Every call that passes the request on has moved the cursor of the path.\<close>

definition path_left :: "path \<Rightarrow> nat" where
  "path_left p = length (p_inner p) - p_next p"

lemma next_with_ref_shrinks:
  assumes "next_with_ref p = Inr (p', Some name)"
  shows "path_left p' < path_left p"
proof -
  have le: "p_next p \<le> length (p_inner p)" using assms by (auto simp: next_with_ref_def str_from_def split: if_splits)
  show ?thesis
  proof (cases "str_find slash (drop (p_next p) (p_inner p))")
    case None
    with assms le show ?thesis by (auto simp: next_with_ref_def path_left_def split: if_splits)
  next
    case (Some i)
    from str_find_SomeD [OF Some] le have "p_next p + i < length (p_inner p)" by auto
    with assms le Some show ?thesis by (auto simp: next_with_ref_def path_left_def)
  qed
qed

lemma lazy_open_entry:
  assumes "lazy_open get spawned stream_ok flags mode p = Inr (LazyEntry e f m p')"
  shows "\<exists>name. next_with_ref p = Inr (p', Some name)"
proof -
  from assms obtain q name where "next_with_ref p = Inr (q, name)"
    by (cases "next_with_ref p") (auto simp: lazy_open_def path_next_def)
  with assms show ?thesis
    by (cases name) (auto simp: lazy_open_def path_next_def split: sum.splits fail.splits if_splits)
qed

lemma entry_open_shrinks:
  assumes "entry_open E n flags mode p st = (Inr (n', flags', mode', p'), st')"
  shows "path_left p' < path_left p"
proof (cases n)
  case (DirNode a)
  with assms obtain d name where "next_with_ref p = Inr (p', Some name)"
    by (auto simp: entry_open_def open_simple_def simple_open_def split: option.splits sum.splits prod.splits
        open_outcome.splits fail.splits)
  then show ?thesis by (rule next_with_ref_shrinks)
next
  case (LeafNode l)
  with assms obtain a where "l = LazyDirEntry a"
    by (cases l) (auto simp: entry_open_def split: vmo_open.splits)
  with assms LeafNode obtain name where "next_with_ref p = Inr (p', Some name)"
    by (auto simp: entry_open_def split: sum.splits lazy_open_end.splits dest!: lazy_open_entry)
  then show ?thesis by (rule next_with_ref_shrinks)
qed

function open_walk :: "open_env \<Rightarrow> entry \<Rightarrow> OpenFlags \<Rightarrow> 32 word \<Rightarrow> path \<Rightarrow> open_state \<Rightarrow> open_end \<times> open_state" where
  "open_walk E n flags mode p st =
     (case entry_open E n flags mode p st of
        (Inl e, st') \<Rightarrow> (e, st')
      | (Inr (n', flags', mode', p'), st') \<Rightarrow> open_walk E n' flags' mode' p' st')"
  by pat_completeness auto

termination
  by (relation "measure (\<lambda>(E, n, flags, mode, p, st). path_left p)") (auto dest: entry_open_shrinks [OF sym])

declare open_walk.simps [simp del]

section \<open>Lookup in the tree\<close>

text \<open>
  Where a list of components leads: to an entry, with what is left for a remote node to resolve, to a directory that
  has no entry of the next name, to the failure of a callback, or to an entry that is no directory.
\<close>

datatype resolved =
    Reached entry "string list"
  | Missing nat string "string list"
  | LazyFailed fail
  | Blocked leaf_entry
  | Dangling

fun resolve :: "open_env \<Rightarrow> entry dir_store \<Rightarrow> entry \<Rightarrow> string list \<Rightarrow> resolved" where
  "resolve E ds (DirNode a) cs =
     (case ds a of
        None \<Rightarrow> Dangling
      | Some d \<Rightarrow>
          (case cs of
             [] \<Rightarrow> Reached (DirNode a) []
           | c # cs' \<Rightarrow> (case dir_map d c of Some m \<Rightarrow> resolve E ds m cs' | None \<Rightarrow> Missing a c cs')))"
| "resolve E ds (LeafNode (LazyDirEntry a)) (c # cs) =
     (case oe_lazy E a c of Inr m \<Rightarrow> resolve E ds m cs | Inl f \<Rightarrow> LazyFailed f)"
| "resolve E ds (LeafNode (RemoteEntry a)) (c # cs) = Reached (LeafNode (RemoteEntry a)) (c # cs)"
| "resolve E ds (LeafNode l) [] = Reached (LeafNode l) []"
| "resolve E ds (LeafNode l) (c # cs) = Blocked l"

definition refusal :: "open_env \<Rightarrow> OpenFlags \<Rightarrow> status \<Rightarrow> open_end" where
  "refusal E flags s = end_of_messages (send_on_open_with_error (oe_stream_ok E) flags s)"

text \<open>How a request that does not create ends.\<close>

fun opens_as :: "open_env \<Rightarrow> OpenFlags \<Rightarrow> 32 word \<Rightarrow> resolved \<Rightarrow> open_end \<Rightarrow> bool" where
  "opens_as E flags mode (Reached (DirNode a) cs) e \<longleftrightarrow> e = DirConnected a flags"
| "opens_as E flags mode (Reached (LeafNode (LazyDirEntry a)) cs) e \<longleftrightarrow> e = LazyConnected a flags"
| "opens_as E flags mode (Reached (LeafNode (FileEntry a)) cs) e \<longleftrightarrow> e = FileConnected a flags"
| "opens_as E flags mode (Reached (LeafNode (ServiceEntry a)) cs) e \<longleftrightarrow>
     e = ServiceOpened a (service_open (oe_fio E) (oe_dbg E) (oe_stream_ok E) (oe_send_ok E) flags mode path_dot)"
| "opens_as E flags mode (Reached (LeafNode (RemoteEntry a)) cs) e \<longleftrightarrow>
     (\<exists>q. path_wf (oe_fio E) q \<and> path_comps q = cs \<and> e = RemoteRouted a (remote_open (oe_remote E a) flags mode q))"
| "opens_as E flags mode (Missing a c cs) e \<longleftrightarrow> e = refusal E flags NOT_FOUND"
| "opens_as E flags mode (LazyFailed (Err s)) e \<longleftrightarrow> e = refusal E flags s"
| "opens_as E flags mode (LazyFailed Panic) e \<longleftrightarrow> e = EndPanicked"
| "opens_as E flags mode (Blocked (ServiceEntry a)) e \<longleftrightarrow>
     e = ServiceOpened a
       (if NODE_REFERENCE \<in> flags
        then (case refusal E flags NOT_DIR of EndRefused msgs \<Rightarrow> Refused msgs | _ \<Rightarrow> OpenPanicked)
        else ChannelClosed)"
| "opens_as E flags mode (Blocked l) e \<longleftrightarrow> e = refusal E flags NOT_DIR"
| "opens_as E flags mode Dangling e \<longleftrightarrow> e = EndPanicked"

text \<open>The only change of the state: the handler for missing entries of the last directory is told the name.\<close>

fun told_missing :: "resolved \<Rightarrow> open_state \<Rightarrow> open_state" where
  "told_missing (Missing a c cs) st =
     st\<lparr>os_dirs := (os_dirs st)(a := map_option
       (\<lambda>d. d\<lparr>sd_not_found := map_option (\<lambda>names. names @ [c]) (sd_not_found d)\<rparr>) (os_dirs st a))\<rparr>"
| "told_missing r st = st"

lemma path_wf_empty_iff: "path_wf K p \<Longrightarrow> path_is_empty p \<longleftrightarrow> path_comps p = []"
  by (simp add: path_wf_def path_comps_empty_iff)

lemma put_open_dir_same: "os_dirs st a = Some d \<Longrightarrow> put_open_dir a d st = st"
  by (simp add: put_open_dir_def fun_upd_idem)

lemma allocate_created_same [simp]: "allocate_created E d d e st = st"
  by (simp add: allocate_created_def)

text \<open>A simple directory, at the end of a path and with a component left.\<close>

lemma open_simple_end:
  assumes "path_wf K p" and "path_comps p = []" and "os_dirs st a = Some d"
  shows "open_simple E a flags mode p st = (Inl (DirConnected a flags), st)"
  using assms by (simp add: open_simple_def simple_open_def next_with_ref_done put_open_dir_same)

lemma open_simple_found:
  assumes "next_with_ref p = Inr (p', Some c)" and "os_dirs st a = Some d" and "dir_map d c = Some m"
    and "\<not> intersects flags {CREATE_IF_ABSENT}"
  shows "open_simple E a flags mode p st = (Inr (m, flags, mode, p'), st)"
  using assms by (simp add: open_simple_def simple_open_def get_or_insert_entry_def put_open_dir_same)

lemma open_simple_missing:
  assumes "next_with_ref p = Inr (p', Some c)" and "os_dirs st a = Some d" and "dir_map d c = None"
    and "dir_not_found E (os_next st) d flags mode c p' = Inl (Err s)" and "s \<noteq> OK"
  shows "open_simple E a flags mode p st = (Inl (refusal E flags s), told_missing (Missing a c cs) st)"
  using assms
  by (auto simp: open_simple_def simple_open_def get_or_insert_entry_def put_open_dir_def refusal_def end_of_messages_def
      send_on_open_with_error_def)

lemma not_found_plain:
  assumes "\<not> intersects flags {CREATE}"
  shows "dir_not_found E fresh d flags mode c p = Inl (Err NOT_FOUND)"
  using assms by (simp add: dir_not_found_def mutable_entry_not_found_def immutable_entry_not_found_def)

lemma lazy_open_step:
  assumes "next_with_ref p = Inr (p', Some c)" and "oe_spawned E"
  shows "open_leaf E (LazyDirEntry a) flags mode p =
     (case oe_lazy E a c of
        Inr m \<Rightarrow> Inr (m, flags, mode, p')
      | Inl (Err s) \<Rightarrow> Inl (refusal E flags s)
      | Inl Panic \<Rightarrow> Inl EndPanicked)"
  using assms
  by (auto simp: lazy_open_def path_next_def refusal_def end_of_messages_def split: sum.splits fail.splits)

lemma open_walk_resolve:
  assumes p: "path_wf (oe_fio E) p" and flags: "\<not> intersects flags {CREATE}" "\<not> intersects flags {CREATE_IF_ABSENT}"
    and sp: "oe_spawned E"
  shows "\<exists>e. open_walk E n flags mode p st = (e, told_missing (resolve E (os_dirs st) n (path_comps p)) st) \<and>
           opens_as E flags mode (resolve E (os_dirs st) n (path_comps p)) e"
  using p
proof (induction "path_comps p" arbitrary: n p)
  case Nil
  note cs = Nil.hyps [symmetric]
  have empty: "path_is_empty p" using cs path_wf_empty_iff [OF Nil.prems] by simp
  show ?case
  proof (cases n)
    case (DirNode a)
    show ?thesis
    proof (cases "os_dirs st a")
      case None
      with DirNode cs show ?thesis by (subst open_walk.simps) (simp add: entry_open_def open_simple_def)
    next
      case (Some d)
      with DirNode cs open_simple_end [OF Nil.prems cs Some] show ?thesis
        by (subst open_walk.simps) (simp add: entry_open_def)
    qed
  next
    case (LeafNode l)
    have dot: "service_open K dbg ok sok f m p = service_open K dbg ok sok f m path_dot" for K dbg ok sok f m
      using empty by (simp add: service_open_def)
    show ?thesis
    proof (cases l)
      case (LazyDirEntry a)
      with LeafNode cs next_with_ref_done [OF Nil.prems cs] show ?thesis
        by (subst open_walk.simps) (simp add: entry_open_def lazy_open_def path_next_def)
    qed (use LeafNode cs empty dot Nil.prems in \<open>auto simp: open_walk.simps entry_open_def vmo_entry_open_def\<close>)
  qed
next
  case (Cons c cs)
  note comps = Cons.hyps(2) [symmetric]
  obtain p' where p': "next_with_ref p = Inr (p', Some c)" "path_wf (oe_fio E) p'" "path_comps p' = cs"
    using next_with_ref_step [OF Cons.prems comps] by blast
  have nonempty: "\<not> path_is_empty p" using comps path_wf_empty_iff [OF Cons.prems] by simp
  note IH = Cons.hyps(1) [OF p'(3) [symmetric] p'(2), unfolded p'(3)]
  show ?case
  proof (cases n)
    case (DirNode a)
    show ?thesis
    proof (cases "os_dirs st a")
      case None
      with DirNode comps show ?thesis by (subst open_walk.simps) (simp add: entry_open_def open_simple_def)
    next
      case (Some d)
      show ?thesis
      proof (cases "dir_map d c")
        case None
        with DirNode comps Some open_simple_missing [OF p'(1) Some None not_found_plain [OF flags(1)], where cs = cs]
        show ?thesis by (subst open_walk.simps) (simp add: entry_open_def del: told_missing.simps)
      next
        case (Some m)
        with DirNode comps \<open>os_dirs st a = Some d\<close> open_simple_found [OF p'(1) \<open>os_dirs st a = Some d\<close> Some flags(2)] IH [of m]
        show ?thesis by (subst open_walk.simps) (simp add: entry_open_def)
      qed
    qed
  next
    case (LeafNode l)
    show ?thesis
    proof (cases l)
      case (LazyDirEntry a)
      note step = lazy_open_step [OF p'(1) sp, of a flags mode]
      show ?thesis
      proof (cases "oe_lazy E a c")
        case (Inl f)
        with LazyDirEntry LeafNode comps step show ?thesis
          by (subst open_walk.simps) (cases f; simp add: entry_open_def)
      next
        case (Inr m)
        with LazyDirEntry LeafNode comps step IH [of m] show ?thesis
          by (subst open_walk.simps) (simp add: entry_open_def)
      qed
    next
      case (RemoteEntry a)
      with LeafNode comps Cons.prems show ?thesis
        by (subst open_walk.simps) (auto simp: entry_open_def)
    next
      case (FileEntry a)
      with LeafNode comps nonempty show ?thesis
        by (subst open_walk.simps) (simp add: entry_open_def vmo_entry_open_def refusal_def)
    next
      case (ServiceEntry a)
      with LeafNode comps nonempty show ?thesis
        by (subst open_walk.simps) (simp add: entry_open_def service_open_def refusal_def end_of_messages_def intersects_def
            split: sum.splits)
    qed
  qed
qed

section \<open>Requests that create\<close>

text \<open>As long as the entries exist, a request is passed on unchanged.\<close>

lemma walk_to_missing:
  assumes p: "path_wf (oe_fio E) p" and flags: "\<not> intersects flags {CREATE_IF_ABSENT}" and sp: "oe_spawned E"
    and miss: "resolve E (os_dirs st) n (path_comps p) = Missing a c cs"
  shows "\<exists>q d. open_walk E n flags mode p st = open_walk E (DirNode a) flags mode q st \<and> path_wf (oe_fio E) q \<and>
           path_comps q = c # cs \<and> p_is_dir q = p_is_dir p \<and> os_dirs st a = Some d \<and> dir_map d c = None"
  using p miss
proof (induction "path_comps p" arbitrary: n p)
  case Nil
  then show ?case by (cases n) (auto split: option.splits)
next
  case (Cons x xs)
  note comps = Cons.hyps(2) [symmetric]
  obtain p' where p': "next_with_ref p = Inr (p', Some x)" "path_wf (oe_fio E) p'" "path_comps p' = xs" "p_is_dir p' = p_is_dir p"
    using next_with_ref_step [OF Cons.prems(1) comps] by blast
  have step: ?case
    if "entry_open E n flags mode p st = (Inr (m, flags, mode, p'), st)" "resolve E (os_dirs st) m xs = Missing a c cs" for m
  proof -
    have "open_walk E n flags mode p st = open_walk E m flags mode p' st"
      using that(1) by (subst open_walk.simps) simp
    with Cons.hyps(1) [OF p'(3) [symmetric] p'(2), of m] that(2) p'(3,4) show ?thesis by simp
  qed
  show ?case
  proof (cases n)
    case (DirNode b)
    then obtain d where d: "os_dirs st b = Some d" using Cons.prems(2) by (auto split: option.splits)
    show ?thesis
    proof (cases "dir_map d x")
      case None
      with Cons.prems comps DirNode d show ?thesis by (intro exI [of _ p] exI [of _ d]) auto
    next
      case (Some m)
      with step [of m] open_simple_found [OF p'(1) d Some flags] DirNode d comps Cons.prems(2) show ?thesis
        by (simp add: entry_open_def)
    qed
  next
    case (LeafNode l)
    with Cons.prems(2) comps obtain b m where "l = LazyDirEntry b" "oe_lazy E b x = Inr m" "resolve E (os_dirs st) m xs = Missing a c cs"
      by (cases l) (auto split: sum.splits)
    with step [of m] lazy_open_step [OF p'(1) sp, of b flags mode] LeafNode show ?thesis
      by (simp add: entry_open_def)
  qed
qed

lemma resolve_missing:
  assumes "resolve E ds n p = Missing a c cs"
  shows "\<exists>d. ds a = Some d \<and> dir_map d c = None"
  using assms
  by (induction E ds n p rule: resolve.induct) (auto split: option.splits list.splits sum.splits)

text \<open>An entry added where a path went missing is what the path leads to.\<close>

lemma resolve_added:
  assumes "resolve E ds n p = Missing a c []" and "ds a = Some d" and "ds' a = Some d'" and "dir_map d' = (dir_map d)(c \<mapsto> m)"
    and "\<And>b. b \<noteq> a \<Longrightarrow> ds b \<noteq> None \<Longrightarrow> ds' b = ds b"
  shows "resolve E ds' n p = resolve E ds' m []"
  using assms(1)
proof (induction p arbitrary: n)
  case Nil
  then show ?case by (cases n) (auto split: option.splits)
next
  case (Cons x xs)
  show ?case
  proof (cases n)
    case (DirNode b)
    with Cons.prems obtain db where db: "ds b = Some db" by (auto split: option.splits)
    show ?thesis
    proof (cases "dir_map db x")
      case None
      with Cons.prems DirNode db assms(2-4) show ?thesis by auto
    next
      case (Some k)
      have IH: "resolve E ds' k xs = resolve E ds' m []" using Cons DirNode db Some by simp
      show ?thesis
      proof (cases "b = a")
        case True
        have "x \<noteq> c" using resolve_missing [OF Cons.prems] True Some db by auto
        with True Some db assms(2-4) IH DirNode show ?thesis by simp
      next
        case False
        with assms(5) [of b] db Some IH DirNode show ?thesis by simp
      qed
    qed
  next
    case (LeafNode l)
    with Cons show ?thesis by (cases l) (auto split: sum.splits)
  qed
qed

lemma open_simple_creates:
  assumes "next_with_ref p = Inr (p', Some c)" and "os_dirs st a = Some d" and "dir_map d c = None"
    and "dir_not_found E (os_next st) d flags mode c p' = Inr e"
  shows "open_simple E a flags mode p st =
     (let d' = d\<lparr>sd_entries := sm_insert c e (sd_entries d)\<rparr>
      in (Inr (e, flags, mode, p'), allocate_created E d d' e (put_open_dir a d' st)))"
  using assms by (simp add: open_simple_def simple_open_def get_or_insert_entry_def Let_def)

text \<open>What a mutable directory does for a missing entry, with the tree constructor.\<close>

lemma not_found_constructs:
  assumes "sd_mutable d" and "intersects flags {CREATE}" and "oe_constructor E = Some fc"
    and "from_flags_and_mode (oe_fio E) flags mode (p_is_dir p) = Inr t"
  shows "dir_not_found E fresh d flags mode c p =
     (if \<not> path_is_empty p then Inl (Err NOT_FOUND)
      else case t of NewDirectory \<Rightarrow> Inr (DirNode fresh) | NewFile \<Rightarrow> fc c)"
  using assms by (simp add: dir_not_found_def mutable_entry_not_found_def tree_create_entry_def path_is_dir_def split: NewEntryType.splits)

section \<open>Opening by a path string\<close>

lemma path_of_components:
  assumes cs: "cs \<noteq> []" "\<forall>c \<in> set cs. valid_component K c" and len: "length (str_join slash cs) \<le> max_path K"
  shows "\<exists>p. validate_and_split K (str_join slash cs) = Inr p \<and> path_wf K p \<and> path_comps p = cs \<and> \<not> path_is_dir p \<and> \<not> path_is_dot p"
proof -
  let ?s = "str_join slash cs"
  let ?p = "\<lparr>p_is_dir = False, p_inner = ?s, p_next = 0\<rparr>"
  note ends = join_not_slash_ends [OF cs]
  have v: "validate_and_split K ?s = Inr ?p" using validate_canonical [of "[]" "[]" cs K ?s] cs len by simp
  have split: "str_split slash ?s = cs" using cs by (intro str_split_join) (auto simp: valid_component_def)
  have comps: "path_comps ?p = cs" using ends(1) split by (simp add: path_comps_def)
  then have "path_wf K ?p" using cs len ends by (simp add: path_wf_def)
  with v comps ends(1) show ?thesis by (auto simp: path_is_dir_def path_is_dot_def)
qed

lemma handle_open_path:
  assumes cs: "cs \<noteq> []" "\<forall>c \<in> set cs. valid_component K c" "length (str_join slash cs) \<le> max_path K"
    and c: "NODE_REFERENCE \<notin> dc_flags c" "check_child_connection_flags K (dc_flags c) flags mode = Inr (flags2, mode2)"
  shows "\<exists>p. handle_open K stream_ok flags mode (str_join slash cs) c = OpenWith flags2 mode2 p \<and> path_wf K p \<and> path_comps p = cs"
  using path_of_components [OF cs] c by (auto simp: handle_open_def intersects_def)

text \<open>Without lazy directories on the way, the lookup is the one in the built directories.\<close>

lemma resolve_of_node_at:
  "node_at ds n cs = Some (LeafNode l) \<Longrightarrow> resolve E ds n cs = Reached (LeafNode l) []"
  by (induction ds n cs rule: node_at.induct) (auto split: option.splits node.splits elim: node.exhaust)

lemma node_at_of_resolve:
  assumes "resolve E ds n cs = Reached (LeafNode (FileEntry k)) []"
  shows "node_at ds n cs = Some (LeafNode (FileEntry k)) \<or> (\<exists>q a. node_at ds n q = Some (LeafNode (LazyDirEntry a)))"
  using assms
proof (induction cs arbitrary: n)
  case Nil
  then show ?case by (cases n) (auto split: option.splits)
next
  case (Cons c cs)
  show ?case
  proof (cases n)
    case (DirNode b)
    with Cons.prems obtain d m where d: "ds b = Some d" "dir_map d c = Some m" "resolve E ds m cs = Reached (LeafNode (FileEntry k)) []"
      by (auto split: option.splits)
    have "node_at ds n (c # q) = node_at ds m q" for q using d DirNode by simp
    with Cons.IH [OF d(3)] show ?thesis by metis
  next
    case (LeafNode l)
    show ?thesis
    proof (cases l)
      case (LazyDirEntry a)
      with LeafNode have "node_at ds n [] = Some (LeafNode (LazyDirEntry a))" by simp
      then show ?thesis by blast
    qed (use LeafNode Cons.prems in auto)
  qed
qed

lemma opens_as_file:
  assumes "opens_as E flags mode r (FileConnected k f)"
  shows "\<exists>cs. r = Reached (LeafNode (FileEntry k)) cs"
  using assms
  by (cases "(E, flags, mode, r, FileConnected k f)" rule: opens_as.cases)
    (auto simp: refusal_def end_of_messages_def split: sum.splits)

lemma resolve_reached_file:
  "resolve E ds n cs = Reached (LeafNode (FileEntry k)) xs \<Longrightarrow> xs = []"
  by (induction E ds n cs rule: resolve.induct) (auto split: option.splits list.splits sum.splits)

lemma open_walk_file_iff:
  assumes "path_wf (oe_fio E) p" and "\<not> intersects flags {CREATE}" and "\<not> intersects flags {CREATE_IF_ABSENT}" and "oe_spawned E"
  shows "open_walk E n flags mode p st = (FileConnected k flags, st) \<longleftrightarrow>
     resolve E (os_dirs st) n (path_comps p) = Reached (LeafNode (FileEntry k)) []"
proof -
  obtain e where "open_walk E n flags mode p st = (e, told_missing (resolve E (os_dirs st) n (path_comps p)) st)"
    "opens_as E flags mode (resolve E (os_dirs st) n (path_comps p)) e"
    using open_walk_resolve [OF assms, of n mode st] by blast
  then show ?thesis using opens_as_file resolve_reached_file by fastforce
qed

section \<open>Well-formed trees\<close>

text \<open>
  The typing of the shared state: an address held by an entry is the address of a directory, every directory satisfies
  its invariant, and the addresses from the next one on are free. Callbacks and constructors return entries that
  are well formed, constructed files are leaves, and their errors are statuses other than OK.
\<close>

definition entry_ok :: "open_state \<Rightarrow> entry \<Rightarrow> bool" where
  "entry_ok st n \<longleftrightarrow> (case n of DirNode a \<Rightarrow> os_dirs st a \<noteq> None | LeafNode _ \<Rightarrow> True)"

definition open_state_ok :: "open_state \<Rightarrow> bool" where
  "open_state_ok st \<longleftrightarrow>
     (\<forall>a \<ge> os_next st. os_dirs st a = None) \<and>
     (\<forall>a d. os_dirs st a = Some d \<longrightarrow> dir_inv d \<and> (\<forall>m \<in> ran (dir_map d). entry_ok st m))"

definition callback_ok :: "open_state \<Rightarrow> entry result \<Rightarrow> bool" where
  "callback_ok st r \<longleftrightarrow> r \<noteq> Inl Panic \<and> r \<noteq> Inl (Err OK) \<and> (\<forall>m. r = Inr m \<longrightarrow> entry_ok st m)"

definition open_env_ok :: "open_env \<Rightarrow> open_state \<Rightarrow> bool" where
  "open_env_ok E st \<longleftrightarrow>
     (\<forall>a c. callback_ok st (oe_lazy E a c)) \<and>
     (\<forall>fc c. oe_constructor E = Some fc \<longrightarrow> callback_ok st (fc c) \<and> (\<forall>a. fc c \<noteq> Inr (DirNode a)))"

text \<open>The state only grows.\<close>

definition keeps_entries :: "open_state \<Rightarrow> open_state \<Rightarrow> bool" where
  "keeps_entries st st' \<longleftrightarrow> (\<forall>a. os_dirs st a \<noteq> None \<longrightarrow> os_dirs st' a \<noteq> None)"

lemma keeps_entry_ok: "keeps_entries st st' \<Longrightarrow> entry_ok st n \<Longrightarrow> entry_ok st' n"
  by (auto simp: keeps_entries_def entry_ok_def split: node.splits)

lemma keeps_env_ok: "keeps_entries st st' \<Longrightarrow> open_env_ok E st \<Longrightarrow> open_env_ok E st'"
  by (auto simp: open_env_ok_def callback_ok_def intro: keeps_entry_ok)

lemma keeps_put: "os_dirs st a \<noteq> None \<Longrightarrow> keeps_entries st (put_open_dir a d st)"
  by (simp add: keeps_entries_def put_open_dir_def)

lemma put_open_dir_ok:
  assumes st: "open_state_ok st" and a: "os_dirs st a \<noteq> None" and d: "dir_inv d" "\<forall>m \<in> ran (dir_map d). entry_ok st m"
  shows "open_state_ok (put_open_dir a d st)"
proof -
  have keep: "entry_ok (put_open_dir a d st) m" if "entry_ok st m" for m
    using keeps_entry_ok [OF keeps_put [OF a] that] .
  have lt: "a < os_next st" using st a by (metis open_state_ok_def not_le)
  have free: "\<forall>b \<ge> os_next st. os_dirs (put_open_dir a d st) b = None"
    using st lt by (auto simp: open_state_ok_def put_open_dir_def)
  have "dir_inv x \<and> (\<forall>m \<in> ran (dir_map x). entry_ok (put_open_dir a d st) m)"
    if "os_dirs (put_open_dir a d st) b = Some x" for b x
    using that st d keep by (cases "b = a") (auto simp: open_state_ok_def put_open_dir_def)
  with free show ?thesis by (simp add: open_state_ok_def put_open_dir_def)
qed

text \<open>A new directory at the next address, before or after an entry refers to it.\<close>

lemma fresh_dir_inv: "dir_inv (mutable_simple K :: entry simple_dir)" "dir_map (mutable_simple K :: entry simple_dir) = Map.empty"
  by (simp_all add: dir_inv_def mutable_simple_def simple_new_def watchers_new_def)

lemma created_ok:
  assumes st: "open_state_ok st" and d: "os_dirs st a = Some d" "dir_map d c = None" and c: "entry_name c"
    and e: "e = DirNode (os_next st) \<or> (\<exists>l. e = LeafNode l)"
    and d': "d' = d\<lparr>sd_entries := sm_insert c e (sd_entries d)\<rparr>" and st': "st' = allocate_created E d d' e (put_open_dir a d' st)"
  shows "open_state_ok st' \<and> keeps_entries st st' \<and> entry_ok st' e"
proof -
  let ?new = "\<lparr>os_dirs = (os_dirs st)(os_next st \<mapsto> mutable_simple (oe_fio E)), os_next = Suc (os_next st)\<rparr>"
  have inv: "dir_inv d" "\<forall>m \<in> ran (dir_map d). entry_ok st m" using st d(1) by (simp_all add: open_state_ok_def)
  have map': "dir_map d' = (dir_map d)(c \<mapsto> e)" using inv(1) by (simp add: d' dir_inv_def)
  have inv': "dir_inv d'" using dir_inv_insert [OF inv(1) c] by (simp add: d')
  have changed: "sd_entries d' \<noteq> sd_entries d" using map' d(2) by (metis fun_upd_same option.distinct(1))
  have ran': "ran (dir_map d') = insert e (ran (dir_map d))" using map' d(2) by simp
  have fr: "os_dirs st (os_next st) = None" and a: "a < os_next st"
    using st d(1) by (auto simp: open_state_ok_def not_le [symmetric])
  from e show ?thesis
  proof
    assume e: "e = DirNode (os_next st)"
    have eq: "st' = put_open_dir a d' ?new"
      using changed e a by (auto simp: st' allocate_created_def put_open_dir_def fun_upd_twist)
    have keep: "keeps_entries st ?new" by (simp add: keeps_entries_def)
    have new: "open_state_ok ?new"
      using st fr fresh_dir_inv keeps_entry_ok [OF keep] by (auto simp: open_state_ok_def)
    have e_ok: "entry_ok ?new e" by (simp add: e entry_ok_def)
    have "open_state_ok st'"
      unfolding eq by (rule put_open_dir_ok [OF new]) (use d(1) inv' ran' inv(2) e_ok keeps_entry_ok [OF keep] in auto)
    moreover have "keeps_entries st st'" using keep by (auto simp: eq keeps_entries_def put_open_dir_def)
    moreover have "entry_ok st' e" using e_ok by (auto simp: eq entry_ok_def put_open_dir_def split: node.splits)
    ultimately show ?thesis by blast
  next
    assume "\<exists>l. e = LeafNode l"
    then obtain l where l: "e = LeafNode l" ..
    have eq: "st' = put_open_dir a d' st" by (simp add: st' allocate_created_def l)
    have "entry_ok st m" if "m \<in> ran (dir_map d')" for m using that ran' inv(2) l by (auto simp: entry_ok_def)
    then have "open_state_ok st'" unfolding eq using st d(1) inv' by (intro put_open_dir_ok) auto
    with keeps_put [of st a d'] d(1) l show ?thesis by (simp add: eq entry_ok_def)
  qed
qed

lemma from_flags_and_mode_errors: "from_flags_and_mode K flags mode dir \<noteq> Inl Panic" "from_flags_and_mode K flags mode dir \<noteq> Inl (Err OK)"
  by (simp_all add: from_flags_and_mode_def Let_def)

lemma dir_not_found_ok:
  assumes "open_env_ok E st"
  shows "dir_not_found E fresh d flags mode c p \<noteq> Inl Panic" "dir_not_found E fresh d flags mode c p \<noteq> Inl (Err OK)"
    "dir_not_found E fresh d flags mode c p = Inr e \<Longrightarrow> e = DirNode fresh \<or> (\<exists>l. e = LeafNode l)"
proof -
  have fc: "fc c \<noteq> Inl Panic" "fc c \<noteq> Inl (Err OK)" "fc c = Inr e \<Longrightarrow> \<exists>l. e = LeafNode l" if "oe_constructor E = Some fc" for fc e
    using assms that by (cases e; auto simp: open_env_ok_def callback_ok_def)+
  show "dir_not_found E fresh d flags mode c p \<noteq> Inl Panic" "dir_not_found E fresh d flags mode c p \<noteq> Inl (Err OK)"
    using fc(1,2) from_flags_and_mode_errors
    by (auto simp: dir_not_found_def mutable_entry_not_found_def immutable_entry_not_found_def tree_create_entry_def bind_res_Inl_iff
        split: option.splits if_splits NewEntryType.splits)
  show "e = DirNode fresh \<or> (\<exists>l. e = LeafNode l)" if "dir_not_found E fresh d flags mode c p = Inr e"
    using that fc(3)
    by (cases "from_flags_and_mode (oe_fio E) flags mode (path_is_dir p)"; cases "oe_constructor E")
      (auto simp: dir_not_found_def mutable_entry_not_found_def immutable_entry_not_found_def tree_create_entry_def
        split: if_splits NewEntryType.splits)
qed

lemma refusal_not_panic: "s \<noteq> OK \<Longrightarrow> refusal E flags s \<noteq> EndPanicked"
  by (simp add: refusal_def end_of_messages_def send_on_open_with_error_def)

text \<open>What a step may lead to: an end that is no panic and no dangling connection, or a well-formed entry and path.\<close>

fun step_ok :: "fio \<Rightarrow> open_state \<Rightarrow> open_step \<Rightarrow> bool" where
  "step_ok K st (Inl e) = (e \<noteq> EndPanicked \<and> (\<forall>a f. e = DirConnected a f \<longrightarrow> os_dirs st a \<noteq> None))"
| "step_ok K st (Inr (n, flags, mode, p)) = (entry_ok st n \<and> path_wf K p)"

lemma open_simple_refuses:
  assumes "os_dirs st a = Some d" and "open_state_ok st" and "s \<noteq> OK"
    and "open_simple E a flags mode p st =
      (Inl (refusal E flags s), put_open_dir a (d\<lparr>sd_not_found := h\<rparr>) st)"
  shows "\<exists>r st'. open_simple E a flags mode p st = (r, st') \<and> step_ok K st' r \<and> open_state_ok st' \<and> keeps_entries st st'"
proof -
  have d: "dir_inv (d\<lparr>sd_not_found := h\<rparr>)" "\<forall>m \<in> ran (dir_map (d\<lparr>sd_not_found := h\<rparr>)). entry_ok st m"
    using assms(1,2) by (simp_all add: open_state_ok_def dir_inv_def)
  have "refusal E flags s \<noteq> DirConnected b f" for b f by (simp add: refusal_def end_of_messages_def split: sum.splits)
  with assms put_open_dir_ok [OF assms(2) _ d] keeps_put [of st a] refusal_not_panic [OF assms(3), of E flags] show ?thesis by auto
qed

lemma open_simple_sound:
  assumes K: "fio_names (oe_fio E)" and p: "path_wf (oe_fio E) p" and E: "open_env_ok E st" and st: "open_state_ok st"
    and a: "os_dirs st a = Some d"
  shows "\<exists>r st'. open_simple E a flags mode p st = (r, st') \<and> step_ok (oe_fio E) st' r \<and> open_state_ok st' \<and> keeps_entries st st'"
proof (cases "path_comps p")
  case Nil
  with open_simple_end [OF p Nil a] a st show ?thesis by (simp add: keeps_entries_def)
next
  case (Cons c cs)
  obtain p' where p': "next_with_ref p = Inr (p', Some c)" "path_wf (oe_fio E) p'" using next_with_ref_step [OF p Cons] by blast
  let ?h = "map_option (\<lambda>names. names @ [c]) (sd_not_found d)"
  show ?thesis
  proof (cases "dir_map d c")
    case (Some m)
    have "entry_ok st m" using st a ranI [of "dir_map d", OF Some] unfolding open_state_ok_def by blast
    show ?thesis
    proof (cases "intersects flags {CREATE_IF_ABSENT}")
      case True
      with p'(1) a Some have "open_simple E a flags mode p st = (Inl (refusal E flags ALREADY_EXISTS), put_open_dir a (d\<lparr>sd_not_found := ?h\<rparr>) st)"
        by (auto simp: open_simple_def simple_open_def get_or_insert_entry_def refusal_def end_of_messages_def send_on_open_with_error_def)
      from open_simple_refuses [OF a st _ this] show ?thesis by simp
    next
      case False
      with open_simple_found [OF p'(1) a Some] \<open>entry_ok st m\<close> p'(2) st show ?thesis by (simp add: keeps_entries_def)
    qed
  next
    case None
    note nf = dir_not_found_ok [OF E, of "os_next st" d flags mode c p']
    show ?thesis
    proof (cases "dir_not_found E (os_next st) d flags mode c p'")
      case (Inl f)
      with nf obtain s where s: "f = Err s" "s \<noteq> OK" by (cases f) auto
      with Inl p'(1) a None have "open_simple E a flags mode p st = (Inl (refusal E flags s), put_open_dir a (d\<lparr>sd_not_found := ?h\<rparr>) st)"
        by (auto simp: open_simple_def simple_open_def get_or_insert_entry_def refusal_def end_of_messages_def send_on_open_with_error_def)
      from open_simple_refuses [OF a st s(2) this] show ?thesis .
    next
      case (Inr e)
      have "entry_name c" using p Cons K by (auto simp: path_wf_def valid_component_def entry_name_def fio_names_def)
      with created_ok [OF st a None _ nf(3) [OF Inr] refl refl, of E] open_simple_creates [OF p'(1) a None Inr] p'(2)
      show ?thesis by (auto simp: Let_def)
    qed
  qed
qed

lemma open_leaf_sound:
  assumes p: "path_wf (oe_fio E) p" and E: "open_env_ok E st" "oe_spawned E"
  shows "step_ok (oe_fio E) st (open_leaf E l flags mode p)"
proof (cases l)
  case (LazyDirEntry a)
  show ?thesis
  proof (cases "path_comps p")
    case Nil
    with LazyDirEntry next_with_ref_done [OF p Nil] show ?thesis by (simp add: lazy_open_def path_next_def)
  next
    case (Cons c cs)
    obtain p' where p': "next_with_ref p = Inr (p', Some c)" "path_wf (oe_fio E) p'" using next_with_ref_step [OF p Cons] by blast
    have cb: "callback_ok st (oe_lazy E a c)" using E(1) by (simp add: open_env_ok_def)
    have "refusal E flags s \<noteq> DirConnected b f" for s b f by (simp add: refusal_def end_of_messages_def split: sum.splits)
    with cb LazyDirEntry lazy_open_step [OF p'(1) E(2), of a flags mode] p'(2) show ?thesis
      by (auto simp: callback_ok_def refusal_not_panic simp del: open_leaf.simps split: sum.splits fail.splits)
  qed
next
  case (FileEntry a)
  then show ?thesis
    by (auto simp: vmo_entry_open_def end_of_messages_def send_on_open_with_error_def)
qed simp_all

lemma open_walk_sound:
  assumes "fio_names (oe_fio E)" and "path_wf (oe_fio E) p" and "open_env_ok E st" and "oe_spawned E" and "open_state_ok st" and "entry_ok st n"
  shows "\<exists>e st'. open_walk E n flags mode p st = (e, st') \<and> step_ok (oe_fio E) st' (Inl e) \<and> open_state_ok st' \<and> keeps_entries st st'"
  using assms
proof (induction E n flags mode p st rule: open_walk.induct)
  case (1 E n flags mode p st)
  have "\<exists>r st'. entry_open E n flags mode p st = (r, st') \<and> step_ok (oe_fio E) st' r \<and> open_state_ok st' \<and> keeps_entries st st'"
  proof (cases n)
    case (DirNode a)
    with 1(7) obtain d where "os_dirs st a = Some d" by (auto simp: entry_ok_def)
    with DirNode open_simple_sound [OF 1(2,3,4,6)] show ?thesis by (simp add: entry_open_def)
  next
    case (LeafNode l)
    with open_leaf_sound [OF 1(3,4,5)] 1(6) show ?thesis by (simp add: entry_open_def keeps_entries_def)
  qed
  then obtain r st' where r: "entry_open E n flags mode p st = (r, st')" "step_ok (oe_fio E) st' r" "open_state_ok st'" "keeps_entries st st'"
    by blast
  show ?case
  proof (cases r)
    case (Inl e)
    with r show ?thesis by (subst open_walk.simps) simp
  next
    case (Inr q)
    obtain n' f' m' p' where q: "q = (n', f', m', p')" by (cases q)
    have ih: "\<exists>e st''. open_walk E n' f' m' p' st' = (e, st'') \<and> step_ok (oe_fio E) st'' (Inl e) \<and> open_state_ok st'' \<and> keeps_entries st' st''"
      by (rule 1(1)) (use r Inr q 1(2,5) keeps_env_ok [OF r(4) 1(4)] in \<open>simp_all\<close>)
    have "open_walk E n flags mode p st = open_walk E n' f' m' p' st'" using r(1) Inr q by (subst open_walk.simps) simp
    with ih r(4) show ?thesis by (auto simp: keeps_entries_def)
  qed
qed

section \<open>An example\<close>

text \<open>A root directory (at 0) with a mutable directory \<open>d\<close> (at 1) that holds the file \<open>f\<close>.\<close>

definition example_open_env :: open_env where
  "example_open_env =
     \<lparr>oe_fio = fio_values, oe_dbg = True, oe_stream_ok = True, oe_send_ok = True,
      oe_constructor = Some (\<lambda>name. Inr (LeafNode (FileEntry 9))), oe_lazy = (\<lambda>_ _. Inl (Err NOT_FOUND)), oe_spawned = True,
      oe_remote = (\<lambda>_. remote_dir)\<rparr>"

definition example_dir :: "(string \<times> entry) list \<Rightarrow> entry simple_dir" where
  "example_dir es = (mutable_simple fio_values)\<lparr>sd_entries := es\<rparr>"

definition example_open_state :: open_state where
  "example_open_state =
     \<lparr>os_dirs = [0 \<mapsto> example_dir [(''d'', DirNode 1)], 1 \<mapsto> example_dir [(''f'', LeafNode (FileEntry 5))]], os_next = 2\<rparr>"

lemma example_dir_fields [simp]:
  "sd_entries (example_dir es) = es" "sd_mutable (example_dir es)" "sd_not_found (example_dir es) = None"
  by (simp_all add: example_dir_def mutable_simple_def simple_new_def)

lemma example_paths:
  assumes "c \<in> {''f'', ''g''}"
  shows "\<exists>p. validate_and_split fio_values (str_join slash [''d'', c]) = Inr p \<and> path_wf fio_values p \<and> path_comps p = [''d'', c] \<and>
           \<not> path_is_dir p"
  using path_of_components [of "[''d'', c]" fio_values] assms by (auto simp: valid_component_def max_path_def)

section \<open>Properties\<close>



text \<open>
  The entry a request creates, with the address a new directory gets, and the directories afterwards.
  The request ends at it, and a later one finds it.
\<close>

abbreviation created_entry :: "NewEntryType \<Rightarrow> nat \<Rightarrow> nat \<Rightarrow> leaf_entry node" where
  "created_entry t addr k \<equiv> (case t of NewDirectory \<Rightarrow> DirNode addr | NewFile \<Rightarrow> LeafNode (FileEntry k))"

lemma open_created_entry:
  assumes "path_wf (oe_fio E) q" and "path_comps q = []"
    and "os_dirs st' = (case t of NewDirectory \<Rightarrow> (os_dirs st)(a \<mapsto> d', addr \<mapsto> mutable_simple (oe_fio E)) | NewFile \<Rightarrow> (os_dirs st)(a \<mapsto> d'))"
    and "oe_spawned E"
  shows "open_walk E (created_entry t addr k) flags mode q st' =
    (case t of NewDirectory \<Rightarrow> DirConnected addr flags | NewFile \<Rightarrow> FileConnected k flags, st')"
  using open_simple_end [OF assms(1,2), of st' addr] path_wf_empty_iff [OF assms(1)] assms(2-4)
  by (subst open_walk.simps) (auto simp: entry_open_def vmo_entry_open_def split: NewEntryType.splits)

lemma reopen_created_entry:
  assumes "path_wf (oe_fio E) p" and sp: "oe_spawned E" and miss: "resolve E (os_dirs st) n (path_comps p) = Missing a c []"
    and d: "os_dirs st a = Some d" and a: "a \<noteq> addr" and fresh: "os_dirs st addr = None"
    and map': "dir_map d' = (dir_map d)(c \<mapsto> created_entry t addr k)"
    and st': "os_dirs st' = (case t of NewDirectory \<Rightarrow> (os_dirs st)(a \<mapsto> d', addr \<mapsto> mutable_simple (oe_fio E)) | NewFile \<Rightarrow> (os_dirs st)(a \<mapsto> d'))"
    and flags: "\<not> intersects flags {CREATE}" "\<not> intersects flags {CREATE_IF_ABSENT}"
  shows "open_walk E n flags mode p st' =
    (case t of NewDirectory \<Rightarrow> DirConnected addr flags | NewFile \<Rightarrow> FileConnected k flags, st')"
proof -
  have "resolve E (os_dirs st') n (path_comps p) = resolve E (os_dirs st') (created_entry t addr k) []"
    by (rule resolve_added [OF miss d, where d' = d'])
      (use a map' fresh in \<open>auto simp: st' split: NewEntryType.splits\<close>)
  also have "\<dots> = Reached (created_entry t addr k) []" using st' by (auto split: NewEntryType.splits)
  finally show ?thesis
    using open_walk_resolve [OF assms(1) flags sp, of n mode st'] by (auto split: NewEntryType.splits)
qed







section \<open>Creation below an existing directory\<close>

text \<open>
  With CREATE_IF_ABSENT, a request must fail if the object to create exists. The check is made at every directory the
  request passes, so a request for a missing entry below an existing directory is refused with ALREADY_EXISTS.
\<close>

lemma create_if_absent_refused_on_the_way:
  assumes "path_wf (oe_fio E) p" and "path_comps p = c # cs" and "os_dirs st a = Some d" and "dir_map d c = Some m"
    and "CREATE_IF_ABSENT \<in> flags"
  shows "fst (open_walk E (DirNode a) flags mode p st) = refusal E flags ALREADY_EXISTS"
proof -
  obtain p' where "next_with_ref p = Inr (p', Some c)" using next_with_ref_step [OF assms(1,2)] by blast
  with assms(3-5) show ?thesis
    by (subst open_walk.simps) (auto simp: entry_open_def open_simple_def simple_open_def get_or_insert_entry_def intersects_def
        refusal_def end_of_messages_def send_on_open_with_error_def)
qed

lemma nested_create_if_absent_fails:
  "\<exists>p. validate_and_split fio_values ''d/g'' = Inr p \<and>
     resolve example_open_env (os_dirs example_open_state) (DirNode 0) (path_comps p) = Missing 1 ''g'' [] \<and>
     fst (open_walk example_open_env (DirNode 0) {CREATE, CREATE_IF_ABSENT} 0 p example_open_state) = EndRefused [Epitaph ALREADY_EXISTS]"
proof -
  obtain p where p: "validate_and_split fio_values ''d/g'' = Inr p" "path_wf (oe_fio example_open_env) p" "path_comps p = [''d'', ''g'']"
    using example_paths [of "''g''"] by (auto simp: example_open_env_def)
  have "os_dirs example_open_state 0 = Some (example_dir [(''d'', DirNode 1)])" by (simp add: example_open_state_def)
  from create_if_absent_refused_on_the_way [OF p(2,3) this, of "DirNode 1" "{CREATE, CREATE_IF_ABSENT}" 0] p(1,3)
  show ?thesis
    by (simp add: example_open_state_def refusal_def end_of_messages_def send_on_open_with_error_def intersects_def)
qed

end
