(* ===== verification/Pseudo_Directory.thy ===== *)
theory Pseudo_Directory
  imports Tree_Builder Recursive_Watch
begin

text \<open>
  The macros \<open>pseudo_directory!\<close> and \<open>mut_pseudo_directory!\<close> (\<open>vfs/rust/macros/src/lib.rs\<close>) with their run-time
  helper \<open>unwrap_add_entry_span\<close> (\<open>pseudo_directory.rs\<close>): parsing the rules, generating a block, and
  running it. The parsing primitives of the \<open>syn\<close> crate are a parameter, a record of functions on token lists,
  with their documented behaviour as a hypothesis; an expression of the user is a parameter as well, given by
  what its evaluation does.
\<close>

section \<open>Tokens, expressions and parse errors\<close>

text \<open>String and byte string literals are lists of bytes. \<open>TkOther\<close> stands for all other tokens.\<close>

datatype token =
    TkStr string
  | TkBytes string
  | TkIdent string
  | TkFatArrow
  | TkArrow
  | TkComma
  | TkOther nat

text \<open>
  The errors the macro itself reports, with the arguments of their texts in order, and those of \<open>syn\<close>.
\<close>

datatype syn_error =
    EntryNameTooLong string nat nat
  | DuplicateLiteral string
  | EntryNameNotUtf8
  | NotAnEntryName syn_error
  | SynError nat

fun bind_syn :: "syn_error + 'a \<Rightarrow> ('a \<Rightarrow> syn_error + 'b) \<Rightarrow> syn_error + 'b" where
  "bind_syn (Inl e) f = Inl e"
| "bind_syn (Inr a) f = f a"

lemma bind_syn_Inr_iff [simp]: "bind_syn r f = Inr b \<longleftrightarrow> (\<exists>a. r = Inr a \<and> f a = Inr b)"
  by (cases r) auto

text \<open>The name of an entry: the tokens of a literal, or of any other expression.\<close>

datatype 'x entry_name_tokens = StrName string | BytesName string | ExprName 'x

record 'x macro_entry =
  me_name :: "'x entry_name_tokens"
  me_entry :: 'x

record 'x macro_dir =
  md_assign_to :: "string option"
  md_entries :: "'x macro_entry list"

text \<open>The primitives of \<open>syn\<close>: each looks at the tokens that are left, and a parser returns what it leaves.\<close>

record 'x syn_ops =
  peek_lit_str :: "token list \<Rightarrow> bool"
  parse_lit_str :: "token list \<Rightarrow> syn_error + string \<times> token list"
  peek_lit_bytes :: "token list \<Rightarrow> bool"
  parse_lit_bytes :: "token list \<Rightarrow> syn_error + string \<times> token list"
  parse_expr :: "token list \<Rightarrow> syn_error + 'x \<times> token list"
  parse_fat_arrow :: "token list \<Rightarrow> syn_error + token list"
  peek_ident :: "token list \<Rightarrow> bool"
  peek2_arrow :: "token list \<Rightarrow> bool"
  parse_ident :: "token list \<Rightarrow> syn_error + string \<times> token list"
  parse_arrow :: "token list \<Rightarrow> syn_error + token list"
  parse_terminated ::
    "(token list \<Rightarrow> syn_error + 'x macro_entry \<times> token list) \<Rightarrow> token list \<Rightarrow>
     syn_error + 'x macro_entry list \<times> token list"
  parse2 :: "(token list \<Rightarrow> syn_error + 'x macro_dir \<times> token list) \<Rightarrow> token list \<Rightarrow> syn_error + 'x macro_dir"

section \<open>Parsing\<close>

definition MACRO_MAX_FILENAME :: nat where
  "MACRO_MAX_FILENAME = 255"

text \<open>
  The closure \<open>check_literal\<close>, with the set of names it has seen. The text for a long name has the length of
  the name where it speaks of the maximum, and the maximum where it speaks of the name.
\<close>

definition check_literal :: "string set \<Rightarrow> string \<Rightarrow> syn_error + string set" where
  "check_literal seen name =
     (if length name > MACRO_MAX_FILENAME then Inl (EntryNameTooLong name (length name) MACRO_MAX_FILENAME)
      else if name \<notin> seen then Inr (insert name seen)
      else Inl (DuplicateLiteral name))"

text \<open>The name of an entry, given the names seen so far.\<close>

definition macro_name_parse ::
    "'x syn_ops \<Rightarrow> string set \<Rightarrow> token list \<Rightarrow> syn_error + 'x entry_name_tokens \<times> token list" where
  "macro_name_parse S seen ts =
     (if peek_lit_str S ts
      then bind_syn (parse_lit_str S ts) (\<lambda>(s, ts1).
             bind_syn (check_literal seen s) (\<lambda>_. Inr (StrName s, ts1)))
      else if peek_lit_bytes S ts
      then bind_syn (parse_lit_bytes S ts) (\<lambda>(s, ts1).
             if utf8_valid (map of_char s)
             then bind_syn (check_literal seen s) (\<lambda>_. Inr (BytesName s, ts1))
             else Inl EntryNameNotUtf8)
      else case parse_expr S ts of
             Inr (x, ts1) \<Rightarrow> Inr (ExprName x, ts1)
           | Inl e \<Rightarrow> Inl (NotAnEntryName e))"

text \<open>The set of seen names is created by every call of the entry parser.\<close>

definition macro_entry_parse :: "'x syn_ops \<Rightarrow> token list \<Rightarrow> syn_error + 'x macro_entry \<times> token list" where
  "macro_entry_parse S ts =
     (let seen = {} in
      bind_syn (macro_name_parse S seen ts) (\<lambda>(name, ts1).
        bind_syn (parse_fat_arrow S ts1) (\<lambda>ts2.
          bind_syn (parse_expr S ts2) (\<lambda>(entry, ts3). Inr (\<lparr>me_name = name, me_entry = entry\<rparr>, ts3)))))"

definition macro_dir_parse :: "'x syn_ops \<Rightarrow> token list \<Rightarrow> syn_error + 'x macro_dir \<times> token list" where
  "macro_dir_parse S ts =
     bind_syn
       (if peek_ident S ts \<and> peek2_arrow S ts
        then bind_syn (parse_ident S ts) (\<lambda>(i, ts1). bind_syn (parse_arrow S ts1) (\<lambda>ts2. Inr (Some i, ts2)))
        else Inr (None, ts))
       (\<lambda>(assign_to, ts1).
         bind_syn (parse_terminated S (macro_entry_parse S) ts1) (\<lambda>(entries, ts2).
           Inr (\<lparr>md_assign_to = assign_to, md_entries = entries\<rparr>, ts2)))"

section \<open>The generated block\<close>

text \<open>
  The block constructs the directory, in a variable of the user or in a variable \<open>__dir\<close> of its own, makes one
  call per entry and evaluates to the directory. The tokens of an entry's name occur twice in its call.
\<close>

datatype 'x macro_stmt =
    AssignDir string bool
  | LetDir string bool
  | UnwrapAddEntry "'x entry_name_tokens" string string "'x entry_name_tokens" 'x

record 'x macro_block =
  mb_stmts :: "'x macro_stmt list"
  mb_result :: string

definition local_dir :: string where
  "local_dir = ''__dir''"

text \<open>\<open>loc\<close> prints the source location of the tokens of a name.\<close>

definition macro_expand :: "('x entry_name_tokens \<Rightarrow> string) \<Rightarrow> bool \<Rightarrow> 'x macro_dir \<Rightarrow> 'x macro_block" where
  "macro_expand loc mutable parsed =
     (let (dir_var, constructor) =
            (case md_assign_to parsed of
               Some ident \<Rightarrow> (ident, AssignDir ident mutable)
             | None \<Rightarrow> (local_dir, LetDir local_dir mutable));
          entries = map (\<lambda>e. UnwrapAddEntry (me_name e) (loc (me_name e)) dir_var (me_name e) (me_entry e))
                      (md_entries parsed)
      in \<lparr>mb_stmts = constructor # entries, mb_result = dir_var\<rparr>)"

definition pseudo_directory_impl ::
    "'x syn_ops \<Rightarrow> ('x entry_name_tokens \<Rightarrow> string) \<Rightarrow> bool \<Rightarrow> token list \<Rightarrow> syn_error + 'x macro_block" where
  "pseudo_directory_impl S loc mutable input =
     (case parse2 S (macro_dir_parse S) input of
        Inr parsed \<Rightarrow> Inr (macro_expand loc mutable parsed)
      | Inl err \<Rightarrow> Inl err)"

definition pseudo_directory ::
    "'x syn_ops \<Rightarrow> ('x entry_name_tokens \<Rightarrow> string) \<Rightarrow> token list \<Rightarrow> syn_error + 'x macro_block" where
  "pseudo_directory S loc input = pseudo_directory_impl S loc False input"

definition mut_pseudo_directory ::
    "'x syn_ops \<Rightarrow> ('x entry_name_tokens \<Rightarrow> string) \<Rightarrow> token list \<Rightarrow> syn_error + 'x macro_block" where
  "mut_pseudo_directory S loc input = pseudo_directory_impl S loc True input"

text \<open>The macro that exposes the constant is an error on any input.\<close>

definition pseudo_directory_max_filename :: "token list \<Rightarrow> nat option" where
  "pseudo_directory_max_filename input = (if input \<noteq> [] then None else Some MACRO_MAX_FILENAME)"

section \<open>Running the block\<close>

text \<open>
  A run of the block panics with a text of the helper or inside a call. \<open>Stuck\<close> is a use of an
  undeclared variable, which the compiler rejects.
\<close>

datatype block_fail = PanicText string string string | CalleePanic | Stuck

text \<open>
  The text of the panic consists of the location, the reason and the entry.
  \<open>pr\<close> prints a status.
\<close>

definition unwrap_add_entry_span :: "(status \<Rightarrow> string) \<Rightarrow> string \<Rightarrow> string \<Rightarrow> status + unit \<Rightarrow> block_fail + unit" where
  "unwrap_add_entry_span pr entry location res =
     (case res of
        Inr _ \<Rightarrow> Inr ()
      | Inl status \<Rightarrow>
          (let error_text =
             (if status = ALREADY_EXISTS then ''Duplicate entry name.''
              else ''`add_entry` failed with an unexpected status: '' @ pr status)
           in Inl (PanicText location error_text entry)))"

record 'e run_state =
  rt_dirs :: "'e node dir_store"
  rt_next :: nat
  rt_vars :: "string \<Rightarrow> nat option"

type_synonym ('e, 'v) evaluation = "'e run_state \<Rightarrow> block_fail + 'v \<times> 'e run_state"

fun bind_run :: "block_fail + 'a \<Rightarrow> ('a \<Rightarrow> block_fail + 'b) \<Rightarrow> block_fail + 'b" where
  "bind_run (Inl e) f = Inl e"
| "bind_run (Inr a) f = f a"

text \<open>The value of a name; a byte string goes through \<open>from_utf8_unchecked\<close>.\<close>

fun name_value :: "('x \<Rightarrow> ('e, string) evaluation) \<Rightarrow> 'x entry_name_tokens \<Rightarrow> ('e, string) evaluation" where
  "name_value evs (StrName s) st = Inr (s, st)"
| "name_value evs (BytesName s) st = Inr (s, st)"
| "name_value evs (ExprName x) st = evs x st"

definition construct_dir :: "fio \<Rightarrow> string \<Rightarrow> bool \<Rightarrow> 'e run_state \<Rightarrow> 'e run_state" where
  "construct_dir K v mutable st =
     \<lparr>rt_dirs = (rt_dirs st)(rt_next st \<mapsto> (if mutable then mutable_simple K else immutable_simple K)),
      rt_next = Suc (rt_next st), rt_vars = (rt_vars st)(v \<mapsto> rt_next st)\<rparr>"

definition call_add_entry ::
    "fio \<Rightarrow> bool \<Rightarrow> nat \<Rightarrow> string \<Rightarrow> 'e node \<Rightarrow> 'e run_state \<Rightarrow> block_fail + (status + unit) \<times> 'e run_state" where
  "call_add_entry K dbg a name entry st =
     (case rt_dirs st a of
        None \<Rightarrow> Inl Stuck
      | Some d \<Rightarrow>
          (case add_entry K dbg name entry d of
             (Inl Panic, d') \<Rightarrow> Inl CalleePanic
           | (Inl (Err status), d') \<Rightarrow> Inr (Inl status, st\<lparr>rt_dirs := (rt_dirs st)(a \<mapsto> d')\<rparr>)
           | (Inr u, d') \<Rightarrow> Inr (Inr u, st\<lparr>rt_dirs := (rt_dirs st)(a \<mapsto> d')\<rparr>)))"

text \<open>The arguments of a call are evaluated from left to right.\<close>

fun run_stmt ::
    "fio \<Rightarrow> bool \<Rightarrow> (status \<Rightarrow> string) \<Rightarrow> ('x \<Rightarrow> ('e, string) evaluation) \<Rightarrow> ('x \<Rightarrow> ('e, 'e node) evaluation) \<Rightarrow>
     'x macro_stmt \<Rightarrow> 'e run_state \<Rightarrow> block_fail + 'e run_state" where
  "run_stmt K dbg pr evs ev (AssignDir v mutable) st = Inr (construct_dir K v mutable st)"
| "run_stmt K dbg pr evs ev (LetDir v mutable) st = Inr (construct_dir K v mutable st)"
| "run_stmt K dbg pr evs ev (UnwrapAddEntry name1 location v name2 x) st =
     bind_run (name_value evs name1 st) (\<lambda>(entry, st1).
       case rt_vars st1 v of
         None \<Rightarrow> Inl Stuck
       | Some a \<Rightarrow>
           bind_run (name_value evs name2 st1) (\<lambda>(name, st2).
             bind_run (ev x st2) (\<lambda>(n, st3).
               bind_run (call_add_entry K dbg a name n st3) (\<lambda>(res, st4).
                 bind_run (unwrap_add_entry_span pr entry location res) (\<lambda>_. Inr st4)))))"

fun run_stmts ::
    "fio \<Rightarrow> bool \<Rightarrow> (status \<Rightarrow> string) \<Rightarrow> ('x \<Rightarrow> ('e, string) evaluation) \<Rightarrow> ('x \<Rightarrow> ('e, 'e node) evaluation) \<Rightarrow>
     'x macro_stmt list \<Rightarrow> 'e run_state \<Rightarrow> block_fail + 'e run_state" where
  "run_stmts K dbg pr evs ev [] st = Inr st"
| "run_stmts K dbg pr evs ev (s # ss) st =
     bind_run (run_stmt K dbg pr evs ev s st) (run_stmts K dbg pr evs ev ss)"

text \<open>A variable declared by the block ends with it.\<close>

fun scope_end :: "'x macro_stmt list \<Rightarrow> (string \<Rightarrow> nat option) \<Rightarrow> 'e run_state \<Rightarrow> 'e run_state" where
  "scope_end (LetDir v mutable # ss) outer st = st\<lparr>rt_vars := (rt_vars st)(v := outer v)\<rparr>"
| "scope_end ss outer st = st"

definition run_block ::
    "fio \<Rightarrow> bool \<Rightarrow> (status \<Rightarrow> string) \<Rightarrow> ('x \<Rightarrow> ('e, string) evaluation) \<Rightarrow> ('x \<Rightarrow> ('e, 'e node) evaluation) \<Rightarrow>
     'x macro_block \<Rightarrow> ('e, 'e node) evaluation" where
  "run_block K dbg pr evs ev b st =
     bind_run (run_stmts K dbg pr evs ev (mb_stmts b) st) (\<lambda>st1.
       case rt_vars st1 (mb_result b) of
         None \<Rightarrow> Inl Stuck
       | Some a \<Rightarrow> Inr (DirNode a, scope_end (mb_stmts b) (rt_vars st) st1))"

section \<open>What the macro relies on\<close>

text \<open>
  The documented behaviour of \<open>syn\<close>: a peek looks at the first token (\<open>peek2\<close> at the second), a token parser
  consumes exactly its token, an expression extends up to a token that cannot continue it, and
  \<open>parse_terminated\<close> parses items separated by commas, with an optional trailing comma, up to the end of the
  input; \<open>parse2\<close> demands that nothing is left. \<open>toks\<close> are the tokens of an expression.
\<close>

definition token_laws :: "'x syn_ops \<Rightarrow> bool" where
  "token_laws S \<longleftrightarrow>
     (\<forall>ts. peek_lit_str S ts \<longleftrightarrow> (\<exists>s r. ts = TkStr s # r)) \<and>
     (\<forall>ts s r. parse_lit_str S ts = Inr (s, r) \<longleftrightarrow> ts = TkStr s # r) \<and>
     (\<forall>ts. peek_lit_bytes S ts \<longleftrightarrow> (\<exists>s r. ts = TkBytes s # r)) \<and>
     (\<forall>ts s r. parse_lit_bytes S ts = Inr (s, r) \<longleftrightarrow> ts = TkBytes s # r) \<and>
     (\<forall>ts r. parse_fat_arrow S ts = Inr r \<longleftrightarrow> ts = TkFatArrow # r) \<and>
     (\<forall>ts. peek_ident S ts \<longleftrightarrow> (\<exists>i r. ts = TkIdent i # r)) \<and>
     (\<forall>ts. peek2_arrow S ts \<longleftrightarrow> (\<exists>t r. ts = t # TkArrow # r)) \<and>
     (\<forall>ts i r. parse_ident S ts = Inr (i, r) \<longleftrightarrow> ts = TkIdent i # r) \<and>
     (\<forall>ts r. parse_arrow S ts = Inr r \<longleftrightarrow> ts = TkArrow # r)"

definition ends_expr :: "token list \<Rightarrow> bool" where
  "ends_expr r \<longleftrightarrow> r = [] \<or> hd r = TkFatArrow \<or> hd r = TkComma"

definition expr_laws :: "'x syn_ops \<Rightarrow> ('x \<Rightarrow> token list) \<Rightarrow> bool" where
  "expr_laws S toks \<longleftrightarrow>
     (\<forall>x r. ends_expr r \<longrightarrow> parse_expr S (toks x @ r) = Inr (x, r)) \<and>
     (\<forall>ts x r. parse_expr S ts = Inr (x, r) \<longrightarrow> length r < length ts)"

definition consuming :: "(token list \<Rightarrow> syn_error + 'a \<times> token list) \<Rightarrow> bool" where
  "consuming f \<longleftrightarrow> (\<forall>ts x r. f ts = Inr (x, r) \<longrightarrow> length r < length ts)"

definition list_laws :: "'x syn_ops \<Rightarrow> bool" where
  "list_laws S \<longleftrightarrow>
     (\<forall>f. parse_terminated S f [] = Inr ([], [])) \<and>
     (\<forall>f ts x. ts \<noteq> [] \<longrightarrow> f ts = Inr (x, []) \<longrightarrow> parse_terminated S f ts = Inr ([x], [])) \<and>
     (\<forall>f ts x r. consuming f \<longrightarrow> ts \<noteq> [] \<longrightarrow> f ts = Inr (x, TkComma # r) \<longrightarrow>
        parse_terminated S f ts = bind_syn (parse_terminated S f r) (\<lambda>(xs, r'). Inr (x # xs, r'))) \<and>
     (\<forall>f ts e. ts \<noteq> [] \<longrightarrow> f ts = Inl e \<longrightarrow> parse_terminated S f ts = Inl e) \<and>
     (\<forall>f ts x. f ts = Inr (x, []) \<longrightarrow> parse2 S f ts = Inr x) \<and>
     (\<forall>f ts e. f ts = Inl e \<longrightarrow> parse2 S f ts = Inl e)"

definition syn_laws :: "'x syn_ops \<Rightarrow> ('x \<Rightarrow> token list) \<Rightarrow> bool" where
  "syn_laws S toks \<longleftrightarrow> token_laws S \<and> expr_laws S toks \<and> list_laws S"

text \<open>The rules as the documentation writes them, with or without a trailing comma.\<close>

fun name_tokens :: "('x \<Rightarrow> token list) \<Rightarrow> 'x entry_name_tokens \<Rightarrow> token list" where
  "name_tokens toks (StrName s) = [TkStr s]"
| "name_tokens toks (BytesName s) = [TkBytes s]"
| "name_tokens toks (ExprName x) = toks x"

definition entry_tokens :: "('x \<Rightarrow> token list) \<Rightarrow> 'x macro_entry \<Rightarrow> token list" where
  "entry_tokens toks e = name_tokens toks (me_name e) @ TkFatArrow # toks (me_entry e)"

fun rules_tokens :: "('x \<Rightarrow> token list) \<Rightarrow> bool \<Rightarrow> 'x macro_entry list \<Rightarrow> token list" where
  "rules_tokens toks trailing [] = []"
| "rules_tokens toks trailing [e] = entry_tokens toks e @ (if trailing then [TkComma] else [])"
| "rules_tokens toks trailing (e # es) = entry_tokens toks e @ TkComma # rules_tokens toks trailing es"

definition macro_tokens :: "('x \<Rightarrow> token list) \<Rightarrow> bool \<Rightarrow> 'x macro_dir \<Rightarrow> token list" where
  "macro_tokens toks trailing m =
     (case md_assign_to m of None \<Rightarrow> [] | Some i \<Rightarrow> [TkIdent i, TkArrow]) @ rules_tokens toks trailing (md_entries m)"

text \<open>
  Names the macro accepts: a literal of at most 255 bytes, which is UTF-8, or an expression that does not start
  like a literal or like an assignment.
\<close>

fun name_accepted :: "('x \<Rightarrow> token list) \<Rightarrow> 'x entry_name_tokens \<Rightarrow> bool" where
  "name_accepted toks (StrName s) = (length s \<le> MACRO_MAX_FILENAME)"
| "name_accepted toks (BytesName s) = (length s \<le> MACRO_MAX_FILENAME \<and> utf8_valid (map of_char s))"
| "name_accepted toks (ExprName x) =
     (case toks x of
        TkStr _ # _ \<Rightarrow> False
      | TkBytes _ # _ \<Rightarrow> False
      | TkIdent _ # TkArrow # _ \<Rightarrow> False
      | _ \<Rightarrow> True)"

lemma macro_name_consumes:
  assumes "token_laws S" and "expr_laws S toks" and "macro_name_parse S seen ts = Inr (n, r)"
  shows "length r < length ts"
  using assms(3) assms(1,2)
  by (auto simp: macro_name_parse_def token_laws_def expr_laws_def split: if_splits sum.splits)

lemma macro_entry_consuming:
  assumes S: "token_laws S" "expr_laws S toks"
  shows "consuming (macro_entry_parse S)"
  unfolding consuming_def
proof (intro allI impI)
  fix ts e r assume "macro_entry_parse S ts = Inr (e, r)"
  then obtain n ts1 ts2 x where p: "macro_name_parse S {} ts = Inr (n, ts1)" "parse_fat_arrow S ts1 = Inr ts2"
    "parse_expr S ts2 = Inr (x, r)" by (auto simp: macro_entry_parse_def)
  have "ts1 = TkFatArrow # ts2" using p(2) S(1) by (simp add: token_laws_def)
  moreover have "length r < length ts2" using p(3) S(2) by (auto simp: expr_laws_def)
  ultimately show "length r < length ts" using macro_name_consumes [OF S p(1)] by simp
qed

lemma expr_tokens_nonempty:
  assumes "expr_laws S toks"
  shows "toks x \<noteq> []"
proof
  assume "toks x = []"
  with assms have "parse_expr S [] = Inr (x, [])" unfolding expr_laws_def ends_expr_def by (metis append_Nil)
  with assms show False by (fastforce simp: expr_laws_def)
qed

lemma macro_name_roundtrip:
  assumes S: "token_laws S" "expr_laws S toks" and ok: "name_accepted toks n"
  shows "macro_name_parse S {} (name_tokens toks n @ TkFatArrow # r) = Inr (n, TkFatArrow # r)"
proof (cases n)
  case (ExprName x)
  have "parse_expr S (toks x @ TkFatArrow # r) = Inr (x, TkFatArrow # r)"
    using S(2) by (simp add: expr_laws_def ends_expr_def)
  moreover have "\<not> peek_lit_str S (toks x @ TkFatArrow # r)" "\<not> peek_lit_bytes S (toks x @ TkFatArrow # r)"
    using S(1) ok ExprName expr_tokens_nonempty [OF S(2), of x]
    by (auto simp: token_laws_def append_eq_Cons_conv)
  ultimately show ?thesis using ExprName by (simp add: macro_name_parse_def)
qed (use S(1) ok in \<open>auto simp: macro_name_parse_def token_laws_def check_literal_def\<close>)

lemma macro_entry_roundtrip:
  assumes S: "token_laws S" "expr_laws S toks" and ok: "name_accepted toks (me_name e)" and r: "ends_expr r"
  shows "macro_entry_parse S (entry_tokens toks e @ r) = Inr (e, r)"
proof -
  let ?x = "toks (me_entry e) @ r"
  have "parse_expr S ?x = Inr (me_entry e, r)" "parse_fat_arrow S (TkFatArrow # ?x) = Inr ?x"
    using S r by (simp_all add: expr_laws_def token_laws_def)
  with macro_name_roundtrip [OF S ok, of ?x] show ?thesis
    by (simp add: macro_entry_parse_def entry_tokens_def)
qed

lemma rules_roundtrip:
  assumes S: "syn_laws S toks" and ok: "\<forall>e \<in> set es. name_accepted toks (me_name e)"
  shows "parse_terminated S (macro_entry_parse S) (rules_tokens toks trailing es) = Inr (es, [])"
proof -
  have laws: "token_laws S" "expr_laws S toks" and L: "list_laws S" using S by (simp_all add: syn_laws_def)
  note L' = L [unfolded list_laws_def]
  note con = macro_entry_consuming [OF laws]
  have ne: "entry_tokens toks e @ r \<noteq> []" for e r by (simp add: entry_tokens_def)
  have comma: "parse_terminated S (macro_entry_parse S) (entry_tokens toks e @ TkComma # r) =
      bind_syn (parse_terminated S (macro_entry_parse S) r) (\<lambda>(xs, r'). Inr (e # xs, r'))"
    if "name_accepted toks (me_name e)" for e r
    using L' con ne macro_entry_roundtrip [OF laws that, of "TkComma # r"] by (simp add: ends_expr_def)
  have single: "parse_terminated S (macro_entry_parse S) (entry_tokens toks e) = Inr ([e], [])"
    if "name_accepted toks (me_name e)" for e
    using L' ne [of e "[]"] macro_entry_roundtrip [OF laws that, of "[]"] by (simp add: ends_expr_def)
  have nil: "parse_terminated S (macro_entry_parse S) [] = Inr ([], [])" using L' by simp
  show ?thesis
    using ok
  proof (induction es rule: induct_list012)
    case (3 e e' es)
    then show ?case by (simp add: comma)
  qed (simp_all add: nil single comma)
qed

lemma rules_no_assignment:
  assumes "expr_laws S toks" and "\<forall>e \<in> set es. name_accepted toks (me_name e)"
  shows "rules_tokens toks trailing es \<noteq> TkIdent i # TkArrow # r"
proof (cases es)
  case (Cons e es')
  then obtain r' where "rules_tokens toks trailing es = entry_tokens toks e @ r'" by (cases es') auto
  moreover have "name_tokens toks (me_name e) @ TkFatArrow # q \<noteq> TkIdent i # TkArrow # r" for q
    using assms(2) Cons expr_tokens_nonempty [OF assms(1)]
    by (cases "me_name e") (auto simp: append_eq_Cons_conv)
  ultimately show ?thesis by (simp add: entry_tokens_def)
qed simp

lemma macro_dir_roundtrip:
  assumes S: "syn_laws S toks" and ok: "\<forall>e \<in> set (md_entries m). name_accepted toks (me_name e)"
  shows "pseudo_directory_impl S loc mutable (macro_tokens toks trailing m) = Inr (macro_expand loc mutable m)"
proof -
  have laws: "token_laws S" "expr_laws S toks" "list_laws S" using S by (simp_all add: syn_laws_def)
  note rules = rules_roundtrip [OF S ok, of trailing]
  have "macro_dir_parse S (macro_tokens toks trailing m) = Inr (m, [])"
  proof (cases "md_assign_to m")
    case None
    have "\<not> (peek_ident S (rules_tokens toks trailing (md_entries m)) \<and> peek2_arrow S (rules_tokens toks trailing (md_entries m)))"
      using laws(1) rules_no_assignment [OF laws(2) ok, of trailing] unfolding token_laws_def by fastforce
    with None rules show ?thesis by (simp add: macro_dir_parse_def macro_tokens_def del: de_Morgan_conj)
  next
    case (Some i)
    let ?r = "rules_tokens toks trailing (md_entries m)"
    have "peek_ident S (TkIdent i # TkArrow # ?r)" "peek2_arrow S (TkIdent i # TkArrow # ?r)"
      "parse_ident S (TkIdent i # TkArrow # ?r) = Inr (i, TkArrow # ?r)" "parse_arrow S (TkArrow # ?r) = Inr ?r"
      using laws(1) by (simp_all add: token_laws_def)
    with Some rules show ?thesis by (simp add: macro_dir_parse_def macro_tokens_def)
  qed
  then have "parse2 S (macro_dir_parse S) (macro_tokens toks trailing m) = Inr m"
    using laws(3) by (simp add: list_laws_def)
  then show ?thesis by (simp add: pseudo_directory_impl_def)
qed

section \<open>Expressions that build a tree\<close>

text \<open>
  What is known of the expression of an entry: it evaluates, in fresh directories, to a node that serves a given
  tree, and changes no variables but those in \<open>V\<close>. A value that is already there and the block of a nested macro
  are such expressions.
\<close>

definition rt_fresh :: "'e run_state \<Rightarrow> bool" where
  "rt_fresh st \<longleftrightarrow> (\<forall>a \<ge> rt_next st. rt_dirs st a = None)"

definition extends :: "string set \<Rightarrow> 'e run_state \<Rightarrow> 'e run_state \<Rightarrow> bool" where
  "extends V st st' \<longleftrightarrow>
     rt_fresh st' \<and> rt_next st \<le> rt_next st' \<and> (\<forall>a < rt_next st. rt_dirs st' a = rt_dirs st a) \<and>
     (\<forall>v. v \<notin> V \<longrightarrow> rt_vars st' v = rt_vars st v)"

definition builds :: "string set \<Rightarrow> ('e, 'e node) evaluation \<Rightarrow> 'e tree \<Rightarrow> bool" where
  "builds V f t \<longleftrightarrow>
     (\<forall>st. rt_fresh st \<longrightarrow>
       (\<exists>n st'. f st = Inr (n, st') \<and> extends V st st' \<and> mirrors (rt_dirs st') (rt_next st) (rt_next st') t n))"

definition names :: "('x \<Rightarrow> ('e, string) evaluation) \<Rightarrow> 'x entry_name_tokens \<Rightarrow> string \<Rightarrow> bool" where
  "names evs n s \<longleftrightarrow> (\<forall>st. name_value evs n st = Inr (s, st))"

lemma builds_value: "builds V (\<lambda>st. Inr (LeafNode e, st)) (TLeaf e)"
  by (simp add: builds_def extends_def)

lemma bind_run_assoc: "bind_run (bind_run r f) g = bind_run r (\<lambda>a. bind_run (f a) g)"
  by (cases r) simp_all

lemma run_stmts_append:
  "run_stmts K dbg pr evs ev (ss @ ss') =
     (\<lambda>st. bind_run (run_stmts K dbg pr evs ev ss st) (run_stmts K dbg pr evs ev ss'))"
proof (induction ss)
  case (Cons s ss)
  show ?case by (rule ext) (simp add: Cons.IH bind_run_assoc)
qed (simp add: fun_eq_iff)

text \<open>The call generated for an entry.\<close>

abbreviation entry_call :: "('x entry_name_tokens \<Rightarrow> string) \<Rightarrow> string \<Rightarrow> 'x macro_entry \<Rightarrow> 'x macro_stmt" where
  "entry_call loc v e \<equiv> UnwrapAddEntry (me_name e) (loc (me_name e)) v (me_name e) (me_entry e)"

text \<open>Up to the call of \<open>add_entry\<close>, everything succeeds.\<close>

lemma entry_call_reaches_add:
  assumes n: "names evs (me_name e) s" and b: "builds V (ev (me_entry e)) t" and v: "v \<notin> V"
    and st: "rt_fresh st" "rt_vars st v = Some a" "a < rt_next st" "rt_dirs st a = Some d"
  obtains m st' where "extends V st st'" "mirrors (rt_dirs st') (rt_next st) (rt_next st') t m" "rt_dirs st' a = Some d"
    "run_stmt K dbg pr evs ev (entry_call loc v e) st =
       bind_run (call_add_entry K dbg a s m st') (\<lambda>(res, st4).
         bind_run (unwrap_add_entry_span pr s (loc (me_name e)) res) (\<lambda>_. Inr st4))"
proof -
  obtain m st' where st': "ev (me_entry e) st = Inr (m, st')" "extends V st st'"
    "mirrors (rt_dirs st') (rt_next st) (rt_next st') t m" using b st(1) unfolding builds_def by blast
  have "rt_dirs st' a = Some d" using st'(2) st(3,4) by (simp add: extends_def)
  moreover have "name_value evs (me_name e) x = Inr (s, x)" for x using n by (simp add: names_def)
  ultimately show thesis using st' st(2) by (intro that [of st' m]) simp_all
qed

lemma entry_call_adds:
  assumes K: "fio_names K" and n: "names evs (me_name e) s" and b: "builds V (ev (me_entry e)) t" and v: "v \<notin> V"
    and st: "rt_fresh st" "rt_vars st v = Some a" "a < rt_next st" "rt_dirs st a = Some d" and d: "dir_inv d"
    and s: "entry_name s" "dir_map d s = None"
  obtains st' d' m where "run_stmt K dbg pr evs ev (entry_call loc v e) st = Inr st'" "rt_fresh st'" "rt_next st \<le> rt_next st'"
      "\<forall>b < rt_next st. b \<noteq> a \<longrightarrow> rt_dirs st' b = rt_dirs st b" "\<forall>x. x \<notin> V \<longrightarrow> rt_vars st' x = rt_vars st x"
      "rt_dirs st' a = Some d'" "dir_inv d'" "sd_mutable d' = sd_mutable d" "dir_map d' = (dir_map d)(s \<mapsto> m)"
      "mirrors (rt_dirs st') (rt_next st) (rt_next st') t m"
proof -
  obtain m st3 where st3: "extends V st st3" "mirrors (rt_dirs st3) (rt_next st) (rt_next st3) t m" "rt_dirs st3 a = Some d"
    "run_stmt K dbg pr evs ev (entry_call loc v e) st =
       bind_run (call_add_entry K dbg a s m st3) (\<lambda>(res, st4).
         bind_run (unwrap_add_entry_span pr s (loc (me_name e)) res) (\<lambda>_. Inr st4))"
    by (rule entry_call_reaches_add [where ev = ev and e = e, OF n b v st])
  let ?d = "d\<lparr>sd_watchers := announce_added K s (sd_watchers d), sd_entries := sm_insert s m (sd_entries d)\<rparr>"
  let ?st = "st3\<lparr>rt_dirs := (rt_dirs st3)(a \<mapsto> ?d)\<rparr>"
  have "add_entry K dbg s m d = (Inr (), ?d)"
    using s by (simp add: add_entry_def add_entry_impl_eq [OF K d] dom_def)
  then have "run_stmt K dbg pr evs ev (entry_call loc v e) st = Inr ?st"
    using st3(3,4) by (simp add: call_add_entry_def unwrap_add_entry_span_def)
  moreover have "dir_inv ?d" using s dir_inv_updates(1) [OF d] by blast
  moreover have "dir_map ?d = (dir_map d)(s \<mapsto> m)" using d by (simp add: dir_inv_def)
  moreover have "mirrors (rt_dirs ?st) (rt_next st) (rt_next st3) t m"
    using st3(2) by (rule mirrors_mono) (use st(3) in auto)
  moreover have "rt_fresh ?st" using st3(1) st(3) by (auto simp: extends_def rt_fresh_def)
  ultimately show thesis using st3(1) by (intro that [of ?st ?d m]) (simp_all add: extends_def)
qed

definition macro_panic :: "(status \<Rightarrow> string) \<Rightarrow> string \<Rightarrow> string \<Rightarrow> block_fail" where
  "macro_panic pr location s =
     PanicText location
       (if entry_name s then ''Duplicate entry name.''
        else ''`add_entry` failed with an unexpected status: '' @ pr INVALID_ARGS) s"

lemma entry_call_panics:
  assumes K: "fio_names K" and n: "names evs (me_name e) s" and b: "builds V (ev (me_entry e)) t" and v: "v \<notin> V"
    and st: "rt_fresh st" "rt_vars st v = Some a" "a < rt_next st" "rt_dirs st a = Some d" and d: "dir_inv d"
    and s: "\<not> entry_name s \<or> dir_map d s \<noteq> None"
  shows "run_stmt K dbg pr evs ev (entry_call loc v e) st = Inl (macro_panic pr (loc (me_name e)) s)"
proof -
  obtain m st3 where st3: "rt_dirs st3 a = Some d"
    "run_stmt K dbg pr evs ev (entry_call loc v e) st =
       bind_run (call_add_entry K dbg a s m st3) (\<lambda>(res, st4).
         bind_run (unwrap_add_entry_span pr s (loc (me_name e)) res) (\<lambda>_. Inr st4))"
    by (rule entry_call_reaches_add [where ev = ev and e = e, OF n b v st])
  have "add_entry K dbg s m d = (Inl (Err (if entry_name s then ALREADY_EXISTS else INVALID_ARGS)), d)"
    using s by (auto simp: add_entry_def add_entry_impl_eq [OF K d] dom_def)
  with st3 show ?thesis by (simp add: call_add_entry_def unwrap_add_entry_span_def macro_panic_def)
qed

lemma entry_calls_run:
  assumes K: "fio_names K" and es: "\<forall>e \<in> set es. names evs (me_name e) (nm e) \<and> builds V (ev (me_entry e)) (T e)" and v: "v \<notin> V"
    and st: "rt_fresh st" "rt_vars st v = Some a" "a < rt_next st" "rt_dirs st a = Some d" "dir_inv d"
    and ok: "distinct (map nm es)" "\<forall>e \<in> set es. entry_name (nm e)" "dom (dir_map d) \<inter> nm ` set es = {}"
  shows "\<exists>st' d'. run_stmts K dbg pr evs ev (map (entry_call loc v) es) st = Inr st' \<and> rt_fresh st' \<and> rt_next st \<le> rt_next st' \<and>
      (\<forall>b < rt_next st. b \<noteq> a \<longrightarrow> rt_dirs st' b = rt_dirs st b) \<and> (\<forall>x. x \<notin> V \<longrightarrow> rt_vars st' x = rt_vars st x) \<and>
      rt_dirs st' a = Some d' \<and> dir_inv d' \<and> sd_mutable d' = sd_mutable d \<and> dom (dir_map d') = dom (dir_map d) \<union> nm ` set es \<and>
      (\<forall>c \<in> dom (dir_map d). dir_map d' c = dir_map d c) \<and>
      (\<forall>e \<in> set es. \<exists>m. dir_map d' (nm e) = Some m \<and> mirrors (rt_dirs st') (rt_next st) (rt_next st') (T e) m)"
  using es st ok
proof (induction es arbitrary: st d)
  case (Cons e es)
  have e: "names evs (me_name e) (nm e)" "builds V (ev (me_entry e)) (T e)" using Cons.prems(1) by simp_all
  have ok: "entry_name (nm e)" "dir_map d (nm e) = None" using Cons.prems(8,9) by auto
  obtain st1 d1 m where s1: "run_stmt K dbg pr evs ev (entry_call loc v e) st = Inr st1" "rt_fresh st1" "rt_next st \<le> rt_next st1"
    "\<forall>b < rt_next st. b \<noteq> a \<longrightarrow> rt_dirs st1 b = rt_dirs st b" "\<forall>x. x \<notin> V \<longrightarrow> rt_vars st1 x = rt_vars st x"
    "rt_dirs st1 a = Some d1" "dir_inv d1" "sd_mutable d1 = sd_mutable d" "dir_map d1 = (dir_map d)(nm e \<mapsto> m)"
    "mirrors (rt_dirs st1) (rt_next st) (rt_next st1) (T e) m"
    by (rule entry_call_adds [where e = e and ev = ev and loc = loc, OF K e v Cons.prems(2-6) ok])
  have disj: "dom (dir_map d1) \<inter> nm ` set es = {}" using Cons.prems(7,9) s1(9) by auto
  have a: "rt_vars st1 v = Some a" "a < rt_next st1" using Cons.prems(3,4) s1(3,5) v by auto
  obtain st2 d2 where s2: "run_stmts K dbg pr evs ev (map (entry_call loc v) es) st1 = Inr st2" "rt_fresh st2" "rt_next st1 \<le> rt_next st2"
    "\<forall>b < rt_next st1. b \<noteq> a \<longrightarrow> rt_dirs st2 b = rt_dirs st1 b" "\<forall>x. x \<notin> V \<longrightarrow> rt_vars st2 x = rt_vars st1 x"
    "rt_dirs st2 a = Some d2" "dir_inv d2" "sd_mutable d2 = sd_mutable d1" "dom (dir_map d2) = dom (dir_map d1) \<union> nm ` set es"
    "\<forall>c \<in> dom (dir_map d1). dir_map d2 c = dir_map d1 c"
    "\<forall>e \<in> set es. \<exists>m. dir_map d2 (nm e) = Some m \<and> mirrors (rt_dirs st2) (rt_next st1) (rt_next st2) (T e) m"
    using Cons.IH [OF _ s1(2) a s1(6,7) _ _ disj] Cons.prems(1,7,8) by auto
  have "mirrors (rt_dirs st2) (rt_next st) (rt_next st2) (T e) m"
    using s1(10) by (rule mirrors_mono) (use s2(3,4) Cons.prems(4) in auto)
  moreover have "dir_map d2 (nm e) = Some m" using s1(9) s2(10) by simp
  moreover have "mirrors (rt_dirs st2) (rt_next st) (rt_next st2) t m" if "mirrors (rt_dirs st2) (rt_next st1) (rt_next st2) t m" for t m
    using that by (rule mirrors_mono) (use s1(3) in simp_all)
  ultimately have kids: "\<forall>e \<in> set (e # es). \<exists>m. dir_map d2 (nm e) = Some m \<and> mirrors (rt_dirs st2) (rt_next st) (rt_next st2) (T e) m"
    using s2(11) by fastforce
  have "\<forall>c \<in> dom (dir_map d). dir_map d2 c = dir_map d c" using s2(10) s1(9) Cons.prems(9) by auto
  moreover have "dom (dir_map d2) = dom (dir_map d) \<union> nm ` set (e # es)" using s2(9) s1(9) by auto
  moreover have "\<forall>b < rt_next st. b \<noteq> a \<longrightarrow> rt_dirs st2 b = rt_dirs st b" using s2(4) s1(3,4) by auto
  ultimately show ?case
    using s1(1,3,5,8) s2(1-3,5-8) kids by (intro exI [of _ st2] exI [of _ d2]) simp
qed auto

section \<open>The block of a macro\<close>

definition dir_var :: "'x macro_dir \<Rightarrow> string" where
  "dir_var m = (case md_assign_to m of Some i \<Rightarrow> i | None \<Rightarrow> local_dir)"

abbreviation rules_tree :: "('x macro_entry \<Rightarrow> string) \<Rightarrow> ('x macro_entry \<Rightarrow> 'e tree) \<Rightarrow> 'x macro_dir \<Rightarrow> 'e tree" where
  "rules_tree nm T m \<equiv> TDir (map (\<lambda>e. (nm e, T e)) (md_entries m))"

lemma expand_stmts:
  "mb_stmts (macro_expand loc mutable m) =
     (case md_assign_to m of Some i \<Rightarrow> AssignDir i mutable | None \<Rightarrow> LetDir local_dir mutable) #
     map (entry_call loc (dir_var m)) (md_entries m)"
  "mb_result (macro_expand loc mutable m) = dir_var m"
  by (simp_all add: macro_expand_def dir_var_def split: option.splits)

lemma run_expanded:
  "run_stmts K dbg pr evs ev (mb_stmts (macro_expand loc mutable m)) st =
     run_stmts K dbg pr evs ev (map (entry_call loc (dir_var m)) (md_entries m)) (construct_dir K (dir_var m) mutable st)"
  by (simp add: expand_stmts dir_var_def split: option.splits)

lemma construct_dir_facts:
  fixes st :: "'e run_state"
  assumes "rt_fresh st"
  shows "rt_fresh (construct_dir K v mutable st)" "rt_vars (construct_dir K v mutable st) v = Some (rt_next st)"
    "rt_next (construct_dir K v mutable st) = Suc (rt_next st)"
    "\<exists>d. rt_dirs (construct_dir K v mutable st) (rt_next st) = Some d \<and> dir_inv d \<and> dir_map d = Map.empty \<and> sd_mutable d = mutable"
    "\<forall>a < rt_next st. rt_dirs (construct_dir K v mutable st) a = rt_dirs st a"
    "\<forall>x. x \<noteq> v \<longrightarrow> rt_vars (construct_dir K v mutable st) x = rt_vars st x"
  using assms by (auto simp: construct_dir_def rt_fresh_def dir_inv_def mutable_simple_def immutable_simple_def simple_new_def
      watchers_new_def fun_eq_iff)

lemma scope_end_fields [simp]:
  "rt_dirs (scope_end ss outer st) = rt_dirs st" "rt_next (scope_end ss outer st) = rt_next st"
  by (induction ss outer st rule: scope_end.induct) simp_all

lemma scope_end_vars:
  "rt_vars (scope_end (mb_stmts (macro_expand loc mutable m)) outer st) =
     (case md_assign_to m of Some i \<Rightarrow> rt_vars st | None \<Rightarrow> (rt_vars st)(local_dir := outer local_dir))"
  by (simp add: expand_stmts split: option.splits)

text \<open>What is assumed of the entries of a macro: their names are pure and their expressions build trees.\<close>

definition rules_evaluate ::
    "('x \<Rightarrow> ('e, string) evaluation) \<Rightarrow> ('x \<Rightarrow> ('e, 'e node) evaluation) \<Rightarrow> string set \<Rightarrow>
     ('x macro_entry \<Rightarrow> string) \<Rightarrow> ('x macro_entry \<Rightarrow> 'e tree) \<Rightarrow> 'x macro_dir \<Rightarrow> bool" where
  "rules_evaluate evs ev V nm T m \<longleftrightarrow>
     dir_var m \<notin> V \<and>
     (\<forall>e \<in> set (md_entries m). names evs (me_name e) (nm e) \<and> builds V (ev (me_entry e)) (T e))"

lemma macro_block_runs:
  assumes K: "fio_names K" and ev: "rules_evaluate evs ev V nm T m" and st: "rt_fresh st"
    and ok: "distinct (map nm (md_entries m))" "\<forall>e \<in> set (md_entries m). entry_name (nm e)"
  obtains root st' d where
    "run_block K dbg pr evs ev (macro_expand loc mutable m) st = Inr (DirNode root, st')"
    "extends (V \<union> set_option (md_assign_to m)) st st'"
    "mirrors (rt_dirs st') (rt_next st) (rt_next st') (rules_tree nm T m) (DirNode root)"
    "rt_dirs st' root = Some d" "sd_mutable d = mutable" "\<forall>i. md_assign_to m = Some i \<longrightarrow> rt_vars st' i = Some root"
proof -
  let ?v = "dir_var m" and ?a = "rt_next st"
  define st0 where "st0 = construct_dir K ?v mutable st"
  have V: "?v \<notin> V" and es: "\<forall>e \<in> set (md_entries m). names evs (me_name e) (nm e) \<and> builds V (ev (me_entry e)) (T e)"
    using ev by (simp_all add: rules_evaluate_def)
  note c = construct_dir_facts [OF st, where K = K and v = ?v and mutable = mutable, folded st0_def]
  obtain d0 where d0: "rt_dirs st0 ?a = Some d0" "dir_inv d0" "dir_map d0 = Map.empty" "sd_mutable d0 = mutable"
    using c(4) by blast
  have pre: "?a < rt_next st0" "dom (dir_map d0) \<inter> nm ` set (md_entries m) = {}" using c(3) d0(3) by simp_all
  obtain st1 d where s1: "run_stmts K dbg pr evs ev (map (entry_call loc ?v) (md_entries m)) st0 = Inr st1" "rt_fresh st1"
      "rt_next st0 \<le> rt_next st1" "\<forall>b < rt_next st0. b \<noteq> ?a \<longrightarrow> rt_dirs st1 b = rt_dirs st0 b"
      "\<forall>x. x \<notin> V \<longrightarrow> rt_vars st1 x = rt_vars st0 x" "rt_dirs st1 ?a = Some d" "dir_inv d" "sd_mutable d = sd_mutable d0"
      "dom (dir_map d) = nm ` set (md_entries m)"
      "\<forall>e \<in> set (md_entries m). \<exists>n. dir_map d (nm e) = Some n \<and> mirrors (rt_dirs st1) (rt_next st0) (rt_next st1) (T e) n"
    using entry_calls_run [OF K es V c(1,2) pre(1) d0(1,2) ok pre(2), of dbg pr loc] d0(3) by auto
  define st' where "st' = scope_end (mb_stmts (macro_expand loc mutable m)) (rt_vars st) st1"
  have fields: "rt_dirs st' = rt_dirs st1" "rt_next st' = rt_next st1" by (simp_all add: st'_def)
  have "mirrors (rt_dirs st') ?a (rt_next st') t n" if "mirrors (rt_dirs st1) (rt_next st0) (rt_next st1) t n" for t n
    using that by (rule mirrors_mono) (simp_all add: fields c(3))
  with s1(10) have kids: "\<forall>e \<in> set (md_entries m). \<exists>n. dir_map d (nm e) = Some n \<and> mirrors (rt_dirs st') ?a (rt_next st') (T e) n"
    by fast
  have le: "?a < rt_next st'" using s1(3) c(3) fields by simp
  have mir: "mirrors (rt_dirs st') ?a (rt_next st') (rules_tree nm T m) (DirNode ?a)"
    using kids s1(6,7,9) le by (auto simp: fields image_image)
  have var: "rt_vars st1 ?v = Some ?a" using s1(5) V c(2) by simp
  have "rt_vars st' x = rt_vars st x" if "x \<notin> V \<union> set_option (md_assign_to m)" for x
    using that s1(5) c(6) by (auto simp: st'_def scope_end_vars dir_var_def split: option.splits)
  moreover have "\<forall>b < ?a. rt_dirs st' b = rt_dirs st b" using s1(4) c(3,5) fields by simp
  ultimately have ext: "extends (V \<union> set_option (md_assign_to m)) st st'"
    using s1(2) le fields by (simp add: extends_def rt_fresh_def)
  have "run_block K dbg pr evs ev (macro_expand loc mutable m) st = Inr (DirNode ?a, st')"
    using s1(1) var by (simp add: run_block_def run_expanded expand_stmts(2) st0_def st'_def)
  moreover have "\<forall>i. md_assign_to m = Some i \<longrightarrow> rt_vars st' i = Some ?a"
    using var by (auto simp: st'_def scope_end_vars dir_var_def)
  ultimately show thesis using ext mir s1(6,8) d0(4) fields by (intro that) simp_all
qed

lemma macro_block_panics:
  assumes K: "fio_names K" and ev: "rules_evaluate evs ev V nm T m" and st: "rt_fresh st"
    and m: "md_entries m = xs @ e # ys" and ok: "distinct (map nm xs)" "\<forall>x \<in> set xs. entry_name (nm x)"
    and bad: "\<not> entry_name (nm e) \<or> nm e \<in> nm ` set xs"
  shows "run_block K dbg pr evs ev (macro_expand loc mutable m) st = Inl (macro_panic pr (loc (me_name e)) (nm e))"
proof -
  let ?v = "dir_var m" and ?a = "rt_next st"
  define st0 where "st0 = construct_dir K ?v mutable st"
  have V: "?v \<notin> V" and es: "\<forall>e \<in> set xs. names evs (me_name e) (nm e) \<and> builds V (ev (me_entry e)) (T e)"
    and e: "names evs (me_name e) (nm e)" "builds V (ev (me_entry e)) (T e)"
    using ev m by (simp_all add: rules_evaluate_def)
  note c = construct_dir_facts [OF st, where K = K and v = ?v and mutable = mutable, folded st0_def]
  obtain d0 where d0: "rt_dirs st0 ?a = Some d0" "dir_inv d0" "dir_map d0 = Map.empty"
    using c(4) by blast
  have pre: "?a < rt_next st0" "dom (dir_map d0) \<inter> nm ` set xs = {}" using c(3) d0(3) by simp_all
  obtain st1 d where s1: "run_stmts K dbg pr evs ev (map (entry_call loc ?v) xs) st0 = Inr st1" "rt_fresh st1"
      "rt_next st0 \<le> rt_next st1" "\<forall>x. x \<notin> V \<longrightarrow> rt_vars st1 x = rt_vars st0 x" "rt_dirs st1 ?a = Some d" "dir_inv d"
      "dom (dir_map d) = nm ` set xs"
    using entry_calls_run [OF K es V c(1,2) pre(1) d0(1,2) ok pre(2), of dbg pr loc] d0(3) by auto
  have "rt_vars st1 ?v = Some ?a" "?a < rt_next st1" using s1(3,4) V c(2,3) by simp_all
  moreover have "\<not> entry_name (nm e) \<or> dir_map d (nm e) \<noteq> None" using bad s1(7) by (metis domIff)
  ultimately have "run_stmt K dbg pr evs ev (entry_call loc ?v e) st1 = Inl (macro_panic pr (loc (me_name e)) (nm e))"
    using entry_call_panics [where e = e and ev = ev, OF K e V s1(2) _ _ s1(5,6)] by blast
  then show ?thesis
    using s1(1) m by (simp add: run_block_def run_expanded expand_stmts(2) st0_def run_stmts_append)
qed

text \<open>A nested macro is again an expression that builds a tree.\<close>

lemma builds_macro:
  assumes "fio_names K" and "rules_evaluate evs ev V nm T m"
    and "distinct (map nm (md_entries m))" and "\<forall>e \<in> set (md_entries m). entry_name (nm e)"
  shows "builds (V \<union> set_option (md_assign_to m)) (run_block K dbg pr evs ev (macro_expand loc mutable m)) (rules_tree nm T m)"
  unfolding builds_def
proof (intro allI impI)
  fix st :: "'b run_state" assume st: "rt_fresh st"
  obtain root st' where "run_block K dbg pr evs ev (macro_expand loc mutable m) st = Inr (DirNode root, st')"
    "extends (V \<union> set_option (md_assign_to m)) st st'"
    "mirrors (rt_dirs st') (rt_next st) (rt_next st') (rules_tree nm T m) (DirNode root)"
    by (rule macro_block_runs [where loc = loc, OF assms(1,2) st assms(3,4)])
  then show "\<exists>n st'. run_block K dbg pr evs ev (macro_expand loc mutable m) st = Inr (n, st') \<and>
      extends (V \<union> set_option (md_assign_to m)) st st' \<and>
      mirrors (rt_dirs st') (rt_next st) (rt_next st') (rules_tree nm T m) n" by blast
qed

section \<open>An instance of the parser\<close>

text \<open>Expressions are single tokens, and every parser is written out.\<close>

fun parse_items ::
    "nat \<Rightarrow> (token list \<Rightarrow> syn_error + 'a \<times> token list) \<Rightarrow> token list \<Rightarrow> syn_error + 'a list \<times> token list" where
  "parse_items k f [] = Inr ([], [])"
| "parse_items 0 f ts = Inl (SynError 0)"
| "parse_items (Suc k) f ts =
     bind_syn (f ts) (\<lambda>(x, r).
       case r of
         [] \<Rightarrow> Inr ([x], [])
       | TkComma # r' \<Rightarrow> bind_syn (parse_items k f r') (\<lambda>(xs, r''). Inr (x # xs, r''))
       | _ \<Rightarrow> Inl (SynError 1))"

definition token_syn :: "nat syn_ops" where
  "token_syn =
     \<lparr>peek_lit_str = (\<lambda>ts. case ts of TkStr _ # _ \<Rightarrow> True | _ \<Rightarrow> False),
      parse_lit_str = (\<lambda>ts. case ts of TkStr s # r \<Rightarrow> Inr (s, r) | _ \<Rightarrow> Inl (SynError 2)),
      peek_lit_bytes = (\<lambda>ts. case ts of TkBytes _ # _ \<Rightarrow> True | _ \<Rightarrow> False),
      parse_lit_bytes = (\<lambda>ts. case ts of TkBytes s # r \<Rightarrow> Inr (s, r) | _ \<Rightarrow> Inl (SynError 2)),
      parse_expr = (\<lambda>ts. case ts of TkOther n # r \<Rightarrow> Inr (n, r) | _ \<Rightarrow> Inl (SynError 3)),
      parse_fat_arrow = (\<lambda>ts. case ts of TkFatArrow # r \<Rightarrow> Inr r | _ \<Rightarrow> Inl (SynError 4)),
      peek_ident = (\<lambda>ts. case ts of TkIdent _ # _ \<Rightarrow> True | _ \<Rightarrow> False),
      peek2_arrow = (\<lambda>ts. case ts of _ # TkArrow # _ \<Rightarrow> True | _ \<Rightarrow> False),
      parse_ident = (\<lambda>ts. case ts of TkIdent i # r \<Rightarrow> Inr (i, r) | _ \<Rightarrow> Inl (SynError 5)),
      parse_arrow = (\<lambda>ts. case ts of TkArrow # r \<Rightarrow> Inr r | _ \<Rightarrow> Inl (SynError 6)),
      parse_terminated = (\<lambda>f ts. parse_items (length ts) f ts),
      parse2 = (\<lambda>f ts. bind_syn (f ts) (\<lambda>(m, r). if r = [] then Inr m else Inl (SynError 7)))\<rparr>"

lemma parse_items_fuel:
  assumes "consuming f" and "length ts \<le> k"
  shows "parse_items k f ts = parse_items (length ts) f ts"
  using assms(2)
proof (induction "length ts" arbitrary: ts k rule: less_induct)
  case less
  show ?case
  proof (cases ts)
    case (Cons t ts')
    then obtain k' where k: "k = Suc k'" using less.prems by (cases k) auto
    have "parse_items k' f r = parse_items (length ts') f r" if "f ts = Inr (x, TkComma # r)" for x r
    proof -
      have "length (TkComma # r) < length ts" using that assms(1) unfolding consuming_def by blast
      with less.hyps [of r k'] less.hyps [of r "length ts'"] less.prems Cons k show ?thesis by simp
    qed
    then show ?thesis using Cons k by (cases "f ts") (auto split: list.splits token.splits)
  qed simp
qed

lemma token_syn_laws: "syn_laws token_syn (\<lambda>n. [TkOther n])"
proof -
  have "token_laws token_syn"
    unfolding token_laws_def token_syn_def by (auto split: list.splits token.splits)
  moreover have "expr_laws token_syn (\<lambda>n. [TkOther n])"
    unfolding expr_laws_def token_syn_def by (auto split: list.splits token.splits)
  moreover have "list_laws token_syn"
    unfolding list_laws_def
  proof (intro conjI allI impI)
    fix f :: "token list \<Rightarrow> syn_error + nat macro_entry \<times> token list" and ts x r
    assume f: "consuming f" "ts \<noteq> []" "f ts = Inr (x, TkComma # r)"
    then have "length (TkComma # r) < length ts" unfolding consuming_def by blast
    then obtain k where "length ts = Suc k" "length r \<le> k" by (cases "length ts") auto
    with f parse_items_fuel [OF f(1), of r k]
    show "parse_terminated token_syn f ts = bind_syn (parse_terminated token_syn f r) (\<lambda>(xs, r'). Inr (x # xs, r'))"
      by (cases ts) (simp_all add: token_syn_def)
  next
    fix f :: "token list \<Rightarrow> syn_error + nat macro_entry \<times> token list" and ts x
    assume "ts \<noteq> []" "f ts = Inr (x, [])"
    then show "parse_terminated token_syn f ts = Inr ([x], [])" by (cases ts) (simp_all add: token_syn_def)
  next
    fix f :: "token list \<Rightarrow> syn_error + nat macro_entry \<times> token list" and ts e
    assume "ts \<noteq> []" "f ts = Inl e"
    then show "parse_terminated token_syn f ts = Inl e" by (cases ts) (simp_all add: token_syn_def)
  qed (simp_all add: token_syn_def)
  ultimately show ?thesis by (simp add: syn_laws_def)
qed

section \<open>Properties\<close>


text \<open>The macro of the witness: a file and a nested macro with one file.\<close>

definition inner_macro :: "nat macro_dir" where
  "inner_macro = \<lparr>md_assign_to = None, md_entries = [\<lparr>me_name = BytesName ''b'', me_entry = 2\<rparr>]\<rparr>"

definition outer_macro :: "nat macro_dir" where
  "outer_macro =
     \<lparr>md_assign_to = Some ''root'',
      md_entries = [\<lparr>me_name = StrName ''a'', me_entry = 1\<rparr>, \<lparr>me_name = StrName ''d'', me_entry = 0\<rparr>]\<rparr>"

definition value_expr :: "nat \<Rightarrow> (nat, nat node) evaluation" where
  "value_expr n st = Inr (LeafNode n, st)"

definition example_expr :: "nat \<Rightarrow> (nat, nat node) evaluation" where
  "example_expr n =
     (if n = 0
      then run_block fio_values True (\<lambda>_. []) (\<lambda>_ _. Inl Stuck) value_expr (macro_expand (\<lambda>_. ''inner'') False inner_macro)
      else value_expr n)"

definition literal_of :: "'x macro_entry \<Rightarrow> string" where
  "literal_of e = (case me_name e of StrName s \<Rightarrow> s | BytesName s \<Rightarrow> s | ExprName _ \<Rightarrow> [])"

lemma inner_macro_builds: "builds {} (example_expr 0) (TDir [(''b'', TLeaf 2)])"
proof -
  have "rules_evaluate (\<lambda>_ _. Inl Stuck) value_expr {} literal_of (\<lambda>e. TLeaf (me_entry e)) inner_macro"
    by (simp add: rules_evaluate_def inner_macro_def names_def literal_of_def builds_value value_expr_def [abs_def])
  from builds_macro [OF fio_values_names this, of True "\<lambda>_. []" "\<lambda>_. ''inner''" False]
  show ?thesis by (simp add: inner_macro_def literal_of_def entry_name_def MAX_NAME_LENGTH_def example_expr_def)
qed


section \<open>Checks on literal names\<close>

text \<open>
  The length check of the macro is the one of \<open>add_entry\<close>: a literal that compiles is refused by \<open>add_entry\<close> only
  for a slash.
\<close>

lemma accepted_literal_is_entry_name:
  assumes "name_accepted toks (me_name e)" and "\<forall>x. me_name e \<noteq> ExprName x"
  shows "entry_name (literal_of e) \<longleftrightarrow> slash \<notin> set (literal_of e)"
  using assms by (cases "me_name e") (auto simp: entry_name_def literal_of_def MACRO_MAX_FILENAME_def MAX_NAME_LENGTH_def)

text \<open>A literal that is too long does not compile; the two numbers of the message are swapped.\<close>

lemma long_literal_rejected:
  assumes "syn_laws S toks" and "length s > MACRO_MAX_FILENAME"
  shows "pseudo_directory_impl S loc mutable (TkStr s # r) = Inl (EntryNameTooLong s (length s) MACRO_MAX_FILENAME)"
proof -
  have laws: "token_laws S" "list_laws S" using assms(1) by (simp_all add: syn_laws_def)
  have "peek_lit_str S (TkStr s # r)" "parse_lit_str S (TkStr s # r) = Inr (s, r)" "\<not> peek_ident S (TkStr s # r)"
    using laws(1) by (simp_all add: token_laws_def)
  then have "macro_entry_parse S (TkStr s # r) = Inl (EntryNameTooLong s (length s) MACRO_MAX_FILENAME)"
    using assms(2) by (simp add: macro_entry_parse_def macro_name_parse_def check_literal_def)
  with laws(2) \<open>\<not> peek_ident S (TkStr s # r)\<close> show ?thesis
    by (simp add: list_laws_def pseudo_directory_impl_def macro_dir_parse_def)
qed

text \<open>
  The check for repeated literals never fires, because every entry is parsed with an empty set of seen names: the
  macro compiles, and the repetition is found only when the block runs.
\<close>

lemma repeated_literal_compiles:
  defines "m \<equiv> \<lparr>md_assign_to = None,
                  md_entries = [\<lparr>me_name = StrName ''a'', me_entry = 1\<rparr>, \<lparr>me_name = StrName ''a'', me_entry = 2\<rparr>]\<rparr>"
  assumes "rt_fresh st"
  shows "pseudo_directory_impl token_syn loc mutable
           [TkStr ''a'', TkFatArrow, TkOther 1, TkComma, TkStr ''a'', TkFatArrow, TkOther 2] =
         Inr (macro_expand loc mutable m)"
    and "run_block fio_values dbg pr (\<lambda>_ _. Inl Stuck) value_expr (macro_expand loc mutable m) st =
         Inl (PanicText (loc (StrName ''a'')) ''Duplicate entry name.'' ''a'')"
proof -
  have "macro_tokens (\<lambda>n. [TkOther n]) False m =
      [TkStr ''a'', TkFatArrow, TkOther 1, TkComma, TkStr ''a'', TkFatArrow, TkOther 2]"
    by (simp add: macro_tokens_def m_def entry_tokens_def)
  with macro_dir_roundtrip [OF token_syn_laws, of m loc mutable False]
  show "pseudo_directory_impl token_syn loc mutable
      [TkStr ''a'', TkFatArrow, TkOther 1, TkComma, TkStr ''a'', TkFatArrow, TkOther 2] = Inr (macro_expand loc mutable m)"
    by (simp add: m_def MACRO_MAX_FILENAME_def)
  have "rules_evaluate (\<lambda>_ _. Inl Stuck) value_expr {} literal_of (\<lambda>e. TLeaf (me_entry e)) m"
    by (simp add: rules_evaluate_def m_def names_def literal_of_def builds_value value_expr_def [abs_def])
  note panics = macro_block_panics [OF fio_values_names this assms(2), where xs = "[hd (md_entries m)]" and e = "\<lparr>me_name = StrName ''a'', me_entry = 2\<rparr>" and ys = "[]"]
  show "run_block fio_values dbg pr (\<lambda>_ _. Inl Stuck) value_expr (macro_expand loc mutable m) st =
      Inl (PanicText (loc (StrName ''a'')) ''Duplicate entry name.'' ''a'')"
    by (rule panics [THEN trans])
      (simp_all add: m_def literal_of_def macro_panic_def entry_name_def MAX_NAME_LENGTH_def)
qed

text \<open>
  The expression of a name is evaluated twice: an expression with a side effect adds the entry under the name of its
  second evaluation.
\<close>

definition next_name :: "nat \<Rightarrow> (nat, string) evaluation" where
  "next_name x st =
     (case rt_vars st ''n'' of
        None \<Rightarrow> Inr (''first'', st\<lparr>rt_vars := (rt_vars st)(''n'' \<mapsto> 0)\<rparr>)
      | Some _ \<Rightarrow> Inr (''second'', st))"

lemma name_evaluated_twice:
  "\<exists>st'. run_block fio_values True pr next_name value_expr
       (macro_expand loc False \<lparr>md_assign_to = None, md_entries = [\<lparr>me_name = ExprName 0, me_entry = 5\<rparr>]\<rparr>)
       \<lparr>rt_dirs = (\<lambda>_. None), rt_next = 0, rt_vars = Map.empty\<rparr> = Inr (DirNode 0, st') \<and>
     node_at (rt_dirs st') (DirNode 0) [''first''] = None \<and>
     node_at (rt_dirs st') (DirNode 0) [''second''] = Some (LeafNode 5)"
proof -
  have inv: "dir_inv (immutable_simple fio_values :: nat node simple_dir)"
    by (simp add: dir_inv_def immutable_simple_def simple_new_def watchers_new_def)
  have add: "add_entry fio_values True ''second'' (LeafNode 5) (immutable_simple fio_values) =
      (Inr (), (immutable_simple fio_values)\<lparr>sd_watchers := [], sd_entries := [(''second'', LeafNode (5 :: nat))]\<rparr>)"
    unfolding add_entry_def add_entry_impl_eq [OF fio_values_names inv]
    by (simp add: entry_name_def MAX_NAME_LENGTH_def immutable_simple_def simple_new_def watchers_new_def announce_def)
  show ?thesis
    by (simp add: run_block_def macro_expand_def local_dir_def construct_dir_def next_name_def value_expr_def
        call_add_entry_def add unwrap_add_entry_span_def)
qed

end
