(* ===== verification/Fs_Inspect.thy ===== *)
theory Fs_Inspect
  imports Vfs_Prelude
begin

text \<open>
  \<open>fs_inspect\<close>: the standard hierarchy in which a filesystem exposes its data for inspection. A node of the
  inspect library is the list of the properties recorded into it, in the order of the calls; a lazy child is a
  callback that the library runs when the node is read. The filesystem is held by a weak reference, which a
  callback upgrades when it runs: it gets the filesystem as it is then, or nothing once it is gone.
\<close>

section \<open>Recorded data\<close>

datatype property_value = UintProperty "64 word" | StringProperty string

type_synonym inspect_node = "(string \<times> property_value) list"

definition record_uint :: "string \<Rightarrow> 64 word \<Rightarrow> inspect_node \<Rightarrow> inspect_node" where
  "record_uint key v node = node @ [(key, UintProperty v)]"

definition record_string :: "string \<Rightarrow> string \<Rightarrow> inspect_node \<Rightarrow> inspect_node" where
  "record_string key v node = node @ [(key, StringProperty v)]"

record InfoData =
  id_id :: "64 word"
  id_fs_type :: "64 word"
  id_name :: string
  id_version_major :: "64 word"
  id_version_minor :: "64 word"
  id_block_size :: "64 word"
  id_max_filename_length :: "64 word"
  id_oldest_version :: "string option"

definition info_record_into :: "InfoData \<Rightarrow> inspect_node \<Rightarrow> inspect_node" where
  "info_record_into d node =
     (let node = record_uint ''id'' (id_id d) node;
          node = record_uint ''type'' (id_fs_type d) node;
          node = record_string ''name'' (id_name d) node;
          node = record_uint ''version_major'' (id_version_major d) node;
          node = record_uint ''version_minor'' (id_version_minor d) node;
          node = record_uint ''block_size'' (id_block_size d) node;
          node = record_uint ''max_filename_length'' (id_max_filename_length d) node
      in case id_oldest_version d of
           Some v \<Rightarrow> record_string ''oldest_version'' v node
         | None \<Rightarrow> node)"

record UsageData =
  ud_total_bytes :: "64 word"
  ud_used_bytes :: "64 word"
  ud_total_nodes :: "64 word"
  ud_used_nodes :: "64 word"

definition usage_record_into :: "UsageData \<Rightarrow> inspect_node \<Rightarrow> inspect_node" where
  "usage_record_into d node =
     record_uint ''used_nodes'' (ud_used_nodes d)
       (record_uint ''total_nodes'' (ud_total_nodes d)
         (record_uint ''used_bytes'' (ud_used_bytes d)
           (record_uint ''total_bytes'' (ud_total_bytes d) node)))"

record VolumeData =
  vd_size_bytes :: "64 word"
  vd_size_limit_bytes :: "64 word"
  vd_available_space_bytes :: "64 word"
  vd_out_of_space_events :: "64 word"

definition volume_record_into :: "VolumeData \<Rightarrow> inspect_node \<Rightarrow> inspect_node" where
  "volume_record_into d node =
     record_uint ''out_of_space_events'' (vd_out_of_space_events d)
       (record_uint ''available_space_bytes'' (vd_available_space_bytes d)
         (record_uint ''size_limit_bytes'' (vd_size_limit_bytes d)
           (record_uint ''size_bytes'' (vd_size_bytes d) node)))"

section \<open>The trait and the lazy nodes\<close>

record 'fs FsInspect =
  get_info_data :: "'fs \<Rightarrow> InfoData"
  get_usage_data :: "'fs \<Rightarrow> UsageData"
  get_volume_data :: "'fs \<Rightarrow> VolumeData"

text \<open>The children of a root node: names and callbacks, which get the outcome of \<open>upgrade\<close>.\<close>

type_synonym 'fs lazy_children = "(string \<times> ('fs option \<Rightarrow> inspect_node)) list"

definition lazy_info :: "'fs FsInspect \<Rightarrow> 'fs option \<Rightarrow> inspect_node" where
  "lazy_info vt fs = (case fs of Some f \<Rightarrow> info_record_into (get_info_data vt f) [] | None \<Rightarrow> [])"

definition lazy_usage :: "'fs FsInspect \<Rightarrow> 'fs option \<Rightarrow> inspect_node" where
  "lazy_usage vt fs = (case fs of Some f \<Rightarrow> usage_record_into (get_usage_data vt f) [] | None \<Rightarrow> [])"

definition lazy_volume :: "'fs FsInspect \<Rightarrow> 'fs option \<Rightarrow> inspect_node" where
  "lazy_volume vt fs = (case fs of Some f \<Rightarrow> volume_record_into (get_volume_data vt f) [] | None \<Rightarrow> [])"

definition fs_inspect_tree_new :: "'fs FsInspect \<Rightarrow> 'fs lazy_children \<Rightarrow> 'fs lazy_children" where
  "fs_inspect_tree_new vt root =
     root @ [(''fs.info'', lazy_info vt), (''fs.usage'', lazy_usage vt), (''fs.volume'', lazy_volume vt)]"

section \<open>Reading the hierarchy back\<close>

definition read_child :: "'fs lazy_children \<Rightarrow> string \<Rightarrow> 'fs option \<Rightarrow> inspect_node option" where
  "read_child root name fs = map_option (\<lambda>callback. callback fs) (map_of root name)"

definition uint_at :: "inspect_node \<Rightarrow> string \<Rightarrow> 64 word option" where
  "uint_at node key = (case map_of node key of Some (UintProperty v) \<Rightarrow> Some v | _ \<Rightarrow> None)"

definition string_at :: "inspect_node \<Rightarrow> string \<Rightarrow> string option" where
  "string_at node key = (case map_of node key of Some (StringProperty v) \<Rightarrow> Some v | _ \<Rightarrow> None)"

text \<open>A reader that decodes the three nodes by the names of their properties.\<close>

definition read_info :: "inspect_node \<Rightarrow> InfoData option" where
  "read_info node =
     (case (uint_at node ''id'', uint_at node ''type'', string_at node ''name'', uint_at node ''version_major'',
            uint_at node ''version_minor'', uint_at node ''block_size'', uint_at node ''max_filename_length'') of
        (Some i, Some t, Some n, Some ma, Some mi, Some b, Some l) \<Rightarrow>
          Some \<lparr>id_id = i, id_fs_type = t, id_name = n, id_version_major = ma, id_version_minor = mi, id_block_size = b,
                id_max_filename_length = l, id_oldest_version = string_at node ''oldest_version''\<rparr>
      | _ \<Rightarrow> None)"

definition read_usage :: "inspect_node \<Rightarrow> UsageData option" where
  "read_usage node =
     (case (uint_at node ''total_bytes'', uint_at node ''used_bytes'', uint_at node ''total_nodes'', uint_at node ''used_nodes'') of
        (Some tb, Some ub, Some tn, Some un) \<Rightarrow>
          Some \<lparr>ud_total_bytes = tb, ud_used_bytes = ub, ud_total_nodes = tn, ud_used_nodes = un\<rparr>
      | _ \<Rightarrow> None)"

definition read_volume :: "inspect_node \<Rightarrow> VolumeData option" where
  "read_volume node =
     (case (uint_at node ''size_bytes'', uint_at node ''size_limit_bytes'', uint_at node ''available_space_bytes'',
            uint_at node ''out_of_space_events'') of
        (Some s, Some l, Some a, Some e) \<Rightarrow>
          Some \<lparr>vd_size_bytes = s, vd_size_limit_bytes = l, vd_available_space_bytes = a, vd_out_of_space_events = e\<rparr>
      | _ \<Rightarrow> None)"

lemmas inspect_defs = record_uint_def record_string_def uint_at_def string_at_def

lemma info_readable: "read_info (info_record_into d []) = Some d"
  by (cases d; cases "id_oldest_version d") (simp_all add: info_record_into_def read_info_def inspect_defs)

lemma usage_readable: "read_usage (usage_record_into d []) = Some d"
  by (cases d) (simp add: usage_record_into_def read_usage_def inspect_defs)

lemma volume_readable: "read_volume (volume_record_into d []) = Some d"
  by (cases d) (simp add: volume_record_into_def read_volume_def inspect_defs)

lemma info_keys_distinct: "distinct (map fst (info_record_into d []))"
  by (cases "id_oldest_version d") (simp_all add: info_record_into_def inspect_defs)

section \<open>Properties\<close>

text \<open>C37. Inspecting a filesystem reads back its data. After the tree is attached to a root node with other children,
  reading the three nodes while the filesystem is alive gives properties from which exactly the data that the
  filesystem has at the time of reading is recovered, and no property is recorded twice; once the filesystem is gone
  the nodes are still there and empty; the other children of the root read as before.\<close>

theorem inspect_reads_current_data:
  assumes "{''fs.info'', ''fs.usage'', ''fs.volume''} \<inter> fst ` set root = {}"
  shows "(\<exists>i u v.
      read_child (fs_inspect_tree_new vt root) ''fs.info'' (Some f) = Some i \<and> read_info i = Some (get_info_data vt f) \<and>
      read_child (fs_inspect_tree_new vt root) ''fs.usage'' (Some f) = Some u \<and> read_usage u = Some (get_usage_data vt f) \<and>
      read_child (fs_inspect_tree_new vt root) ''fs.volume'' (Some f) = Some v \<and> read_volume v = Some (get_volume_data vt f) \<and>
      distinct (map fst i) \<and> distinct (map fst u) \<and> distinct (map fst v)) \<and>
    (\<forall>n \<in> {''fs.info'', ''fs.usage'', ''fs.volume''}. read_child (fs_inspect_tree_new vt root) n None = Some []) \<and>
    (\<forall>n fs. n \<notin> {''fs.info'', ''fs.usage'', ''fs.volume''} \<longrightarrow>
       read_child (fs_inspect_tree_new vt root) n fs = read_child root n fs)"
proof -
  have fresh: "map_of root n = None" if "n \<in> {''fs.info'', ''fs.usage'', ''fs.volume''}" for n
    using that assms unfolding map_of_eq_None_iff by blast
  have read: "read_child (fs_inspect_tree_new vt root) ''fs.info'' fs = Some (lazy_info vt fs)"
    "read_child (fs_inspect_tree_new vt root) ''fs.usage'' fs = Some (lazy_usage vt fs)"
    "read_child (fs_inspect_tree_new vt root) ''fs.volume'' fs = Some (lazy_volume vt fs)" for fs
    by (simp_all add: read_child_def fs_inspect_tree_new_def map_add_def fresh)
  have other: "read_child (fs_inspect_tree_new vt root) n fs = read_child root n fs"
    if "n \<notin> {''fs.info'', ''fs.usage'', ''fs.volume''}" for n fs
    using that by (simp add: read_child_def fs_inspect_tree_new_def map_add_def split: option.splits)
  have "distinct (map fst (lazy_usage vt (Some f)))" "distinct (map fst (lazy_volume vt (Some f)))"
    by (simp_all add: lazy_usage_def lazy_volume_def usage_record_into_def volume_record_into_def inspect_defs)
  with other show ?thesis
    by (simp add: read lazy_info_def lazy_usage_def lazy_volume_def info_readable usage_readable volume_readable info_keys_distinct)
qed

definition example_fs :: "64 word FsInspect" where
  "example_fs =
     \<lparr>get_info_data = (\<lambda>n. \<lparr>id_id = n, id_fs_type = 1, id_name = ''minfs'', id_version_major = 2, id_version_minor = 3,
        id_block_size = 512, id_max_filename_length = 255, id_oldest_version = Some ''1''\<rparr>),
      get_usage_data = (\<lambda>n. \<lparr>ud_total_bytes = n, ud_used_bytes = 0, ud_total_nodes = 9, ud_used_nodes = 1\<rparr>),
      get_volume_data = (\<lambda>n. \<lparr>vd_size_bytes = n, vd_size_limit_bytes = 0, vd_available_space_bytes = 4,
        vd_out_of_space_events = 0\<rparr>)\<rparr>"

theorem inspect_reads_current_data_witness:
  "\<exists>i. read_child (fs_inspect_tree_new example_fs [(''other'', \<lambda>_. [])]) ''fs.info'' (Some 7) = Some i \<and>
     map_option id_id (read_info i) = Some 7"
proof -
  have "{''fs.info'', ''fs.usage'', ''fs.volume''} \<inter> fst ` set [(''other'', \<lambda>_ :: 64 word option. [] :: inspect_node)] = {}"
    by simp
  from inspect_reads_current_data [OF this, of example_fs 7, THEN conjunct1] obtain i where
    "read_child (fs_inspect_tree_new example_fs [(''other'', \<lambda>_. [])]) ''fs.info'' (Some 7) = Some i"
    "read_info i = Some (get_info_data example_fs 7)" by blast
  then show ?thesis by (simp add: example_fs_def)
qed

end
