(* ===== verification/Flag_Combinations.thy ===== *)
theory Flag_Combinations
  imports Vfs_Prelude
begin

unbundle bit_operations_syntax

text \<open>
  The generator of flag words of \<open>test_utils.rs\<close>: \<open>split_flags\<close> takes a word apart into its single
  bits, \<open>build_flag_combinations\<close> joins a constant part with every choice of the variable bits. The
  tests of \<open>directory/common.rs\<close>, \<open>file/common.rs\<close> and \<open>service/common.rs\<close> run their flag checks on these
  words, so what they cover rests on the list being complete.
\<close>

section \<open>The lowest bit of a word\<close>

lemma odd_and_minus: 
  fixes d :: "'a::len word"
  assumes "odd d"
  shows "d AND - d = 1"
proof -
  have "d - 1 = d XOR 1" using assms by (simp add: xor_one_eq)
  then have "- d = NOT (d XOR 1)" by (simp add: minus_eq_not_minus_1)
  then show ?thesis using assms
    by (intro bit_eqI) (auto simp: bit_simps bit_0 intro!: Nat.gr0I)
qed

lemma lowest_bit:
  fixes x :: "'a::len word"
  assumes "bit x k" and "\<forall>j < k. \<not> bit x j"
  shows "x AND - x = 2 ^ k"
proof -
  let ?d = "drop_bit k x"
  have x: "x = push_bit k ?d"
  proof (rule bit_word_eqI)
    fix n assume "n < LENGTH('a)"
    then show "bit x n \<longleftrightarrow> bit (push_bit k (drop_bit k x)) n"
      using assms(2) by (cases "n < k") (auto simp: bit_push_bit_iff bit_drop_bit_eq)
  qed
  have "odd ?d" using assms(1) by (simp add: bit_iff_odd_drop_bit)
  then have "?d AND - ?d = 1" by (rule odd_and_minus)
  moreover have "- x = push_bit k (- ?d)" using arg_cong [OF x, of uminus] by (simp add: push_bit_eq_mult)
  ultimately show ?thesis using x by (metis push_bit_and push_bit_of_1)
qed

lemma first_bit:
  fixes x :: "'a::len word"
  assumes "x \<noteq> 0"
  obtains k where "bit x k" "k < LENGTH('a)" "\<forall>j < k. \<not> bit x j"
proof -
  obtain n where "bit x n" using assms by (metis bit_word_eqI bit_0_eq bot_apply bot_bool_def)
  then have "bit x (LEAST n. bit x n)" by (rule LeastI)
  moreover from this have "(LEAST n. bit x n) < LENGTH('a)" by (rule bit_imp_le_length)
  ultimately show thesis by (rule that) (auto dest: not_less_Least)
qed

lemma lowest_bit_cleared:
  fixes x :: "'a::len word"
  assumes "x \<noteq> 0"
  shows "card {j. bit (x XOR (x AND - x)) j} < card {j. bit x j}"
proof -
  obtain k where k: "bit x k" "k < LENGTH('a)" "\<forall>j < k. \<not> bit x j" using first_bit [OF assms] by blast
  have "{j. bit (x XOR (x AND - x)) j} = {j. bit x j} - {k}"
    unfolding lowest_bit [OF k(1,3)] using k(1,2) by (auto simp: bit_xor_iff bit_exp_iff)
  moreover have "finite {j. bit x j}" by (rule finite_subset [of _ "{..<LENGTH('a)}"]) (auto dest: bit_imp_le_length)
  ultimately show ?thesis using k(1) by (metis card_Diff1_less mem_Collect_eq)
qed

section \<open>split\_flags and build\_flag\_combinations\<close>

text \<open>The \<open>while\<close> loop ends: it clears a set bit in every round.\<close>

function split_flags :: "32 word \<Rightarrow> 32 word list" where
  "split_flags flags =
     (if flags \<noteq> 0
      then let lowest_bit = flags AND - flags in lowest_bit # split_flags (flags XOR lowest_bit)
      else [])"
  by pat_completeness auto

termination
  by (relation "measure (\<lambda>flags. card {j. bit flags j})") (simp_all add: lowest_bit_cleared)

declare split_flags.simps [simp del]

definition build_flag_combinations :: "32 word \<Rightarrow> 32 word \<Rightarrow> 32 word list" where
  "build_flag_combinations constant_flags variable_flags =
     fold (\<lambda>flag vec. fold (\<lambda>i vec. vec @ [vec ! i OR flag]) [0..<length vec] vec)
       (split_flags variable_flags) [constant_flags]"

section \<open>The words they yield\<close>

lemma split_flags_bits: "split_flags x = map (\<lambda>k. 2 ^ k) (filter (bit x) [0..<32])"
proof (induction x rule: split_flags.induct)
  case (1 x)
  show ?case
  proof (cases "x = 0")
    case False
    then obtain k where k: "bit x k" "k < 32" "\<forall>j < k. \<not> bit x j" using first_bit [of x] by auto
    let ?y = "x XOR 2 ^ k"
    have y: "bit ?y j \<longleftrightarrow> bit x j \<and> j \<noteq> k" for j using k(1,2) by (auto simp: bit_xor_iff bit_exp_iff)
    have split: "[0..<32] = [0..<k] @ k # [Suc k..<32]" using k(2) upt_add_eq_append [of 0 k "32 - k"] by (simp add: upt_conv_Cons)
    have "filter (bit x) [0..<32] = k # filter (bit ?y) [0..<32]"
      unfolding split using k(1,3) by (auto simp: y filter_empty_conv intro!: filter_cong)
    with False "1.IH" [OF False refl] show ?thesis
      by (subst split_flags.simps) (simp add: lowest_bit [OF k(1,3)] Let_def)
  qed (simp add: split_flags.simps)
qed

text \<open>One round of the outer loop, as a reference: the words so far, then each with the flag added.\<close>

definition add_choice :: "32 word \<Rightarrow> 32 word list \<Rightarrow> 32 word list" where
  "add_choice flag vec = vec @ map (\<lambda>x. x OR flag) vec"

lemma push_loop:
  "n \<le> length vec \<Longrightarrow>
   fold (\<lambda>i vec. vec @ [vec ! i OR flag]) [0..<n] vec = vec @ map (\<lambda>x. x OR flag) (take n vec)"
  by (induction n) (simp_all add: nth_append take_Suc_conv_app_nth)

lemma build_choices:
  "build_flag_combinations c v = fold add_choice (map (\<lambda>k. 2 ^ k) (filter (bit v) [0..<32])) [c]"
proof -
  have "(\<lambda>flag vec. fold (\<lambda>i vec. vec @ [vec ! i OR flag]) [0..<length vec] vec) = add_choice"
    by (intro ext) (simp add: push_loop add_choice_def)
  then show ?thesis by (simp add: build_flag_combinations_def split_flags_bits)
qed

lemma choices_length: "length (fold add_choice fs vec) = 2 ^ length fs * length vec"
  by (induction fs arbitrary: vec) (simp_all add: add_choice_def)

lemma bit_add_flag: "k < 32 \<Longrightarrow> bit (x OR 2 ^ k) j \<longleftrightarrow> bit x j \<or> j = k" for x :: "32 word"
  by (auto simp: bit_or_iff bit_exp_iff)

lemma subset_insert_ex: "(\<exists>S \<subseteq> insert k A. P S) \<longleftrightarrow> (\<exists>S \<subseteq> A. P S \<or> P (insert k S))"
proof
  assume "\<exists>S \<subseteq> insert k A. P S"
  then obtain S where S: "S \<subseteq> insert k A" "P S" by blast
  show "\<exists>S \<subseteq> A. P S \<or> P (insert k S)"
  proof (cases "k \<in> S")
    case True
    then have "insert k (S - {k}) = S" by blast
    with S show ?thesis by (intro exI [of _ "S - {k}"]) auto
  qed (use S in blast)
qed blast

lemma choices_set:
  assumes "\<forall>k \<in> set ks. k < 32"
  shows "y \<in> set (fold add_choice (map (\<lambda>k. 2 ^ k) ks) vec) \<longleftrightarrow>
    (\<exists>x \<in> set vec. \<exists>S \<subseteq> set ks. \<forall>j. bit y j \<longleftrightarrow> bit x j \<or> j \<in> S)"
  using assms
proof (induction ks arbitrary: vec)
  case Nil
  have "y = x" if "\<forall>j. bit y j \<longleftrightarrow> bit x j" for x using that by (simp add: bit_eq_iff)
  then show ?case by auto
next
  case (Cons k ks)
  let ?P = "\<lambda>x S. \<forall>j. bit y j \<longleftrightarrow> bit x j \<or> j \<in> S"
  have k: "k < 32" using Cons.prems by simp
  have "y \<in> set (fold add_choice (map (\<lambda>k. 2 ^ k) (k # ks)) vec) \<longleftrightarrow>
    (\<exists>x \<in> set vec. \<exists>S \<subseteq> set ks. ?P x S) \<or> (\<exists>x \<in> set vec. \<exists>S \<subseteq> set ks. ?P (x OR 2 ^ k) S)"
    using Cons.prems by (simp add: Cons.IH) (simp add: add_choice_def bex_Un)
  also have "(\<exists>x \<in> set vec. \<exists>S \<subseteq> set ks. ?P (x OR 2 ^ k) S) \<longleftrightarrow> (\<exists>x \<in> set vec. \<exists>S \<subseteq> set ks. ?P x (insert k S))"
    by (simp add: bit_add_flag [OF k] disj_ac)
  also have "(\<exists>x \<in> set vec. \<exists>S \<subseteq> set ks. ?P x S) \<or> (\<exists>x \<in> set vec. \<exists>S \<subseteq> set ks. ?P x (insert k S)) \<longleftrightarrow>
    (\<exists>x \<in> set vec. \<exists>S \<subseteq> insert k (set ks). ?P x S)"
    unfolding subset_insert_ex by blast
  finally show ?case by simp
qed

lemma choices_distinct:
  assumes "distinct ks" and "\<forall>k \<in> set ks. k < 32 \<and> (\<forall>x \<in> set vec. \<not> bit x k)" and "distinct vec"
  shows "distinct (fold add_choice (map (\<lambda>k. 2 ^ k) ks) vec)"
  using assms
proof (induction ks arbitrary: vec)
  case (Cons k ks)
  have b: "bit (x OR 2 ^ k) j \<longleftrightarrow> bit x j \<or> j = k" for x :: "32 word" and j
    using Cons.prems(2) by (simp add: bit_add_flag)
  have "inj_on (\<lambda>x. x OR 2 ^ k) (set vec)"
  proof (rule inj_onI)
    fix x x' assume x: "x \<in> set vec" "x' \<in> set vec" and eq: "x OR 2 ^ k = x' OR 2 ^ k"
    have "bit x j = bit x' j" for j
      using b [of x j] b [of x' j] eq x Cons.prems(2) by (cases "j = k") auto
    then show "x = x'" by (simp add: bit_eq_iff)
  qed
  moreover have "set vec \<inter> (\<lambda>x. x OR 2 ^ k) ` set vec = {}"
    using Cons.prems(2) b by fastforce
  ultimately have "distinct (add_choice (2 ^ k) vec)"
    using Cons.prems(3) by (simp add: distinct_map add_choice_def)
  moreover have "\<forall>k' \<in> set ks. k' < 32 \<and> (\<forall>x \<in> set (add_choice (2 ^ k) vec). \<not> bit x k')"
    using Cons.prems(1,2) by (auto simp: add_choice_def b)
  ultimately show ?case using Cons.IH Cons.prems(1) by simp
qed simp

text \<open>C38. \<open>build_flag_combinations\<close> yields exactly the words that consist of the constant flags and any
  choice of the variable ones, two to the number of variable flags of them, each once if the variable
  flags do not overlap the constant ones; the loop of \<open>split_flags\<close> ends on every word and yields its bits
  from the lowest on.\<close>

theorem flag_combinations_exhaustive:
  "set (build_flag_combinations c v) = {c OR s | s. s AND NOT v = 0} \<and>
   length (build_flag_combinations c v) = 2 ^ card {k. bit v k} \<and>
   (c AND v = 0 \<longrightarrow> distinct (build_flag_combinations c v)) \<and>
   split_flags v = map (\<lambda>k. 2 ^ k) (filter (bit v) [0..<32])"
proof (intro conjI impI)
  have bits: "set (filter (bit v) [0..<32]) = {k. bit v k}" by (auto dest: bit_imp_le_length)
  have mem: "y \<in> set (build_flag_combinations c v) \<longleftrightarrow> (\<exists>S \<subseteq> {k. bit v k}. \<forall>j. bit y j \<longleftrightarrow> bit c j \<or> j \<in> S)" for y
    using choices_set [of "filter (bit v) [0..<32]" y "[c]"] bit_imp_le_length [of v]
    unfolding build_choices bits by simp
  have sub: "s AND NOT v = 0 \<longleftrightarrow> (\<forall>j. bit s j \<longrightarrow> bit v j)" for s
  proof
    assume s: "s AND NOT v = 0"
    have "\<not> bit (s AND NOT v) j" for j unfolding s by simp
    then show "\<forall>j. bit s j \<longrightarrow> bit v j" using bit_imp_le_length [of s] by (auto simp: bit_and_iff bit_not_iff)
  qed (auto intro!: bit_word_eqI simp: bit_and_iff bit_not_iff)
  show "set (build_flag_combinations c v) = {c OR s | s. s AND NOT v = 0}" (is "?L = ?R")
  proof (intro set_eqI iffI)
    fix y assume "y \<in> ?L"
    then obtain S where S: "S \<subseteq> {k. bit v k}" "\<And>j. bit y j \<longleftrightarrow> bit c j \<or> j \<in> S" by (auto simp: mem)
    have "y = c OR (y AND v)" by (rule bit_word_eqI) (use S in \<open>auto simp: bit_simps\<close>)
    then show "y \<in> ?R" unfolding mem_Collect_eq sub by (metis bit_and_iff)
  next
    fix y assume "y \<in> ?R"
    then obtain s where s: "y = c OR s" "\<forall>j. bit s j \<longrightarrow> bit v j" by (auto simp: sub)
    then show "y \<in> ?L" unfolding mem by (intro exI [of _ "{j. bit s j}"]) (auto simp: bit_or_iff)
  qed
  show "length (build_flag_combinations c v) = 2 ^ card {k. bit v k}"
    unfolding build_choices choices_length by (simp flip: bits add: distinct_card del: set_filter)
  show "split_flags v = map (\<lambda>k. 2 ^ k) (filter (bit v) [0..<32])" by (rule split_flags_bits)
  assume "c AND v = 0"
  then have "\<not> bit c k" if "bit v k" for k using that by (metis bit_0_eq bit_and_iff bot_apply bot_bool_def)
  then show "distinct (build_flag_combinations c v)"
    unfolding build_choices by (intro choices_distinct) auto
qed

theorem flag_combinations_exhaustive_witness:
  "(4::32 word) AND 3 = 0 \<and> distinct (build_flag_combinations 4 3) \<and> set (build_flag_combinations 4 3) = {4 OR s | s. s AND NOT 3 = 0}"
proof -
  have "(4::32 word) AND 3 = 0" by simp
  with flag_combinations_exhaustive [of 4 3] show ?thesis by blast
qed

end
