(* ===== verification/Test_Run.thy ===== *)
theory Test_Run
  imports Execution_Scope Vfs_Path
begin

text \<open>
  How a test of the file system library runs: \<open>test_utils/run.rs\<close> and the two wrappers of it in
  \<open>directory/test_utils.rs\<close> and \<open>file/test_utils.rs\<close>. The executor of \<open>fuchsia_async\<close> and the endpoints of a
  channel are a parameter, the record \<open>test_env\<close>: \<open>te_run_until_stalled\<close> runs the client and every task
  until nothing can proceed and says whether the client is done. A panic ends the test.
\<close>

record ('x, 'c, 'p, 'h) test_env =
  te_executor_new :: "'x result"
  te_create_proxy :: "('p \<times> 'h) result"
  te_run_until_stalled :: "'x \<Rightarrow> 'c \<Rightarrow> 'x \<times> 'c \<times> bool"

fun expect :: "'a result \<Rightarrow> 'a result" where
  "expect (Inr a) = Inr a"
| "expect (Inl _) = Inl Panic"

section \<open>TestController\<close>

record ('x, 'c) TestController =
  tc_exec :: 'x
  tc_client :: 'c

definition controller_new :: "'x \<Rightarrow> 'c \<Rightarrow> ('x, 'c) TestController" where
  "controller_new exec client = \<lparr> tc_exec = exec, tc_client = client \<rparr>"

definition controller_run_until_stalled ::
    "('x, 'c, 'p, 'h) test_env \<Rightarrow> ('x, 'c) TestController \<Rightarrow> ('x, 'c) TestController result" where
  "controller_run_until_stalled E tc =
     (let (exec, client, ready) = te_run_until_stalled E (tc_exec tc) (tc_client tc)
      in if ready then Inl Panic else Inr \<lparr> tc_exec = exec, tc_client = client \<rparr>)"

definition controller_drop :: "('x, 'c, 'p, 'h) test_env \<Rightarrow> ('x, 'c) TestController \<Rightarrow> unit result" where
  "controller_drop E tc =
     (let (exec, client, ready) = te_run_until_stalled E (tc_exec tc) (tc_client tc)
      in if ready then Inr () else Inl Panic)"

definition controller_run_until_complete :: "('x, 'c, 'p, 'h) test_env \<Rightarrow> ('x, 'c) TestController \<Rightarrow> unit result" where
  "controller_run_until_complete E tc = controller_drop E tc"

section \<open>The parameters of a test\<close>

text \<open>
  A coordinator takes the controller and drops it at its end at the latest, so it is a function from
  the controller to the outcome of the test; the default one only drops it.
\<close>

type_synonym ('x, 'c) coordinator = "('x, 'c) TestController \<Rightarrow> unit result"

type_synonym ('x, 'h, 't, 'i, 'e) test_server =
  "('t, 'i, 'e) ExecutionScope \<Rightarrow> OpenFlags \<Rightarrow> 32 word \<Rightarrow> path \<Rightarrow> 'h \<Rightarrow> 'x \<Rightarrow> 'x result"

record ('x, 'c) AsyncClientTestParams =
  cp_exec :: "'x option"
  cp_get_client :: "unit \<Rightarrow> 'c"
  cp_coordinator :: "('x, 'c) coordinator option"

record ('x, 'c, 'p, 'h, 't, 'i, 'e) AsyncServerClientTestParams =
  sp_exec :: "'x option"
  sp_flags :: OpenFlags
  sp_mode :: "32 word option"
  sp_server :: "('x, 'h, 't, 'i, 'e) test_server"
  sp_get_client :: "'p \<Rightarrow> 'c"
  sp_coordinator :: "('x, 'c) coordinator option"
  sp_token_registry :: "'t option"
  sp_inode_registry :: "'i option"
  sp_entry_constructor :: "'e option"

definition test_client :: "(unit \<Rightarrow> 'c) \<Rightarrow> ('x, 'c) AsyncClientTestParams" where
  "test_client get_client = \<lparr> cp_exec = None, cp_get_client = get_client, cp_coordinator = None \<rparr>"

definition test_server_client ::
    "OpenFlags \<Rightarrow> ('x, 'h, 't, 'i, 'e) test_server \<Rightarrow> ('p \<Rightarrow> 'c) \<Rightarrow>
     ('x, 'c, 'p, 'h, 't, 'i, 'e) AsyncServerClientTestParams" where
  "test_server_client flags server get_client =
     \<lparr> sp_exec = None, sp_flags = flags, sp_mode = None, sp_server = server, sp_get_client = get_client,
       sp_coordinator = None, sp_token_registry = None, sp_inode_registry = None, sp_entry_constructor = None \<rparr>"

definition test_server_client_with_mode ::
    "OpenFlags \<Rightarrow> 32 word \<Rightarrow> ('x, 'h, 't, 'i, 'e) test_server \<Rightarrow> ('p \<Rightarrow> 'c) \<Rightarrow>
     ('x, 'c, 'p, 'h, 't, 'i, 'e) AsyncServerClientTestParams" where
  "test_server_client_with_mode flags mode server get_client =
     \<lparr> sp_exec = None, sp_flags = flags, sp_mode = Some mode, sp_server = server, sp_get_client = get_client,
       sp_coordinator = None, sp_token_registry = None, sp_inode_registry = None, sp_entry_constructor = None \<rparr>"

text \<open>The macro \<open>field_setter\<close>; the two \<open>coordinator\<close> methods have the same shape.\<close>

definition field_setter :: "('a \<Rightarrow> 'f option) \<Rightarrow> (('f option \<Rightarrow> 'f option) \<Rightarrow> 'a \<Rightarrow> 'a) \<Rightarrow> 'f \<Rightarrow> 'a \<Rightarrow> 'a result" where
  "field_setter get upd x p = (if get p \<noteq> None then Inl Panic else Inr (upd (\<lambda>_. Some x) p))"

definition client_set_exec :: "'x \<Rightarrow> ('x, 'c) AsyncClientTestParams \<Rightarrow> ('x, 'c) AsyncClientTestParams result" where
  "client_set_exec = field_setter cp_exec cp_exec_update"

definition client_set_coordinator ::
    "('x, 'c) coordinator \<Rightarrow> ('x, 'c) AsyncClientTestParams \<Rightarrow> ('x, 'c) AsyncClientTestParams result" where
  "client_set_coordinator = field_setter cp_coordinator cp_coordinator_update"

type_synonym ('x, 'c, 'p, 'h, 't, 'i, 'e) server_params_setter =
  "('x, 'c, 'p, 'h, 't, 'i, 'e) AsyncServerClientTestParams \<Rightarrow>
   ('x, 'c, 'p, 'h, 't, 'i, 'e) AsyncServerClientTestParams result"

definition server_set_exec :: "'x \<Rightarrow> ('x, 'c, 'p, 'h, 't, 'i, 'e) server_params_setter" where
  "server_set_exec = field_setter sp_exec sp_exec_update"

definition server_set_mode :: "32 word \<Rightarrow> ('x, 'c, 'p, 'h, 't, 'i, 'e) server_params_setter" where
  "server_set_mode = field_setter sp_mode sp_mode_update"

definition server_set_coordinator :: "('x, 'c) coordinator \<Rightarrow> ('x, 'c, 'p, 'h, 't, 'i, 'e) server_params_setter" where
  "server_set_coordinator = field_setter sp_coordinator sp_coordinator_update"

definition server_set_token_registry :: "'t \<Rightarrow> ('x, 'c, 'p, 'h, 't, 'i, 'e) server_params_setter" where
  "server_set_token_registry = field_setter sp_token_registry sp_token_registry_update"

definition server_set_inode_registry :: "'i \<Rightarrow> ('x, 'c, 'p, 'h, 't, 'i, 'e) server_params_setter" where
  "server_set_inode_registry = field_setter sp_inode_registry sp_inode_registry_update"

definition server_set_entry_constructor :: "'e \<Rightarrow> ('x, 'c, 'p, 'h, 't, 'i, 'e) server_params_setter" where
  "server_set_entry_constructor = field_setter sp_entry_constructor sp_entry_constructor_update"

section \<open>Running a test\<close>

definition test_exec :: "('x, 'c, 'p, 'h) test_env \<Rightarrow> 'x option \<Rightarrow> 'x result" where
  "test_exec E exec = (case exec of Some x \<Rightarrow> Inr x | None \<Rightarrow> expect (te_executor_new E))"

definition test_coordinate ::
    "('x, 'c, 'p, 'h) test_env \<Rightarrow> ('x, 'c) coordinator option \<Rightarrow> ('x, 'c) TestController \<Rightarrow> unit result" where
  "test_coordinate E coordinator controller =
     (case coordinator of Some f \<Rightarrow> f controller | None \<Rightarrow> controller_drop E controller)"

definition client_test_run :: "('x, 'c, 'p, 'h) test_env \<Rightarrow> ('x, 'c) AsyncClientTestParams \<Rightarrow> unit result" where
  "client_test_run E p =
     bind_res (test_exec E (cp_exec p)) (\<lambda>exec.
       let client = cp_get_client p () in
       test_coordinate E (cp_coordinator p) (controller_new exec client))"

definition scope_with :: "('a \<Rightarrow> 'b \<Rightarrow> 'b result) \<Rightarrow> 'a option \<Rightarrow> 'b \<Rightarrow> 'b result" where
  "scope_with setter field builder = (case field of Some x \<Rightarrow> setter x builder | None \<Rightarrow> Inr builder)"

definition server_test_run ::
    "('x, 'c, 'p, 'h) test_env \<Rightarrow> ('x, 'c, 'p, 'h, 't, 'i, 'e) AsyncServerClientTestParams \<Rightarrow> unit result" where
  "server_test_run E p =
     bind_res (test_exec E (sp_exec p)) (\<lambda>exec.
     bind_res (expect (te_create_proxy E)) (\<lambda>(client_proxy, server_end).
     bind_res (scope_with params_token_registry (sp_token_registry p) scope_build) (\<lambda>b1.
     bind_res (scope_with params_inode_registry (sp_inode_registry p) b1) (\<lambda>b2.
     bind_res (scope_with params_entry_constructor (sp_entry_constructor p) b2) (\<lambda>b3.
     bind_res (sp_server p (params_new b3) (sp_flags p) (case sp_mode p of Some m \<Rightarrow> m | None \<Rightarrow> 0) path_dot
                 server_end exec) (\<lambda>exec.
       let client = sp_get_client p client_proxy in
       test_coordinate E (sp_coordinator p) (controller_new exec client)))))))"

definition run_client :: "('x, 'c, 'p, 'h) test_env \<Rightarrow> 'x \<Rightarrow> (unit \<Rightarrow> 'c) \<Rightarrow> unit result" where
  "run_client E exec get_client =
     bind_res (client_set_exec exec (test_client get_client)) (client_test_run E)"

definition run_server_client ::
    "('x, 'c, 'p, 'h) test_env \<Rightarrow> OpenFlags \<Rightarrow> ('x, 'h, 't, 'i, 'e) test_server \<Rightarrow> ('p \<Rightarrow> 'c) \<Rightarrow> unit result" where
  "run_server_client E flags server get_client = server_test_run E (test_server_client flags server get_client)"

section \<open>What a passing test has shown\<close>

text \<open>The state after a number of runs until everything is stalled, and whether the client was then done.\<close>

fun stalls :: "('x, 'c, 'p, 'h) test_env \<Rightarrow> nat \<Rightarrow> 'x \<Rightarrow> 'c \<Rightarrow> bool list" where
  "stalls E 0 x c = []"
| "stalls E (Suc n) x c =
     (let (x', c', ready) = te_run_until_stalled E x c in ready # stalls E n x' c')"

text \<open>A coordinator that separates a test into portions and then lets it complete.\<close>

fun portions :: "('x, 'c, 'p, 'h) test_env \<Rightarrow> nat \<Rightarrow> ('x, 'c) coordinator" where
  "portions E 0 tc = controller_run_until_complete E tc"
| "portions E (Suc n) tc = bind_res (controller_run_until_stalled E tc) (portions E n)"

lemma portions_stalls:
  "portions E n tc = Inr () \<longleftrightarrow> stalls E (Suc n) (tc_exec tc) (tc_client tc) = replicate n False @ [True]"
  by (induction n arbitrary: tc)
    (auto simp: controller_run_until_complete_def controller_drop_def controller_run_until_stalled_def
      split: prod.splits)

lemma default_coordinator: "test_coordinate E None = portions E 0"
  by (simp add: fun_eq_iff test_coordinate_def controller_run_until_complete_def)

text \<open>
  The server sees a scope with exactly the registries and the constructor that were set, each of which
  can be set once: the builder of the scope never panics here.
\<close>

definition scope_of ::
    "('x, 'c, 'p, 'h, 't, 'i, 'e) AsyncServerClientTestParams \<Rightarrow> ('t, 'i, 'e) ExecutionScope" where
  "scope_of p =
     \<lparr> p_token_registry = sp_token_registry p, p_inode_registry = sp_inode_registry p,
       p_entry_constructor = sp_entry_constructor p, s_executor = executor_new \<rparr>"

lemma server_test_run_eq:
  assumes "test_exec E (sp_exec p) = Inr exec" and "te_create_proxy E = Inr (proxy, server_end)"
    and "sp_server p (scope_of p) (sp_flags p) (case sp_mode p of Some m \<Rightarrow> m | None \<Rightarrow> 0) path_dot server_end exec = Inr exec'"
  shows "server_test_run E p = test_coordinate E (sp_coordinator p) (controller_new exec' (sp_get_client p proxy))"
  using assms
  by (cases "sp_token_registry p"; cases "sp_inode_registry p"; cases "sp_entry_constructor p")
    (simp_all add: server_test_run_def scope_with_def scope_build_def params_token_registry_def
      params_inode_registry_def params_entry_constructor_def params_new_def scope_of_def
      ExecutionScopeParams.defs ExecutionScope.defs)

text \<open>A test passes exactly if its client is pending after each of the runs the coordinator asks for and
  done after the last one, which is made when the controller is dropped: a client that stalls never
  passes. The server has been opened before the first run, at the path of the directory itself, with the
  flags and mode of the test and a scope that has the registries and the constructor that were set. A
  test without a coordinator is one run, and every parameter can be set only once.\<close>

theorem test_passes_iff_client_completes:
  assumes "test_exec E (sp_exec p) = Inr exec" and "te_create_proxy E = Inr (proxy, server_end)"
    and "sp_server p (scope_of p) (sp_flags p) (case sp_mode p of Some m \<Rightarrow> m | None \<Rightarrow> 0) path_dot server_end exec = Inr exec'"
    and "sp_coordinator p = (if n = 0 then None else Some (portions E n))"
  shows "(server_test_run E p = Inr () \<longleftrightarrow> stalls E (Suc n) exec' (sp_get_client p proxy) = replicate n False @ [True]) \<and>
    (\<forall>f g. bind_res (server_set_coordinator f p) (server_set_coordinator g) = Inl Panic)"
proof
  have "server_test_run E p = portions E n (controller_new exec' (sp_get_client p proxy))"
    using server_test_run_eq [OF assms(1,2,3)] assms(4)
    by (cases n) (simp_all add: default_coordinator, simp_all add: test_coordinate_def)
  then show "server_test_run E p = Inr () \<longleftrightarrow> stalls E (Suc n) exec' (sp_get_client p proxy) = replicate n False @ [True]"
    by (simp add: portions_stalls controller_new_def)
  show "\<forall>f g. bind_res (server_set_coordinator f p) (server_set_coordinator g) = Inl Panic"
    by (simp add: server_set_coordinator_def field_setter_def)
qed

text \<open>A client that needs one more run than it gets: it counts down from two.\<close>

definition countdown_env :: "(unit, nat, unit, unit) test_env" where
  "countdown_env =
     \<lparr> te_executor_new = Inr (), te_create_proxy = Inr ((), ()),
       te_run_until_stalled = (\<lambda>_ c. ((), c - 1, c = 0)) \<rparr>"

definition countdown_test :: "nat \<Rightarrow> (unit, nat, unit, unit, unit, unit, unit) AsyncServerClientTestParams" where
  "countdown_test n =
     (test_server_client {} (\<lambda>_ _ _ _ _ x. Inr x) (\<lambda>_. 2))
       \<lparr> sp_coordinator := if n = 0 then None else Some (portions countdown_env n) \<rparr>"

theorem test_passes_iff_client_completes_witness:
  "server_test_run countdown_env (countdown_test 2) = Inr () \<and> server_test_run countdown_env (countdown_test 0) \<noteq> Inr ()"
  using test_passes_iff_client_completes [of countdown_env "countdown_test 2" "()" "()" "()" "()" 2]
    test_passes_iff_client_completes [of countdown_env "countdown_test 0" "()" "()" "()" "()" 0]
  by (simp add: countdown_test_def test_server_client_def test_exec_def countdown_env_def numeral_2_eq_2)

end
