(* ===== verification/Client_Assertions.thy ===== *)
theory Client_Assertions
  imports Vmo_File Simple_Conn
begin

text \<open>
  The client side the library ships for tests of file systems: the assertion macros of
  \<open>test_utils/assertions.rs\<close>, \<open>directory/test_utils.rs\<close> and \<open>file/vmo/asynchronous/test_utils.rs\<close>, and
  \<open>test_utils/node.rs\<close>. A macro talks to a server through a generated proxy and panics if the answer is
  not the expected one. The proxies are a parameter, the records \<open>file_proxy\<close>, \<open>dir_proxy\<close> and
  \<open>node_endpoints\<close>: a call takes the state of everything behind the channel and returns a transport
  error or the decoded reply. The last sections run the macros against the modelled servers.
\<close>

section \<open>Calls and checks\<close>

type_synonym ('s, 'e, 'a) proxy_call = "'s \<Rightarrow> ('e + 'a) \<times> 's"

type_synonym ('s, 'a) check = "'s \<Rightarrow> 'a result \<times> 's"

definition check_return :: "'a \<Rightarrow> ('s, 'a) check" where
  "check_return a s = (Inr a, s)"

definition check_fail :: "('s, 'a) check" where
  "check_fail s = (Inl Panic, s)"

definition check_bind :: "('s, 'a) check \<Rightarrow> ('a \<Rightarrow> ('s, 'b) check) \<Rightarrow> ('s, 'b) check" where
  "check_bind m f s = (case m s of (Inl e, s') \<Rightarrow> (Inl e, s') | (Inr a, s') \<Rightarrow> f a s')"

definition check_then :: "('s, 'a) check \<Rightarrow> ('s, 'b) check \<Rightarrow> ('s, 'b) check" where
  "check_then m n = check_bind m (\<lambda>_. n)"

text \<open>\<open>assert!\<close> and \<open>assert_eq!\<close>.\<close>

definition check_that :: "bool \<Rightarrow> ('s, unit) check" where
  "check_that b = (if b then check_return () else check_fail)"

text \<open>\<open>.await.expect(..)\<close> on a call, and \<open>.map_err(Status::from_raw).expect(..)\<close> on its reply.\<close>

definition await_expect :: "('s, 'e, 'a) proxy_call \<Rightarrow> ('s, 'a) check" where
  "await_expect m s = (case m s of (Inl _, s') \<Rightarrow> (Inl Panic, s') | (Inr a, s') \<Rightarrow> (Inr a, s'))"

definition expect_ok :: "status + 'a \<Rightarrow> ('s, 'a) check" where
  "expect_ok r = (case r of Inl _ \<Rightarrow> check_fail | Inr a \<Rightarrow> check_return a)"

lemmas check_defs = check_return_def check_fail_def check_bind_def check_then_def check_that_def
  await_expect_def expect_ok_def

text \<open>The three ways the macros look at the reply of a call that answers with a result.\<close>

definition expect_value :: "('s, 'e, status + 'a) proxy_call \<Rightarrow> ('s, 'a) check" where
  "expect_value m = check_bind (await_expect m) expect_ok"

definition expect_result :: "('s, 'e, status + 'a) proxy_call \<Rightarrow> status + 'a \<Rightarrow> ('s, unit) check" where
  "expect_result m expected = check_bind (await_expect m) (\<lambda>r. check_that (r = expected))"

definition expect_fidl_err :: "('s, 'e, 'a) proxy_call \<Rightarrow> ('e \<Rightarrow> bool) \<Rightarrow> ('s, unit) check" where
  "expect_fidl_err m expected_error s =
     (case m s of
        (Inl e, s') \<Rightarrow> check_that (expected_error e) s'
      | (Inr _, s') \<Rightarrow> check_fail s')"

section \<open>Files\<close>

record ('s, 'e, 'v) file_proxy =
  fp_read :: "64 word \<Rightarrow> ('s, 'e, status + bytes) proxy_call"
  fp_read_at :: "64 word \<Rightarrow> 64 word \<Rightarrow> ('s, 'e, status + bytes) proxy_call"
  fp_write :: "bytes \<Rightarrow> ('s, 'e, status + 64 word) proxy_call"
  fp_write_at :: "bytes \<Rightarrow> 64 word \<Rightarrow> ('s, 'e, status + 64 word) proxy_call"
  fp_seek :: "seek_origin \<Rightarrow> 64 word \<Rightarrow> ('s, 'e, status + 64 word) proxy_call"
  fp_resize :: "64 word \<Rightarrow> ('s, 'e, status + unit) proxy_call"
  fp_get_backing_memory :: "VmoFlags \<Rightarrow> ('s, 'e, status + 'v) proxy_call"
  fp_close :: "('s, 'e, status + unit) proxy_call"

definition assert_read :: "('s, 'e, 'v) file_proxy \<Rightarrow> bytes \<Rightarrow> ('s, unit) check" where
  "assert_read P expected =
     check_bind (expect_value (fp_read P (word_of_nat (length expected)))) (\<lambda>content.
       check_that (content = expected))"

definition assert_read_err :: "('s, 'e, 'v) file_proxy \<Rightarrow> status \<Rightarrow> ('s, unit) check" where
  "assert_read_err P expected_status = expect_result (fp_read P 100) (Inl expected_status)"

definition assert_read_fidl_err :: "('s, 'e, 'v) file_proxy \<Rightarrow> ('e \<Rightarrow> bool) \<Rightarrow> ('s, unit) check" where
  "assert_read_fidl_err P expected_error = expect_fidl_err (fp_read P 100) expected_error"

definition assert_read_fidl_err_closed :: "('e \<Rightarrow> bool) \<Rightarrow> ('s, 'e, 'v) file_proxy \<Rightarrow> ('s, unit) check" where
  "assert_read_fidl_err_closed is_closed P = expect_fidl_err (fp_read P 100) is_closed"

definition assert_read_at :: "('s, 'e, 'v) file_proxy \<Rightarrow> 64 word \<Rightarrow> bytes \<Rightarrow> ('s, unit) check" where
  "assert_read_at P offset expected =
     check_bind (expect_value (fp_read_at P (word_of_nat (length expected)) offset)) (\<lambda>content.
       check_that (content = expected))"

definition assert_read_at_err :: "('s, 'e, 'v) file_proxy \<Rightarrow> 64 word \<Rightarrow> status \<Rightarrow> ('s, unit) check" where
  "assert_read_at_err P offset expected_status = expect_result (fp_read_at P 100 offset) (Inl expected_status)"

definition assert_write :: "('s, 'e, 'v) file_proxy \<Rightarrow> bytes \<Rightarrow> ('s, unit) check" where
  "assert_write P content =
     check_bind (expect_value (fp_write P content)) (\<lambda>len_written.
       check_that (len_written = word_of_nat (length content)))"

definition assert_write_err :: "('s, 'e, 'v) file_proxy \<Rightarrow> bytes \<Rightarrow> status \<Rightarrow> ('s, unit) check" where
  "assert_write_err P content expected_status = expect_result (fp_write P content) (Inl expected_status)"

definition assert_write_fidl_err :: "('s, 'e, 'v) file_proxy \<Rightarrow> bytes \<Rightarrow> ('e \<Rightarrow> bool) \<Rightarrow> ('s, unit) check" where
  "assert_write_fidl_err P content expected_error = expect_fidl_err (fp_write P content) expected_error"

definition assert_write_fidl_err_closed :: "('e \<Rightarrow> bool) \<Rightarrow> ('s, 'e, 'v) file_proxy \<Rightarrow> bytes \<Rightarrow> ('s, unit) check" where
  "assert_write_fidl_err_closed is_closed P content = expect_fidl_err (fp_write P content) is_closed"

definition assert_write_at :: "('s, 'e, 'v) file_proxy \<Rightarrow> 64 word \<Rightarrow> bytes \<Rightarrow> ('s, unit) check" where
  "assert_write_at P offset content =
     check_bind (expect_value (fp_write_at P content offset)) (\<lambda>len_written.
       check_that (len_written = word_of_nat (length content)))"

definition assert_write_at_err :: "('s, 'e, 'v) file_proxy \<Rightarrow> 64 word \<Rightarrow> bytes \<Rightarrow> status \<Rightarrow> ('s, unit) check" where
  "assert_write_at_err P offset content expected_status =
     expect_result (fp_write_at P content offset) (Inl expected_status)"

definition assert_seek :: "('s, 'e, 'v) file_proxy \<Rightarrow> 64 word \<Rightarrow> seek_origin \<Rightarrow> status + 64 word \<Rightarrow> ('s, unit) check" where
  "assert_seek P pos start expected = expect_result (fp_seek P start pos) expected"

definition assert_seek_start :: "('s, 'e, 'v) file_proxy \<Rightarrow> 64 word \<Rightarrow> ('s, unit) check" where
  "assert_seek_start P pos = assert_seek P pos SeekStart (Inr pos)"

definition assert_truncate :: "('s, 'e, 'v) file_proxy \<Rightarrow> 64 word \<Rightarrow> ('s, unit) check" where
  "assert_truncate P len = expect_value (fp_resize P len)"

definition assert_truncate_err :: "('s, 'e, 'v) file_proxy \<Rightarrow> 64 word \<Rightarrow> status \<Rightarrow> ('s, unit) check" where
  "assert_truncate_err P len expected_status = expect_result (fp_resize P len) (Inl expected_status)"

definition assert_close :: "('s, 'e, status + unit) proxy_call \<Rightarrow> ('s, unit) check" where
  "assert_close close = expect_value close"

text \<open>\<open>content_size\<close> is \<open>Vmo::get_content_size\<close>.\<close>

definition assert_get_buffer ::
    "('v \<Rightarrow> 64 word result) \<Rightarrow> ('s, 'e, 'v) file_proxy \<Rightarrow> VmoFlags \<Rightarrow> ('s, 'v \<times> 64 word) check" where
  "assert_get_buffer content_size P flags =
     check_bind (expect_value (fp_get_backing_memory P flags)) (\<lambda>vmo.
       case content_size vmo of Inl _ \<Rightarrow> check_fail | Inr n \<Rightarrow> check_return (vmo, n))"

definition assert_get_buffer_err :: "('s, 'e, 'v) file_proxy \<Rightarrow> VmoFlags \<Rightarrow> status \<Rightarrow> ('s, unit) check" where
  "assert_get_buffer_err P flags expected_status =
     check_bind (await_expect (fp_get_backing_memory P flags)) (\<lambda>r.
       check_that (case r of Inl s \<Rightarrow> s = expected_status | Inr _ \<Rightarrow> False))"

definition assert_get_attr :: "('s, 'e, status \<times> node_attributes) proxy_call \<Rightarrow> node_attributes \<Rightarrow> ('s, unit) check" where
  "assert_get_attr get_attr expected =
     check_bind (await_expect get_attr) (\<lambda>(status, attrs).
       check_then (check_that (status = OK)) (check_that (attrs = expected)))"

definition assert_describe :: "('s, 'e, 'i) proxy_call \<Rightarrow> 'i \<Rightarrow> ('s, unit) check" where
  "assert_describe describe expected = check_bind (await_expect describe) (\<lambda>node_info. check_that (node_info = expected))"

section \<open>Opening and cloning\<close>

text \<open>
  The node descriptions the macros distinguish; \<open>NodeFile\<close> says whether the description carries an
  event and a stream, \<open>NodeOther\<close> is every other variant.
\<close>

datatype NodeDescription = NodeService | NodeFile bool bool | NodeDirectory | NodeVmofile | NodeOther

datatype node_event = OnOpenEvent status "NodeDescription option" | OtherNodeEvent

record ('s, 'e, 'p, 'h) node_endpoints =
  ne_create_proxy :: "('s, 'e, 'p \<times> 'h) proxy_call"
  ne_open :: "OpenFlags \<Rightarrow> 32 word \<Rightarrow> string \<Rightarrow> 'h \<Rightarrow> ('s, 'e, unit) proxy_call"
  ne_clone :: "OpenFlags \<Rightarrow> 'h \<Rightarrow> ('s, 'e, unit) proxy_call"
  ne_next_event :: "'p \<Rightarrow> 's \<Rightarrow> ('e + node_event) option \<times> 's"

definition open_get_proxy ::
    "('s, 'e, 'p, 'h) node_endpoints \<Rightarrow> OpenFlags \<Rightarrow> 32 word \<Rightarrow> string \<Rightarrow> ('s, 'p) check" where
  "open_get_proxy N flags mode path =
     check_bind (await_expect (ne_create_proxy N)) (\<lambda>(new_proxy, new_server_end).
       check_then (await_expect (ne_open N flags mode path new_server_end)) (check_return new_proxy))"

definition clone_get_proxy :: "('s, 'e, 'p, 'h) node_endpoints \<Rightarrow> OpenFlags \<Rightarrow> ('s, 'p) check" where
  "clone_get_proxy N flags =
     check_bind (await_expect (ne_create_proxy N)) (\<lambda>(new_proxy, new_server_end).
       check_then (await_expect (ne_clone N flags new_server_end)) (check_return new_proxy))"

text \<open>The pattern and the assertion on what it bound: \<open>None\<close> is an event the pattern does not match.\<close>

definition assert_event ::
    "('s, 'e, 'p, 'h) node_endpoints \<Rightarrow> 'p \<Rightarrow> (node_event \<Rightarrow> bool option) \<Rightarrow> ('s, unit) check" where
  "assert_event N p expected s =
     (case ne_next_event N p s of
        (Some (Inr ev), s') \<Rightarrow>
          (case expected ev of Some b \<Rightarrow> check_that b s' | None \<Rightarrow> check_fail s')
      | (_, s') \<Rightarrow> check_fail s')"

definition assert_no_event :: "('s, 'e, 'p, 'h) node_endpoints \<Rightarrow> 'p \<Rightarrow> ('s, unit) check" where
  "assert_no_event N p s =
     (case ne_next_event N p s of (None, s') \<Rightarrow> (Inr (), s') | (Some _, s') \<Rightarrow> check_fail s')"

fun on_open :: "(status \<Rightarrow> NodeDescription option \<Rightarrow> bool) \<Rightarrow> node_event \<Rightarrow> bool option" where
  "on_open f (OnOpenEvent s info) = Some (f s info)"
| "on_open f OtherNodeEvent = None"

definition open_get_proxy_assert ::
    "('s, 'e, 'p, 'h) node_endpoints \<Rightarrow> OpenFlags \<Rightarrow> string \<Rightarrow> (node_event \<Rightarrow> bool option) \<Rightarrow> ('s, 'p) check" where
  "open_get_proxy_assert N flags path expected =
     check_bind (open_get_proxy N flags 0 path) (\<lambda>new_proxy.
       check_then (assert_event N new_proxy expected) (check_return new_proxy))"

definition clone_get_proxy_assert ::
    "('s, 'e, 'p, 'h) node_endpoints \<Rightarrow> OpenFlags \<Rightarrow> (node_event \<Rightarrow> bool option) \<Rightarrow> ('s, 'p) check" where
  "clone_get_proxy_assert N flags expected =
     check_bind (clone_get_proxy N flags) (\<lambda>new_proxy.
       check_then (assert_event N new_proxy expected) (check_return new_proxy))"

text \<open>The assertion blocks of the macros below.\<close>

definition opened_as :: "NodeDescription \<Rightarrow> node_event \<Rightarrow> bool option" where
  "opened_as expected = on_open (\<lambda>s info. s = OK \<and> info = Some expected)"

definition opened_as_vmo_file :: "node_event \<Rightarrow> bool option" where
  "opened_as_vmo_file = on_open (\<lambda>s info. s = OK \<and>
     (case info of Some NodeVmofile \<Rightarrow> True | Some (NodeFile _ _) \<Rightarrow> True | _ \<Rightarrow> False))"

definition open_failed :: "status \<Rightarrow> node_event \<Rightarrow> bool option" where
  "open_failed expected_status = on_open (\<lambda>s info. s = expected_status \<and> info = None)"

definition open_get_file_proxy_assert_ok ::
    "('s, 'e, 'p, 'h) node_endpoints \<Rightarrow> OpenFlags \<Rightarrow> string \<Rightarrow> ('s, 'p) check" where
  "open_get_file_proxy_assert_ok N flags path = open_get_proxy_assert N flags path (opened_as (NodeFile False False))"

definition open_get_vmo_file_proxy_assert_ok ::
    "('s, 'e, 'p, 'h) node_endpoints \<Rightarrow> OpenFlags \<Rightarrow> string \<Rightarrow> ('s, 'p) check" where
  "open_get_vmo_file_proxy_assert_ok N flags path = open_get_proxy_assert N flags path opened_as_vmo_file"

definition open_as_file_assert_err ::
    "('s, 'e, 'p, 'h) node_endpoints \<Rightarrow> OpenFlags \<Rightarrow> string \<Rightarrow> status \<Rightarrow> ('s, unit) check" where
  "open_as_file_assert_err N flags path expected_status =
     check_then (open_get_proxy_assert N flags path (open_failed expected_status)) (check_return ())"

definition open_get_directory_proxy_assert_ok ::
    "('s, 'e, 'p, 'h) node_endpoints \<Rightarrow> OpenFlags \<Rightarrow> string \<Rightarrow> ('s, 'p) check" where
  "open_get_directory_proxy_assert_ok N flags path = open_get_proxy_assert N flags path (opened_as NodeDirectory)"

definition open_as_directory_assert_err ::
    "('s, 'e, 'p, 'h) node_endpoints \<Rightarrow> OpenFlags \<Rightarrow> string \<Rightarrow> status \<Rightarrow> ('s, unit) check" where
  "open_as_directory_assert_err N flags path expected_status =
     check_then (open_get_proxy_assert N flags path (open_failed expected_status)) (check_return ())"

definition clone_get_file_proxy_assert_ok :: "('s, 'e, 'p, 'h) node_endpoints \<Rightarrow> OpenFlags \<Rightarrow> ('s, 'p) check" where
  "clone_get_file_proxy_assert_ok N flags = clone_get_proxy_assert N flags (opened_as (NodeFile False False))"

definition clone_get_vmo_file_proxy_assert_ok :: "('s, 'e, 'p, 'h) node_endpoints \<Rightarrow> OpenFlags \<Rightarrow> ('s, 'p) check" where
  "clone_get_vmo_file_proxy_assert_ok N flags = clone_get_proxy_assert N flags opened_as_vmo_file"

definition clone_get_vmo_file_proxy_assert_err :: "('s, 'e, 'p, 'h) node_endpoints \<Rightarrow> OpenFlags \<Rightarrow> ('s, 'p) check" where
  "clone_get_vmo_file_proxy_assert_err N flags = clone_get_proxy_assert N flags (opened_as (NodeFile False False))"

definition clone_as_file_assert_err :: "('s, 'e, 'p, 'h) node_endpoints \<Rightarrow> OpenFlags \<Rightarrow> status \<Rightarrow> ('s, 'p) check" where
  "clone_as_file_assert_err N flags expected_status = clone_get_proxy_assert N flags (open_failed expected_status)"

definition clone_get_service_proxy_assert_ok :: "('s, 'e, 'p, 'h) node_endpoints \<Rightarrow> OpenFlags \<Rightarrow> ('s, 'p) check" where
  "clone_get_service_proxy_assert_ok N flags = clone_get_proxy_assert N flags (opened_as NodeService)"

definition clone_get_directory_proxy_assert_ok :: "('s, 'e, 'p, 'h) node_endpoints \<Rightarrow> OpenFlags \<Rightarrow> ('s, 'p) check" where
  "clone_get_directory_proxy_assert_ok N flags = clone_get_proxy_assert N flags (opened_as NodeDirectory)"

definition clone_as_directory_assert_err :: "('s, 'e, 'p, 'h) node_endpoints \<Rightarrow> OpenFlags \<Rightarrow> status \<Rightarrow> ('s, 'p) check" where
  "clone_as_directory_assert_err N flags expected_status = clone_get_proxy_assert N flags (open_failed expected_status)"

definition open_as_file_assert_content ::
    "('s, 'e, 'p, 'h) node_endpoints \<Rightarrow> ('p \<Rightarrow> ('s, 'e, 'v) file_proxy) \<Rightarrow> OpenFlags \<Rightarrow> string \<Rightarrow> bytes \<Rightarrow> ('s, unit) check" where
  "open_as_file_assert_content N file_of flags path expected_content =
     check_bind (open_get_file_proxy_assert_ok N flags path) (\<lambda>file.
       check_then (assert_read (file_of file) expected_content) (assert_close (fp_close (file_of file))))"

definition open_as_vmo_file_assert_content ::
    "('s, 'e, 'p, 'h) node_endpoints \<Rightarrow> ('p \<Rightarrow> ('s, 'e, 'v) file_proxy) \<Rightarrow> OpenFlags \<Rightarrow> string \<Rightarrow> bytes \<Rightarrow> ('s, unit) check" where
  "open_as_vmo_file_assert_content N file_of flags path expected_content =
     check_bind (open_get_vmo_file_proxy_assert_ok N flags path) (\<lambda>file.
       check_then (assert_read (file_of file) expected_content) (assert_close (fp_close (file_of file))))"

definition assert_get_attr_path ::
    "('s, 'e, 'p, 'h) node_endpoints \<Rightarrow> ('p \<Rightarrow> ('s, 'e, status \<times> node_attributes) proxy_call) \<Rightarrow> OpenFlags \<Rightarrow> string \<Rightarrow>
     node_attributes \<Rightarrow> ('s, unit) check" where
  "assert_get_attr_path N get_attr flags path expected =
     check_bind (open_get_proxy_assert N flags path (opened_as NodeDirectory)) (\<lambda>proxy.
       assert_get_attr (get_attr proxy) expected)"

section \<open>Directories\<close>

record ('s, 'e, 'h) dir_proxy =
  dp_read_dirents :: "64 word \<Rightarrow> ('s, 'e, status \<times> bytes) proxy_call"
  dp_rewind :: "('s, 'e, status) proxy_call"
  dp_watch :: "WatchMask \<Rightarrow> nat \<Rightarrow> 'h \<Rightarrow> ('s, 'e, status) proxy_call"
  dp_unlink :: "string \<Rightarrow> bool option \<Rightarrow> ('s, 'e, status + unit) proxy_call"
  dp_get_token :: "('s, 'e, status \<times> handle option) proxy_call"
  dp_rename :: "string \<Rightarrow> handle \<Rightarrow> string \<Rightarrow> ('s, 'e, status + unit) proxy_call"
  dp_link :: "string \<Rightarrow> handle \<Rightarrow> string \<Rightarrow> ('s, 'e, status) proxy_call"
  dp_close :: "('s, 'e, status + unit) proxy_call"

text \<open>A call that answers with a raw status.\<close>

definition expect_status :: "('s, 'e, status) proxy_call \<Rightarrow> status \<Rightarrow> ('s, unit) check" where
  "expect_status m expected = check_bind (await_expect m) (\<lambda>status. check_that (status = expected))"

record DirentsSameInodeBuilder =
  db_expected :: bytes
  db_inode :: "64 word"

definition dirents_builder_new :: "64 word \<Rightarrow> DirentsSameInodeBuilder" where
  "dirents_builder_new inode = \<lparr> db_expected = [], db_inode = inode \<rparr>"

text \<open>The length is converted to a byte with \<open>try_into().unwrap()\<close>.\<close>

definition dirents_builder_add ::
    "fio \<Rightarrow> dirent_type \<Rightarrow> bytes \<Rightarrow> DirentsSameInodeBuilder \<Rightarrow> DirentsSameInodeBuilder result" where
  "dirents_builder_add K ty name b =
     (if \<not> length name \<le> MAX_FILENAME K then Inl Panic
      else if \<not> length name \<le> 255 then Inl Panic
      else Inr (b\<lparr> db_expected := db_expected b @ le64 (db_inode b) @ [word_of_nat (length name)] @
                                 [dirent_type_primitive K ty] @ name \<rparr>))"

definition dirents_builder_into_vec :: "DirentsSameInodeBuilder \<Rightarrow> bytes" where
  "dirents_builder_into_vec b = db_expected b"

fun dirents_builder_add_all ::
    "fio \<Rightarrow> (dirent_type \<times> bytes) list \<Rightarrow> DirentsSameInodeBuilder \<Rightarrow> DirentsSameInodeBuilder result" where
  "dirents_builder_add_all K [] b = Inr b"
| "dirents_builder_add_all K ((t, n) # es) b = bind_res (dirents_builder_add K t n b) (dirents_builder_add_all K es)"

definition assert_read_dirents :: "('s, 'e, 'h) dir_proxy \<Rightarrow> 64 word \<Rightarrow> bytes \<Rightarrow> ('s, unit) check" where
  "assert_read_dirents P max_bytes expected =
     check_bind (await_expect (dp_read_dirents P max_bytes)) (\<lambda>(status, entries).
       check_then (check_that (status = OK)) (check_that (entries = expected)))"

definition assert_read_dirents_one_listing ::
    "fio \<Rightarrow> ('s, 'e, 'h) dir_proxy \<Rightarrow> 64 word \<Rightarrow> (dirent_type \<times> bytes) list \<Rightarrow> ('s, unit) check" where
  "assert_read_dirents_one_listing K P max_bytes entries =
     (case dirents_builder_add_all K entries (dirents_builder_new (INO_UNKNOWN K)) of
        Inl _ \<Rightarrow> check_fail
      | Inr expected \<Rightarrow> assert_read_dirents P max_bytes (dirents_builder_into_vec expected))"

definition assert_read_dirents_path_one_listing ::
    "fio \<Rightarrow> ('s, 'e, 'p, 'h) node_endpoints \<Rightarrow> ('p \<Rightarrow> ('s, 'e, 'g) dir_proxy) \<Rightarrow> string \<Rightarrow> 64 word \<Rightarrow>
     (dirent_type \<times> bytes) list \<Rightarrow> ('s, unit) check" where
  "assert_read_dirents_path_one_listing K N dir_of path max_bytes entries =
     check_bind (open_get_directory_proxy_assert_ok N {DESCRIBE} path) (\<lambda>dir.
       check_then (assert_read_dirents_one_listing K (dir_of dir) max_bytes entries)
         (assert_close (dp_close (dir_of dir))))"

definition assert_read_dirents_err :: "('s, 'e, 'h) dir_proxy \<Rightarrow> 64 word \<Rightarrow> status \<Rightarrow> ('s, unit) check" where
  "assert_read_dirents_err P max_bytes expected_status =
     check_bind (await_expect (dp_read_dirents P max_bytes)) (\<lambda>(status, entries).
       check_then (check_that (status = expected_status)) (check_that (length entries = 0)))"

definition assert_rewind :: "('s, 'e, 'h) dir_proxy \<Rightarrow> ('s, unit) check" where
  "assert_rewind P = expect_status (dp_rewind P) OK"

definition assert_unlink :: "('s, 'e, 'h) dir_proxy \<Rightarrow> string \<Rightarrow> ('s, unit) check" where
  "assert_unlink P path = expect_value (dp_unlink P path None)"

definition assert_unlink_err :: "('s, 'e, 'h) dir_proxy \<Rightarrow> string \<Rightarrow> status \<Rightarrow> ('s, unit) check" where
  "assert_unlink_err P path expected_status =
     check_bind (await_expect (dp_unlink P path None)) (\<lambda>r.
       case r of Inr _ \<Rightarrow> check_fail | Inl s \<Rightarrow> check_that (s = expected_status))"

definition assert_get_token :: "('s, 'e, 'h) dir_proxy \<Rightarrow> ('s, handle) check" where
  "assert_get_token P =
     check_bind (await_expect (dp_get_token P)) (\<lambda>(status, o_token).
       check_then (check_that (status = OK))
         (case o_token of None \<Rightarrow> check_fail | Some token \<Rightarrow> check_return token))"

definition assert_get_token_err :: "('s, 'e, 'h) dir_proxy \<Rightarrow> status \<Rightarrow> ('s, unit) check" where
  "assert_get_token_err P expected_status =
     check_bind (await_expect (dp_get_token P)) (\<lambda>(status, token).
       check_then (check_that (status = expected_status)) (check_that (token = None)))"

definition assert_rename :: "('s, 'e, 'h) dir_proxy \<Rightarrow> string \<Rightarrow> handle \<Rightarrow> string \<Rightarrow> ('s, unit) check" where
  "assert_rename P src dst_parent_token dst =
     check_bind (await_expect (dp_rename P src dst_parent_token dst)) (\<lambda>status.
       check_that (case status of Inr _ \<Rightarrow> True | Inl _ \<Rightarrow> False))"

definition assert_rename_err :: "('s, 'e, 'h) dir_proxy \<Rightarrow> string \<Rightarrow> handle \<Rightarrow> string \<Rightarrow> status \<Rightarrow> ('s, unit) check" where
  "assert_rename_err P src dst_parent_token dst expected_status =
     check_bind (await_expect (dp_rename P src dst_parent_token dst)) (\<lambda>status.
       case status of Inr _ \<Rightarrow> check_fail | Inl s \<Rightarrow> check_that (s = expected_status))"

definition assert_link :: "('s, 'e, 'h) dir_proxy \<Rightarrow> string \<Rightarrow> handle \<Rightarrow> string \<Rightarrow> ('s, unit) check" where
  "assert_link P src dst_parent_token dst = expect_status (dp_link P src dst_parent_token dst) OK"

definition assert_link_err :: "('s, 'e, 'h) dir_proxy \<Rightarrow> string \<Rightarrow> handle \<Rightarrow> string \<Rightarrow> status \<Rightarrow> ('s, unit) check" where
  "assert_link_err P src dst_parent_token dst expected_status =
     expect_status (dp_link P src dst_parent_token dst) expected_status"

section \<open>Watchers and channels\<close>

text \<open>\<open>create_endpoints\<close> and \<open>Channel::from_channel\<close> of the returned client end.\<close>

definition assert_watch ::
    "('s, 'e, 'p \<times> 'h) proxy_call \<Rightarrow> ('p \<Rightarrow> ('s, 'e, 'c) proxy_call) \<Rightarrow> ('s, 'e, 'h) dir_proxy \<Rightarrow> WatchMask \<Rightarrow> ('s, 'c) check" where
  "assert_watch create_endpoints from_channel P msk =
     check_bind (await_expect create_endpoints) (\<lambda>(client, server).
       check_then (expect_status (dp_watch P msk 0 server) OK) (await_expect (from_channel client)))"

definition assert_watch_err ::
    "('s, 'e, 'p \<times> 'h) proxy_call \<Rightarrow> ('s, 'e, 'h) dir_proxy \<Rightarrow> WatchMask \<Rightarrow> status \<Rightarrow> ('s, unit) check" where
  "assert_watch_err create_endpoints P msk expected_status =
     check_bind (await_expect create_endpoints) (\<lambda>(client, server).
       expect_status (dp_watch P msk 0 server) expected_status)"

text \<open>What \<open>recv_msg\<close> finds: a message with its handles, a closed peer, or another error.\<close>

datatype channel_recv = ChMessage bytes nat | ChPeerClosed | ChError status

fun watch_expected :: "fio \<Rightarrow> (watch_event \<times> bytes) list \<Rightarrow> bytes \<Rightarrow> bytes result" where
  "watch_expected K [] expected = Inr expected"
| "watch_expected K ((ty, name) # evs) expected =
     (if \<not> length name \<le> 255 then Inl Panic
      else watch_expected K evs (expected @ [watch_event_primitive K ty] @ [word_of_nat (length name)] @ name))"

definition assert_watcher_one_message_watched_events ::
    "fio \<Rightarrow> ('s \<Rightarrow> channel_recv \<times> 's) \<Rightarrow> (watch_event \<times> bytes) list \<Rightarrow> ('s, unit) check" where
  "assert_watcher_one_message_watched_events K recv_msg events s =
     (case recv_msg s of
        (ChMessage bs handles, s') \<Rightarrow>
          if handles \<noteq> 0 then check_fail s'
          else (case watch_expected K events [] of
                  Inl _ \<Rightarrow> check_fail s'
                | Inr expected \<Rightarrow> check_that (bs = expected) s')
      | (_, s') \<Rightarrow> check_fail s')"

definition assert_channel_closed :: "('s \<Rightarrow> channel_recv \<times> 's) \<Rightarrow> ('s, unit) check" where
  "assert_channel_closed recv_msg s =
     (case recv_msg s of (ChPeerClosed, s') \<Rightarrow> (Inr (), s') | (_, s') \<Rightarrow> check_fail s')"

section \<open>VMOs\<close>

definition DEFAULT_MIN_CAPACITY :: "64 word" where
  "DEFAULT_MIN_CAPACITY = 100"

definition test_init_vmo_with_capacity ::
    "'v vmo_ops \<Rightarrow> (bool \<Rightarrow> 64 word \<Rightarrow> 'v result) \<Rightarrow> bytes \<Rightarrow> 64 word \<Rightarrow> 'v new_vmo result" where
  "test_init_vmo_with_capacity V create content capacity =
     (let size = word_of_nat (length content); vmo_size = max size capacity in
      bind_res (create False vmo_size) (\<lambda>v0.
        bind_res (vmo_fill V content v0) (\<lambda>v1.
          Inr \<lparr> nv_vmo = v1, nv_size = size, nv_capacity = capacity \<rparr>)))"

definition test_init_vmo_resizable_with_capacity ::
    "'v vmo_ops \<Rightarrow> (bool \<Rightarrow> 64 word \<Rightarrow> 'v result) \<Rightarrow> bytes \<Rightarrow> 64 word \<Rightarrow> 'v new_vmo result" where
  "test_init_vmo_resizable_with_capacity V create content capacity =
     (let size = word_of_nat (length content); vmo_size = max size capacity in
      bind_res (create True vmo_size) (\<lambda>v0.
        bind_res (vmo_fill V content v0) (\<lambda>v1.
          Inr \<lparr> nv_vmo = v1, nv_size = size, nv_capacity = capacity \<rparr>)))"

definition simple_init_vmo :: "'v vmo_ops \<Rightarrow> (bool \<Rightarrow> 64 word \<Rightarrow> 'v result) \<Rightarrow> bytes \<Rightarrow> 'v new_vmo result" where
  "simple_init_vmo V create content =
     (let capacity = max (word_of_nat (length content)) DEFAULT_MIN_CAPACITY in
      test_init_vmo_with_capacity V create content capacity)"

definition simple_init_vmo_resizable :: "'v vmo_ops \<Rightarrow> (bool \<Rightarrow> 64 word \<Rightarrow> 'v result) \<Rightarrow> bytes \<Rightarrow> 'v new_vmo result" where
  "simple_init_vmo_resizable V create content =
     (let capacity = max (word_of_nat (length content)) DEFAULT_MIN_CAPACITY in
      test_init_vmo_resizable_with_capacity V create content capacity)"

type_synonym 'v vmo_creator = "bool \<Rightarrow> 64 word \<Rightarrow> 'v result"

definition simple_read_only :: "fio \<Rightarrow> 'v vmo_ops \<Rightarrow> 'v vmo_creator \<Rightarrow> bytes \<Rightarrow> 'v vmo_file \<times> 'v vmo_state" where
  "simple_read_only K V create content = vmo_read_only K (simple_init_vmo V create content)"

definition simple_read_only_with_inode ::
    "'v vmo_ops \<Rightarrow> 'v vmo_creator \<Rightarrow> bytes \<Rightarrow> 64 word \<Rightarrow> 'v vmo_file \<times> 'v vmo_state" where
  "simple_read_only_with_inode V create content inode =
     vmo_new_with_inode (simple_init_vmo V create content) True False False inode"

definition simple_read_write :: "fio \<Rightarrow> 'v vmo_ops \<Rightarrow> 'v vmo_creator \<Rightarrow> bytes \<Rightarrow> 'v vmo_file \<times> 'v vmo_state" where
  "simple_read_write K V create initial_content = vmo_read_write K (simple_init_vmo V create initial_content)"

definition simple_read_write_resizeable :: "fio \<Rightarrow> 'v vmo_ops \<Rightarrow> 'v vmo_creator \<Rightarrow> bytes \<Rightarrow> 'v vmo_file \<times> 'v vmo_state" where
  "simple_read_write_resizeable K V create initial_content =
     vmo_read_write K (simple_init_vmo_resizable V create initial_content)"

datatype AssertVmoContentError = VmoReadFailed fail | UnexpectedContent bytes

definition assert_vmo_content :: "'v vmo_ops \<Rightarrow> 'v \<Rightarrow> bytes \<Rightarrow> AssertVmoContentError + unit" where
  "assert_vmo_content V vmo expected =
     (case vo_read V (length expected) 0 vmo of
        Inl e \<Rightarrow> Inl (VmoReadFailed e)
      | Inr buffer \<Rightarrow> if buffer \<noteq> expected then Inl (UnexpectedContent buffer) else Inr ())"

definition assert_vmo_content_macro :: "'v vmo_ops \<Rightarrow> 'v \<Rightarrow> bytes \<Rightarrow> unit result" where
  "assert_vmo_content_macro V vmo expected =
     (case assert_vmo_content V vmo expected of Inr () \<Rightarrow> Inr () | Inl _ \<Rightarrow> Inl Panic)"

section \<open>The modelled servers behind a proxy\<close>

text \<open>
  A channel to a connection: a call on an open channel is handled by the connection and answered with
  its reply, a call on a closed one fails with the transport's error \<open>closed\<close>. \<open>pick\<close> decodes the reply.
\<close>

definition reply_of :: "'e \<Rightarrow> ('r \<Rightarrow> 'a option) \<Rightarrow> 'r list \<Rightarrow> 'e + 'a" where
  "reply_of closed pick rs =
     (case rs of r # _ \<Rightarrow> (case pick r of Some a \<Rightarrow> Inr a | None \<Rightarrow> Inl closed) | [] \<Rightarrow> Inl closed)"

definition vmo_call ::
    "fio \<Rightarrow> 'v vmo_ops \<Rightarrow> bool \<Rightarrow> 'v vmo_file \<Rightarrow> 'e \<Rightarrow> ('v file_reply \<Rightarrow> 'a option) \<Rightarrow> file_request \<Rightarrow>
     (vmo_conn option \<times> 'v vmo_state, 'e, 'a) proxy_call" where
  "vmo_call K V dbg f closed pick req = (\<lambda>(conn, st).
     case conn of
       None \<Rightarrow> (Inl closed, (None, st))
     | Some c \<Rightarrow>
         (case vmo_handle_request K V dbg f True True req c st of
            (c', st', rs, FAlive) \<Rightarrow> (reply_of closed pick rs, (Some c', st'))
          | (c', st', rs, FDropped) \<Rightarrow> (reply_of closed pick rs, (None, snd (vmo_handle_close dbg st')))
          | (c', st', rs, _) \<Rightarrow> (reply_of closed pick rs, (None, st'))))"

fun pick_data :: "'v file_reply \<Rightarrow> (status + bytes) option" where
  "pick_data (FrData r) = Some r" | "pick_data _ = None"

fun pick_count :: "'v file_reply \<Rightarrow> (status + 64 word) option" where
  "pick_count (FrCount r) = Some r" | "pick_count _ = None"

fun pick_unit :: "'v file_reply \<Rightarrow> (status + unit) option" where
  "pick_unit (FrUnit r) = Some r" | "pick_unit _ = None"

fun pick_vmo :: "'v file_reply \<Rightarrow> (status + 'v) option" where
  "pick_vmo (FrVmo r) = Some r" | "pick_vmo _ = None"

definition vmo_proxy ::
    "fio \<Rightarrow> 'v vmo_ops \<Rightarrow> bool \<Rightarrow> 'v vmo_file \<Rightarrow> 'e \<Rightarrow> (vmo_conn option \<times> 'v vmo_state, 'e, 'v) file_proxy" where
  "vmo_proxy K V dbg f closed =
     \<lparr> fp_read = (\<lambda>n. vmo_call K V dbg f closed pick_data (FRead n)),
       fp_read_at = (\<lambda>n offset. vmo_call K V dbg f closed pick_data (FReadAt offset n)),
       fp_write = (\<lambda>data. vmo_call K V dbg f closed pick_count (FWrite data)),
       fp_write_at = (\<lambda>data offset. vmo_call K V dbg f closed pick_count (FWriteAt offset data)),
       fp_seek = (\<lambda>origin offset. vmo_call K V dbg f closed pick_count (FSeek origin offset)),
       fp_resize = (\<lambda>len. vmo_call K V dbg f closed pick_unit (FResize len)),
       fp_get_backing_memory = (\<lambda>flags. vmo_call K V dbg f closed pick_vmo (FGetBackingMemory flags)),
       fp_close = vmo_call K V dbg f closed pick_unit FClose \<rparr>"

definition dir_call ::
    "'w dir_vt \<Rightarrow> (bool \<Rightarrow> bool \<Rightarrow> dir_request \<Rightarrow> dir_conn \<Rightarrow> 'w \<Rightarrow> 'w handled) \<Rightarrow> 'e \<Rightarrow> (dir_reply \<Rightarrow> 'a option) \<Rightarrow> dir_request \<Rightarrow>
     (dir_conn option \<times> 'w, 'e, 'a) proxy_call" where
  "dir_call D h closed pick req = (\<lambda>(conn, w).
     case conn of
       None \<Rightarrow> (Inl closed, (None, w))
     | Some c \<Rightarrow>
         (case h True True req c w of
            (c', w', rs, Alive) \<Rightarrow> (reply_of closed pick rs, (Some c', w'))
          | (c', w', rs, _) \<Rightarrow> (reply_of closed pick rs, (None, open_directory_drop D (dc_present c') w'))))"

fun pick_dirents :: "dir_reply \<Rightarrow> (status \<times> bytes) option" where
  "pick_dirents (ReplyDirents st b) = Some (st, b)" | "pick_dirents _ = None"

fun pick_status :: "dir_reply \<Rightarrow> status option" where
  "pick_status (ReplyStatus s) = Some s" | "pick_status _ = None"

fun pick_result :: "dir_reply \<Rightarrow> (status + unit) option" where
  "pick_result (ReplyStatus s) = Some (if s = OK then Inr () else Inl s)" | "pick_result _ = None"

fun pick_token :: "dir_reply \<Rightarrow> (status \<times> handle option) option" where
  "pick_token (ReplyToken s t) = Some (s, t)" | "pick_token _ = None"

definition conn_proxy ::
    "'w dir_vt \<Rightarrow> (bool \<Rightarrow> bool \<Rightarrow> dir_request \<Rightarrow> dir_conn \<Rightarrow> 'w \<Rightarrow> 'w handled) \<Rightarrow> 'e \<Rightarrow> (dir_conn option \<times> 'w, 'e, bool) dir_proxy" where
  "conn_proxy D h closed =
     \<lparr> dp_read_dirents = (\<lambda>n. dir_call D h closed pick_dirents (ReqReadDirents n)),
       dp_rewind = dir_call D h closed pick_status ReqRewind,
       dp_watch = (\<lambda>msk options convertible. dir_call D h closed pick_status (ReqWatch msk options convertible)),
       dp_unlink = (\<lambda>name options. dir_call D h closed pick_result (ReqUnlink name options)),
       dp_get_token = dir_call D h closed pick_token ReqGetToken,
       dp_rename = (\<lambda>src token dst. dir_call D h closed pick_result (ReqRename src token dst)),
       dp_link = (\<lambda>src token dst. dir_call D h closed pick_status (ReqLink src token dst)),
       dp_close = dir_call D h closed pick_result ReqClose \<rparr>"

section \<open>What the listing assertion accepts\<close>

definition same_inode_record :: "fio \<Rightarrow> 64 word \<Rightarrow> dirent_type \<times> bytes \<Rightarrow> bytes" where
  "same_inode_record K inode en =
     le64 inode @ [word_of_nat (length (snd en))] @ [dirent_type_primitive K (fst en)] @ snd en"

lemma builder_add_all:
  "dirents_builder_add_all K es b =
     (if \<forall>en \<in> set es. length (snd en) \<le> MAX_FILENAME K \<and> length (snd en) \<le> 255
      then Inr (b\<lparr> db_expected := db_expected b @ concat (map (same_inode_record K (db_inode b)) es) \<rparr>)
      else Inl Panic)"
proof (induction es arbitrary: b)
  case (Cons en es)
  then show ?case
    by (cases en; cases "length (snd en) \<le> MAX_FILENAME K \<and> length (snd en) \<le> 255")
      (simp_all add: dirents_builder_add_def same_inode_record_def)
qed simp

lemma dirent_record_same: "ei_inode e = inode \<Longrightarrow> dirent_record K (e, n) = same_inode_record K inode (ei_type e, str_bytes n)"
  by (simp add: dirent_record_def same_inode_record_def)

text \<open>Records can be told apart: a list of entries is determined by their bytes.\<close>

lemma same_inode_record_split:
  assumes "same_inode_record K u x @ r = same_inode_record K u y @ r'" and "inj (dirent_type_primitive K)"
    and "length (snd x) \<le> 255" "length (snd y) \<le> 255"
  shows "x = y \<and> r = r'"
proof -
  have eq: "(word_of_nat (length (snd x)) :: 8 word) = word_of_nat (length (snd y))"
    "dirent_type_primitive K (fst x) = dirent_type_primitive K (fst y)" "snd x @ r = snd y @ r'"
    using assms(1) by (simp_all add: same_inode_record_def)
  have "length (snd x) = length (snd y)"
    using arg_cong [OF eq(1), of unat] assms(3,4) by (simp add: unat_of_nat take_bit_nat_eq_self)
  with eq assms(2) show ?thesis by (auto simp: prod_eq_iff dest: injD)
qed

lemma same_inode_records_inject:
  assumes "concat (map (same_inode_record K u) xs) = concat (map (same_inode_record K u) ys)"
    and "inj (dirent_type_primitive K)" and "\<forall>x \<in> set xs. length (snd x) \<le> 255" and "\<forall>y \<in> set ys. length (snd y) \<le> 255"
  shows "xs = ys"
  using assms
proof (induction xs arbitrary: ys)
  case Nil
  then show ?case by (cases ys) (auto simp: same_inode_record_def)
next
  case (Cons x xs)
  then obtain y ys' where ys: "ys = y # ys'" by (cases ys) (auto simp: same_inode_record_def)
  have "x = y \<and> concat (map (same_inode_record K u) xs) = concat (map (same_inode_record K u) ys')"
    by (rule same_inode_record_split [of K u]) (use Cons.prems ys in auto)
  with Cons ys show ?case by auto
qed

text \<open>A directory whose listing fits into one reply is listed completely.\<close>

lemma loop_fits:
  assumes "sink_holds K m s h" and "\<forall>(n, e) \<in> set es. dirent_listable K n"
    and "length (s_buf s) + sum_list (map (\<lambda>(n, e). 10 + length n) es) \<le> unat m"
  shows "\<exists>x. simple_read_loop info (read_dirents_vt K) es s = Inr (PosEnd, x) \<and>
    sink_sealed K m x (h @ map (\<lambda>(n, e). (info e, n)) es)"
  using assms
proof (induction es arbitrary: s h)
  case Nil
  then show ?case using rdsink.seal_holds by auto
next
  case (Cons ne es)
  obtain n e where ne: "ne = (n, e)" by (cases ne)
  have "\<not> length (s_buf s) + 10 + length n > unat m" using Cons.prems(3) ne by simp
  moreover have "dirent_listable K n" using Cons.prems(2) ne by auto
  ultimately obtain s' where s': "sink_append K s (info e) n = Inr (AppendOk s')" "sink_holds K m s' (h @ [(info e, n)])"
    using sink_append_holds [OF Cons.prems(1), of n "info e"] by auto
  have "length (s_buf s') = length (s_buf s) + (10 + length n)"
    using Cons.prems(1) s'(2) by (simp add: sink_holds_def)
  with Cons.prems(2,3) ne Cons.IH [OF s'(2)] s'(1) show ?case by (auto simp: read_dirents_vt_def)
qed

lemma listing_fits:
  assumes "fio_lengths K" and "\<forall>n \<in> fst ` set (sd_entries d). length n \<le> MAX_FILENAME K" and "1 \<le> MAX_FILENAME K"
    and "11 + sum_list (map (\<lambda>(n, e). 10 + length n) (sd_entries d)) \<le> unat m"
  shows "\<exists>x. simple_read_dirents info (read_dirents_vt K) d PosStart (sink_new m) = Inr (PosEnd, x) \<and>
    sink_sealed K m x ((EntryInfo (sd_inode d) DtDirectory, ''.'') # map (\<lambda>(n, e). (info e, n)) (sd_entries d))"
proof -
  have new: "sink_holds K m (sink_new m) []" by (simp add: sink_holds_def sink_new_def)
  have "dirent_listable K ''.''" using assms by (simp add: dirent_listable_def)
  moreover have "\<not> length (s_buf (sink_new m)) + 10 + length ''.'' > unat m" using assms(4) by (simp add: sink_new_def)
  ultimately obtain s' where
    s': "sink_append K (sink_new m) (EntryInfo (sd_inode d) DtDirectory) ''.'' = Inr (AppendOk s')"
      "sink_holds K m s' [(EntryInfo (sd_inode d) DtDirectory, ''.'')]"
    using sink_append_holds [OF new, of "''.''" "EntryInfo (sd_inode d) DtDirectory"] by auto
  have "length (s_buf s') = 11" using s'(2) by (simp add: sink_holds_def)
  with loop_fits [OF s'(2), of "sd_entries d" info] assms s'(1) show ?thesis
    by (fastforce simp: simple_read_dirents_def read_dirents_vt_def dirent_listable_def)
qed

text \<open>The listing of a directory in which no entry reports an inode.\<close>

definition listing_of :: "('e \<Rightarrow> EntryInfo) \<Rightarrow> 'e simple_dir \<Rightarrow> (dirent_type \<times> bytes) list" where
  "listing_of info d =
     (DtDirectory, str_bytes ''.'') # map (\<lambda>(n, e). (ei_type (info e), str_bytes n)) (sd_entries d)"

definition listing_size :: "'e simple_dir \<Rightarrow> nat" where
  "listing_size d = 11 + sum_list (map (\<lambda>(n, e). 10 + length n) (sd_entries d))"

lemma read_dirents_call:
  assumes "fio_lengths (e_fio E)" and "1 \<le> MAX_FILENAME (e_fio E)" and "dirs w self = Some d"
    and "\<forall>n \<in> fst ` set (sd_entries d). length n \<le> MAX_FILENAME (e_fio E)"
    and "sd_inode d = INO_UNKNOWN (e_fio E)" and "\<forall>e \<in> snd ` set (sd_entries d). ei_inode (e_info E e) = INO_UNKNOWN (e_fio E)"
    and "dc_present c" "NODE_REFERENCE \<notin> dc_flags c" "dc_seek c = PosStart" and "listing_size d \<le> unat m"
    and "h = immutable_handle_request (e_fio E) (simple_vt E self) \<or> h = mutable_handle_request (e_fio E) (simple_vt E self)"
  shows "dp_read_dirents (conn_proxy (simple_vt E self) h closed) m (Some c, w) =
    (Inr (OK, concat (map (same_inode_record (e_fio E) (INO_UNKNOWN (e_fio E))) (listing_of (e_info E) d))),
     (Some (c\<lparr> dc_seek := PosEnd \<rparr>), w))"
proof -
  let ?K = "e_fio E"
  obtain x where x: "simple_read_dirents (e_info E) (read_dirents_vt ?K) d PosStart (sink_new m) = Inr (PosEnd, x)"
    "sink_sealed ?K m x ((EntryInfo (sd_inode d) DtDirectory, ''.'') # map (\<lambda>(n, e). (e_info E e, n)) (sd_entries d))"
    using listing_fits [of ?K d m "e_info E"] assms by (auto simp: listing_size_def)
  have "map (dirent_record ?K) (map (\<lambda>(n, e). (e_info E e, n)) (sd_entries d)) =
      map (same_inode_record ?K (INO_UNKNOWN ?K)) (map (\<lambda>(n, e). (ei_type (e_info E e), str_bytes n)) (sd_entries d))"
    using assms(6) by (auto simp: dirent_record_same intro!: map_cong)
  then have "d_status x = OK" "d_buf x = concat (map (same_inode_record ?K (INO_UNKNOWN ?K)) (listing_of (e_info E) d))"
    using x(2) assms(5) by (simp_all add: sink_sealed_def listing_of_def dirent_record_same del: map_map)
  with x(1) assms(3,7,8,9,11) show ?thesis
    by (auto simp: immutable_handle_request_def conn_proxy_def dir_call_def mutable_handle_request_def handle_read_dirents_def simple_vt_def
        at_dir_def respond_def reply_of_def)
qed

text \<open>C40. The listing assertion of the test library is exact. On a fresh connection, mutable or
  immutable, to a simple directory without inodes whose listing fits into the requested number of bytes, the assertion passes if and only if the
  expected entries are the directory itself and then every entry of it, in order, with its type and name;
  the server's encoding and the independent encoding of the test library agree byte by byte, and no two
  lists of entries have the same bytes. After a passing assertion the connection is at the end of the
  listing. The FIDL numbers of the entry types differ and a name has room for one byte.\<close>

theorem listing_assertion_exact:
  assumes "fio_lengths (e_fio E)" and "1 \<le> MAX_FILENAME (e_fio E)" and "inj (dirent_type_primitive (e_fio E))"
    and "dirs w self = Some d" and "\<forall>n \<in> fst ` set (sd_entries d). length n \<le> MAX_FILENAME (e_fio E)"
    and "sd_inode d = INO_UNKNOWN (e_fio E)" and "\<forall>e \<in> snd ` set (sd_entries d). ei_inode (e_info E e) = INO_UNKNOWN (e_fio E)"
    and "dc_present c" "NODE_REFERENCE \<notin> dc_flags c" "dc_seek c = PosStart" and "listing_size d \<le> unat m"
    and "h = immutable_handle_request (e_fio E) (simple_vt E self) \<or> h = mutable_handle_request (e_fio E) (simple_vt E self)"
    and "assert_read_dirents_one_listing (e_fio E)
      (conn_proxy (simple_vt E self) h closed) m entries (Some c, w) = (r, s)"
  shows "(r = Inr () \<longleftrightarrow> entries = listing_of (e_info E) d) \<and>
    (r = Inr () \<longrightarrow> s = (Some (c\<lparr> dc_seek := PosEnd \<rparr>), w))"
proof -
  let ?K = "e_fio E"
  let ?short = "\<lambda>es. \<forall>en \<in> set es. length (snd en) \<le> MAX_FILENAME ?K \<and> length (snd en) \<le> 255"
  let ?bytes = "\<lambda>es. concat (map (same_inode_record ?K (INO_UNKNOWN ?K)) es)"
  have short: "?short (listing_of (e_info E) d)"
    using assms(1,2,5) by (force simp: listing_of_def fio_lengths_def)
  note call = read_dirents_call [OF assms(1,2,4-12), of closed]
  show ?thesis
  proof (cases "?short entries")
    case True
    then have "?bytes (listing_of (e_info E) d) = ?bytes entries \<longleftrightarrow> entries = listing_of (e_info E) d"
      using same_inode_records_inject [OF _ assms(3), of "INO_UNKNOWN ?K" "listing_of (e_info E) d" entries] short by auto
    with True assms(13) call show ?thesis
      by (auto simp: assert_read_dirents_one_listing_def builder_add_all dirents_builder_new_def
          dirents_builder_into_vec_def assert_read_dirents_def check_defs split: if_splits)
  next
    case False
    with assms(13) short show ?thesis
      by (auto simp: assert_read_dirents_one_listing_def builder_add_all dirents_builder_new_def check_defs)
  qed
qed

lemma fio_values_dirent_types: "inj (dirent_type_primitive fio_values)"
  by (rule injI) (auto simp: fio_values_def split: dirent_type.splits)

definition listing_env :: "nat env" where
  "listing_env = example_env\<lparr> e_info := \<lambda>_. EntryInfo (INO_UNKNOWN fio_values) DtFile \<rparr>"

theorem listing_assertion_exact_witness:
  "fst (assert_read_dirents_one_listing fio_values
      (conn_proxy (simple_vt listing_env 5) (mutable_handle_request fio_values (simple_vt listing_env 5)) ()) 1000
      [(DtDirectory, str_bytes ''.''), (DtFile, str_bytes ''x'')] (Some (base_connection_new {RIGHT_READABLE}), example_state)) = Inr () \<and>
   fst (assert_read_dirents_one_listing fio_values
      (conn_proxy (simple_vt listing_env 5) (mutable_handle_request fio_values (simple_vt listing_env 5)) ()) 1000
      [(DtFile, str_bytes ''x'')] (Some (base_connection_new {RIGHT_READABLE}), example_state)) \<noteq> Inr ()"
proof -
  let ?P = "conn_proxy (simple_vt listing_env 5) (mutable_handle_request fio_values (simple_vt listing_env 5)) ()"
  let ?d = "(mutable_simple fio_values)\<lparr>sd_entries := [(''x'', 7 :: nat)]\<rparr>"
  have K: "e_fio listing_env = fio_values" by (simp add: listing_env_def example_env_def)
  have d: "dirs example_state 5 = Some ?d" by (simp add: example_state_def)
  have inode: "sd_inode ?d = INO_UNKNOWN fio_values" by (simp add: mutable_simple_def simple_new_def)
  have exact: "fst (assert_read_dirents_one_listing fio_values ?P 1000 es
      (Some (base_connection_new {RIGHT_READABLE}), example_state)) = Inr () \<longleftrightarrow> es = listing_of (e_info listing_env) ?d" for es
    using listing_assertion_exact [of listing_env example_state 5 ?d "base_connection_new {RIGHT_READABLE}" 1000
        "mutable_handle_request fio_values (simple_vt listing_env 5)" "()" es,
        unfolded K, OF _ _ fio_values_dirent_types d _ inode] fio_values_ok
    by (simp add: surj_pair [THEN exE] listing_env_def base_connection_new_def traversal_default_def listing_size_def)
       (metis prod.collapse)
  show ?thesis unfolding exact by (simp add: listing_of_def listing_env_def)
qed

text \<open>
  The expectation of the watcher assertion, for names that are not too long, is what the event producers
  put into one buffer.
\<close>

lemma watch_expected_records:
  assumes "\<forall>n \<in> set ns. length n \<le> 255"
  shows "watch_expected K (map (\<lambda>n. (ev, str_bytes n)) ns) acc = Inr (acc @ concat (map (event_record K ev) ns))"
  using assms by (induction ns arbitrary: acc) (simp_all add: event_record_def)

section \<open>A file test against the VMO file\<close>

text \<open>
  What nearly every test of a file does: write at a position, read it back, close, and find the channel
  closed.
\<close>

definition write_read_close :: "('e \<Rightarrow> bool) \<Rightarrow> ('s, 'e, 'v) file_proxy \<Rightarrow> 64 word \<Rightarrow> bytes \<Rightarrow> ('s, unit) check" where
  "write_read_close is_closed P pos content =
     check_then (assert_seek_start P pos)
    (check_then (assert_write P content)
    (check_then (assert_seek_start P pos)
    (check_then (assert_read P content)
    (check_then (assert_close (fp_close P))
                (assert_read_fidl_err_closed is_closed P)))))"

lemma uint_low: "unat x < 2 ^ 63 \<Longrightarrow> uint x < 2 ^ 63" for x :: "64 word"
  by (simp only: unat_eq_nat_uint nat_less_iff uint_ge_0) simp

lemma sint_low: "unat x < 2 ^ 63 \<Longrightarrow> sint x = uint x" for x :: "64 word"
proof -
  assume "unat x < 2 ^ 63"
  then have "signed_take_bit 63 (uint x) = uint x"
    using uint_low [of x] uint_ge_0 [of x] by (intro signed_take_bit_int_eq_self) (linarith | simp)+
  then show ?thesis by (simp add: sint_uint)
qed

lemma seek_start:
  assumes "unat pos < 2 ^ 63" and "NODE_REFERENCE \<notin> vc_flags c"
  shows "vmo_handle_seek dbg pos SeekStart c (Initialized i) = (Inr pos, c\<lparr> vc_seek := pos \<rparr>)"
proof -
  have low: "uint pos < 2 ^ 63" "0 \<le> uint pos" using uint_low [OF assms(1)] by simp_all
  have "vmo_handle_seek dbg pos SeekStart c (Initialized i) =
      (if uint pos < - (2 ^ 63) \<or> 2 ^ 63 \<le> uint pos then (Inl (Err OUT_OF_RANGE), c)
       else if uint pos < 0 then (Inl (Err OUT_OF_RANGE), c)
       else (Inr (word_of_int (uint pos)), c\<lparr> vc_seek := word_of_int (uint pos) \<rparr>))"
    using assms(2) by (simp add: vmo_handle_seek_def sint_low [OF assms(1)])
  moreover have "\<not> (uint pos < - (2 ^ 63) \<or> 2 ^ 63 \<le> uint pos)" "\<not> uint pos < 0" using low by linarith+
  ultimately show ?thesis by simp
qed

context vmo_kernel
begin

lemma write_fits:
  assumes ok: "vmo_ok contents valid i" and wr: "RIGHT_WRITABLE \<in> vc_flags c"
    and limit: "unat off + length d \<le> max (unat (vs_size i)) (unat (vs_capacity i))"
    and room: "unat off + length d \<le> unat (vs_vmo_size i)"
  shows "\<exists>i' gap. vmo_handle_write_at V dbg off d c (Initialized i) = (Inr (word_of_nat (length d)), Initialized i') \<and>
    vmo_ok contents valid i' \<and> vs_count i' = vs_count i \<and> length gap = unat off - unat (vs_size i) \<and>
    file_bytes contents i' = take (unat off) (file_bytes contents i @ gap) @ d @ drop (unat off + length d) (file_bytes contents i)"
proof -
  let ?en = "off + word_of_nat (length d)"
  have small: "unat off + length d < 2 ^ 63" using limit vmo_ok_limit [OF ok] by linarith
  then have len: "unat (word_of_nat (length d) :: 64 word) = length d" by (simp add: unat_of_nat take_bit_nat_eq_self)
  have en: "unat ?en = unat off + length d" using small len by (simp add: unat_add_u64)
  have "\<exists>i'. vmo_extend V ?en i = (Inr (), i') \<and> valid (vs_vmo i') \<and> length (contents (vs_vmo i')) = length (contents (vs_vmo i))"
  proof (cases "?en > vs_size i")
    case True
    have "\<not> ?en > vs_vmo_size i" using room en by (simp add: word_less_nat_alt)
    moreover obtain v where "vo_set_content_size V ?en (vs_vmo i) = (Inr (), v)" "valid v" "length (contents v) = length (contents (vs_vmo i))"
      using content_size [OF vmo_ok_valid [OF ok], of ?en] by blast
    ultimately show ?thesis using True by (simp add: vmo_extend_def)
  qed (use vmo_ok_valid [OF ok] in \<open>simp add: vmo_extend_def\<close>)
  then obtain i' where i': "vmo_extend V ?en i = (Inr (), i')" "valid (vs_vmo i')" "length (contents (vs_vmo i')) = length (contents (vs_vmo i))"
    by blast
  have "\<exists>v. vo_write V d off (vs_vmo i') = (Inr (), v)"
    using write_ok [OF i'(2), of off d] room vmo_ok_size [OF ok] i'(3) by auto
  moreover have "\<not> max (vs_size i) (vs_capacity i) < off" "\<not> length d > unat (max (vs_size i) (vs_capacity i) - off)"
  proof -
    have m: "unat (max (vs_size i) (vs_capacity i)) = max (unat (vs_size i)) (unat (vs_capacity i))"
      by (simp add: max_def word_le_nat_alt)
    have "unat off \<le> unat (max (vs_size i) (vs_capacity i))" unfolding m using limit by linarith
    then show "\<not> max (vs_size i) (vs_capacity i) < off" by (simp only: word_less_nat_alt not_less)
    then have "off \<le> max (vs_size i) (vs_capacity i)" by (simp only: not_less)
    then show "\<not> length d > unat (max (vs_size i) (vs_capacity i) - off)"
      using limit m unat_sub [of off "max (vs_size i) (vs_capacity i)"] by linarith
  qed
  ultimately have "\<exists>n st. vmo_handle_write_at V dbg off d c (Initialized i) = (Inr n, st)"
    using wr i'(1) small len by (auto simp: vmo_handle_write_at_def checked_sub_u64_def add_u64_ok)
  with ok wr show ?thesis
    using limit by (cases rule: write_cases [of i c off dbg d]) auto
qed


lemma read_back:
  assumes ok: "vmo_ok contents valid i" and rd: "RIGHT_READABLE \<in> vc_flags c"
    and at: "take (length d) (drop (unat (vc_seek c)) (file_bytes contents i)) = d" and "unat (vc_seek c) + length d < 2 ^ 63"
  shows "vmo_handle_read V dbg (word_of_nat (length d)) c (Initialized i) =
    (Inr d, c\<lparr> vc_seek := vc_seek c + word_of_nat (length d) \<rparr>)"
proof -
  have len: "unat (word_of_nat (length d) :: 64 word) = length d" using assms(4) by (simp add: unat_of_nat take_bit_nat_eq_self)
  then have "vmo_handle_read_at V dbg (vc_seek c) (word_of_nat (length d)) c (Initialized i) = Inr d"
    using read_at_slice [OF ok rd] at by simp
  then show ?thesis using assms(4) len by (simp add: vmo_handle_read_def checked_add_u64_def)
qed

lemma script_passes:
  assumes ok: "vmo_ok contents valid i" and flags: "RIGHT_READABLE \<in> vc_flags c" "RIGHT_WRITABLE \<in> vc_flags c" "NODE_REFERENCE \<notin> vc_flags c"
    and count: "0 < unat (vs_count i)"
    and limit: "unat pos + length d \<le> max (unat (vs_size i)) (unat (vs_capacity i))"
    and room: "unat pos + length d \<le> unat (vs_vmo_size i)"
  shows "\<exists>i'. write_read_close (\<lambda>e. e = closed) (vmo_proxy K V dbg f closed) pos d (Some c, Initialized i) =
      (Inr (), (None, Initialized (i'\<lparr> vs_count := vs_count i - 1 \<rparr>))) \<and>
    vmo_ok contents valid i' \<and> take (length d) (drop (unat pos) (file_bytes contents i')) = d"
proof -
  have small: "unat pos + length d < 2 ^ 63" using limit vmo_ok_limit [OF ok] by linarith
  let ?c1 = "c\<lparr> vc_seek := pos \<rparr>"
  let ?c2 = "c\<lparr> vc_seek := pos + word_of_nat (length d) \<rparr>"
  have seek: "vmo_handle_seek dbg pos SeekStart c' (Initialized j) = (Inr pos, c'\<lparr> vc_seek := pos \<rparr>)"
    if "vc_flags c' = vc_flags c" for c' and j :: "'v vmo_init"
    using that flags(3) small by (intro seek_start) simp_all
  have "RIGHT_WRITABLE \<in> vc_flags ?c1" using flags(2) by simp
  from write_fits [OF ok this limit room, of dbg] obtain i' gap where
    w: "vmo_handle_write_at V dbg pos d ?c1 (Initialized i) = (Inr (word_of_nat (length d)), Initialized i')"
    "vmo_ok contents valid i'" "vs_count i' = vs_count i" "length gap = unat pos - unat (vs_size i)"
    "file_bytes contents i' = take (unat pos) (file_bytes contents i @ gap) @ d @ drop (unat pos + length d) (file_bytes contents i)"
    by blast
  have len: "unat (word_of_nat (length d) :: 64 word) = length d" using small by (simp add: unat_of_nat take_bit_nat_eq_self)
  have wrote: "vmo_handle_write V dbg d ?c1 (Initialized i) = (Inr (word_of_nat (length d)), ?c2, Initialized i')"
    using w(1) small len by (simp add: vmo_handle_write_def add_u64_ok)
  have at: "take (length d) (drop (unat pos) (file_bytes contents i')) = d"
    unfolding w(5) using w(4) length_file_bytes [OF ok] by simp
  have read: "vmo_handle_read V dbg (word_of_nat (length d)) ?c1 (Initialized i') = (Inr d, ?c2)"
    using read_back [OF w(2), of ?c1 d] flags(1) at small by simp
  have "write_read_close (\<lambda>e. e = closed) (vmo_proxy K V dbg f closed) pos d (Some c, Initialized i) =
      (Inr (), (None, Initialized (i'\<lparr> vs_count := vs_count i - 1 \<rparr>)))"
    using seek wrote read close_bound(1) [OF w(2)] count w(3)
    by (simp add: write_read_close_def assert_seek_start_def assert_seek_def assert_write_def assert_read_def assert_close_def
        assert_read_fidl_err_closed_def expect_fidl_err_def expect_value_def expect_result_def check_defs vmo_proxy_def
        vmo_call_def fsend_result_def fsend_def reply_of_def)
  with w(2) at show ?thesis by blast
qed

end

text \<open>C39. A file test of the library passes against a VMO file: on a readable and writable connection, the
  assertions that seek to a position, write content that fits into the capacity and the VMO there, seek
  back, read the same bytes, close, and find the channel closed all pass, through the request handlers of
  the connection; the file then holds the content at the position, keeps its invariant, and is counted
  to have one connection less.\<close>

theorem file_test_passes:
  assumes "vmo_kernel V contents valid" and "vmo_ok contents valid i"
    and "RIGHT_READABLE \<in> vc_flags c" "RIGHT_WRITABLE \<in> vc_flags c" "NODE_REFERENCE \<notin> vc_flags c"
    and "0 < unat (vs_count i)"
    and "unat pos + length content \<le> max (unat (vs_size i)) (unat (vs_capacity i))"
    and "unat pos + length content \<le> unat (vs_vmo_size i)"
  shows "\<exists>i'. write_read_close (\<lambda>e. e = closed) (vmo_proxy K V dbg f closed) pos content (Some c, Initialized i) =
      (Inr (), (None, Initialized (i'\<lparr> vs_count := vs_count i - 1 \<rparr>))) \<and>
    vmo_ok contents valid i' \<and> take (length content) (drop (unat pos) (file_bytes contents i')) = content"
  by (rule vmo_kernel.script_passes [OF assms])

theorem file_test_passes_witness:
  "\<exists>i'. write_read_close (\<lambda>e. e = ()) (vmo_proxy fio_values page_ops True example_file ()) 1 [7, 8, 9]
      (Some \<lparr> vc_flags = {RIGHT_READABLE, RIGHT_WRITABLE}, vc_seek = 0 \<rparr>, Initialized example_init) =
      (Inr (), (None, Initialized (i'\<lparr> vs_count := vs_count example_init - 1 \<rparr>))) \<and>
    vmo_ok pv_bytes page_valid i' \<and> take (length [7, 8, 9 :: 8 word]) (drop (unat (1 :: 64 word)) (file_bytes pv_bytes i')) = [7, 8, 9]"
  by (rule file_test_passes [OF pages.vmo_kernel_axioms example_init_ok]) (simp_all add: example_init_def)

end
