(* ===== verification/Spec2Isabelle.thy ===== *)
theory Spec2Isabelle
  imports Execution_Scope Service_Node Lazy_Dir Simple_Conn Vmo_Read_Only Tree_Builder Devices Block_Cache
    Block_Session Served_Watch Fs_Management Ramdisk Open_Walk Pseudo_Directory Fs_Inspect
    Flag_Combinations Test_Run Client_Assertions
begin

text \<open>
  A verification of the Rust libraries under \<open>src/src/lib/storage\<close>: the virtual filesystem
  (\<open>vfs/rust\<close>), the watcher client (\<open>fuchsia-vfs-watcher\<close>) and its streams (\<open>fuchsia-watch\<close>), the block client with its cache
  (\<open>block_client/rust\<close>), the block devices (\<open>storage_device\<close>), the management of filesystems
  (\<open>fs_management/rust\<close>) and the client of ramdisks (\<open>ramdevice_client/rust\<close>).

  \<^bold>\<open>The program.\<close> The virtual filesystem serves trees of nodes to clients that speak fuchsia.io. A path
  of an open request is split into components; directories (simple, lazy), files (in memory objects),
  services and remote nodes are the nodes; each open starts a connection, a task of an execution scope
  that handles requests until the client closes it. Rights are flags that a connection was opened
  with; they are checked on open and clone and again by each request. Connections hold tokens in a
  registry so that a client can rename between two directories. Directories keep watchers and send
  them events in buffers, which the watcher client decodes and the recursive watcher turns into events of a
  whole tree. A tree of nodes is built from paths by
  \<open>TreeBuilder\<close> or written down with \<open>pseudo_directory!\<close>. On the other side, a block client sends requests over a fifo to a block server and
  matches the responses; a cache turns aligned block transfers into byte-wise reads and writes; a
  device hands out transfer buffers from a buddy allocator and moves them to and from a block client,
  a host file or memory. Filesystem management launches the processes that format, check and serve a device
  and binds what they serve into the namespace.

  \<^bold>\<open>Conventions.\<close> A Rust \<open>Result\<close> is a sum, a failed assertion or \<open>unwrap\<close> is the value \<open>Panic\<close> (\<open>IoPanic\<close> in
  the block part), so every early return and every panic of the sources is a branch. Flags of the
  \<open>bitflags\<close> crate are sets. The constants of fuchsia.io are generated from FIDL and not part of the
  repository: they are the fields of the parameter \<open>K\<close>, with hypotheses such as \<open>fio_rights\<close> that state
  what the code relies on and hold for the documented values \<open>fio_values\<close>. \<open>dbg\<close> says whether debug
  assertions and overflow checks are compiled in. \<open>u64\<close> and \<open>u32\<close> values that may wrap around are words;
  \<open>usize\<close> values bounded by the size of a buffer are natural numbers. Trait objects are records of
  their methods (\<open>sink_vt\<close>, \<open>producer_vt\<close>, \<open>dir_vt\<close>, \<open>file_vt\<close>, \<open>device_ops\<close>), and what the clients of a trait rely on is
  a locale (\<open>dirent_sink\<close>, \<open>event_producer\<close>, \<open>closable_directory\<close>, \<open>vmo_kernel\<close>, \<open>leaf_inserter\<close>,
  \<open>block_client\<close>, \<open>device\<close>), interpreted on the implementations the repository has. Tasks and threads are
  interleaved steps of explicit relations (\<open>client_step\<close> of the block client, \<open>scope_step\<close> of the execution
  scope, \<open>rw_act\<close> of the recursive watch, \<open>allocator_step\<close>, \<open>derived\<close> connections), and invariants are proved by rule induction.

  \<^bold>\<open>Theories and sources.\<close>
  \<^item> \<open>Vfs_Prelude\<close>: results, statuses, strings and 64-bit arithmetic. \<open>Sorted_Map\<close>: \<open>BTreeMap\<close> and slabs.
    \<open>Fio\<close>: the constants and flags of fuchsia.io.
  \<^item> \<open>Vfs_Path\<close> (\<open>path.rs\<close>): which strings are paths, and that iterating yields their components.
  \<^item> \<open>Vfs_Flags\<close> (\<open>common.rs\<close>, the \<open>common.rs\<close> of directories, files and services, \<open>entry_constructor.rs\<close>): the
    flag checks; an open or clone never gains rights.
  \<^item> \<open>Watchers\<close> (\<open>directory/watchers\<close>, \<open>fuchsia-vfs-watcher\<close>): event producers, controllers, the slab of
    watchers, and the client; what is announced is what the client reads. \<open>Recursive_Watch\<close> (\<open>fuchsia-watch\<close>):
    the tasks of a recursive watch as interleaved steps; they report every node of a tree once. \<open>Served_Watch\<close>:
    the same end to end, over simple directories and their watchers.
  \<^item> \<open>Dirents\<close> (\<open>dirents_sink.rs\<close>, \<open>read_dirents.rs\<close>, \<open>traversal_position.rs\<close>): listings over many calls are
    complete.
  \<^item> \<open>Simple_Dir\<close> (\<open>directory/simple.rs\<close>, \<open>filesystem/simple.rs\<close>): entries, listings, watchers, and renames
    under the address order of locks; the directory refines a map.
  \<^item> \<open>Registries\<close> (\<open>registry/*.rs\<close>): inode numbers and tokens.
  \<^item> \<open>Dir_Connection\<close>, \<open>Simple_Conn\<close> (\<open>directory/connection\<close>, \<open>immutable/\<close> and \<open>mutable/connection\<close>): all requests of a
    directory connection, over any directory and over the simple directory.
  \<^item> \<open>File_Connection\<close>, \<open>Vmo_File\<close>, \<open>Vmo_Read_Only\<close> (\<open>file/connection\<close>, \<open>file/vmo\<close>, \<open>file/vmo.rs\<close>): all requests of a
    file connection, and files kept in a memory object, with their bounds.
  \<^item> \<open>Service_Node\<close> (\<open>service.rs\<close>, \<open>service/connection\<close>, \<open>remote.rs\<close>); \<open>Lazy_Dir\<close> (\<open>immutable/lazy\<close>);
    \<open>Tree_Builder\<close> (\<open>tree_builder.rs\<close>); \<open>Execution_Scope\<close> (\<open>execution_scope.rs\<close>).
  \<^item> \<open>Open_Walk\<close> (\<open>DirectoryEntry::open\<close> of all nodes): the way of an open request through a tree, from the string of the
    request to the connection; it is a lookup of the components, it creates at most the last one, and it keeps
    the tree well formed.
  \<^item> \<open>Pseudo_Directory\<close> (\<open>macros/src/lib.rs\<close>, \<open>pseudo_directory.rs\<close>): the macros that write a tree down in the program,
    from tokens to the directories they make when the generated block runs. \<open>Fs_Inspect\<close> (\<open>fs_inspect\<close>): the data a filesystem exposes for
    inspection.
  \<^item> \<open>Flag_Combinations\<close> (\<open>test_utils.rs\<close>), \<open>Test_Run\<close> (\<open>test_utils/run.rs\<close>), \<open>Client_Assertions\<close> (\<open>test_utils/assertions.rs\<close>, \<open>test_utils/node.rs\<close>,
    the \<open>test_utils.rs\<close> of directories and VMO files): what the library offers for tests. The flag words are all
    combinations, a test passes exactly if its client completes, and the assertions, run against the modelled
    connections, accept what the servers send: a listing if and only if it is the expected one.
  \<^item> \<open>Block_Client\<close> (the fifo state machine of \<open>block_client/rust/src/lib.rs\<close>), \<open>Block_Transfer\<close> (transfers, the
    remote and the fake client, the contract \<open>block_client\<close>), \<open>Block_Session\<close> (setting up and closing the remote
    clients), \<open>Block_Cache\<close> (\<open>cache.rs\<close>).
  \<^item> \<open>Buddy\<close> (\<open>buffer.rs\<close>, \<open>buffer_allocator.rs\<close>), \<open>Devices\<close> (\<open>lib.rs\<close>, \<open>fake_device.rs\<close>, \<open>file_backed_device.rs\<close>,
    \<open>block_device.rs\<close>).
  \<^item> \<open>Fs_Management\<close> (\<open>fs_management/rust\<close>): mounting, formatting, checking and serving, over an environment that
    answers each call to the kernel, the namespace and the filesystems, with weakest preconditions that
    range over all answers; one process uses the device at a time, and a served filesystem ends with
    its owner. \<open>Ramdisk\<close> (\<open>ramdevice_client/rust\<close>): builders and ownership, over the C library as environment.

  \<^bold>\<open>What the lemmas show.\<close> Safety of rights (a connection, whatever is cloned or opened from it, and a
  memory handle from a file never has more rights than it was opened with; a connection without
  the right to write changes nothing); refinement (the simple directory is a map, the vmo file and
  the cache are byte arrays, the three devices are byte arrays); round trips (listings and events are
  decoded to what was encoded, tokens, transfers, allocation); absence of panics in the reachable states
  of the block client, the allocator and the scope; progress (responses wake their
  requests, a shutdown ends the scope, a registration of a watcher ends). Lemmas under
  "divergence" prove behaviour that a comment or a caller contradicts.

  \<^bold>\<open>Bounds and fuel.\<close> Loops that end for a structural reason are total functions. Fuel is used where a
  trait object decides how long a loop runs (\<open>controller_send_loop\<close>, \<open>watchers_send_event\<close>, \<open>watcher_drain\<close>,
  \<open>read_all\<close>, \<open>lazy_existing_loop\<close>) and in \<open>initial_loop\<close>; running out of it is a panic, so the theorems
  that such a loop returns show that the fuel given by the caller is enough: one more than the number of
  buffers, entries or blocks.

  \<^bold>\<open>Parameters.\<close> Besides the constants of fuchsia.io, what the code calls outside the repository is an argument with
  named hypotheses: the kernel's memory objects, the block server, the C library of ramdisks, the environment of filesystem
  management, the parsing primitives of \<open>syn\<close> (\<open>syn_laws\<close>), the generated proxies and the executor behind a test, and the callbacks of lazy directories, services and
  remote nodes. Every hypothesis is shown to hold of a concrete instance, which the witnesses use.

  \<^bold>\<open>Not modelled.\<close> Of the helpers of tests, \<open>assert_close_err\<close>, which does not type check, \<open>report_invalid_vmo_content\<close>, which
  always panics, and the wrappers that only fix the protocol of \<open>run_server_client\<close>. Within the other files: formatting and
  tracing, pinning, the unsafe slices behind buffers and the spans of tokens in macro errors. The test modules of the sources
  are not part of the model. The async runtime is present as the order of steps only, so no statement
  is about fairness between the connections of a scope.
\<close>

section \<open>A cached remote device\<close>



end
